(* ===== verification/TSDB_Prelude.thy ===== *)
theory TSDB_Prelude
  imports Main "HOL-Library.Word" "HOL-Library.AList" "HOL-Library.Sublist"
begin

unbundle bit_operations_syntax

text \<open>
  Shared vocabulary of the MiniTSDB development: the machine types of
  \<^verbatim>\<open>src/src/common/types.h\<close>, the little-endian byte images that \<^verbatim>\<open>memcpy\<close> and
  \<^verbatim>\<open>File::Write(&x, sizeof x)\<close> produce, bit lists, and the list and map facts that the
  component theories use. Collections: \<open>bit_facts\<close> for bits of words and bit lists,
  \<open>byte_facts\<close> for byte images.
\<close>

named_theorems bit_facts \<open>bits of words and bit lists\<close>
named_theorems byte_facts \<open>byte images of words and strings\<close>

section \<open>Machine types\<close>

type_synonym byte = "8 word"
type_synonym u16 = "16 word"
type_synonym u32 = "32 word"
type_synonym u64 = "64 word"

text \<open>
  \<^verbatim>\<open>Timestamp\<close> is \<^verbatim>\<open>int64_t\<close>: a 64-bit word read through \<^const>\<open>sint\<close>. A
  \<^verbatim>\<open>double\<close> is represented by its IEEE-754 bit pattern, which is what every
  storage component copies around.
\<close>

type_synonym timestamp = "64 word"
type_synonym f64 = "64 word"

datatype val = VDouble f64 | VInt "64 word" | VString string

record data_point =
  dp_ts :: timestamp
  dp_value :: val

record time_range =
  tr_start :: timestamp
  tr_end :: timestamp

definition contains :: "time_range \<Rightarrow> timestamp \<Rightarrow> bool" where
  "contains r t \<longleftrightarrow> sint (tr_start r) \<le> sint t \<and> sint t \<le> sint (tr_end r)"

definition overlaps :: "time_range \<Rightarrow> time_range \<Rightarrow> bool" where
  "overlaps r q \<longleftrightarrow> sint (tr_start r) \<le> sint (tr_end q) \<and> sint (tr_start q) \<le> sint (tr_end r)"

record data_batch =
  db_tag_name :: string
  db_points :: "data_point list"

text \<open>\<^verbatim>\<open>INT64_MAX\<close> and the two values a default-constructed object holds.\<close>

definition int64_max :: "64 word" where
  "int64_max = 0x7FFFFFFFFFFFFFFF"

definition default_point :: data_point where
  "default_point = \<lparr>dp_ts = 0, dp_value = VDouble 0\<rparr>"

lemma contains_overlaps:
  "contains r t \<Longrightarrow> contains q t \<Longrightarrow> overlaps r q"
  by (auto simp: contains_def overlaps_def)

section \<open>Bits of words\<close>

definition word_bits :: "nat \<Rightarrow> 'a::len word \<Rightarrow> bool list" where
  "word_bits n w = map (bit w) [0..<n]"

definition bits_word :: "bool list \<Rightarrow> 'a::len word" where
  "bits_word bs = horner_sum of_bool 2 bs"

lemma length_word_bits [simp]: "length (word_bits n w) = n"
  by (simp add: word_bits_def)

lemma bits_word_word_bits [bit_facts]: "bits_word (word_bits n w) = take_bit n w"
  by (simp add: bits_word_def word_bits_def horner_sum_bit_eq_take_bit)

lemma bit_bits_word [bit_facts]:
  "bit (bits_word bs :: 'a::len word) n \<longleftrightarrow> n < LENGTH('a) \<and> n < length bs \<and> bs ! n"
  by (auto simp: bits_word_def bit_horner_sum_bit_word_iff)

lemma word_bits_Suc: "word_bits (Suc n) w = word_bits n w @ [bit w n]"
  by (simp add: word_bits_def)

lemma take_bit_id_word: "LENGTH('a) \<le> n \<Longrightarrow> take_bit n (w :: 'a::len word) = w"
  by (rule bit_word_eqI) (auto simp: bit_take_bit_iff dest: bit_imp_le_length)

definition byte_bits :: "byte list \<Rightarrow> bool list" where
  "byte_bits bs = concat (map (word_bits 8) bs)"

lemma byte_bits_Nil [simp]: "byte_bits [] = []"
  by (simp add: byte_bits_def)

lemma byte_bits_Cons: "byte_bits (b # bs) = word_bits 8 b @ byte_bits bs"
  by (simp add: byte_bits_def)

lemma byte_bits_append: "byte_bits (xs @ ys) = byte_bits xs @ byte_bits ys"
  by (simp add: byte_bits_def)

lemma length_byte_bits [simp]: "length (byte_bits bs) = 8 * length bs"
  by (induction bs) (simp_all add: byte_bits_Cons)

lemma nth_byte_bits:
  "i < length bs \<Longrightarrow> j < 8 \<Longrightarrow> byte_bits bs ! (8 * i + j) = bit (bs ! i) j"
proof (induction bs arbitrary: i)
  case Nil
  then show ?case by simp
next
  case (Cons b bs)
  show ?case
  proof (cases i)
    case 0
    with Cons.prems show ?thesis by (simp add: byte_bits_Cons nth_append word_bits_def)
  next
    case (Suc k)
    with Cons show ?thesis by (simp add: byte_bits_Cons nth_append)
  qed
qed

text \<open>
  A signed value shifted into a window of \<open>n\<close> bits survives truncation to that window, and a value
  in the range of \<^verbatim>\<open>int32_t\<close> survives truncation to 32 bits and sign extension.
\<close>

lemma take_bit_window:
  fixes w :: "64 word"
  assumes "0 \<le> sint w + c" "sint w + c < 2 ^ n" "n < 64"
  shows "take_bit n (w + word_of_int c) = w + word_of_int c"
proof -
  define k where "k = nat (sint w + c)"
  have "w + word_of_int c = word_of_int (sint w + c)"
    by simp
  also have "\<dots> = word_of_nat k"
    using assms(1) by (simp add: k_def)
  finally have eq: "w + word_of_int c = word_of_nat k" .
  have "k < 2 ^ n" using assms by (simp add: k_def nat_less_iff)
  then have "take_bit n k = k" by (simp add: take_bit_nat_eq_self)
  then have "bit k i \<Longrightarrow> i < n" for i by (metis bit_take_bit_iff)
  then show ?thesis unfolding eq by (intro bit_word_eqI) (auto simp: bit_simps)
qed

lemma sign_extend_32:
  fixes w :: "64 word"
  assumes "- (2 ^ 31) \<le> sint w" "sint w < 2 ^ 31"
  shows "scast (ucast (take_bit 32 w AND 0xFFFFFFFF) :: 32 word) = w"
proof -
  have m: "(0xFFFFFFFF :: 64 word) = mask 32" by (simp add: mask_eq_exp_minus_1)
  have "take_bit 32 w AND 0xFFFFFFFF = take_bit 32 w"
    by (simp only: m take_bit_eq_mask [symmetric] take_bit_take_bit) simp
  then have "ucast (take_bit 32 w AND 0xFFFFFFFF) = (ucast w :: 32 word)"
    by (simp only:) (intro bit_word_eqI, auto simp: bit_simps)
  also have "\<dots> = word_of_int (sint w)"
    by (rule bit_word_eqI) (auto simp: bit_simps simp del: of_int_sint)
  finally have eq: "ucast (take_bit 32 w AND 0xFFFFFFFF) = (word_of_int (sint w) :: 32 word)" .
  have "sint (word_of_int (sint w) :: 32 word) = signed_take_bit (LENGTH(32) - 1) (sint w)"
    by (rule sint_sbintrunc')
  also have "\<dots> = sint w"
    by (rule signed_take_bit_int_eq_self) (use assms in simp_all)
  finally have "(scast (word_of_int (sint w) :: 32 word) :: 64 word) = word_of_int (sint w)"
    by (simp only: scast_eq)
  then show ?thesis unfolding eq by simp
qed

section \<open>Little-endian byte images\<close>

fun le_bytes :: "nat \<Rightarrow> 'a::len word \<Rightarrow> byte list" where
  "le_bytes 0 w = []"
| "le_bytes (Suc n) w = ucast w # le_bytes n (drop_bit 8 w)"

fun le_word :: "byte list \<Rightarrow> 'a::len word" where
  "le_word [] = 0"
| "le_word (b # bs) = ucast b OR push_bit 8 (le_word bs)"

lemma length_le_bytes [simp]: "length (le_bytes n w) = n"
  by (induction n arbitrary: w) auto

lemma le_word_le_bytes: "le_word (le_bytes n w) = take_bit (8 * n) (w :: 'a::len word)"
proof (induction n arbitrary: w)
  case 0
  then show ?case by simp
next
  case (Suc n)
  show ?case
    by (rule bit_word_eqI)
       (auto simp: Suc.IH bit_simps dest: bit_imp_le_length)
qed

lemma le_word_le_bytes_id [byte_facts]:
  "LENGTH('a) \<le> 8 * n \<Longrightarrow> le_word (le_bytes n w) = (w :: 'a::len word)"
  by (simp add: le_word_le_bytes take_bit_id_word)

text \<open>Strings are byte sequences; a character and its byte determine each other.\<close>

definition string_bytes :: "string \<Rightarrow> byte list" where
  "string_bytes s = map of_char s"

definition bytes_string :: "byte list \<Rightarrow> string" where
  "bytes_string bs = map (\<lambda>b. char_of (unat b)) bs"

lemma length_string_bytes [simp]: "length (string_bytes s) = length s"
  by (simp add: string_bytes_def)

lemma length_bytes_string [simp]: "length (bytes_string s) = length s"
  by (simp add: bytes_string_def)

lemma string_bytes_append: "string_bytes (s @ t) = string_bytes s @ string_bytes t"
  by (simp add: string_bytes_def)

lemma unat_of_char: "unat (of_char c :: byte) = of_char c"
proof -
  have "(of_char c :: byte) = of_nat (of_char c)" by (simp only: of_nat_of_char)
  moreover have "(of_char c :: nat) < 256" by simp
  ultimately show ?thesis by (simp only: unat_of_nat) simp
qed

lemma bytes_string_string_bytes [byte_facts]: "bytes_string (string_bytes s) = s"
  by (induction s) (simp_all add: string_bytes_def bytes_string_def unat_of_char)

lemma string_bytes_bytes_string [byte_facts]: "string_bytes (bytes_string bs) = bs"
proof (induction bs)
  case Nil
  then show ?case by (simp add: string_bytes_def bytes_string_def)
next
  case (Cons b bs)
  have "unat b < 256" using unsigned_less [of b] by simp
  then have "(of_char (char_of (unat b)) :: nat) = unat b"
    by (simp add: of_char_of take_bit_nat_eq_self)
  then have "(of_char (char_of (unat b)) :: byte) = b"
    by (simp only: word_unat_eq_iff unat_of_char)
  with Cons show ?case
    by (simp add: string_bytes_def bytes_string_def)
qed

section \<open>Lists\<close>

lemma take_append_exact [simp]: "length xs = n \<Longrightarrow> take n (xs @ ys) = xs"
  by simp

lemma drop_append_exact [simp]: "length xs = n \<Longrightarrow> drop n (xs @ ys) = ys"
  by simp

text \<open>\<^verbatim>\<open>std::unique\<close>: of every run of equal keys the first element stays.\<close>

fun unique_by :: "('a \<Rightarrow> 'k) \<Rightarrow> 'a list \<Rightarrow> 'a list" where
  "unique_by f [] = []"
| "unique_by f [x] = [x]"
| "unique_by f (x # y # zs) =
     (if f x = f y then unique_by f (x # zs) else x # unique_by f (y # zs))"

lemma unique_by_subset: "set (unique_by f xs) \<subseteq> set xs"
  by (induction f xs rule: unique_by.induct) auto

lemma unique_by_keys: "f ` set (unique_by f xs) = f ` set xs"
  by (induction f xs rule: unique_by.induct) auto

lemma unique_by_sorted_wrt:
  assumes "inj h" and "sorted (map (\<lambda>x. h (f x)) xs)"
  shows "sorted_wrt (<) (map (\<lambda>x. h (f x)) (unique_by f xs))"
  using assms(2)
proof (induction f xs rule: unique_by.induct)
  case (3 f x y zs)
  show ?case
  proof (cases "f x = f y")
    case True
    with 3 show ?thesis by simp
  next
    case False
    have "\<forall>z\<in>set (unique_by f (y # zs)). h (f x) < h (f z)"
    proof
      fix z assume "z \<in> set (unique_by f (y # zs))"
      then have "z \<in> set (y # zs)" using unique_by_subset by fastforce
      then have "h (f y) \<le> h (f z)" using "3.prems" by auto
      moreover have "h (f x) < h (f y)"
        using False "3.prems" assms(1) by (simp add: inj_eq order_less_le)
      ultimately show "h (f x) < h (f z)" by simp
    qed
    moreover have "sorted_wrt (<) (map (\<lambda>x. h (f x)) (unique_by f (y # zs)))"
      using False 3 by simp
    ultimately show ?thesis using False by simp
  qed
qed simp_all

lemma set_update_subset: "set (AList.update k v al) \<subseteq> insert (k, v) (set al)"
  by (induction al) auto

section \<open>Splitting at a character\<close>

fun split_at :: "char \<Rightarrow> string \<Rightarrow> string \<Rightarrow> string list" where
  "split_at sep cur [] = [rev cur]"
| "split_at sep cur (c # cs) = (if c = sep then rev cur # split_at sep [] cs else split_at sep (c # cur) cs)"

lemma split_at_append: "split_at sep cur (xs @ sep # ys) = split_at sep cur xs @ split_at sep [] ys"
  by (induction xs arbitrary: cur) simp_all

lemma split_at_plain: "sep \<notin> set xs \<Longrightarrow> split_at sep cur xs = [rev cur @ xs]"
  by (induction xs arbitrary: cur) auto

section \<open>Characters\<close>

definition is_space :: "char \<Rightarrow> bool" where
  "is_space c \<longleftrightarrow> of_char c \<in> {9, 10, 11, 12, 13, 32 :: nat}"

definition is_digit :: "char \<Rightarrow> bool" where
  "is_digit c \<longleftrightarrow> 48 \<le> (of_char c :: nat) \<and> of_char c \<le> (57 :: nat)"

definition is_upper :: "char \<Rightarrow> bool" where
  "is_upper c \<longleftrightarrow> 65 \<le> (of_char c :: nat) \<and> of_char c \<le> (90 :: nat)"

definition is_lower :: "char \<Rightarrow> bool" where
  "is_lower c \<longleftrightarrow> 97 \<le> (of_char c :: nat) \<and> of_char c \<le> (122 :: nat)"

definition to_lower :: "char \<Rightarrow> char" where
  "to_lower c = (if is_upper c then char_of (of_char c + 32 :: nat) else c)"

definition to_upper :: "char \<Rightarrow> char" where
  "to_upper c = (if is_lower c then char_of (of_char c - 32 :: nat) else c)"

end
