(* ===== verification/Float64.thy ===== *)
theory Float64
  imports TSDB_Prelude
begin

unbundle bit_operations_syntax

text \<open>
  The part of \<^verbatim>\<open>double\<close> arithmetic that the program uses, on IEEE-754 binary64 bit patterns:
  comparison, conversion from \<^verbatim>\<open>int64_t\<close>, and \<^verbatim>\<open>std::stod\<close>. A finite value is an integer
  multiple of \<open>2 ^ -1074\<close>; \<open>f64_scaled\<close> is that integer, so comparison is comparison of integers and
  rounding is rounding of a quotient of integers to 53 bits, ties to even.
\<close>

section \<open>Fields and values\<close>

definition f64_sign :: "f64 \<Rightarrow> bool" where
  "f64_sign w = bit w 63"

definition f64_exp :: "f64 \<Rightarrow> nat" where
  "f64_exp w = unat (take_bit 11 (drop_bit 52 w))"

definition f64_frac :: "f64 \<Rightarrow> nat" where
  "f64_frac w = unat (take_bit 52 w)"

definition f64_is_nan :: "f64 \<Rightarrow> bool" where
  "f64_is_nan w \<longleftrightarrow> f64_exp w = 2047 \<and> f64_frac w \<noteq> 0"

text \<open>An infinity is larger in size than every finite value by the same formula.\<close>

definition f64_scaled :: "f64 \<Rightarrow> int" where
  "f64_scaled w =
     (let m = (if f64_exp w = 0 then int (f64_frac w) else (2 ^ 52 + int (f64_frac w)) * 2 ^ (f64_exp w - 1))
      in if f64_sign w then - m else m)"

definition f64_lt :: "f64 \<Rightarrow> f64 \<Rightarrow> bool" where
  "f64_lt a b \<longleftrightarrow> \<not> f64_is_nan a \<and> \<not> f64_is_nan b \<and> f64_scaled a < f64_scaled b"

definition f64_eq :: "f64 \<Rightarrow> f64 \<Rightarrow> bool" where
  "f64_eq a b \<longleftrightarrow> \<not> f64_is_nan a \<and> \<not> f64_is_nan b \<and> f64_scaled a = f64_scaled b"

definition f64_le :: "f64 \<Rightarrow> f64 \<Rightarrow> bool" where
  "f64_le a b \<longleftrightarrow> f64_lt a b \<or> f64_eq a b"

lemma f64_trichotomy:
  "\<not> f64_is_nan a \<Longrightarrow> \<not> f64_is_nan b \<Longrightarrow> f64_lt a b \<or> f64_eq a b \<or> f64_lt b a"
  by (auto simp: f64_lt_def f64_eq_def)

lemma f64_lt_trans: "f64_lt a b \<Longrightarrow> f64_lt b c \<Longrightarrow> f64_lt a c"
  by (simp add: f64_lt_def)

lemma f64_lt_asym: "f64_lt a b \<Longrightarrow> \<not> f64_lt b a"
  by (simp add: f64_lt_def)

section \<open>Rounding\<close>

fun bit_len :: "nat \<Rightarrow> nat" where
  "bit_len n = (if n = 0 then 0 else Suc (bit_len (n div 2)))"

declare bit_len.simps [simp del]

lemma bit_len_less: "n < 2 ^ bit_len n"
proof (induction n rule: bit_len.induct)
  case (1 n)
  then show ?case by (cases "n = 0") (auto simp: bit_len.simps [of n])
qed

lemma bit_len_le: "n \<noteq> 0 \<Longrightarrow> 2 ^ (bit_len n - 1) \<le> n"
proof (induction n rule: bit_len.induct)
  case (1 n)
  show ?case
  proof (cases "n div 2 = 0")
    case True
    then show ?thesis using 1 by (simp add: bit_len.simps [of n] bit_len.simps [of 0])
  next
    case False
    then have "2 ^ (bit_len (n div 2) - 1) \<le> n div 2" using 1 by simp
    moreover have "bit_len n - 1 = Suc (bit_len (n div 2) - 1)"
      using 1(2) False by (simp add: bit_len.simps [of n] bit_len.simps [of "n div 2"])
    ultimately show ?thesis by simp
  qed
qed

text \<open>The nearest integer to \<open>a / b\<close>, ties to even.\<close>

definition round_half_even :: "nat \<Rightarrow> nat \<Rightarrow> nat" where
  "round_half_even a b =
     (let q = a div b; r = a mod b
      in if 2 * r < b then q else if b < 2 * r then q + 1 else if even q then q else q + 1)"

text \<open>
  The magnitude bits of the double nearest to \<open>a / b\<close> units of \<open>2 ^ -1074\<close>. The significand \<open>m\<close> has
  at most 53 bits after dropping \<open>k\<close>; adding it to the exponent field carries when it has all 53,
  and carries once more when rounding reached \<open>2 ^ 53\<close>. Too large a value becomes infinity.
\<close>

definition f64_inf_bits :: nat where
  "f64_inf_bits = 2047 * 2 ^ 52"

definition f64_round :: "nat \<Rightarrow> nat \<Rightarrow> nat" where
  "f64_round a b =
     (let k = bit_len (a div b) - 53; m = round_half_even a (b * 2 ^ k)
      in min (k * 2 ^ 52 + m) f64_inf_bits)"

definition f64_with_sign :: "bool \<Rightarrow> nat \<Rightarrow> f64" where
  "f64_with_sign s mag = word_of_nat mag OR (if s then push_bit 63 1 else 0)"

definition f64_of_int :: "int \<Rightarrow> f64" where
  "f64_of_int i = f64_with_sign (i < 0) (f64_round (nat \<bar>i\<bar> * 2 ^ 1074) 1)"

text \<open>Small integers are exact.\<close>

lemma round_half_even_exact: "0 < b \<Longrightarrow> round_half_even (q * b) b = q"
  by (simp add: round_half_even_def Let_def)

lemma bit_len_shift: "n \<noteq> 0 \<Longrightarrow> bit_len (n * 2 ^ j) = bit_len n + j"
proof (induction j)
  case (Suc j)
  then show ?case by (subst bit_len.simps) (simp add: mult.left_commute)
qed simp

lemma bit_with_sign:
  assumes "mag < 2 ^ 63"
  shows "bit (f64_with_sign s mag) n \<longleftrightarrow> (n < 63 \<and> bit mag n) \<or> (n = 63 \<and> s)"
proof -
  have "\<not> bit mag 63"
    using assms by (metis bit_take_bit_iff less_irrefl take_bit_nat_eq_self)
  then show ?thesis
    unfolding f64_with_sign_def by (cases "n = 63") (auto simp: bit_simps simp del: push_bit_of_1)
qed

lemma f64_fields:
  assumes "mag < 2 ^ 63"
  shows "f64_sign (f64_with_sign s mag) = s"
    "f64_exp (f64_with_sign s mag) = mag div 2 ^ 52"
    "f64_frac (f64_with_sign s mag) = mag mod 2 ^ 52"
proof -
  show "f64_sign (f64_with_sign s mag) = s"
    using assms by (simp add: f64_sign_def bit_with_sign)
  have "f64_frac (f64_with_sign s mag) = take_bit 52 mag"
    unfolding f64_frac_def by (rule bit_eqI) (auto simp: bit_simps bit_with_sign [OF assms])
  then show "f64_frac (f64_with_sign s mag) = mag mod 2 ^ 52" by (simp add: take_bit_eq_mod)
  have hi: "\<not> bit mag n" if "63 \<le> n" for n
    using assms that by (metis bit_take_bit_iff not_less take_bit_nat_eq_self)
  have "bit (f64_exp (f64_with_sign s mag)) n = bit (drop_bit 52 mag) n" for n
    using hi [of "52 + n"]
    by (cases "n < 11") (auto simp: f64_exp_def bit_simps bit_with_sign [OF assms])
  then have "f64_exp (f64_with_sign s mag) = drop_bit 52 mag" by (simp add: bit_eq_iff)
  then show "f64_exp (f64_with_sign s mag) = mag div 2 ^ 52" by (simp add: drop_bit_eq_div)
qed

lemma f64_scaled_with_sign:
  assumes "2 ^ 52 \<le> m" "m < 2 ^ 53" "k < 2046"
  shows "f64_scaled (f64_with_sign s (k * 2 ^ 52 + m)) = (if s then -1 else 1) * (int m * 2 ^ k)"
proof -
  obtain r where r: "m = 2 ^ 52 + r" "r < 2 ^ 52" using assms(1,2) le_Suc_ex by fastforce
  have e: "k * 2 ^ 52 + m = (k + 1) * 2 ^ 52 + r" using r by simp
  have "k * 2 ^ 52 + m < 2 ^ 63" using e r assms(3) by simp
  note f = f64_fields [OF this, of s]
  have "((k + 1) * 2 ^ 52 + r) div 2 ^ 52 = k + 1" "((k + 1) * 2 ^ 52 + r) mod 2 ^ 52 = r"
    using r(2) div_mult_self3 [of "2 ^ 52 :: nat" "k + 1" r] mod_mult_self3 [of "k + 1" "2 ^ 52 :: nat" r]
    by simp_all
  then have "f64_exp (f64_with_sign s (k * 2 ^ 52 + m)) = k + 1"
    "f64_frac (f64_with_sign s (k * 2 ^ 52 + m)) = r"
    unfolding f unfolding e .
  with f(1) r(1) show ?thesis by (simp add: f64_scaled_def Let_def)
qed

text \<open>An integer below \<open>2 ^ 53\<close> in closed form.\<close>

lemma f64_round_int:
  assumes n: "n \<noteq> 0" "n < 2 ^ 53"
  shows "f64_round (n * 2 ^ 1074) 1 = (bit_len n + 1021) * 2 ^ 52 + n * 2 ^ (53 - bit_len n)"
    and "n * 2 ^ 1074 = n * 2 ^ (53 - bit_len n) * 2 ^ (bit_len n + 1021)"
    and "2 ^ 52 \<le> n * 2 ^ (53 - bit_len n)" "n * 2 ^ (53 - bit_len n) < 2 ^ 53" "bit_len n + 1021 < 2046"
proof -
  define L where "L = bit_len n"
  have "L \<le> 53"
  proof (rule ccontr)
    assume "\<not> L \<le> 53"
    then have "(2 :: nat) ^ 53 \<le> 2 ^ (L - 1)" by (intro power_increasing) simp_all
    with bit_len_le [OF n(1)] n(2) show False by (simp add: L_def)
  qed
  have L0: "0 < L" using n(1) by (simp add: L_def bit_len.simps [of n])
  define j where "j = 53 - L"
  have j: "L + j = 53" using \<open>L \<le> 53\<close> by (simp add: j_def)
  define k where "k = L + 1021"
  define m where "m = n * 2 ^ j"
  have split: "n * 2 ^ 1074 = m * 2 ^ k"
  proof -
    have "(1074 :: nat) = j + k" using j by (simp add: k_def)
    then show ?thesis unfolding m_def by (metis mult.assoc power_add)
  qed
  then have "round_half_even (n * 2 ^ 1074) (1 * 2 ^ k) = m"
    using round_half_even_exact [of "2 ^ k" m] by simp
  moreover have "bit_len (n * 2 ^ 1074 div 1) - 53 = k"
    using bit_len_shift [OF n(1), of 1074] by (simp add: k_def flip: L_def)
  moreover have m: "m < 2 ^ 53" "2 ^ 52 \<le> m"
  proof -
    have "m < 2 ^ L * 2 ^ j" using bit_len_less [of n] by (simp add: m_def L_def)
    then show "m < 2 ^ 53" using j by (simp flip: power_add)
    have "2 ^ (L - 1) * 2 ^ j \<le> m" using bit_len_le [OF n(1)] by (simp add: m_def L_def)
    moreover have "L - 1 + j = 52" using j L0 by simp
    ultimately show "2 ^ 52 \<le> m" by (metis power_add)
  qed
  moreover have "k * 2 ^ 52 + m \<le> f64_inf_bits"
    using m(1) \<open>L \<le> 53\<close> by (simp add: f64_inf_bits_def k_def)
  ultimately show "f64_round (n * 2 ^ 1074) 1 = (bit_len n + 1021) * 2 ^ 52 + n * 2 ^ (53 - bit_len n)"
    by (simp add: f64_round_def Let_def k_def m_def j_def flip: L_def)
  show "n * 2 ^ 1074 = n * 2 ^ (53 - bit_len n) * 2 ^ (bit_len n + 1021)"
    "2 ^ 52 \<le> n * 2 ^ (53 - bit_len n)" "n * 2 ^ (53 - bit_len n) < 2 ^ 53" "bit_len n + 1021 < 2046"
    using split m \<open>L \<le> 53\<close> unfolding m_def k_def j_def L_def by simp_all
qed

lemma f64_of_int_exact_lemma:
  assumes "\<bar>i\<bar> < 2 ^ 53"
  shows "f64_scaled (f64_of_int i) = i * 2 ^ 1074"
proof (cases "i = 0")
  case True
  have "f64_scaled (f64_with_sign False 0) = 0"
    using f64_fields [of 0 False] by (simp add: f64_scaled_def)
  with True show ?thesis
    by (simp add: f64_of_int_def f64_round_def round_half_even_def bit_len.simps [of 0])
next
  case False
  define n where "n = nat \<bar>i\<bar>"
  have n: "n \<noteq> 0" "n < 2 ^ 53" using False assms by (simp_all add: n_def nat_less_iff)
  define m where "m = n * 2 ^ (53 - bit_len n)"
  define k where "k = bit_len n + 1021"
  note r = f64_round_int [OF n, folded m_def k_def]
  have "f64_scaled (f64_of_int i) = (if i < 0 then -1 else 1) * (int m * 2 ^ k)"
    unfolding f64_of_int_def n_def [symmetric] r(1)
    by (rule f64_scaled_with_sign) (fact r)+
  also have "int m * 2 ^ k = int n * 2 ^ 1074"
    using r(2) by (metis of_nat_mult of_nat_numeral of_nat_power)
  finally show ?thesis using False by (auto simp: n_def)
qed

section \<open>Digits\<close>

definition digit_value :: "char \<Rightarrow> nat" where
  "digit_value c = (if is_digit c then of_char c - 48 else of_char (to_lower c) - 87)"

definition is_xdigit :: "char \<Rightarrow> bool" where
  "is_xdigit c \<longleftrightarrow> is_digit c \<or> (97 \<le> (of_char (to_lower c) :: nat) \<and> of_char (to_lower c) \<le> (102 :: nat))"

definition number_of :: "nat \<Rightarrow> string \<Rightarrow> nat" where
  "number_of base ds = foldl (\<lambda>n c. base * n + digit_value c) 0 ds"

section \<open>std::stod\<close>

text \<open>
  \<^verbatim>\<open>strtod\<close> in the C locale on the longest prefix that is a number, with the exceptions of
  \<^verbatim>\<open>std::stod\<close>: \<^verbatim>\<open>invalid_argument\<close> when there is no number, \<^verbatim>\<open>out_of_range\<close> on
  overflow and on an inexact subnormal result. The second component is the unread rest.
\<close>

datatype stod_error = Stod_Invalid_Argument | Stod_Out_Of_Range

text \<open>An optional exponent: the marker, a sign, at least one digit; otherwise nothing is read.\<close>

fun read_sign :: "string \<Rightarrow> bool \<times> string" where
  "read_sign (c # cs) = (if c = CHR ''-'' then (True, cs) else if c = CHR ''+'' then (False, cs) else (False, c # cs))"
| "read_sign [] = (False, [])"

definition read_exponent :: "char \<Rightarrow> string \<Rightarrow> int \<times> string" where
  "read_exponent marker cs =
     (case cs of
        [] \<Rightarrow> (0, cs)
      | c # cs' \<Rightarrow>
          if to_lower c \<noteq> marker then (0, cs)
          else case read_sign cs' of (neg, ds) \<Rightarrow>
            if takeWhile is_digit ds = [] then (0, cs)
            else let e = int (number_of 10 (takeWhile is_digit ds))
                 in (if neg then - e else e, dropWhile is_digit ds))"

text \<open>Digits with an optional point: the digits, the number of them behind the point, the rest.\<close>

definition read_mantissa :: "(char \<Rightarrow> bool) \<Rightarrow> string \<Rightarrow> (string \<times> nat \<times> string) option" where
  "read_mantissa digit cs =
     (let ds = takeWhile digit cs; cs1 = dropWhile digit cs in
      case cs1 of
        c # cs2 \<Rightarrow>
          if c = CHR ''.'' then
            let fs = takeWhile digit cs2 in
            if ds @ fs = [] then None else Some (ds @ fs, length fs, dropWhile digit cs2)
          else if ds = [] then None else Some (ds, 0, cs1)
      | [] \<Rightarrow> if ds = [] then None else Some (ds, 0, cs1))"

definition f64_of_ratio :: "bool \<Rightarrow> nat \<Rightarrow> nat \<Rightarrow> stod_error + f64" where
  "f64_of_ratio neg a b =
     (let mag = f64_round (a * 2 ^ 1074) b in
      if mag = f64_inf_bits then Inl Stod_Out_Of_Range
      else if mag < 2 ^ 52 \<and> \<not> b dvd a * 2 ^ 1074 then Inl Stod_Out_Of_Range
      else Inr (f64_with_sign neg mag))"

definition f64_of_power :: "bool \<Rightarrow> nat \<Rightarrow> nat \<Rightarrow> int \<Rightarrow> stod_error + f64" where
  "f64_of_power neg m base e =
     (if 0 \<le> e then f64_of_ratio neg (m * base ^ nat e) 1 else f64_of_ratio neg m (base ^ nat (- e)))"

definition read_decimal :: "bool \<Rightarrow> string \<Rightarrow> stod_error + f64 \<times> string" where
  "read_decimal neg cs =
     (case read_mantissa is_digit cs of
        None \<Rightarrow> Inl Stod_Invalid_Argument
      | Some (ds, frac, cs1) \<Rightarrow>
          (case read_exponent (CHR ''e'') cs1 of (e, rest) \<Rightarrow>
             map_sum id (\<lambda>v. (v, rest)) (f64_of_power neg (number_of 10 ds) 10 (e - int frac))))"

definition read_hex :: "bool \<Rightarrow> string \<Rightarrow> (stod_error + f64 \<times> string) option" where
  "read_hex neg cs =
     (case read_mantissa is_xdigit cs of
        None \<Rightarrow> None
      | Some (ds, frac, cs1) \<Rightarrow>
          (case read_exponent (CHR ''p'') cs1 of (e, rest) \<Rightarrow>
             Some (map_sum id (\<lambda>v. (v, rest)) (f64_of_power neg (number_of 16 ds) 2 (e - 4 * int frac)))))"

definition starts_with_nocase :: "string \<Rightarrow> string \<Rightarrow> bool" where
  "starts_with_nocase word cs \<longleftrightarrow> length word \<le> length cs \<and> map to_lower (take (length word) cs) = word"

definition nan_bits :: nat where
  "nan_bits = f64_inf_bits + 2 ^ 51"

definition read_nan_payload :: "string \<Rightarrow> string" where
  "read_nan_payload cs =
     (case cs of
        c # cs' \<Rightarrow>
          let rest = dropWhile (\<lambda>d. is_digit d \<or> is_upper d \<or> is_lower d \<or> d = CHR ''_'') cs' in
          if c = CHR ''('' \<and> rest \<noteq> [] \<and> hd rest = CHR '')'' then tl rest else cs
      | [] \<Rightarrow> cs)"

definition stod :: "string \<Rightarrow> stod_error + f64 \<times> string" where
  "stod s =
     (case read_sign (dropWhile is_space s) of (neg, cs) \<Rightarrow>
        if starts_with_nocase ''infinity'' cs then Inr (f64_with_sign neg f64_inf_bits, drop 8 cs)
        else if starts_with_nocase ''inf'' cs then Inr (f64_with_sign neg f64_inf_bits, drop 3 cs)
        else if starts_with_nocase ''nan'' cs then
          Inr (f64_with_sign neg nan_bits, read_nan_payload (drop 3 cs))
        else if starts_with_nocase ''0x'' cs then
          (case read_hex neg (drop 2 cs) of Some r \<Rightarrow> r | None \<Rightarrow> read_decimal neg cs)
        else read_decimal neg cs)"

end
