(* ===== verification/Number_Text.thy ===== *)
theory Number_Text
  imports TSDB_Prelude
begin

text \<open>
  How numbers are written: \<^verbatim>\<open>std::to_string\<close>, streams in \<^verbatim>\<open>std::hex\<close> and
  \<^verbatim>\<open>std::setw\<close> with a fill character.
\<close>

definition digit_char :: "nat \<Rightarrow> char" where
  "digit_char d = char_of (if d < 10 then 48 + d else 87 + d)"

function digits :: "nat \<Rightarrow> nat \<Rightarrow> string" where
  "digits b n = (if n < b \<or> b < 2 then [digit_char n] else digits b (n div b) @ [digit_char (n mod b)])"
  by pat_completeness auto
termination by (relation "measure snd") auto

declare digits.simps [simp del]

definition hex_string :: "nat \<Rightarrow> string" where
  "hex_string n = digits 16 n"

definition to_string :: "int \<Rightarrow> string" where
  "to_string i = (if i < 0 then CHR ''-'' # digits 10 (nat (- i)) else digits 10 (nat i))"

definition pad_left :: "nat \<Rightarrow> char \<Rightarrow> string \<Rightarrow> string" where
  "pad_left n c s = replicate (n - length s) c @ s"

lemma length_pad_left [simp]: "length (pad_left n c s) = max n (length s)"
  by (simp add: pad_left_def)

lemma digits_nonempty [simp]: "digits b n \<noteq> []"
  by (subst digits.simps) simp

lemma length_digits: "n < b ^ k \<Longrightarrow> 2 \<le> b \<Longrightarrow> 0 < k \<Longrightarrow> length (digits b n) \<le> k"
proof (induction b n arbitrary: k rule: digits.induct)
  case (1 b n)
  show ?case
  proof (cases "n < b")
    case True
    with 1 show ?thesis by (simp add: digits.simps)
  next
    case False
    have k: "k \<noteq> 0" "k \<noteq> 1" using 1 False by auto
    then obtain j where j: "k = Suc j" "0 < j" by (cases k) auto
    have "n div b < b ^ j" using 1 j by (simp add: less_mult_imp_div_less mult.commute)
    with 1 False j show ?thesis by (subst digits.simps) simp
  qed
qed

text \<open>Reading the digits back.\<close>

definition digit_val :: "char \<Rightarrow> nat" where
  "digit_val c = (let k = of_char c in if k < 58 then k - 48 else k - 87)"

definition undigits :: "nat \<Rightarrow> string \<Rightarrow> nat" where
  "undigits b s = foldl (\<lambda>n c. b * n + digit_val c) 0 s"

lemma of_char_digit_char: "d < 16 \<Longrightarrow> of_char (digit_char d) = (if d < 10 then 48 + d else 87 + d)"
  by (simp add: digit_char_def of_char_of take_bit_nat_eq_self)

lemma digit_val_char [simp]: "d < 16 \<Longrightarrow> digit_val (digit_char d) = d"
  by (simp add: digit_val_def of_char_digit_char)

lemma undigits_digits: "2 \<le> b \<Longrightarrow> b \<le> 16 \<Longrightarrow> undigits b (digits b n) = n"
proof (induction b n rule: digits.induct)
  case (1 b n)
  show ?case
  proof (cases "n < b")
    case True
    with 1 show ?thesis by (simp add: digits.simps undigits_def)
  next
    case False
    have "n mod b < b" using 1 by simp
    with 1 have "n mod b < 16" by linarith
    with 1 False show ?thesis by (subst digits.simps) (simp add: undigits_def)
  qed
qed

lemma digits_inj: "2 \<le> b \<Longrightarrow> b \<le> 16 \<Longrightarrow> digits b m = digits b n \<longleftrightarrow> m = n"
  by (metis undigits_digits)

lemma digits_set: "2 \<le> b \<Longrightarrow> set (digits b n) \<subseteq> digit_char ` {..<b}"
proof (induction b n rule: digits.induct)
  case (1 b n)
  show ?case
  proof (cases "n < b")
    case True
    with 1 show ?thesis by (simp add: digits.simps)
  next
    case False
    with 1 show ?thesis by (subst digits.simps) auto
  qed
qed

lemma digits10_is_digit: "c \<in> set (digits 10 n) \<Longrightarrow> is_digit c"
  using digits_set [of 10 n] by (auto simp: is_digit_def of_char_digit_char)

end
