(* ===== verification/Number_Read.thy ===== *)
theory Number_Read
  imports Float64 Number_Text
begin

text \<open>
  How the standard library reads integers: \<^verbatim>\<open>std::stoi\<close> and \<^verbatim>\<open>std::stoll\<close> skip white space,
  take an optional sign and decimal digits, and throw when there is no digit or the value does not
  fit. The result is the value and the rest of the string.
\<close>

definition read_integer :: "nat \<Rightarrow> string \<Rightarrow> stod_error + int \<times> string" where
  "read_integer width s =
     (case read_sign (dropWhile is_space s) of (neg, cs) \<Rightarrow>
        let ds = takeWhile is_digit cs;
            v = (if neg then - int (number_of 10 ds) else int (number_of 10 ds))
        in if ds = [] then Inl Stod_Invalid_Argument
           else if v < - (2 ^ (width - 1)) \<or> 2 ^ (width - 1) \<le> v then Inl Stod_Out_Of_Range
           else Inr (v, dropWhile is_digit cs))"

definition stoi :: "string \<Rightarrow> stod_error + int \<times> string" where
  "stoi = read_integer 32"

definition stoll :: "string \<Rightarrow> stod_error + int \<times> string" where
  "stoll = read_integer 64"

lemma number_of_digits: "number_of 10 (digits 10 n) = n"
proof -
  have *: "digit_value c = digit_val c" if "c \<in> set (digits 10 n)" for c
    using digits10_is_digit [OF that] by (simp add: digit_value_def digit_val_def is_digit_def Let_def)
  have "number_of 10 ds = undigits 10 ds" if "\<And>c. c \<in> set ds \<Longrightarrow> digit_value c = digit_val c" for ds
    using that by (simp add: number_of_def undigits_def) (auto intro!: foldl_cong)
  from this [OF *] undigits_digits [of 10 n] show ?thesis by simp
qed

text \<open>What \<^verbatim>\<open>std::to_string\<close> wrote is read back.\<close>

lemma read_integer_to_string:
  assumes "- (2 ^ (width - 1)) \<le> i" "i < 2 ^ (width - 1)" "rest = [] \<or> \<not> is_digit (hd rest)"
  shows "read_integer width (to_string i @ rest) = Inr (i, rest)"
proof -
  have d: "takeWhile is_digit (digits 10 n @ rest) = digits 10 n" "dropWhile is_digit (digits 10 n @ rest) = rest" for n
    using assms(3) digits10_is_digit by (cases rest; auto simp: takeWhile_append dropWhile_append)+
  have h: "\<exists>c cs. digits 10 n @ rest = c # cs \<and> is_digit c" for n
    using digits_nonempty [of 10 n] digits10_is_digit [of _ n] by (cases "digits 10 n") (fastforce+)
  have s: "read_sign (dropWhile is_space (digits 10 n @ rest)) = (False, digits 10 n @ rest)" for n
  proof -
    obtain c cs where c: "digits 10 n @ rest = c # cs" "is_digit c" using h by blast
    then have "\<not> is_space c" "c \<noteq> CHR ''-''" "c \<noteq> CHR ''+''" by (auto simp: is_digit_def is_space_def)
    then show ?thesis by (simp add: c(1))
  qed
  show ?thesis
  proof (cases "i < 0")
    case True
    then show ?thesis using assms(1,2) d [of "nat (- i)"]
      by (simp add: read_integer_def to_string_def is_space_def number_of_digits)
  next
    case False
    then show ?thesis using assms(1,2) d [of "nat i"] s [of "nat i"]
      by (simp add: read_integer_def to_string_def number_of_digits)
  qed
qed

end
