(* ===== verification/Os_File.thy ===== *)
theory Os_File
  imports TSDB_Prelude
begin

text \<open>
  The operating-system layer \<^verbatim>\<open>src/src/common/os/\<close> on its POSIX branch: \<^verbatim>\<open>os::File\<close>
  (\<^verbatim>\<open>file.cpp\<close>) and \<^verbatim>\<open>os::fs\<close> (\<^verbatim>\<open>fs.cpp\<close>) over a small Unix file system. Directory
  entries name inodes; an open handle holds an inode and keeps it after the name is gone, as
  \<^verbatim>\<open>unlink\<close> does. Directory entries are kept as an association list whose order is the (unspecified)
  order in which \<^verbatim>\<open>readdir\<close> returns them. System calls on a valid handle succeed (no full disk).
\<close>

section \<open>The file system\<close>

type_synonym path = "string list"

datatype node = DirNode | FileNode nat

record inode =
  in_data :: "byte list"
  in_mtime :: int

record fsys =
  fs_tree :: "(path \<times> node) list"
  fs_inodes :: "nat \<Rightarrow> inode"
  fs_next :: nat
  fs_clock :: int

text \<open>
  A path string is split at the slashes; empty components and \<open>.\<close> do not count. An absolute path
  keeps a leading root component. Both roots always exist. The empty string is read as the working
  directory, where POSIX refuses it; no caller passes it on.
\<close>

definition split_path :: "string \<Rightarrow> path" where
  "split_path s =
     (if s \<noteq> [] \<and> hd s = CHR ''/'' then [''/''] else [])
     @ filter (\<lambda>c. c \<noteq> [] \<and> c \<noteq> ''.'') (split_at (CHR ''/'') [] s)"

definition is_root :: "path \<Rightarrow> bool" where
  "is_root p \<longleftrightarrow> p = [] \<or> p = [''/'']"

definition is_dir :: "fsys \<Rightarrow> path \<Rightarrow> bool" where
  "is_dir fs p \<longleftrightarrow> is_root p \<or> map_of (fs_tree fs) p = Some DirNode"

definition path_exists :: "fsys \<Rightarrow> path \<Rightarrow> bool" where
  "path_exists fs p \<longleftrightarrow> is_root p \<or> map_of (fs_tree fs) p \<noteq> None"

definition children :: "fsys \<Rightarrow> path \<Rightarrow> (path \<times> node) list" where
  "children fs p = filter (\<lambda>(q, _). q \<noteq> [] \<and> butlast q = p) (fs_tree fs)"

definition bind_node :: "path \<Rightarrow> node \<Rightarrow> fsys \<Rightarrow> fsys" where
  "bind_node p n fs = fs\<lparr>fs_tree := AList.update p n (fs_tree fs)\<rparr>"

definition unbind_node :: "path \<Rightarrow> fsys \<Rightarrow> fsys" where
  "unbind_node p fs = fs\<lparr>fs_tree := AList.delete p (fs_tree fs)\<rparr>"

definition set_inode :: "nat \<Rightarrow> byte list \<Rightarrow> fsys \<Rightarrow> fsys" where
  "set_inode i data fs = fs\<lparr>fs_inodes := (fs_inodes fs)(i := \<lparr>in_data = data, in_mtime = fs_clock fs\<rparr>)\<rparr>"

definition ino_data :: "fsys \<Rightarrow> nat \<Rightarrow> byte list" where
  "ino_data fs i = in_data (fs_inodes fs i)"

text \<open>The bytes a path names, if it names a file.\<close>

definition file_bytes :: "fsys \<Rightarrow> string \<Rightarrow> byte list option" where
  "file_bytes fs s =
     (case map_of (fs_tree fs) (split_path s) of Some (FileNode i) \<Rightarrow> Some (ino_data fs i) | _ \<Rightarrow> None)"

definition create_file :: "path \<Rightarrow> fsys \<Rightarrow> nat \<times> fsys" where
  "create_file p fs =
     (let i = fs_next fs in (i, set_inode i [] (bind_node p (FileNode i) (fs\<lparr>fs_next := i + 1\<rparr>))))"

section \<open>os::File\<close>

datatype file_mode = READ | WRITE | APPEND | READ_WRITE

record open_file =
  of_ino :: nat
  of_pos :: nat
  of_mode :: file_mode

text \<open>A handle: \<open>None\<close> is \<^verbatim>\<open>fd_ = -1\<close>.\<close>

type_synonym os_file = "open_file option"

definition file_open :: "string \<Rightarrow> file_mode \<Rightarrow> fsys \<Rightarrow> os_file \<times> fsys" where
  "file_open s mode fs =
     (let p = split_path s in
      case map_of (fs_tree fs) p of
        Some DirNode \<Rightarrow> (None, fs)
      | Some (FileNode i) \<Rightarrow>
          (Some \<lparr>of_ino = i, of_pos = 0, of_mode = mode\<rparr>,
           if mode = WRITE \<or> mode = READ_WRITE then set_inode i [] fs else fs)
      | None \<Rightarrow>
          (if mode = READ \<or> is_root p \<or> \<not> is_dir fs (butlast p) then (None, fs)
           else case create_file p fs of (i, fs') \<Rightarrow>
             (Some \<lparr>of_ino = i, of_pos = 0, of_mode = mode\<rparr>, fs')))"

definition overwrite :: "byte list \<Rightarrow> nat \<Rightarrow> byte list \<Rightarrow> byte list" where
  "overwrite old pos new =
     take pos (old @ replicate (pos - length old) 0) @ new @ drop (pos + length new) old"

definition file_write :: "byte list \<Rightarrow> os_file \<Rightarrow> fsys \<Rightarrow> bool \<times> os_file \<times> fsys" where
  "file_write data f fs =
     (case f of
        None \<Rightarrow> (False, f, fs)
      | Some h \<Rightarrow>
          if data = [] then (True, f, fs)
          else if of_mode h = READ then (False, f, fs)
          else
            let old = ino_data fs (of_ino h);
                pos = (if of_mode h = APPEND then length old else of_pos h)
            in (True, Some (h\<lparr>of_pos := pos + length data\<rparr>),
                set_inode (of_ino h) (overwrite old pos data) fs))"

text \<open>\<open>None\<close> is the result \<^verbatim>\<open>false\<close>, which leaves the buffer and the count alone.\<close>

definition file_read :: "nat \<Rightarrow> os_file \<Rightarrow> fsys \<Rightarrow> byte list option \<times> os_file" where
  "file_read len f fs =
     (case f of
        None \<Rightarrow> (None, f)
      | Some h \<Rightarrow>
          if of_mode h = WRITE \<or> of_mode h = APPEND then (None, f)
          else let got = take len (drop (of_pos h) (ino_data fs (of_ino h)))
               in (Some got, Some (h\<lparr>of_pos := of_pos h + length got\<rparr>)))"

datatype seek_origin = SEEK_SET | SEEK_CUR | SEEK_END

definition file_size :: "os_file \<Rightarrow> fsys \<Rightarrow> int" where
  "file_size f fs = (case f of None \<Rightarrow> - 1 | Some h \<Rightarrow> int (length (ino_data fs (of_ino h))))"

definition file_seek :: "int \<Rightarrow> seek_origin \<Rightarrow> os_file \<Rightarrow> fsys \<Rightarrow> bool \<times> os_file" where
  "file_seek offset origin f fs =
     (case f of
        None \<Rightarrow> (False, f)
      | Some h \<Rightarrow>
          let base = (case origin of SEEK_SET \<Rightarrow> 0 | SEEK_CUR \<Rightarrow> int (of_pos h) | SEEK_END \<Rightarrow> file_size f fs)
          in if 0 \<le> base + offset then (True, Some (h\<lparr>of_pos := nat (base + offset)\<rparr>)) else (False, f))"

definition file_tell :: "os_file \<Rightarrow> int" where
  "file_tell f = (case f of None \<Rightarrow> - 1 | Some h \<Rightarrow> int (of_pos h))"

definition file_flush :: "os_file \<Rightarrow> bool" where
  "file_flush f = (f \<noteq> None)"

definition file_close :: "os_file \<Rightarrow> os_file" where
  "file_close f = None"

definition file_is_open :: "os_file \<Rightarrow> bool" where
  "file_is_open f = (f \<noteq> None)"

definition file_detach :: "os_file \<Rightarrow> os_file" where
  "file_detach f = None"

text \<open>
  The move constructor and the move assignment, as the pair of the new owner and what is left of the
  source; \<open>same\<close> says that an object is assigned to itself.
\<close>

definition file_move :: "os_file \<Rightarrow> os_file \<times> os_file" where
  "file_move other = (other, None)"

definition file_move_assign :: "bool \<Rightarrow> os_file \<Rightarrow> os_file \<Rightarrow> os_file \<times> os_file" where
  "file_move_assign same this other =
     (if \<not> same then (let this = file_close this in (other, None)) else (this, other))"

section \<open>os::fs\<close>

record dir_entry =
  de_path :: string
  de_name :: string
  de_is_directory :: bool
  de_file_size :: int
  de_last_write_time_ms :: int

datatype mkdir_result = Made | Already_there | No_parent

definition mkdir :: "string \<Rightarrow> fsys \<Rightarrow> mkdir_result \<times> fsys" where
  "mkdir s fs =
     (let p = split_path s in
      if path_exists fs p then (Already_there, fs)
      else if is_dir fs (butlast p) then (Made, bind_node p DirNode fs)
      else (No_parent, fs))"

fun mkdir_prefixes :: "string \<Rightarrow> string \<Rightarrow> fsys \<Rightarrow> fsys" where
  "mkdir_prefixes cur [] fs = fs"
| "mkdir_prefixes cur (c # cs) fs =
     (let fs' = (if c = CHR ''/'' \<and> cur \<noteq> [] then snd (mkdir cur fs) else fs)
      in mkdir_prefixes (cur @ [c]) cs fs')"

definition create_directories :: "string \<Rightarrow> fsys \<Rightarrow> bool \<times> fsys" where
  "create_directories s fs =
     (if s = [] then (False, fs)
      else case mkdir s (mkdir_prefixes [] s fs) of (r, fs') \<Rightarrow> (r \<noteq> No_parent, fs'))"

definition fs_exists :: "string \<Rightarrow> fsys \<Rightarrow> bool" where
  "fs_exists s fs = path_exists fs (split_path s)"

definition fs_remove :: "string \<Rightarrow> fsys \<Rightarrow> bool \<times> fsys" where
  "fs_remove s fs =
     (let p = split_path s in
      case map_of (fs_tree fs) p of
        None \<Rightarrow> (\<not> is_root p, fs)
      | Some (FileNode i) \<Rightarrow> (True, unbind_node p fs)
      | Some DirNode \<Rightarrow> if children fs p = [] then (True, unbind_node p fs) else (False, fs))"

text \<open>\<^verbatim>\<open>rename(2)\<close> of a file replaces a file of the target name; the code renames files only.\<close>

definition fs_rename :: "string \<Rightarrow> string \<Rightarrow> fsys \<Rightarrow> bool \<times> fsys" where
  "fs_rename a b fs =
     (let p = split_path a; q = split_path b in
      case map_of (fs_tree fs) p of
        Some (FileNode i) \<Rightarrow>
          if is_dir fs q \<or> \<not> is_dir fs (butlast q) then (False, fs)
          else if p = q then (True, fs)
          else (True, bind_node q (FileNode i) (unbind_node p fs))
      | _ \<Rightarrow> (False, fs))"

definition fs_copy :: "string \<Rightarrow> string \<Rightarrow> fsys \<Rightarrow> bool \<times> fsys" where
  "fs_copy a b fs =
     (case file_open a READ fs of
        (None, _) \<Rightarrow> (False, fs)
      | (Some h, fs1) \<Rightarrow>
          let data = ino_data fs1 (of_ino h) in
          case file_open b WRITE fs1 of
            (None, _) \<Rightarrow> (False, fs1)
          | (dst, fs2) \<Rightarrow>
              \<comment> \<open>copying a file onto itself reads the file that was just truncated\<close>
              let data' = ino_data fs2 (of_ino h) in
              case file_write data' dst fs2 of (ok, _, fs3) \<Rightarrow> (ok, fs3))"

definition fs_is_empty :: "string \<Rightarrow> fsys \<Rightarrow> bool" where
  "fs_is_empty s fs =
     (let p = split_path s in
      if \<not> path_exists fs p then True else if \<not> is_dir fs p then True else children fs p = [])"

definition fs_last_write_time_ms :: "string \<Rightarrow> fsys \<Rightarrow> int" where
  "fs_last_write_time_ms s fs =
     (case map_of (fs_tree fs) (split_path s) of
        Some (FileNode i) \<Rightarrow> in_mtime (fs_inodes fs i) * 1000
      | Some DirNode \<Rightarrow> 0
      | None \<Rightarrow> - 1)"

definition dir_entry_of :: "string \<Rightarrow> fsys \<Rightarrow> path \<times> node \<Rightarrow> dir_entry" where
  "dir_entry_of s fs c =
     (case c of (q, n) \<Rightarrow>
        \<lparr>de_path = s @ ''/'' @ last q, de_name = last q, de_is_directory = (n = DirNode),
         de_file_size = (case n of DirNode \<Rightarrow> 0 | FileNode i \<Rightarrow> int (length (ino_data fs i))),
         de_last_write_time_ms = (case n of DirNode \<Rightarrow> 0 | FileNode i \<Rightarrow> in_mtime (fs_inodes fs i) * 1000)\<rparr>)"

text \<open>\<^verbatim>\<open>st_size\<close> of a directory is a matter of the file system: the argument \<open>dir_size\<close>.\<close>

definition fs_file_size :: "int \<Rightarrow> string \<Rightarrow> fsys \<Rightarrow> int" where
  "fs_file_size dir_size s fs =
     (let p = split_path s in
      if \<not> path_exists fs p then - 1
      else (case map_of (fs_tree fs) p of Some (FileNode i) \<Rightarrow> int (length (ino_data fs i)) | _ \<Rightarrow> dir_size))"

text \<open>\<open>None\<close> is the result \<^verbatim>\<open>false\<close>: the path cannot be opened as a directory.\<close>

definition list_directory :: "string \<Rightarrow> fsys \<Rightarrow> dir_entry list option" where
  "list_directory s fs =
     (let p = split_path s in
      if is_dir fs p then Some (map (dir_entry_of s fs) (children fs p)) else None)"

text \<open>\<^verbatim>\<open>RemoveAll\<close> deletes the children first and then the entry: the subtree goes. The recursion
  is \<open>remove_tree\<close> in \<^verbatim>\<open>Os_Fs\<close>, where it is proved to compute this form (the working directory itself
  excepted).\<close>

definition remove_all :: "string \<Rightarrow> fsys \<Rightarrow> bool \<times> fsys" where
  "remove_all s fs =
     (let p = split_path s in
      if \<not> path_exists fs p then (True, fs)
      else (\<not> is_root p, fs\<lparr>fs_tree := filter (\<lambda>(q, _). \<not> prefix p q) (fs_tree fs)\<rparr>))"

section \<open>Facts about handles\<close>

named_theorems os_facts \<open>inode contents under the file operations\<close>

lemma ino_data_set_inode [os_facts]: "ino_data (set_inode i d fs) j = (if j = i then d else ino_data fs j)"
  by (simp add: ino_data_def set_inode_def)

lemma fs_tree_set_inode [os_facts]: "fs_tree (set_inode i d fs) = fs_tree fs"
  by (simp add: set_inode_def)

lemma fs_next_set_inode [os_facts]: "fs_next (set_inode i d fs) = fs_next fs"
  by (simp add: set_inode_def)

lemma ino_data_bind [os_facts]: "ino_data (bind_node p n fs) = ino_data fs"
  by (simp add: bind_node_def ino_data_def fun_eq_iff)

lemma ino_data_unbind [os_facts]: "ino_data (unbind_node p fs) = ino_data fs"
  by (simp add: unbind_node_def ino_data_def fun_eq_iff)

lemma map_of_bind [os_facts]: "map_of (fs_tree (bind_node p n fs)) = (map_of (fs_tree fs))(p \<mapsto> n)"
  by (simp add: bind_node_def update_conv')

lemma map_of_unbind [os_facts]: "map_of (fs_tree (unbind_node p fs)) = (map_of (fs_tree fs))(p := None)"
  by (simp add: unbind_node_def delete_conv')

lemma overwrite_end [os_facts]: "overwrite old (length old) new = old @ new"
  by (simp add: overwrite_def)

lemma overwrite_inside [os_facts]:
  "pos + length new \<le> length old \<Longrightarrow>
   overwrite old pos new = take pos old @ new @ drop (pos + length new) old"
  by (simp add: overwrite_def)

text \<open>Writing through an append handle, writing at the end, reading at a position.\<close>

lemma file_write_append:
  assumes "of_mode h = APPEND" "data \<noteq> []"
  shows "file_write data (Some h) fs =
    (True, Some (h\<lparr>of_pos := length (ino_data fs (of_ino h)) + length data\<rparr>),
     set_inode (of_ino h) (ino_data fs (of_ino h) @ data) fs)"
  using assms by (simp add: file_write_def Let_def overwrite_end)

lemma file_write_at_end:
  assumes "of_mode h = READ_WRITE" "of_pos h = length (ino_data fs (of_ino h))"
  obtains fs' where "file_write data (Some h) fs = (True, Some (h\<lparr>of_pos := of_pos h + length data\<rparr>), fs')"
    "ino_data fs' (of_ino h) = ino_data fs (of_ino h) @ data"
    "\<And>j. j \<noteq> of_ino h \<Longrightarrow> ino_data fs' j = ino_data fs j" "fs_tree fs' = fs_tree fs" "fs_next fs' = fs_next fs"
proof (cases "data = []")
  case True
  then show thesis using assms by (intro that [of fs]) (simp_all add: file_write_def)
next
  case False
  let ?fs = "set_inode (of_ino h) (ino_data fs (of_ino h) @ data) fs"
  show thesis
    by (rule that [of ?fs])
       (use False assms in \<open>simp_all add: file_write_def Let_def overwrite_end os_facts\<close>)
qed

lemma file_read_some:
  assumes "of_mode h \<noteq> WRITE" "of_mode h \<noteq> APPEND"
  shows "file_read len (Some h) fs =
    (let got = take len (drop (of_pos h) (ino_data fs (of_ino h)))
     in (Some got, Some (h\<lparr>of_pos := of_pos h + length got\<rparr>)))"
  using assms by (simp add: file_read_def)

lemma file_bytes_open_read:
  assumes "file_bytes fs s = Some d"
  obtains i where "file_open s READ fs = (Some \<lparr>of_ino = i, of_pos = 0, of_mode = READ\<rparr>, fs)"
    "ino_data fs i = d" "map_of (fs_tree fs) (split_path s) = Some (FileNode i)"
  using assms by (auto simp: file_bytes_def file_open_def Let_def split: option.splits node.splits)

text \<open>The effect of appending bytes: only the inode grows.\<close>

definition grown :: "nat \<Rightarrow> byte list \<Rightarrow> fsys \<Rightarrow> fsys \<Rightarrow> bool" where
  "grown i bs fs fs' \<longleftrightarrow> ino_data fs' i = ino_data fs i @ bs
     \<and> (\<forall>j. j \<noteq> i \<longrightarrow> ino_data fs' j = ino_data fs j) \<and> fs_tree fs' = fs_tree fs \<and> fs_next fs' = fs_next fs"

lemma grown_refl: "grown i [] fs fs"
  by (simp add: grown_def)

lemma grown_trans: "grown i xs fs fs' \<Longrightarrow> grown i ys fs' fs'' \<Longrightarrow> grown i (xs @ ys) fs fs''"
  by (simp add: grown_def)

lemma file_bytes_ino: "map_of (fs_tree fs) (split_path s) = Some (FileNode i) \<Longrightarrow> file_bytes fs s = Some (ino_data fs i)"
  by (simp add: file_bytes_def)

text \<open>Small file systems for the examples.\<close>

definition demo_fs :: fsys where
  "demo_fs = \<lparr>fs_tree = [], fs_inodes = (\<lambda>_. \<lparr>in_data = [], in_mtime = 0\<rparr>), fs_next = 0, fs_clock = 0\<rparr>"

definition file_fs :: "string \<Rightarrow> byte list \<Rightarrow> fsys" where
  "file_fs s d = \<lparr>fs_tree = [(split_path s, FileNode 0)], fs_inodes = (\<lambda>_. \<lparr>in_data = d, in_mtime = 0\<rparr>),
     fs_next = 1, fs_clock = 0\<rparr>"

lemma file_bytes_file_fs [simp]: "file_bytes (file_fs s d) s = Some d"
  by (simp add: file_bytes_def file_fs_def ino_data_def)

section \<open>Paths and names\<close>

text \<open>Joining a directory and a name.\<close>

definition plain_component :: "string \<Rightarrow> bool" where
  "plain_component n \<longleftrightarrow> n \<noteq> [] \<and> n \<noteq> ''.'' \<and> CHR ''/'' \<notin> set n"

text \<open>The components of the rest of a path.\<close>

definition comps :: "string \<Rightarrow> path" where
  "comps x = filter (\<lambda>c. c \<noteq> [] \<and> c \<noteq> ''.'') (split_at (CHR ''/'') [] x)"

lemma split_path_comps: "d \<noteq> [] \<Longrightarrow> split_path (d @ CHR ''/'' # x) = split_path d @ comps x"
  by (simp add: split_path_def split_at_append comps_def)

lemma comps_plain: "plain_component x \<Longrightarrow> comps x = [x]"
  by (simp add: comps_def split_at_plain plain_component_def)

lemma comps_append: "comps (x @ CHR ''/'' # y) = comps x @ comps y"
  by (simp add: comps_def split_at_append)

lemma split_path_join:
  assumes "d \<noteq> []" "plain_component n"
  shows "split_path (d @ CHR ''/'' # n) = split_path d @ [n]"
  using assms by (simp add: split_path_def split_at_append split_at_plain plain_component_def)

lemma split_path_inj_join:
  "d \<noteq> [] \<Longrightarrow> plain_component m \<Longrightarrow> plain_component n \<Longrightarrow>
   split_path (d @ CHR ''/'' # m) = split_path (d @ CHR ''/'' # n) \<longleftrightarrow> m = n"
  by (simp add: split_path_join)

lemma fs_next_bind [os_facts]: "fs_next (bind_node p n fs) = fs_next fs"
  by (simp add: bind_node_def)

text \<open>Names bound to inodes below the allocation mark, no inode under two names.\<close>

definition fs_wf :: "fsys \<Rightarrow> bool" where
  "fs_wf fs \<longleftrightarrow>
     (\<forall>p i. map_of (fs_tree fs) p = Some (FileNode i) \<longrightarrow> i < fs_next fs)
   \<and> (\<forall>p q i. map_of (fs_tree fs) p = Some (FileNode i) \<longrightarrow> map_of (fs_tree fs) q = Some (FileNode i) \<longrightarrow> p = q)"

lemma file_open_some:
  assumes "file_open s mode fs = (Some h, fs')" "fs_wf fs"
  shows "of_mode h = mode" "of_pos h = 0"
    "map_of (fs_tree fs') = (map_of (fs_tree fs))(split_path s \<mapsto> FileNode (of_ino h))"
    "fs_wf fs'" "\<And>j. j \<noteq> of_ino h \<Longrightarrow> ino_data fs' j = ino_data fs j"
    "\<And>q. q \<noteq> split_path s \<Longrightarrow> map_of (fs_tree fs) q \<noteq> Some (FileNode (of_ino h))"
    "mode = WRITE \<or> mode = READ_WRITE \<Longrightarrow> ino_data fs' (of_ino h) = []"
proof -
  let ?p = "split_path s"
  consider i where "map_of (fs_tree fs) ?p = Some (FileNode i)" | "map_of (fs_tree fs) ?p = None"
    using assms(1) by (auto simp: file_open_def Let_def split: option.splits node.splits)
  then have *: "of_mode h = mode \<and> of_pos h = 0
      \<and> map_of (fs_tree fs') = (map_of (fs_tree fs))(?p \<mapsto> FileNode (of_ino h))
      \<and> fs_wf fs' \<and> (\<forall>j. j \<noteq> of_ino h \<longrightarrow> ino_data fs' j = ino_data fs j)
      \<and> (\<forall>q. q \<noteq> ?p \<longrightarrow> map_of (fs_tree fs) q \<noteq> Some (FileNode (of_ino h)))
      \<and> (mode = WRITE \<or> mode = READ_WRITE \<longrightarrow> ino_data fs' (of_ino h) = [])"
  proof cases
    case (1 i)
    then have "h = \<lparr>of_ino = i, of_pos = 0, of_mode = mode\<rparr>"
      "fs' = (if mode = WRITE \<or> mode = READ_WRITE then set_inode i [] fs else fs)"
      using assms(1) by (auto simp: file_open_def Let_def)
    with 1 assms(2) show ?thesis
      by (auto simp: fs_wf_def os_facts fun_upd_idem)
  next
    case 2
    then have "h = \<lparr>of_ino = fs_next fs, of_pos = 0, of_mode = mode\<rparr>" "fs' = snd (create_file ?p fs)"
      using assms(1) by (auto simp: file_open_def Let_def create_file_def split: if_splits)
    moreover have "map_of (fs_tree fs) q \<noteq> Some (FileNode (fs_next fs))" for q
      using assms(2) by (auto simp: fs_wf_def)
    moreover have "ino_data (fs\<lparr>fs_next := n\<rparr>) = ino_data fs" for n
      by (simp add: fun_eq_iff ino_data_def)
    ultimately show ?thesis
      using assms(2) by (auto simp: fs_wf_def create_file_def Let_def os_facts less_Suc_eq)
  qed
  then show "of_mode h = mode" "of_pos h = 0"
    "map_of (fs_tree fs') = (map_of (fs_tree fs))(split_path s \<mapsto> FileNode (of_ino h))"
    "fs_wf fs'" "\<And>j. j \<noteq> of_ino h \<Longrightarrow> ino_data fs' j = ino_data fs j"
    "\<And>q. q \<noteq> split_path s \<Longrightarrow> map_of (fs_tree fs) q \<noteq> Some (FileNode (of_ino h))"
    "mode = WRITE \<or> mode = READ_WRITE \<Longrightarrow> ino_data fs' (of_ino h) = []"
    by auto
qed

text \<open>Writing through a handle leaves the files of all other names alone.\<close>

lemma other_file_bytes:
  assumes "map_of (fs_tree fs') (split_path q) = map_of (fs_tree fs) (split_path q)"
    and "\<And>j. j \<noteq> i \<Longrightarrow> ino_data fs' j = ino_data fs j"
    and "map_of (fs_tree fs) (split_path q) \<noteq> Some (FileNode i)"
  shows "file_bytes fs' q = file_bytes fs q"
  using assms by (auto simp: file_bytes_def split: option.splits node.splits)

section \<open>Rows of reads and writes\<close>

text \<open>A row of writes whose results nobody looks at.\<close>

fun file_writes :: "byte list list \<Rightarrow> os_file \<Rightarrow> fsys \<Rightarrow> os_file \<times> fsys" where
  "file_writes [] f fs = (f, fs)"
| "file_writes (d # ds) f fs = (case file_write d f fs of (_, f, fs) \<Rightarrow> file_writes ds f fs)"

text \<open>\<^verbatim>\<open>Read(&x, n, &br) && br == n\<close>; a failure is always followed by \<^verbatim>\<open>return false\<close>.\<close>

definition read_exact :: "nat \<Rightarrow> os_file \<Rightarrow> fsys \<Rightarrow> (byte list \<times> os_file) option" where
  "read_exact n f fs =
     (case file_read n f fs of
        (Some d, f) \<Rightarrow> if length d = n then Some (d, f) else None
      | (None, _) \<Rightarrow> None)"

text \<open>A read into a zeroed buffer whose result nobody looks at.\<close>

definition read_zeroed :: "nat \<Rightarrow> os_file \<Rightarrow> fsys \<Rightarrow> byte list \<times> os_file" where
  "read_zeroed n f fs =
     (case file_read n f fs of
        (Some d, f) \<Rightarrow> (d @ replicate (n - length d) 0, f)
      | (None, f) \<Rightarrow> (replicate n 0, f))"

text \<open>The only change to the file system is the contents of one inode.\<close>

definition only_inode :: "nat \<Rightarrow> fsys \<Rightarrow> fsys \<Rightarrow> bool" where
  "only_inode i fs fs' \<longleftrightarrow> (\<forall>j. j \<noteq> i \<longrightarrow> ino_data fs' j = ino_data fs j)
     \<and> fs_tree fs' = fs_tree fs \<and> fs_next fs' = fs_next fs"

lemma only_inode_trans: "only_inode i fs fs' \<Longrightarrow> only_inode i fs' fs'' \<Longrightarrow> only_inode i fs fs''"
  by (simp add: only_inode_def)

lemma grown_only: "grown i bs fs fs' \<Longrightarrow> only_inode i fs fs'"
  by (simp add: grown_def only_inode_def)

abbreviation rd_handle :: "nat \<Rightarrow> nat \<Rightarrow> os_file" where
  "rd_handle i p \<equiv> Some \<lparr>of_ino = i, of_pos = p, of_mode = READ\<rparr>"

lemma drop_rest: "drop p d = xs @ ys \<Longrightarrow> length xs = n \<Longrightarrow> drop (p + n) d = ys"
  by (metis add.commute append_eq_conv_conj drop_drop)

lemma read_rest:
  assumes "drop p (ino_data fs i) = xs @ ys" "length xs = n"
  shows "read_exact n (rd_handle i p) fs = Some (xs, rd_handle i (p + n))"
    and "read_zeroed n (rd_handle i p) fs = (xs, rd_handle i (p + n))"
    and "snd (file_read n (rd_handle i p) fs) = rd_handle i (p + n)"
  using assms by (simp_all add: read_exact_def read_zeroed_def file_read_some Let_def)

lemma file_writes_at_end:
  assumes "of_mode h \<noteq> READ" "of_mode h \<noteq> APPEND" "of_pos h = length (ino_data fs (of_ino h))"
  shows "grown (of_ino h) (concat ds) fs (snd (file_writes ds (Some h) fs))"
  using assms
proof (induction ds arbitrary: h fs)
  case (Cons d ds)
  show ?case
  proof (cases "d = []")
    case True
    with Cons show ?thesis by (simp add: file_write_def)
  next
    case False
    let ?fs = "set_inode (of_ino h) (ino_data fs (of_ino h) @ d) fs"
    have w: "file_write d (Some h) fs = (True, Some (h\<lparr>of_pos := of_pos h + length d\<rparr>), ?fs)"
      using False Cons.prems by (simp add: file_write_def Let_def overwrite_end)
    have "grown (of_ino h) d fs ?fs" by (simp add: grown_def os_facts)
    moreover have "grown (of_ino h) (concat ds) ?fs (snd (file_writes ds (Some (h\<lparr>of_pos := of_pos h + length d\<rparr>)) ?fs))"
      using Cons.IH [of "h\<lparr>of_pos := of_pos h + length d\<rparr>" ?fs] Cons.prems by (simp add: os_facts)
    ultimately show ?thesis using grown_trans w by simp
  qed
qed (simp add: grown_refl)

text \<open>A file created or truncated and then written has exactly the bytes written.\<close>

lemma written_file:
  assumes "file_open s mode fs = (Some h, fs0)" "mode = WRITE \<or> mode = READ_WRITE"
  shows "file_bytes (snd (file_writes ds (Some h) fs0)) s = Some (concat ds)"
proof -
  have h: "of_mode h = mode" "of_pos h = 0" "ino_data fs0 (of_ino h) = []"
    "map_of (fs_tree fs0) (split_path s) = Some (FileNode (of_ino h))"
    using assms by (auto simp: file_open_def Let_def create_file_def os_facts split: option.splits node.splits if_splits)
  then have "grown (of_ino h) (concat ds) fs0 (snd (file_writes ds (Some h) fs0))"
    using assms(2) by (intro file_writes_at_end) auto
  with h(3,4) show ?thesis by (simp add: grown_def file_bytes_def)
qed

end
