(* ===== verification/Text_Util.thy ===== *)
theory Text_Util
  imports TSDB_Prelude
begin

text \<open>
  Operations on strings that several components use: \<^verbatim>\<open>std::string::find\<close>, trimming, lines and
  upper case.
\<close>

section \<open>Finding\<close>

text \<open>\<^verbatim>\<open>std::string::find\<close>: the first position at which the needle occurs.\<close>

fun find_string :: "string \<Rightarrow> string \<Rightarrow> nat option" where
  "find_string needle [] = (if needle = [] then Some 0 else None)"
| "find_string needle (c # cs) =
     (if prefix needle (c # cs) then Some 0 else map_option Suc (find_string needle cs))"

text \<open>With a start position, as \<^verbatim>\<open>find(needle, pos)\<close>; none is found from behind the end.\<close>

definition find_from :: "string \<Rightarrow> string \<Rightarrow> nat \<Rightarrow> nat option" where
  "find_from needle s pos = (if pos \<le> length s then map_option ((+) pos) (find_string needle (drop pos s)) else None)"

lemma find_string_absent:
  "needle \<noteq> [] \<Longrightarrow> hd needle \<notin> set hay \<Longrightarrow> find_string needle hay = None"
proof (induction hay)
  case (Cons c cs)
  then show ?case by (cases needle) auto
qed simp

lemma find_string_at:
  assumes "needle = x # xs" "x \<notin> set pre"
  shows "find_string needle (pre @ needle @ rest) = Some (length pre)"
  using assms(2) by (induction pre) (auto simp: assms(1) prefix_def)

lemma find_string_skip:
  assumes "needle = x # xs" "x \<notin> set pre" "find_string needle rest = None"
  shows "find_string needle (pre @ rest) = None"
  using assms(2) by (induction pre) (auto simp: assms(1) assms(3) [unfolded assms(1)])

lemma find_string_split:
  "find_string needle s = Some i \<Longrightarrow> \<exists>post. s = take i s @ needle @ post \<and> i \<le> length s"
proof (induction s arbitrary: i)
  case (Cons c cs)
  then show ?case by (auto simp: prefix_def split: if_splits)
qed (auto split: if_splits)

lemma find_string_some: "find_string needle s = Some i \<Longrightarrow> i + length needle \<le> length s"
proof -
  assume "find_string needle s = Some i"
  from find_string_split [OF this] obtain post where p: "s = take i s @ needle @ post" "i \<le> length s" by blast
  from arg_cong [OF p(1), where f = length] p(2) show ?thesis by (simp only: length_append length_take)
qed

lemma find_from_some:
  "find_from needle s pos = Some i \<Longrightarrow> pos \<le> i \<and> i + length needle \<le> length s"
  by (auto simp: find_from_def dest!: find_string_some split: if_splits)

section \<open>Trimming\<close>

definition trim_set :: "char list \<Rightarrow> string \<Rightarrow> string" where
  "trim_set cs s = rev (dropWhile (\<lambda>c. c \<in> set cs) (rev (dropWhile (\<lambda>c. c \<in> set cs) s)))"

definition blanks :: string where
  "blanks = [CHR '' '', CHR 0x09]"

definition line_blanks :: string where
  "line_blanks = [CHR '' '', CHR 0x09, CHR 0x0D, CHR 0x0A]"

definition trimmed :: "char list \<Rightarrow> string \<Rightarrow> bool" where
  "trimmed cs s \<longleftrightarrow> s \<noteq> [] \<and> hd s \<notin> set cs \<and> last s \<notin> set cs"

lemma trim_set_id: "trimmed cs s \<Longrightarrow> trim_set cs s = s"
proof -
  assume t: "trimmed cs s"
  then have "dropWhile (\<lambda>c. c \<in> set cs) s = s" by (cases s) (auto simp: trimmed_def)
  moreover have "dropWhile (\<lambda>c. c \<in> set cs) (rev s) = rev s"
    using t by (cases s rule: rev_cases) (auto simp: trimmed_def)
  ultimately show ?thesis by (simp add: trim_set_def)
qed

lemma trim_set_blank_right: "trimmed cs s \<Longrightarrow> c \<in> set cs \<Longrightarrow> trim_set cs (s @ [c]) = s"
  using trim_set_id [of cs s] by (cases s) (auto simp: trimmed_def trim_set_def)

lemma trim_set_blank_left: "c \<in> set cs \<Longrightarrow> trim_set cs (c # s) = trim_set cs s"
  by (simp add: trim_set_def)

section \<open>Lines\<close>

text \<open>\<^verbatim>\<open>std::getline\<close>: no line follows a final newline.\<close>

definition get_lines :: "string \<Rightarrow> string list" where
  "get_lines s = (let ls = split_at (CHR 0x0A) [] s in if last ls = [] then butlast ls else ls)"

lemma get_lines_text:
  assumes "\<forall>l\<in>set ls. CHR 0x0A \<notin> set l"
  shows "get_lines (concat (map (\<lambda>l. l @ [CHR 0x0A]) ls)) = ls"
proof -
  have "split_at (CHR 0x0A) [] (concat (map (\<lambda>l. l @ [CHR 0x0A]) ls)) = ls @ [[]]"
    using assms by (induction ls) (simp_all add: split_at_append split_at_plain)
  then show ?thesis by (simp add: get_lines_def)
qed

section \<open>Case\<close>

definition upper_string :: "string \<Rightarrow> string" where
  "upper_string = map to_upper"

definition lower_string :: "string \<Rightarrow> string" where
  "lower_string = map to_lower"

end
