(* ===== verification/Config.thy ===== *)
theory Config
  imports Number_Read Os_File Text_Util
begin

text \<open>
  The configuration file, \<^verbatim>\<open>src/src/common/config.{h,cpp}\<close>: sections, keys and values line by line.
  Keys of a section are stored as \<^verbatim>\<open>section.key\<close>; a later line replaces an earlier one.
\<close>

type_synonym config = "string \<Rightarrow> string option"

definition unquote :: "char \<Rightarrow> string \<Rightarrow> string" where
  "unquote q v = (if 2 \<le> length v \<and> hd v = q \<and> last v = q then butlast (tl v) else v)"

definition config_line :: "string \<Rightarrow> string \<times> config \<Rightarrow> string \<times> config" where
  "config_line line sc =
     (let line = trim_set line_blanks line in
      if line = [] \<or> hd line = CHR ''#'' then sc
      else if hd line = CHR ''['' \<and> last line = CHR '']'' then (butlast (tl line), snd sc)
      else if CHR ''='' \<notin> set line then sc
      else
        let key = trim_set blanks (takeWhile (\<lambda>c. c \<noteq> CHR ''='') line);
            value = trim_set blanks (tl (dropWhile (\<lambda>c. c \<noteq> CHR ''='') line));
            value = unquote (CHR 0x27) (unquote (CHR 0x22) value);
            full_key = (if fst sc = [] then key else fst sc @ ''.'' @ key)
        in (fst sc, (snd sc)(full_key \<mapsto> value)))"

definition config_parse :: "string \<Rightarrow> config \<Rightarrow> config" where
  "config_parse content cfg = snd (fold config_line (get_lines content) ([], cfg))"

definition config_load :: "string \<Rightarrow> config \<Rightarrow> fsys \<Rightarrow> bool \<times> config" where
  "config_load path cfg fs =
     (case file_open path READ fs of
        (None, _) \<Rightarrow> (False, cfg)
      | (f, fs) \<Rightarrow>
          if file_size f fs \<le> 0 then (False, cfg)
          else case file_read (nat (file_size f fs)) f fs of
            (None, _) \<Rightarrow> (False, cfg)
          | (Some content, _) \<Rightarrow> (True, config_parse (bytes_string content) cfg))"

definition config_get :: "string \<Rightarrow> string \<Rightarrow> config \<Rightarrow> string" where
  "config_get key default_val cfg = (case cfg key of Some v \<Rightarrow> v | None \<Rightarrow> default_val)"

definition config_get_int :: "string \<Rightarrow> int \<Rightarrow> config \<Rightarrow> int" where
  "config_get_int key default_val cfg =
     (case cfg key of
        Some v \<Rightarrow> (case stoi v of Inr (i, _) \<Rightarrow> i | Inl _ \<Rightarrow> default_val)
      | None \<Rightarrow> default_val)"

section \<open>Writing and reading a configuration\<close>

datatype config_item = Section string | Setting string string

fun config_text :: "config_item \<Rightarrow> string" where
  "config_text (Section s) = ''['' @ s @ '']''"
| "config_text (Setting k v) = k @ '' = '' @ [CHR 0x22] @ v @ [CHR 0x22]"

fun config_apply :: "config_item \<Rightarrow> string \<times> config \<Rightarrow> string \<times> config" where
  "config_apply (Section s) (sec, cfg) = (s, cfg)"
| "config_apply (Setting k v) (sec, cfg) = (sec, cfg((if sec = [] then k else sec @ ''.'' @ k) \<mapsto> v))"

text \<open>A key without blanks around it that is no comment, section or assignment; a value on one line that keeps its single quotes.\<close>

fun config_item_ok :: "config_item \<Rightarrow> bool" where
  "config_item_ok (Section s) \<longleftrightarrow> CHR 0x0A \<notin> set s"
| "config_item_ok (Setting k v) \<longleftrightarrow> trimmed line_blanks k \<and> CHR 0x0A \<notin> set k \<and> CHR ''='' \<notin> set k \<and> hd k \<noteq> CHR ''#''
     \<and> CHR 0x0A \<notin> set v \<and> unquote (CHR 0x27) v = v"

lemma config_line_text:
  assumes "config_item_ok x"
  shows "config_line (config_text x) st = config_apply x st"
proof (cases x)
  case (Section s)
  have "trimmed line_blanks (''['' @ s @ '']'')" by (simp add: trimmed_def line_blanks_def)
  from trim_set_id [OF this] Section show ?thesis by (cases st) (simp add: config_line_def)
next
  case (Setting k v)
  let ?l = "k @ '' = '' @ [CHR 0x22] @ v @ [CHR 0x22]"
  have k: "trimmed line_blanks k" "CHR ''='' \<notin> set k" "hd k \<noteq> CHR ''#''" using assms Setting by simp_all
  then have "k \<noteq> []" by (simp add: trimmed_def)
  then have "trimmed line_blanks ?l" using k(1) by (simp add: trimmed_def line_blanks_def)
  then have t: "trim_set line_blanks ?l = ?l" by (rule trim_set_id)
  have key: "takeWhile (\<lambda>c. c \<noteq> CHR ''='') ?l = k @ '' ''" "dropWhile (\<lambda>c. c \<noteq> CHR ''='') ?l = ''= '' @ [CHR 0x22] @ v @ [CHR 0x22]"
    using k(2) by (auto simp: takeWhile_append dropWhile_append)
  have "trimmed blanks k" "trimmed blanks ([CHR 0x22] @ v @ [CHR 0x22])"
    using k(1) by (auto simp: trimmed_def line_blanks_def blanks_def)
  then have tr: "trim_set blanks (k @ '' '') = k" "trim_set blanks ('' '' @ [CHR 0x22] @ v @ [CHR 0x22]) = [CHR 0x22] @ v @ [CHR 0x22]"
    using trim_set_blank_right [of blanks k "CHR '' ''"] trim_set_blank_left [of "CHR '' ''" blanks] trim_set_id
    by (simp_all add: blanks_def)
  have "unquote (CHR 0x27) (unquote (CHR 0x22) ([CHR 0x22] @ v @ [CHR 0x22])) = v"
    using assms Setting by (simp add: unquote_def)
  with Setting t key tr k(3) \<open>k \<noteq> []\<close> show ?thesis
    by (cases st) (simp add: config_line_def Let_def)
qed

section \<open>Properties\<close>

text \<open>
  What is written as a configuration file is what is read: a file of section headers and quoted
  settings, one on a line, loads as the settings under their section's name, the last one for a key
  winning and the settings already loaded kept.
\<close>

lemma config_reads_back:
  assumes "list_all config_item_ok items" "items \<noteq> []"
    and "file_bytes fs path = Some (string_bytes (concat (map (\<lambda>x. config_text x @ [CHR 0x0A]) items)))"
  shows "config_load path cfg fs = (True, snd (fold config_apply items ([], cfg)))"
proof -
  let ?c = "concat (map (\<lambda>x. config_text x @ [CHR 0x0A]) items)"
  obtain i where i: "file_open path READ fs = (Some \<lparr>of_ino = i, of_pos = 0, of_mode = READ\<rparr>, fs)"
    "ino_data fs i = string_bytes ?c"
    using file_bytes_open_read [OF assms(3)] by blast
  have "CHR 0x0A \<notin> set (config_text x)" if "config_item_ok x" for x
    using that by (cases x) auto
  then have "\<forall>l\<in>set (map config_text items). CHR 0x0A \<notin> set l"
    using assms(1) by (auto simp: list_all_iff)
  from get_lines_text [OF this] have lines: "get_lines ?c = map config_text items" by (simp add: comp_def)
  have "fold config_line (map config_text items) st = fold config_apply items st" for st
    using assms(1) by (induction items arbitrary: st) (simp_all add: config_line_text)
  then have p: "config_parse ?c cfg = snd (fold config_apply items ([], cfg))" by (simp add: config_parse_def lines)
  have "?c \<noteq> []" using assms(2) by (cases items) simp_all
  then have "0 < length (string_bytes ?c)" by simp
  then show ?thesis
    using i p by (simp add: config_load_def file_size_def file_read_some Let_def bytes_string_string_bytes del: length_string_bytes)
qed

definition demo_items :: "config_item list" where
  "demo_items = [Section ''server'', Setting ''port'' ''9000'', Section ''storage'', Setting ''data_dir'' ''/d'', Setting ''data_dir'' ''/e'']"

lemma config_reads_back_witness:
  "config_get_int ''server.port'' 8086
     (snd (config_load ''f'' Map.empty (file_fs ''f'' (string_bytes (concat (map (\<lambda>x. config_text x @ [CHR 0x0A]) demo_items)))))) = 9000
   \<and> config_get ''storage.data_dir'' ''./data''
     (snd (config_load ''f'' Map.empty (file_fs ''f'' (string_bytes (concat (map (\<lambda>x. config_text x @ [CHR 0x0A]) demo_items)))))) = ''/e''"
proof -
  let ?d = "string_bytes (concat (map (\<lambda>x. config_text x @ [CHR 0x0A]) demo_items))"
  have "list_all config_item_ok demo_items" "demo_items \<noteq> []" by code_simp+
  moreover have "file_bytes (file_fs ''f'' ?d) ''f'' = Some ?d"
    by (simp add: file_bytes_def file_fs_def ino_data_def)
  ultimately have l: "config_load ''f'' Map.empty (file_fs ''f'' ?d) = (True, snd (fold config_apply demo_items ([], Map.empty)))"
    by (rule config_reads_back)
  have "stoi ''9000'' = Inr (9000, [])" by code_simp
  then show ?thesis unfolding l by (simp add: demo_items_def config_get_int_def config_get_def)
qed

end
