(* ===== verification/Checksum.thy ===== *)
theory Checksum
  imports TSDB_Prelude
begin

unbundle bit_operations_syntax

text \<open>
  The two CRC-32 implementations of the storage layer: \<^verbatim>\<open>wal.cpp\<close> computes its table on first
  use, \<^verbatim>\<open>sstable.cpp\<close> spells it out. Both fold the same step over the bytes. The interface
  \<open>streaming_digest\<close> is the law a digest fed in chunks relies on; the interface \<open>byte_checksum\<close> is
  what makes a one-byte corruption visible.
\<close>

section \<open>The two tables\<close>

definition crc_shift :: "u32 \<Rightarrow> u32" where
  "crc_shift crc = (if crc AND 1 \<noteq> 0 then drop_bit 1 crc XOR 0xEDB88320 else drop_bit 1 crc)"

definition init_crc32_entry :: "nat \<Rightarrow> u32" where
  "init_crc32_entry i = (crc_shift ^^ 8) (word_of_nat i)"

definition init_crc32 :: "u32 list" where
  "init_crc32 = map init_crc32_entry [0..<256]"

definition k_crc32_table :: "u32 list" where
  "k_crc32_table = [
     0x00000000, 0x77073096, 0xEE0E612C, 0x990951BA, 0x076DC419, 0x706AF48F,
     0xE963A535, 0x9E6495A3, 0x0EDB8832, 0x79DCB8A4, 0xE0D5E91E, 0x97D2D988,
     0x09B64C2B, 0x7EB17CBD, 0xE7B82D07, 0x90BF1D91, 0x1DB71064, 0x6AB020F2,
     0xF3B97148, 0x84BE41DE, 0x1ADAD47D, 0x6DDDE4EB, 0xF4D4B551, 0x83D385C7,
     0x136C9856, 0x646BA8C0, 0xFD62F97A, 0x8A65C9EC, 0x14015C4F, 0x63066CD9,
     0xFA0F3D63, 0x8D080DF5, 0x3B6E20C8, 0x4C69105E, 0xD56041E4, 0xA2677172,
     0x3C03E4D1, 0x4B04D447, 0xD20D85FD, 0xA50AB56B, 0x35B5A8FA, 0x42B2986C,
     0xDBBBC9D6, 0xACBCF940, 0x32D86CE3, 0x45DF5C75, 0xDCD60DCF, 0xABD13D59,
     0x26D930AC, 0x51DE003A, 0xC8D75180, 0xBFD06116, 0x21B4F4B5, 0x56B3C423,
     0xCFBA9599, 0xB8BDA50F, 0x2802B89E, 0x5F058808, 0xC60CD9B2, 0xB10BE924,
     0x2F6F7C87, 0x58684C11, 0xC1611DAB, 0xB6662D3D, 0x76DC4190, 0x01DB7106,
     0x98D220BC, 0xEFD5102A, 0x71B18589, 0x06B6B51F, 0x9FBFE4A5, 0xE8B8D433,
     0x7807C9A2, 0x0F00F934, 0x9609A88E, 0xE10E9818, 0x7F6A0DBB, 0x086D3D2D,
     0x91646C97, 0xE6635C01, 0x6B6B51F4, 0x1C6C6162, 0x856530D8, 0xF262004E,
     0x6C0695ED, 0x1B01A57B, 0x8208F4C1, 0xF50FC457, 0x65B0D9C6, 0x12B7E950,
     0x8BBEB8EA, 0xFCB9887C, 0x62DD1DDF, 0x15DA2D49, 0x8CD37CF3, 0xFBD44C65,
     0x4DB26158, 0x3AB551CE, 0xA3BC0074, 0xD4BB30E2, 0x4ADFA541, 0x3DD895D7,
     0xA4D1C46D, 0xD3D6F4FB, 0x4369E96A, 0x346ED9FC, 0xAD678846, 0xDA60B8D0,
     0x44042D73, 0x33031DE5, 0xAA0A4C5F, 0xDD0D7CC9, 0x5005713C, 0x270241AA,
     0xBE0B1010, 0xC90C2086, 0x5768B525, 0x206F85B3, 0xB966D409, 0xCE61E49F,
     0x5EDEF90E, 0x29D9C998, 0xB0D09822, 0xC7D7A8B4, 0x59B33D17, 0x2EB40D81,
     0xB7BD5C3B, 0xC0BA6CAD, 0xEDB88320, 0x9ABFB3B6, 0x03B6E20C, 0x74B1D29A,
     0xEAD54739, 0x9DD277AF, 0x04DB2615, 0x73DC1683, 0xE3630B12, 0x94643B84,
     0x0D6D6A3E, 0x7A6A5AA8, 0xE40ECF0B, 0x9309FF9D, 0x0A00AE27, 0x7D079EB1,
     0xF00F9344, 0x8708A3D2, 0x1E01F268, 0x6906C2FE, 0xF762575D, 0x806567CB,
     0x196C3671, 0x6E6B06E7, 0xFED41B76, 0x89D32BE0, 0x10DA7A5A, 0x67DD4ACC,
     0xF9B9DF6F, 0x8EBEEFF9, 0x17B7BE43, 0x60B08ED5, 0xD6D6A3E8, 0xA1D1937E,
     0x38D8C2C4, 0x4FDFF252, 0xD1BB67F1, 0xA6BC5767, 0x3FB506DD, 0x48B2364B,
     0xD80D2BDA, 0xAF0A1B4C, 0x36034AF6, 0x41047A60, 0xDF60EFC3, 0xA867DF55,
     0x316E8EEF, 0x4669BE79, 0xCB61B38C, 0xBC66831A, 0x256FD2A0, 0x5268E236,
     0xCC0C7795, 0xBB0B4703, 0x220216B9, 0x5505262F, 0xC5BA3BBE, 0xB2BD0B28,
     0x2BB45A92, 0x5CB36A04, 0xC2D7FFA7, 0xB5D0CF31, 0x2CD99E8B, 0x5BDEAE1D,
     0x9B64C2B0, 0xEC63F226, 0x756AA39C, 0x026D930A, 0x9C0906A9, 0xEB0E363F,
     0x72076785, 0x05005713, 0x95BF4A82, 0xE2B87A14, 0x7BB12BAE, 0x0CB61B38,
     0x92D28E9B, 0xE5D5BE0D, 0x7CDCEFB7, 0x0BDBDF21, 0x86D3D2D4, 0xF1D4E242,
     0x68DDB3F8, 0x1FDA836E, 0x81BE16CD, 0xF6B9265B, 0x6FB077E1, 0x18B74777,
     0x88085AE6, 0xFF0F6A70, 0x66063BCA, 0x11010B5C, 0x8F659EFF, 0xF862AE69,
     0x616BFFD3, 0x166CCF45, 0xA00AE278, 0xD70DD2EE, 0x4E048354, 0x3903B3C2,
     0xA7672661, 0xD06016F7, 0x4969474D, 0x3E6E77DB, 0xAED16A4A, 0xD9D65ADC,
     0x40DF0B66, 0x37D83BF0, 0xA9BCAE53, 0xDEBB9EC5, 0x47B2CF7F, 0x30B5FFE9,
     0xBDBDF21C, 0xCABAC28A, 0x53B39330, 0x24B4A3A6, 0xBAD03605, 0xCDD70693,
     0x54DE5729, 0x23D967BF, 0xB3667A2E, 0xC4614AB8, 0x5D681B02, 0x2A6F2B94,
     0xB40BBE37, 0xC30C8EA1, 0x5A05DF1B, 0x2D02EF8D]"

section \<open>The checksum\<close>

definition crc_step :: "u32 list \<Rightarrow> u32 \<Rightarrow> byte \<Rightarrow> u32" where
  "crc_step table crc b = table ! unat ((crc XOR ucast b) AND 0xFF) XOR drop_bit 8 crc"

definition crc_update :: "u32 list \<Rightarrow> byte list \<Rightarrow> u32 \<Rightarrow> u32" where
  "crc_update table data crc = foldl (crc_step table) crc data"

definition wal_crc32 :: "byte list \<Rightarrow> u32" where
  "wal_crc32 data = crc_update init_crc32 data 0xFFFFFFFF XOR 0xFFFFFFFF"

definition sst_crc32 :: "byte list \<Rightarrow> u32" where
  "sst_crc32 data = crc_update k_crc32_table data 0xFFFFFFFF XOR 0xFFFFFFFF"


lemma length_k_crc32_table [simp]: "length k_crc32_table = 256"
  by (simp add: k_crc32_table_def)

section \<open>The table step is eight shift steps\<close>

definition crc_bits :: "u32 \<Rightarrow> u32" where
  "crc_bits x = (crc_shift ^^ 8) x"

lemma crc_shift_bit:
  "bit (crc_shift x) n \<longleftrightarrow> n < 32 \<and> (bit x (Suc n) \<noteq> (bit x 0 \<and> bit (0xEDB88320 :: u32) n))"
proof -
  have "(x AND 1 \<noteq> 0) \<longleftrightarrow> bit x 0"
    by (simp add: and_one_eq bit_0 odd_iff_mod_2_eq_one)
  then show ?thesis
    by (auto simp: crc_shift_def bit_simps dest: bit_imp_le_length)
qed

lemma crc_shift_xor: "crc_shift (x XOR y) = crc_shift x XOR crc_shift y"
  by (rule bit_word_eqI) (auto simp: crc_shift_bit bit_simps)

lemma crc_shift_even: "\<not> bit x 0 \<Longrightarrow> crc_shift x = drop_bit 1 x"
  by (rule bit_word_eqI) (auto simp: crc_shift_bit bit_simps)

lemma crc_shift_inj: "crc_shift x = crc_shift y \<Longrightarrow> x = y"
proof -
  assume eq: "crc_shift x = crc_shift y"
  have hi: "bit (0xEDB88320 :: u32) 31" by simp
  have "\<not> bit x 32" "\<not> bit y 32" by (auto dest: bit_imp_le_length)
  with eq crc_shift_bit [of x 31] crc_shift_bit [of y 31] hi have b0: "bit x 0 = bit y 0"
    by simp
  have tails: "bit x (Suc n) = bit y (Suc n)" if "n < 32" for n
    using eq crc_shift_bit [of x n] crc_shift_bit [of y n] b0 that by auto
  show "x = y"
  proof (rule bit_word_eqI)
    fix n assume n: "n < LENGTH(32)"
    show "bit x n = bit y n"
    proof (cases n)
      case 0
      with b0 show ?thesis by simp
    next
      case (Suc m)
      with n tails [of m] show ?thesis by simp
    qed
  qed
qed

lemma crc_bits_xor: "crc_bits (x XOR y) = crc_bits x XOR crc_bits y"
proof -
  have "(crc_shift ^^ n) (x XOR y) = (crc_shift ^^ n) x XOR (crc_shift ^^ n) y" for n
    by (induction n) (simp_all add: crc_shift_xor)
  then show ?thesis by (simp add: crc_bits_def)
qed

lemma crc_bits_inj: "crc_bits x = crc_bits y \<Longrightarrow> x = y"
proof -
  have "(crc_shift ^^ n) x = (crc_shift ^^ n) y \<Longrightarrow> x = y" for n
    by (induction n) (auto dest: crc_shift_inj)
  then show "crc_bits x = crc_bits y \<Longrightarrow> x = y" by (simp add: crc_bits_def)
qed

lemma crc_bits_high: "take_bit 8 x = 0 \<Longrightarrow> crc_bits x = drop_bit 8 x"
proof -
  assume low: "take_bit 8 x = 0"
  have nb: "\<not> bit x n" if "n < 8" for n
    using low that by (metis bit_0_eq bit_take_bit_iff bot_apply bot_bool_def)
  have "n \<le> 8 \<Longrightarrow> (crc_shift ^^ n) x = drop_bit n x" for n
  proof (induction n)
    case (Suc n)
    then have "\<not> bit (drop_bit n x) 0" using nb by (simp add: bit_simps)
    with Suc show ?case by (simp add: crc_shift_even drop_bit_drop_bit)
  qed simp
  then show ?thesis by (simp add: crc_bits_def)
qed

lemma init_crc32_nth: "i < 256 \<Longrightarrow> init_crc32 ! i = crc_bits (word_of_nat i)"
  by (simp add: init_crc32_def init_crc32_entry_def crc_bits_def)

text \<open>One table step on a byte is eight shift steps on the register XORed with the byte.\<close>

lemma crc_step_init: "crc_step init_crc32 crc b = crc_bits (crc XOR ucast b)"
proof -
  let ?x = "crc XOR ucast b"
  have "(0xFF :: u32) = mask 8" by (simp add: mask_eq_exp_minus_1)
  then have low: "?x AND 0xFF = take_bit 8 ?x" by (simp only: take_bit_eq_mask)
  have "unat (take_bit 8 ?x) < 2 ^ 8"
    by (simp only: unsigned_take_bit_eq take_bit_nat_less_exp)
  then have "init_crc32 ! unat (?x AND 0xFF) = crc_bits (take_bit 8 ?x)"
    by (simp only: low) (simp add: init_crc32_nth del: take_bit_xor)
  moreover have "drop_bit 8 crc = crc_bits (?x XOR take_bit 8 ?x)"
  proof -
    have "take_bit 8 (?x XOR take_bit 8 ?x) = 0"
      by (rule bit_word_eqI) (auto simp: bit_simps)
    then have "crc_bits (?x XOR take_bit 8 ?x) = drop_bit 8 (?x XOR take_bit 8 ?x)"
      by (rule crc_bits_high)
    also have "\<dots> = drop_bit 8 crc"
      by (rule bit_word_eqI) (auto simp: bit_simps dest: bit_imp_le_length)
    finally show ?thesis by simp
  qed
  moreover have "take_bit 8 ?x XOR (?x XOR take_bit 8 ?x) = ?x"
    by (rule bit_word_eqI) (auto simp: bit_simps)
  ultimately show ?thesis
    unfolding crc_step_def by (metis crc_bits_xor)
qed

section \<open>The two tables agree\<close>

fun doubling :: "u32 list \<Rightarrow> u32 list" where
  "doubling [] = [0]"
| "doubling (base # bs) = (let t = doubling bs in t @ map (\<lambda>x. base XOR x) t)"

lemma word_of_nat_or_disjoint:
  "j < 2 ^ k \<Longrightarrow> (word_of_nat (2 ^ k + j) :: u32) = word_of_nat (2 ^ k) XOR word_of_nat j"
proof -
  assume j: "j < 2 ^ k"
  then have "take_bit k j = j" by (simp add: take_bit_nat_eq_self)
  then have nb: "\<not> bit j k" by (metis bit_take_bit_iff order_less_irrefl)
  have "2 ^ k AND j = 0" by (rule bit_eqI) (use nb in \<open>auto simp: bit_simps\<close>)
  then have "2 ^ k + j = 2 ^ k XOR j"
    by (simp add: disjunctive_add_eq_xor)
  then show ?thesis by (metis of_nat_xor_eq)
qed

lemma doubling_init:
  "map (\<lambda>i. crc_bits (word_of_nat i)) [0..<2 ^ n] =
   doubling (map (\<lambda>k. crc_bits (word_of_nat (2 ^ k))) (rev [0..<n]))"
proof (induction n)
  case 0
  have "crc_bits 0 = 0" by (simp add: crc_bits_high)
  then show ?case by simp
next
  case (Suc n)
  let ?f = "\<lambda>i. crc_bits (word_of_nat i)"
  have "[0..<2 ^ Suc n] = [0..<2 ^ n] @ map (\<lambda>j. 2 ^ n + j) [0..<2 ^ n]"
    by (simp add: mult_2 upt_add_eq_append [of 0] map_add_upt add.commute)
  then have "map ?f [0..<2 ^ Suc n] = map ?f [0..<2 ^ n] @ map (\<lambda>j. ?f (2 ^ n + j)) [0..<2 ^ n]"
    by (simp only: map_append map_map comp_def)
  also have "map (\<lambda>j. ?f (2 ^ n + j)) [0..<2 ^ n] = map (\<lambda>x. ?f (2 ^ n) XOR x) (map ?f [0..<2 ^ n])"
    by (simp add: word_of_nat_or_disjoint crc_bits_xor del: of_nat_add)
  finally show ?case by (simp add: Suc Let_def)
qed

lemma crc_shift_eight:
  "crc_bits x = crc_shift (crc_shift (crc_shift (crc_shift (crc_shift (crc_shift (crc_shift (crc_shift x)))))))"
  by (simp add: crc_bits_def numeral_eq_Suc)

lemma crc_bits_powers:
  "map (\<lambda>k. crc_bits (word_of_nat (2 ^ k))) (rev [0..<8]) =
   [0xEDB88320, 0x76DC4190, 0x3B6E20C8, 0x1DB71064, 0x0EDB8832, 0x076DC419, 0xEE0E612C, 0x77073096]"
  by (simp add: upt_rec crc_shift_eight crc_shift_def)

lemma crc_tables_equal: "init_crc32 = k_crc32_table"
proof -
  have "init_crc32 = map (\<lambda>i. crc_bits (word_of_nat i)) [0..<2 ^ 8]"
    by (simp add: init_crc32_def init_crc32_entry_def crc_bits_def)
  also have "\<dots> = k_crc32_table"
    unfolding doubling_init crc_bits_powers by (simp add: k_crc32_table_def Let_def)
  finally show ?thesis .
qed

section \<open>Feeding in chunks, and one changed byte\<close>

locale streaming_digest =
  fixes upd :: "byte list \<Rightarrow> 's \<Rightarrow> 's"
  assumes upd_Nil: "upd [] s = s"
    and upd_append: "upd (xs @ ys) s = upd ys (upd xs s)"
begin

lemma chunked: "fold upd chunks s = upd (concat chunks) s"
  by (induction chunks arbitrary: s) (simp_all add: upd_Nil upd_append)

end

interpretation crc: streaming_digest "crc_update table" for table
  by unfold_locales (simp_all add: crc_update_def)

locale byte_checksum =
  fixes step :: "'s \<Rightarrow> byte \<Rightarrow> 's"
  assumes step_state_inj: "step s b = step t b \<Longrightarrow> s = t"
    and step_byte_inj: "step s b = step s c \<Longrightarrow> b = c"
begin

lemma foldl_step_inj: "foldl step s xs = foldl step t xs \<Longrightarrow> s = t"
  by (induction xs arbitrary: s t) (auto dest: step_state_inj)

lemma one_byte_change:
  assumes "i < length xs" "foldl step s (xs[i := b]) = foldl step s xs"
  shows "b = xs ! i"
proof -
  have "foldl step (step (foldl step s (take i xs)) b) (drop (Suc i) xs) =
      foldl step (step (foldl step s (take i xs)) (xs ! i)) (drop (Suc i) xs)"
    using assms by (subst (asm) (2) id_take_nth_drop [OF assms(1)]) (simp add: upd_conv_take_nth_drop)
  then show ?thesis by (rule step_byte_inj [OF foldl_step_inj])
qed

end

interpretation crcsum: byte_checksum "crc_step k_crc32_table"
proof unfold_locales
  have step: "crc_step k_crc32_table s b = crc_bits (s XOR ucast b)" for s b
    using crc_step_init [of s b] by (simp add: crc_tables_equal)
  fix s t :: u32 and b c :: byte
  have undo: "(x XOR y) XOR y = (x :: u32)" for x y
    by (rule bit_word_eqI) (auto simp: bit_simps)
  show "s = t" if "crc_step k_crc32_table s b = crc_step k_crc32_table t b"
    using that undo by (metis step crc_bits_inj)
  show "b = c" if "crc_step k_crc32_table s b = crc_step k_crc32_table s c"
  proof -
    have "s XOR ucast b = s XOR (ucast c :: u32)" using that by (metis step crc_bits_inj)
    then have "(ucast b :: u32) = ucast c" by (metis undo xor.commute)
    moreover have "(ucast (ucast x :: u32) :: byte) = x" for x :: byte
      by (rule bit_word_eqI) (auto simp: bit_simps)
    ultimately show "b = c" by metis
  qed
qed

lemma wal_crc32_sst: "wal_crc32 = sst_crc32"
  by (simp add: wal_crc32_def sst_crc32_def crc_tables_equal fun_eq_iff)

lemma xor_ones_inj: "x XOR m = y XOR m \<Longrightarrow> x = (y :: u32)"
proof -
  assume "x XOR m = y XOR m"
  then have "(x XOR m) XOR m = (y XOR m) XOR m" by simp
  moreover have "(z XOR m) XOR m = z" for z :: u32
    by (rule bit_word_eqI) (auto simp: bit_simps)
  ultimately show "x = y" by simp
qed

lemma sst_crc32_change:
  assumes "i < length data" "b \<noteq> data ! i"
  shows "sst_crc32 (data[i := b]) \<noteq> sst_crc32 data"
proof
  assume "sst_crc32 (data[i := b]) = sst_crc32 data"
  then have "foldl (crc_step k_crc32_table) 0xFFFFFFFF (data[i := b]) =
      foldl (crc_step k_crc32_table) 0xFFFFFFFF data"
    unfolding sst_crc32_def crc_update_def by (rule xor_ones_inj)
  with crcsum.one_byte_change [OF assms(1)] assms(2) show False by blast
qed

section \<open>Properties\<close>

text \<open>
  The table that \<^verbatim>\<open>wal.cpp\<close> computes is the table that \<^verbatim>\<open>sstable.cpp\<close> spells out, so
  the two routines compute the same checksum of every buffer.
\<close>

lemma crc32_implementations_agree:
  "init_crc32 = k_crc32_table \<and> wal_crc32 data = sst_crc32 data"
  by (simp add: crc_tables_equal wal_crc32_sst)

text \<open>Changing one byte of a buffer, whatever its length, changes its checksum.\<close>

lemma crc32_detects_byte_change:
  assumes "i < length data" "b \<noteq> data ! i"
  shows "sst_crc32 (data[i := b]) \<noteq> sst_crc32 data"
  using assms by (rule sst_crc32_change)

lemma crc32_detects_byte_change_witness: "sst_crc32 [1, 9, 3] \<noteq> sst_crc32 [1, 2, 3]"
  using crc32_detects_byte_change [of 1 "[1, 2, 3]" 9] by simp

end
