(* ===== verification/Wal.thy ===== *)
theory Wal
  imports Os_File Checksum
begin

unbundle bit_operations_syntax

text \<open>
  The write-ahead log of \<^verbatim>\<open>src/src/storage/wal.{h,cpp}\<close>: \<^verbatim>\<open>WalWriter\<close> appends entries of a
  12-byte header (CRC, type, three indeterminate padding bytes, length) and a payload;
  \<^verbatim>\<open>WalReader\<close> reads them back until the first entry that is incomplete or fails its CRC.
\<close>

section \<open>Entries\<close>

datatype wal_entry_type = DATA_POINT | TAG_META | CHECKPOINT

fun wal_type_byte :: "wal_entry_type \<Rightarrow> byte" where
  "wal_type_byte DATA_POINT = 0"
| "wal_type_byte TAG_META = 1"
| "wal_type_byte CHECKPOINT = 2"

type_synonym padding = "byte \<times> byte \<times> byte"

fun wal_header :: "padding \<Rightarrow> u32 \<Rightarrow> wal_entry_type \<Rightarrow> u32 \<Rightarrow> byte list" where
  "wal_header (x, y, z) crc t data_len = le_bytes 4 crc @ [wal_type_byte t, x, y, z] @ le_bytes 4 data_len"

definition wal_payload :: "string \<Rightarrow> timestamp \<Rightarrow> f64 \<Rightarrow> byte list" where
  "wal_payload tag ts v =
     (let tag_len = (word_of_nat (length tag) :: u16)
      in le_bytes 2 tag_len @ take (unat tag_len) (string_bytes tag) @ le_bytes 8 ts @ le_bytes 8 v)"

section \<open>WalWriter\<close>

record wal_writer =
  ww_path :: string
  ww_file :: os_file
  ww_size :: nat
  ww_opened :: bool

definition wal_writer_new :: "string \<Rightarrow> wal_writer" where
  "wal_writer_new path = \<lparr>ww_path = path, ww_file = None, ww_size = 0, ww_opened = False\<rparr>"

definition wal_open :: "wal_writer \<Rightarrow> fsys \<Rightarrow> bool \<times> wal_writer \<times> fsys" where
  "wal_open w fs =
     (case file_open (ww_path w) APPEND fs of
        (None, fs') \<Rightarrow> (False, w\<lparr>ww_file := None\<rparr>, fs')
      | (f, fs') \<Rightarrow> (True, w\<lparr>ww_file := f, ww_size := nat (file_size f fs'), ww_opened := True\<rparr>, fs'))"

definition wal_write_raw :: "byte list \<Rightarrow> wal_writer \<Rightarrow> fsys \<Rightarrow> bool \<times> wal_writer \<times> fsys" where
  "wal_write_raw data w fs =
     (if \<not> ww_opened w then (False, w, fs)
      else case file_write data (ww_file w) fs of
        (ok, f, fs') \<Rightarrow>
          if \<not> ok then (False, w\<lparr>ww_file := f\<rparr>, fs')
          else (True, w\<lparr>ww_file := f, ww_size := ww_size w + length data\<rparr>, fs'))"

text \<open>
  \<^verbatim>\<open>std::get<double>\<close> throws when the value is not a double: the outcome is the exception
  or the returned flag, beside the state the call leaves behind.
\<close>

datatype cpp_error = Bad_Variant_Access | Out_Of_Bounds

definition wal_append_write :: "padding \<Rightarrow> string \<Rightarrow> data_point \<Rightarrow> wal_writer \<Rightarrow> fsys
    \<Rightarrow> (cpp_error + bool) \<times> wal_writer \<times> fsys" where
  "wal_append_write pad tag point w fs =
     (case dp_value point of
        VDouble v \<Rightarrow>
          let data = wal_payload tag (dp_ts point) v;
              header = wal_header pad (wal_crc32 data) DATA_POINT (word_of_nat (length data))
          in (case wal_write_raw header w fs of
                (ok, w, fs) \<Rightarrow>
                  if \<not> ok then (Inr False, w, fs)
                  else case wal_write_raw data w fs of
                    (ok, w, fs) \<Rightarrow> if \<not> ok then (Inr False, w, fs) else (Inr True, w, fs))
      | _ \<Rightarrow> (Inl Bad_Variant_Access, w, fs))"

text \<open>The points of a batch in order, flattened; the padding of every header is its own.\<close>

fun wal_append_points :: "(padding \<times> string \<times> data_point) list \<Rightarrow> wal_writer \<Rightarrow> fsys
    \<Rightarrow> (cpp_error + bool) \<times> wal_writer \<times> fsys" where
  "wal_append_points [] w fs = (Inr True, w, fs)"
| "wal_append_points ((pad, tag, p) # ps) w fs =
     (case wal_append_write pad tag p w fs of
        (Inr True, w, fs) \<Rightarrow> wal_append_points ps w fs
      | (r, w, fs) \<Rightarrow> (r, w, fs))"

definition batch_points :: "data_batch list \<Rightarrow> (string \<times> data_point) list" where
  "batch_points batches = concat (map (\<lambda>b. map (\<lambda>p. (db_tag_name b, p)) (db_points b)) batches)"

definition wal_append_batch :: "(nat \<Rightarrow> padding) \<Rightarrow> data_batch list \<Rightarrow> wal_writer \<Rightarrow> fsys
    \<Rightarrow> (cpp_error + bool) \<times> wal_writer \<times> fsys" where
  "wal_append_batch pads batches w fs =
     wal_append_points (map (\<lambda>(i, tp). (pads i, tp)) (enumerate 0 (batch_points batches))) w fs"

definition wal_flush :: "wal_writer \<Rightarrow> bool" where
  "wal_flush w = (ww_opened w \<and> file_flush (ww_file w))"

definition wal_write_checkpoint :: "padding \<Rightarrow> wal_writer \<Rightarrow> fsys \<Rightarrow> bool \<times> wal_writer \<times> fsys" where
  "wal_write_checkpoint pad w fs =
     (case wal_write_raw (wal_header pad 0 CHECKPOINT 0) w fs of
        (ok, w, fs) \<Rightarrow> if \<not> ok then (False, w, fs) else (wal_flush w, w, fs))"

definition wal_close :: "wal_writer \<Rightarrow> wal_writer" where
  "wal_close w = (if ww_opened w then w\<lparr>ww_file := file_close (ww_file w), ww_opened := False\<rparr> else w)"

section \<open>WalReader\<close>

record wal_entry =
  we_type :: wal_entry_type
  we_tag_name :: string
  we_points :: "data_point list"

definition checkpoint_entry :: wal_entry where
  "checkpoint_entry = \<lparr>we_type = CHECKPOINT, we_tag_name = [], we_points = []\<rparr>"

definition data_entry :: "string \<Rightarrow> timestamp \<Rightarrow> f64 \<Rightarrow> wal_entry" where
  "data_entry tag ts v =
     \<lparr>we_type = DATA_POINT, we_tag_name = tag, we_points = [\<lparr>dp_ts = ts, dp_value = VDouble v\<rparr>]\<rparr>"

text \<open>The payload is copied out with \<^verbatim>\<open>memcpy\<close> and no bounds check.\<close>

definition wal_parse_payload :: "byte list \<Rightarrow> cpp_error + wal_entry" where
  "wal_parse_payload data =
     (let tag_len = unat (le_word (take 2 data) :: u16) in
      if length data < 2 + tag_len + 16 then Inl Out_Of_Bounds
      else Inr (data_entry (bytes_string (take tag_len (drop 2 data)))
                  (le_word (take 8 (drop (2 + tag_len) data)))
                  (le_word (take 8 (drop (2 + tag_len + 8) data)))))"

text \<open>One entry: an entry and the handle behind it, the end of the usable log, or a bad access.\<close>

definition wal_read_entry :: "os_file \<Rightarrow> fsys \<Rightarrow> cpp_error + (wal_entry \<times> os_file) option" where
  "wal_read_entry f fs =
     (case file_read 12 f fs of
        (None, f) \<Rightarrow> Inr None
      | (Some h, f) \<Rightarrow>
          if length h \<noteq> 12 then Inr None
          else if h ! 4 = wal_type_byte CHECKPOINT then Inr (Some (checkpoint_entry, f))
          else if h ! 4 \<noteq> wal_type_byte DATA_POINT then Inr None
          else
            let data_len = unat (le_word (drop 8 h) :: u32) in
            (case file_read data_len f fs of
               (None, f) \<Rightarrow> Inr None
             | (Some data, f) \<Rightarrow>
                 if length data \<noteq> data_len then Inr None
                 else if wal_crc32 data \<noteq> le_word (take 4 h) then Inr None
                 else case wal_parse_payload data of
                   Inl e \<Rightarrow> Inl e
                 | Inr entry \<Rightarrow> Inr (Some (entry, f))))"

lemma file_read_Some_pos:
  assumes "file_read len f fs = (Some got, f')"
  obtains h where "f = Some h" "f' = Some (h\<lparr>of_pos := of_pos h + length got\<rparr>)"
    "got = take len (drop (of_pos h) (ino_data fs (of_ino h)))"
  using assms by (auto simp: file_read_def Let_def split: option.splits if_splits)

lemma wal_read_entry_moves:
  assumes "wal_read_entry f fs = Inr (Some (e, f'))"
  shows "file_tell f + 12 \<le> file_tell f'"
proof -
  obtain h f1 where 1: "file_read 12 f fs = (Some h, f1)" "length h = 12"
    using assms by (auto simp: wal_read_entry_def split: prod.splits option.splits if_splits)
  then have t1: "file_tell f1 = file_tell f + 12"
    by (auto simp: file_tell_def elim!: file_read_Some_pos)
  show ?thesis
  proof (cases "f' = f1")
    case True
    with t1 show ?thesis by simp
  next
    case False
    with assms 1 obtain data where "file_read (unat (le_word (drop 8 h) :: u32)) f1 fs = (Some data, f')"
      by (auto simp: wal_read_entry_def Let_def split: prod.splits option.splits if_splits sum.splits)
    then have "file_tell f1 \<le> file_tell f'"
      by (auto simp: file_tell_def elim!: file_read_Some_pos)
    with t1 show ?thesis by simp
  qed
qed

function wal_read_loop :: "int \<Rightarrow> os_file \<Rightarrow> fsys \<Rightarrow> cpp_error + wal_entry list" where
  "wal_read_loop fsize f fs =
     (if file_tell f < fsize
      then case wal_read_entry f fs of
             Inl e \<Rightarrow> Inl e
           | Inr None \<Rightarrow> Inr []
           | Inr (Some (entry, f')) \<Rightarrow>
               (case wal_read_loop fsize f' fs of Inl e \<Rightarrow> Inl e | Inr es \<Rightarrow> Inr (entry # es))
      else Inr [])"
  by pat_completeness auto
termination
proof (relation "measure (\<lambda>(fsize, f, _). nat (fsize - file_tell f))", goal_cases)
  case 1
  then show ?case by simp
next
  case 2
  then show ?case using wal_read_entry_moves by fastforce
qed

declare wal_read_loop.simps [simp del]

text \<open>\<^verbatim>\<open>WalReader::Open\<close>: \<open>None\<close> if the file cannot be opened.\<close>

definition wal_read :: "string \<Rightarrow> fsys \<Rightarrow> cpp_error + wal_entry list option" where
  "wal_read path fs =
     (case file_open path READ fs of
        (None, _) \<Rightarrow> Inr None
      | (f, _) \<Rightarrow> (case wal_read_loop (file_size f fs) f fs of Inl e \<Rightarrow> Inl e | Inr es \<Rightarrow> Inr (Some es)))"

definition wal_truncate :: "string \<Rightarrow> fsys \<Rightarrow> fsys" where
  "wal_truncate path fs = snd (fs_remove path fs)"

section \<open>The log as a sequence of records\<close>

text \<open>
  The specification of the reader: one pass over the bytes of the file. \<open>wal_read_loop\<close>, which moves
  a file handle, computes it.
\<close>

definition wal_scan_entry :: "byte list \<Rightarrow> cpp_error + (wal_entry \<times> nat) option" where
  "wal_scan_entry bs =
     (if length bs < 12 then Inr None
      else if bs ! 4 = wal_type_byte CHECKPOINT then Inr (Some (checkpoint_entry, 12))
      else if bs ! 4 \<noteq> wal_type_byte DATA_POINT then Inr None
      else
        let n = unat (le_word (take 4 (drop 8 bs)) :: u32); data = take n (drop 12 bs) in
        if length data \<noteq> n \<or> wal_crc32 data \<noteq> le_word (take 4 bs) then Inr None
        else map_sum id (\<lambda>entry. Some (entry, 12 + n)) (wal_parse_payload data))"

lemma wal_scan_entry_consumes: "wal_scan_entry bs = Inr (Some (e, n)) \<Longrightarrow> 12 \<le> n \<and> n \<le> length bs"
  by (auto simp: wal_scan_entry_def Let_def split: if_splits)
    (auto simp: map_sum_def split: sum.splits)

function wal_scan :: "byte list \<Rightarrow> cpp_error + wal_entry list" where
  "wal_scan bs =
     (case wal_scan_entry bs of
        Inl e \<Rightarrow> Inl e
      | Inr None \<Rightarrow> Inr []
      | Inr (Some (entry, n)) \<Rightarrow> map_sum id ((#) entry) (wal_scan (drop n bs)))"
  by pat_completeness auto
termination
proof (relation "measure length", goal_cases)
  case 1
  then show ?case by simp
next
  case 2
  then show ?case using wal_scan_entry_consumes by fastforce
qed

declare wal_scan.simps [simp del]

abbreviation read_handle :: "nat \<Rightarrow> nat \<Rightarrow> os_file" where
  "read_handle i p \<equiv> Some \<lparr>of_ino = i, of_pos = p, of_mode = READ\<rparr>"

lemma wal_read_entry_scan:
  "wal_read_entry (read_handle i p) fs =
     map_sum id (map_option (\<lambda>(e, n). (e, read_handle i (p + n))))
       (wal_scan_entry (drop p (ino_data fs i)))"
proof -
  let ?d = "drop p (ino_data fs i)"
  have 1: "file_read n (read_handle i q) fs = (Some (take n (drop q (ino_data fs i))),
      read_handle i (q + length (take n (drop q (ino_data fs i)))))" for n q
    by (simp add: file_read_some Let_def)
  show ?thesis
  proof (cases "length ?d < 12")
    case True
    then show ?thesis by (simp add: wal_read_entry_def wal_scan_entry_def 1)
  next
    case False
    then have l: "12 \<le> length ?d" by simp
    then have h: "length (take 12 ?d) = 12" "take 12 ?d ! 4 = ?d ! 4" "take 4 (take 12 ?d) = take 4 ?d"
      "drop 8 (take 12 ?d) = take 4 (drop 8 ?d)" "drop (p + 12) (ino_data fs i) = drop 12 ?d"
      by (simp_all add: drop_take take_take add.commute)
    show ?thesis
      unfolding wal_read_entry_def wal_scan_entry_def 1 prod.case option.case h Let_def
      using l by (auto split: sum.splits simp: add.assoc)
  qed
qed

lemma wal_read_loop_scan:
  "p \<le> length (ino_data fs i) \<Longrightarrow>
   wal_read_loop (int (length (ino_data fs i))) (read_handle i p) fs = wal_scan (drop p (ino_data fs i))"
proof (induction "length (ino_data fs i) - p" arbitrary: p rule: less_induct)
  case less
  let ?d = "ino_data fs i"
  show ?case
  proof (cases "p < length ?d")
    case False
    then have "drop p ?d = []" by simp
    with False show ?thesis
      by (simp add: wal_read_loop.simps wal_scan.simps wal_scan_entry_def file_tell_def)
  next
    case True
    have IH: "wal_read_loop (int (length ?d)) (read_handle i (p + n)) fs = wal_scan (drop n (drop p ?d))"
      if "wal_scan_entry (drop p ?d) = Inr (Some (e, n))" for e n
    proof -
      have "12 \<le> n" "n \<le> length ?d - p" using wal_scan_entry_consumes [OF that] by simp_all
      then show ?thesis using less.hyps [of "p + n"] True by (simp add: add.commute)
    qed
    show ?thesis
      using True IH wal_read_loop.simps [of "int (length ?d)" "read_handle i p" fs]
        wal_scan.simps [of "drop p ?d"]
      by (auto simp: wal_read_entry_scan file_tell_def split: sum.splits option.splits)
  qed
qed

lemma wal_read_scan:
  assumes "file_bytes fs path = Some d"
  shows "wal_read path fs = map_sum id Some (wal_scan d)"
proof -
  obtain i where i: "file_open path READ fs = (read_handle i 0, fs)" "ino_data fs i = d"
    using assms by (rule file_bytes_open_read)
  with wal_read_loop_scan [of 0 fs i] show ?thesis
    by (simp add: wal_read_def file_size_def map_sum_def split: sum.splits)
qed

section \<open>Records\<close>

datatype log_record = Logged_Point string timestamp f64 | Logged_Checkpoint

fun log_bytes :: "padding \<times> log_record \<Rightarrow> byte list" where
  "log_bytes (pad, Logged_Point tag ts v) =
     (let data = wal_payload tag ts v
      in wal_header pad (wal_crc32 data) DATA_POINT (word_of_nat (length data)) @ data)"
| "log_bytes (pad, Logged_Checkpoint) = wal_header pad 0 CHECKPOINT 0"

fun log_entry :: "log_record \<Rightarrow> wal_entry" where
  "log_entry (Logged_Point tag ts v) = data_entry tag ts v"
| "log_entry Logged_Checkpoint = checkpoint_entry"

fun log_ok :: "log_record \<Rightarrow> bool" where
  "log_ok (Logged_Point tag ts v) = (length tag < 2 ^ 16)"
| "log_ok Logged_Checkpoint = True"

lemma length_wal_header [simp]: "length (wal_header pad crc t n) = 12"
  by (cases pad) simp

lemma wal_header_fields:
  "take 4 (wal_header pad crc t n) = le_bytes 4 crc"
  "(wal_header pad crc t n @ rest) ! 4 = wal_type_byte t"
  "wal_header pad crc t n ! 4 = wal_type_byte t"
  "drop 8 (wal_header pad crc t n) = le_bytes 4 n"
  by (cases pad; simp add: nth_append)+

lemma wal_payload_split:
  assumes "length tag < 2 ^ 16"
  shows "wal_payload tag ts v =
      le_bytes 2 (word_of_nat (length tag) :: u16) @ string_bytes tag @ le_bytes 8 ts @ le_bytes 8 v"
    and "unat (word_of_nat (length tag) :: u16) = length tag"
proof -
  show *: "unat (word_of_nat (length tag) :: u16) = length tag"
    using assms by (simp add: unat_of_nat take_bit_nat_eq_self)
  show "wal_payload tag ts v =
      le_bytes 2 (word_of_nat (length tag) :: u16) @ string_bytes tag @ le_bytes 8 ts @ le_bytes 8 v"
    unfolding wal_payload_def Let_def * by simp
qed

lemma length_wal_payload: "length tag < 2 ^ 16 \<Longrightarrow> length (wal_payload tag ts v) = length tag + 18"
  by (simp add: wal_payload_split(1))

lemma wal_parse_payload:
  assumes "length tag < 2 ^ 16"
  shows "wal_parse_payload (wal_payload tag ts v) = Inr (data_entry tag ts v)"
proof -
  let ?l = "le_bytes 2 (word_of_nat (length tag) :: u16)"
  have l: "unat (le_word (take 2 (wal_payload tag ts v)) :: u16) = length tag"
    using assms by (simp add: wal_payload_split le_word_le_bytes_id)
  have "drop (2 + length tag) (wal_payload tag ts v) = le_bytes 8 ts @ le_bytes 8 v"
    "drop (2 + length tag + 8) (wal_payload tag ts v) = le_bytes 8 v"
    "take (length tag) (drop 2 (wal_payload tag ts v)) = string_bytes tag"
    using assms by (simp_all add: wal_payload_split)
  with l assms show ?thesis
    by (simp add: wal_parse_payload_def Let_def length_wal_payload byte_facts)
qed

lemma length_log_bytes: "12 \<le> length (log_bytes pr)"
  by (cases pr rule: log_bytes.cases) (simp_all add: Let_def del: wal_header.simps)

lemma wal_scan_entry_record:
  assumes "log_ok r"
  shows "wal_scan_entry (log_bytes (pad, r) @ rest) = Inr (Some (log_entry r, length (log_bytes (pad, r))))"
proof (cases r)
  case (Logged_Point tag ts v)
  let ?p = "wal_payload tag ts v"
  have len: "length ?p = length tag + 18" using assms Logged_Point by (simp add: length_wal_payload)
  have "unat (word_of_nat (length tag + 18) :: u32) = length tag + 18"
    unfolding unat_of_nat using assms Logged_Point by (simp add: take_bit_nat_eq_self)
  then have "unat (word_of_nat (length tag) + 18 :: u32) = length tag + 18" by simp
  then show ?thesis
    using assms Logged_Point len
    by (simp add: wal_scan_entry_def Let_def wal_header_fields wal_parse_payload byte_facts
        del: wal_header.simps)
next
  case Logged_Checkpoint
  then show ?thesis by (simp add: wal_scan_entry_def wal_header_fields del: wal_header.simps)
qed

text \<open>A whole log, and a log cut off inside a record: the reader stops at the cut.\<close>

lemma wal_scan_records:
  "list_all (\<lambda>(_, r). log_ok r) prs \<Longrightarrow>
   wal_scan (concat (map log_bytes prs) @ rest) =
     map_sum id (\<lambda>es. map (log_entry \<circ> snd) prs @ es) (wal_scan rest)"
proof (induction prs)
  case Nil
  then show ?case by (cases "wal_scan rest") simp_all
next
  case (Cons pr prs)
  then show ?case
    by (cases pr) (simp add: wal_scan.simps [of "log_bytes _ @ _"] wal_scan_entry_record
        map_sum.compositionality comp_def)
qed

lemma wal_scan_Nil: "wal_scan [] = Inr []"
  by (simp add: wal_scan.simps wal_scan_entry_def)

fun whole_records :: "nat \<Rightarrow> (padding \<times> log_record) list \<Rightarrow> log_record list" where
  "whole_records k [] = []"
| "whole_records k (pr # prs) =
     (if length (log_bytes pr) \<le> k then snd pr # whole_records (k - length (log_bytes pr)) prs else [])"

lemma wal_scan_short: "length bs < 12 \<Longrightarrow> wal_scan bs = Inr []"
  by (simp add: wal_scan.simps wal_scan_entry_def)

lemma wal_scan_torn:
  assumes "log_ok r" "k < length (log_bytes (pad, r))"
  shows "wal_scan (take k (log_bytes (pad, r))) = Inr []"
proof (cases "k < 12")
  case True
  then show ?thesis by (simp add: wal_scan_short)
next
  case False
  with assms(2) obtain tag ts v where r: "r = Logged_Point tag ts v"
    by (cases r) (simp_all del: wal_header.simps)
  let ?p = "wal_payload tag ts v"
  have len: "length ?p = length tag + 18" using assms r by (simp add: length_wal_payload)
  have "unat (word_of_nat (length tag + 18) :: u32) = length tag + 18"
    unfolding unat_of_nat using assms r by (simp add: take_bit_nat_eq_self)
  moreover obtain q where q: "k = 12 + q" using False le_Suc_ex not_less by blast
  moreover have "q < length tag + 18" using assms(2) q r len by (simp add: Let_def del: wal_header.simps)
  ultimately show ?thesis
    using r len
    by (simp add: wal_scan.simps wal_scan_entry_def Let_def wal_header_fields byte_facts
        del: wal_header.simps)
qed

lemma wal_scan_crash:
  "list_all (\<lambda>(_, r). log_ok r) prs \<Longrightarrow>
   wal_scan (take k (concat (map log_bytes prs))) = Inr (map log_entry (whole_records k prs))"
proof (induction prs arbitrary: k)
  case Nil
  then show ?case by (simp add: wal_scan_Nil)
next
  case (Cons pr prs)
  obtain pad r where pr: "pr = (pad, r)" by (cases pr)
  show ?case
  proof (cases "length (log_bytes pr) \<le> k")
    case True
    with Cons pr show ?thesis
      by (simp add: wal_scan.simps [of "log_bytes _ @ _"] wal_scan_entry_record)
  next
    case False
    with Cons pr wal_scan_torn [of r k pad] show ?thesis by simp
  qed
qed

lemma wal_scan_corrupt:
  assumes "log_ok r" "12 \<le> i" "i < length (log_bytes (pad, r))" "b \<noteq> log_bytes (pad, r) ! i"
  shows "wal_scan ((log_bytes (pad, r))[i := b] @ rest) = Inr []"
proof -
  obtain tag ts v where r: "r = Logged_Point tag ts v"
    using assms(2,3) by (cases r) (simp_all del: wal_header.simps)
  let ?p = "wal_payload tag ts v"
  have len: "length ?p = length tag + 18" using assms r by (simp add: length_wal_payload)
  have "unat (word_of_nat (length tag + 18) :: u32) = length tag + 18"
    unfolding unat_of_nat using assms r by (simp add: take_bit_nat_eq_self)
  moreover obtain j where j: "i = 12 + j" using assms(2) le_Suc_ex by blast
  moreover have "wal_crc32 (?p[j := b]) \<noteq> wal_crc32 ?p"
    unfolding wal_crc32_sst
    by (rule sst_crc32_change) (use assms r j in \<open>simp_all add: Let_def nth_append del: wal_header.simps\<close>)
  ultimately show ?thesis
    using r len
    by (simp add: wal_scan.simps wal_scan_entry_def Let_def wal_header_fields byte_facts
        list_update_append del: wal_header.simps)
qed

section \<open>What the writer leaves in the file\<close>

text \<open>A writer attached to an inode: an append handle whose size is the size of the file.\<close>

definition wal_on :: "nat \<Rightarrow> wal_writer \<Rightarrow> fsys \<Rightarrow> bool" where
  "wal_on i w fs \<longleftrightarrow> ww_opened w \<and> ww_size w = length (ino_data fs i)
     \<and> (case ww_file w of Some h \<Rightarrow> of_mode h = APPEND \<and> of_ino h = i | None \<Rightarrow> False)"

lemma wal_write_raw_grows:
  assumes "wal_on i w fs" "bs \<noteq> []"
  obtains w' fs' where "wal_write_raw bs w fs = (True, w', fs')" "wal_on i w' fs'" "grown i bs fs fs'"
    "ww_path w' = ww_path w"
proof -
  obtain h where h: "ww_file w = Some h" "of_mode h = APPEND" "of_ino h = i"
    using assms(1) by (auto simp: wal_on_def split: option.splits)
  show thesis
    by (rule that [of "w\<lparr>ww_file := Some (h\<lparr>of_pos := length (ino_data fs i) + length bs\<rparr>),
          ww_size := ww_size w + length bs\<rparr>" "set_inode i (ino_data fs i @ bs) fs"])
      (use assms h in \<open>simp_all add: wal_write_raw_def file_write_append wal_on_def grown_def os_facts\<close>)
qed

lemma wal_append_write_grows:
  assumes "wal_on i w fs"
  obtains w' fs' where
    "wal_append_write pad tag \<lparr>dp_ts = ts, dp_value = VDouble v\<rparr> w fs = (Inr True, w', fs')"
    "wal_on i w' fs'" "grown i (log_bytes (pad, Logged_Point tag ts v)) fs fs'"
    "ww_path w' = ww_path w"
proof -
  let ?d = "wal_payload tag ts v"
  let ?h = "wal_header pad (wal_crc32 ?d) DATA_POINT (word_of_nat (length ?d))"
  have "length ?h = 12" by (rule length_wal_header)
  then have h: "?h \<noteq> []" by (metis list.size(3) zero_neq_numeral)
  obtain w1 fs1 where 1: "wal_write_raw ?h w fs = (True, w1, fs1)" "wal_on i w1 fs1" "grown i ?h fs fs1"
    "ww_path w1 = ww_path w"
    using wal_write_raw_grows [OF assms h] .
  have d: "?d \<noteq> []" by (simp add: wal_payload_def Let_def flip: length_greater_0_conv)
  obtain w2 fs2 where 2: "wal_write_raw ?d w1 fs1 = (True, w2, fs2)" "wal_on i w2 fs2" "grown i ?d fs1 fs2"
    "ww_path w2 = ww_path w1"
    using wal_write_raw_grows [OF 1(2) d] .
  show thesis
    by (rule that [of w2 fs2])
      (use 1 2 grown_trans in \<open>simp_all add: wal_append_write_def Let_def del: wal_header.simps\<close>)
qed

fun logged :: "padding \<times> string \<times> data_point \<Rightarrow> padding \<times> log_record" where
  "logged (pad, tag, p) = (pad, Logged_Point tag (dp_ts p) (case dp_value p of VDouble v \<Rightarrow> v | _ \<Rightarrow> 0))"

fun is_double :: "val \<Rightarrow> bool" where
  "is_double (VDouble v) = True"
| "is_double _ = False"

text \<open>A batch is logged up to its first value that is not a double; there the exception leaves.\<close>

lemma wal_append_points_grows:
  assumes "wal_on i w fs"
  obtains w' fs' where
    "wal_append_points ps w fs =
       (if list_all (\<lambda>(_, _, p). is_double (dp_value p)) ps then Inr True else Inl Bad_Variant_Access, w', fs')"
    "wal_on i w' fs'"
    "grown i (concat (map (log_bytes \<circ> logged) (takeWhile (\<lambda>(_, _, p). is_double (dp_value p)) ps))) fs fs'"
    "ww_path w' = ww_path w"
  using assms
proof (induction ps arbitrary: w fs thesis)
  case Nil
  then show ?case by (simp add: grown_refl)
next
  case (Cons x ps)
  obtain pad tag p where x: "x = (pad, tag, p)" by (cases x)
  show ?case
  proof (cases "dp_value p")
    case (VDouble v)
    then have p: "p = \<lparr>dp_ts = dp_ts p, dp_value = VDouble v\<rparr>" by simp
    obtain w1 fs1 where 1: "wal_append_write pad tag p w fs = (Inr True, w1, fs1)"
      "wal_on i w1 fs1" "grown i (log_bytes (pad, Logged_Point tag (dp_ts p) v)) fs fs1"
      "ww_path w1 = ww_path w"
      using wal_append_write_grows [OF Cons.prems(2), of pad tag "dp_ts p" v] p by metis
    obtain w2 fs2 where 2: "wal_append_points ps w1 fs1 =
        (if list_all (\<lambda>(_, _, p). is_double (dp_value p)) ps then Inr True else Inl Bad_Variant_Access, w2, fs2)"
      "wal_on i w2 fs2"
      "grown i (concat (map (log_bytes \<circ> logged) (takeWhile (\<lambda>(_, _, p). is_double (dp_value p)) ps))) fs1 fs2"
      "ww_path w2 = ww_path w1"
      using Cons.IH [OF _ 1(2)] by metis
    show ?thesis
      by (rule Cons.prems(1) [of w2 fs2])
        (use 1 2 x VDouble grown_trans [OF 1(3) 2(3)] in \<open>simp_all add: comp_def\<close>)
  qed (use Cons.prems x in \<open>auto simp: wal_append_write_def grown_refl\<close>)
qed


section \<open>Properties\<close>

definition old_bytes :: "fsys \<Rightarrow> string \<Rightarrow> byte list" where
  "old_bytes fs path = (case file_bytes fs path of Some d \<Rightarrow> d | None \<Rightarrow> [])"

lemma wal_open_on:
  assumes "wal_open (wal_writer_new path) fs = (True, w, fs')"
  obtains i where "wal_on i w fs'" "ino_data fs' i = old_bytes fs path"
    "map_of (fs_tree fs') (split_path path) = Some (FileNode i)" "ww_path w = path"
proof -
  obtain h where h: "file_open path APPEND fs = (Some h, fs')" "ww_path w = path" "ww_file w = Some h"
    "ww_opened w" "ww_size w = length (ino_data fs' (of_ino h))"
    using assms
    by (auto simp: wal_open_def wal_writer_new_def file_size_def split: prod.splits option.splits)
  have "ino_data fs' (of_ino h) = old_bytes fs path" "of_mode h = APPEND"
    "map_of (fs_tree fs') (split_path path) = Some (FileNode (of_ino h))"
    using h(1)
    by (auto simp: file_open_def old_bytes_def file_bytes_def create_file_def Let_def os_facts
        split: option.splits node.splits if_splits)
  with h show thesis by (intro that [of "of_ino h"]) (simp_all add: wal_on_def)
qed

fun point_entry :: "string \<times> data_point \<Rightarrow> wal_entry" where
  "point_entry (tag, p) = \<lparr>we_type = DATA_POINT, we_tag_name = tag, we_points = [p]\<rparr>"

definition loggable :: "string \<times> data_point \<Rightarrow> bool" where
  "loggable tp \<longleftrightarrow> is_double (dp_value (snd tp))"

definition padded :: "(nat \<Rightarrow> padding) \<Rightarrow> nat \<Rightarrow> (string \<times> data_point) list \<Rightarrow> (padding \<times> string \<times> data_point) list" where
  "padded pads n tps = map (\<lambda>(i, tp). (pads i, tp)) (enumerate n tps)"

lemma padded_simps [simp]:
  "padded pads n [] = []"
  "padded pads n (tp # tps) = (pads n, tp) # padded pads (Suc n) tps"
  by (simp_all add: padded_def)

lemma padded_loggable:
  "list_all (\<lambda>(_, _, p). is_double (dp_value p)) (padded pads n tps) = list_all loggable tps"
  by (induction tps arbitrary: n) (auto simp: loggable_def)

lemma padded_entries:
  "list_all (\<lambda>(tag, _). length tag < 2 ^ 16) tps \<Longrightarrow>
   list_all (\<lambda>(_, r). log_ok r) (map logged (takeWhile (\<lambda>(_, _, p). is_double (dp_value p)) (padded pads n tps)))
   \<and> map (log_entry \<circ> snd) (map logged (takeWhile (\<lambda>(_, _, p). is_double (dp_value p)) (padded pads n tps)))
     = map point_entry (takeWhile loggable tps)"
proof (induction tps arbitrary: n)
  case (Cons tp tps)
  obtain tag p where tp: "tp = (tag, p)" by (cases tp)
  from Cons.IH [of "Suc n"] Cons.prems tp show ?case
    by (cases p; cases "dp_value p") (simp_all add: loggable_def data_entry_def)
qed simp

lemma wal_open_append_read:
  assumes "old_bytes fs path = concat (map log_bytes prs)" "list_all (\<lambda>(_, r). log_ok r) prs"
    and "wal_open (wal_writer_new path) fs = (True, w, fs1)"
    and "list_all (\<lambda>(tag, _). length tag < 2 ^ 16) (batch_points batches)"
    and "wal_append_batch pads batches w fs1 = (r, w2, fs2)"
  shows "r = (if list_all loggable (batch_points batches) then Inr True else Inl Bad_Variant_Access)
    \<and> wal_read path fs2 = Inr (Some (map (log_entry \<circ> snd) prs
        @ map point_entry (takeWhile loggable (batch_points batches))))"
proof -
  let ?ps = "padded pads 0 (batch_points batches)"
  let ?new = "map logged (takeWhile (\<lambda>(_, _, p). is_double (dp_value p)) ?ps)"
  obtain i where i: "wal_on i w fs1" "ino_data fs1 i = concat (map log_bytes prs)"
    "map_of (fs_tree fs1) (split_path path) = Some (FileNode i)"
    using assms(1,3) by (metis wal_open_on)
  obtain w' fs' where b: "wal_append_points ?ps w fs1 =
      (if list_all (\<lambda>(_, _, p). is_double (dp_value p)) ?ps then Inr True else Inl Bad_Variant_Access, w', fs')"
    "grown i (concat (map (log_bytes \<circ> logged) (takeWhile (\<lambda>(_, _, p). is_double (dp_value p)) ?ps))) fs1 fs'"
    using wal_append_points_grows [OF i(1), of ?ps] by metis
  have r: "r = (if list_all loggable (batch_points batches) then Inr True else Inl Bad_Variant_Access)"
    and fs2: "fs2 = fs'"
    using assms(5) b(1) by (simp_all add: wal_append_batch_def padded_loggable flip: padded_def)
  have "file_bytes fs2 path = Some (concat (map log_bytes (prs @ ?new)))"
    using b(2) i by (simp add: fs2 grown_def file_bytes_ino comp_def)
  moreover have "list_all (\<lambda>(_, r). log_ok r) (prs @ ?new)"
    using assms(2) padded_entries [OF assms(4)] by simp
  ultimately have "wal_read path fs2 = Inr (Some (map (log_entry \<circ> snd) (prs @ ?new)))"
    using wal_scan_records [of "prs @ ?new" "[]"] by (simp add: wal_read_scan wal_scan_Nil)
  with r show ?thesis using padded_entries [OF assms(4)] by (simp add: comp_def)
qed

text \<open>
  C2. What a batch appended to an opened log leaves for recovery: the reader returns the entries that
  were there before, then the points of the batches in order, bit for bit, up to the first value
  that is not a double; if there is one the append leaves by \<^verbatim>\<open>bad_variant_access\<close>, otherwise it
  returns true.
\<close>

theorem wal_append_batch_recovered:
  assumes "old_bytes fs path = concat (map log_bytes prs)" "list_all (\<lambda>(_, r). log_ok r) prs"
    and "wal_open (wal_writer_new path) fs = (True, w, fs1)"
    and "list_all (\<lambda>(tag, _). length tag < 2 ^ 16) (batch_points batches)"
    and "wal_append_batch pads batches w fs1 = (r, w2, fs2)"
  shows "r = (if list_all loggable (batch_points batches) then Inr True else Inl Bad_Variant_Access)
    \<and> wal_read path fs2 = Inr (Some (map (log_entry \<circ> snd) prs
        @ map point_entry (takeWhile loggable (batch_points batches))))"
  using assms by (rule wal_open_append_read)

definition demo_batches :: "data_batch list" where
  "demo_batches =
     [\<lparr>db_tag_name = ''t'', db_points = [\<lparr>dp_ts = 7, dp_value = VDouble 1\<rparr>, \<lparr>dp_ts = 8, dp_value = VInt 3\<rparr>]\<rparr>]"

theorem wal_append_batch_recovered_witness:
  "\<exists>w fs1 w2 fs2. wal_open (wal_writer_new ''w'') demo_fs = (True, w, fs1)
    \<and> wal_append_batch (\<lambda>_. (0, 0, 0)) demo_batches w fs1 = (Inl Bad_Variant_Access, w2, fs2)
    \<and> wal_read ''w'' fs2 =
      Inr (Some [\<lparr>we_type = DATA_POINT, we_tag_name = ''t'', we_points = [\<lparr>dp_ts = 7, dp_value = VDouble 1\<rparr>]\<rparr>])"
proof -
  obtain ok w fs1 where 1: "wal_open (wal_writer_new ''w'') demo_fs = (ok, w, fs1)" by (rule prod_cases3)
  have "fst (wal_open (wal_writer_new ''w'') demo_fs)" by code_simp
  with 1 have ok: "wal_open (wal_writer_new ''w'') demo_fs = (True, w, fs1)" by simp
  obtain r w2 fs2 where 2: "wal_append_batch (\<lambda>_. (0, 0, 0)) demo_batches w fs1 = (r, w2, fs2)"
    by (rule prod_cases3)
  have b: "batch_points demo_batches =
      [(''t'', \<lparr>dp_ts = 7, dp_value = VDouble 1\<rparr>), (''t'', \<lparr>dp_ts = 8, dp_value = VInt 3\<rparr>)]"
    by (simp add: batch_points_def demo_batches_def)
  have "old_bytes demo_fs ''w'' = concat (map log_bytes [])" by code_simp
  with ok 2 wal_append_batch_recovered [of demo_fs "''w''" "[]" w fs1 demo_batches "\<lambda>_. (0, 0, 0)" r w2 fs2]
  show ?thesis by (simp add: b loggable_def)
qed

text \<open>
  C3. Crash recovery: of a log cut off after any number of bytes the reader returns exactly the
  entries of the records that were written whole, and no error.
\<close>

theorem wal_crash_recovers_prefix:
  assumes "list_all (\<lambda>(_, r). log_ok r) prs"
    and "file_bytes fs path = Some (take k (concat (map log_bytes prs)))"
  shows "wal_read path fs = Inr (Some (map log_entry (whole_records k prs)))"
  using assms by (simp add: wal_read_scan wal_scan_crash)

theorem wal_crash_recovers_prefix_witness:
  "wal_read ''w'' (file_fs ''w'' (take 50 (concat (map log_bytes
      [((1, 2, 3), Logged_Point ''a'' 5 6), ((0, 0, 0), Logged_Checkpoint), ((4, 5, 6), Logged_Point ''b'' 7 8)]))))
    = Inr (Some [\<lparr>we_type = DATA_POINT, we_tag_name = ''a'', we_points = [\<lparr>dp_ts = 5, dp_value = VDouble 6\<rparr>]\<rparr>,
        checkpoint_entry])"
  by (subst wal_crash_recovers_prefix [OF _ file_bytes_file_fs])
    (simp_all add: Let_def wal_payload_def string_bytes_def data_entry_def)

text \<open>
  C4. Corruption is contained: if one byte of the payload of a logged point is changed, the reader
  returns the entries before that record and nothing from it or behind it.
\<close>

theorem wal_stops_at_corruption:
  assumes "list_all (\<lambda>(_, r). log_ok r) prs" "log_ok r"
    and "12 \<le> i" "i < length (log_bytes (pad, r))" "b \<noteq> log_bytes (pad, r) ! i"
    and "file_bytes fs path = Some (concat (map log_bytes prs) @ (log_bytes (pad, r))[i := b] @ rest)"
  shows "wal_read path fs = Inr (Some (map (log_entry \<circ> snd) prs))"
  using assms by (simp add: wal_read_scan wal_scan_records wal_scan_corrupt)

theorem wal_stops_at_corruption_witness:
  "wal_read ''w'' (file_fs ''w'' (log_bytes ((0, 0, 0), Logged_Checkpoint)
      @ (log_bytes ((1, 2, 3), Logged_Point ''a'' 5 6))[20 := 255] @ [1, 2])) = Inr (Some [checkpoint_entry])"
proof -
  have "le_bytes 8 (5 :: 64 word) ! 5 = (0 :: byte)" by code_simp
  then show ?thesis
    using wal_stops_at_corruption [OF _ _ _ _ _ file_bytes_file_fs,
      of "[((0, 0, 0), Logged_Checkpoint)]" "Logged_Point ''a'' 5 6" 20 "(1, 2, 3)" 255 "''w''" "[1, 2]"]
    by (simp add: Let_def wal_payload_def string_bytes_def nth_append)
qed


end
