(* ===== verification/Bitstream.thy ===== *)
theory Bitstream
  imports TSDB_Prelude
begin

unbundle bit_operations_syntax

text \<open>
  The bit-level reader and writer of \<^verbatim>\<open>src/src/storage/compressor.cpp\<close>: the helper functions
  \<^verbatim>\<open>AppendBitToBuffer\<close> and \<^verbatim>\<open>AppendBitsToBuffer\<close>, and the closures \<^verbatim>\<open>rb\<close> and \<^verbatim>\<open>rbits\<close>
  that both decoders define. The interfaces \<open>bit_sink\<close> and \<open>bit_source\<close> say what a writer and
  a reader promise in terms of the bit sequence written so far or still to be read; the encoders
  and decoders are verified against those two contracts only.
\<close>

section \<open>Writing bits\<close>

record bit_buffer =
  bb_bytes :: "byte list"
  bb_byte_pos :: nat
  bb_bit_pos :: nat

definition empty_buffer :: bit_buffer where
  "empty_buffer = \<lparr>bb_bytes = [], bb_byte_pos = 0, bb_bit_pos = 0\<rparr>"

definition append_bit :: "bool \<Rightarrow> bit_buffer \<Rightarrow> bit_buffer" where
  "append_bit b bb =
     (let grown = (if length (bb_bytes bb) \<le> bb_byte_pos bb then bb_bytes bb @ [0] else bb_bytes bb);
          bytes = (if b then grown[bb_byte_pos bb :=
                     grown ! bb_byte_pos bb OR push_bit (bb_bit_pos bb) 1] else grown)
      in if bb_bit_pos bb + 1 = 8
         then \<lparr>bb_bytes = bytes, bb_byte_pos = bb_byte_pos bb + 1, bb_bit_pos = 0\<rparr>
         else \<lparr>bb_bytes = bytes, bb_byte_pos = bb_byte_pos bb, bb_bit_pos = bb_bit_pos bb + 1\<rparr>)"

definition append_bits :: "u64 \<Rightarrow> nat \<Rightarrow> bit_buffer \<Rightarrow> bit_buffer" where
  "append_bits v n bb = fold (\<lambda>i. append_bit (drop_bit i v AND 1 = 1)) [0..<n] bb"

text \<open>A sink: the bits written so far, extended by one on every call.\<close>

locale bit_sink =
  fixes put :: "bool \<Rightarrow> 's \<Rightarrow> 's"
    and written :: "'s \<Rightarrow> bool list"
    and inv :: "'s \<Rightarrow> bool"
  assumes put_inv: "inv s \<Longrightarrow> inv (put b s)"
    and put_written: "inv s \<Longrightarrow> written (put b s) = written s @ [b]"
begin

lemma puts_inv: "inv s \<Longrightarrow> inv (fold put bs s)"
  by (induction bs arbitrary: s) (auto intro: put_inv)

lemma puts_written: "inv s \<Longrightarrow> written (fold put bs s) = written s @ bs"
  by (induction bs arbitrary: s) (auto simp: put_written put_inv)

end

lemma drop_bit_and_1: "(drop_bit i w AND 1 = 1) \<longleftrightarrow> bit (w :: 'a::len word) i"
  by (simp add: bit_iff_odd_drop_bit and_one_eq mod_2_eq_odd)

lemma append_bits_fold: "append_bits v n = fold append_bit (word_bits n v)"
  by (simp add: append_bits_def word_bits_def fold_map comp_def drop_bit_and_1 fun_eq_iff)

text \<open>What a buffer holds, and the shape the appends keep: the bits above the write position are 0.\<close>

definition bb_len :: "bit_buffer \<Rightarrow> nat" where
  "bb_len bb = 8 * bb_byte_pos bb + bb_bit_pos bb"

definition bb_content :: "bit_buffer \<Rightarrow> bool list" where
  "bb_content bb = take (bb_len bb) (byte_bits (bb_bytes bb))"

definition bb_inv :: "bit_buffer \<Rightarrow> bool" where
  "bb_inv bb \<longleftrightarrow> bb_bit_pos bb < 8
     \<and> length (bb_bytes bb) = bb_byte_pos bb + (if bb_bit_pos bb = 0 then 0 else 1)
     \<and> (\<forall>i < 8 * length (bb_bytes bb). bb_len bb \<le> i \<longrightarrow> \<not> byte_bits (bb_bytes bb) ! i)"

lemma nth_byte_bits_div:
  "i < 8 * length bs \<Longrightarrow> byte_bits bs ! i = bit (bs ! (i div 8)) (i mod 8)"
  using nth_byte_bits [of "i div 8" bs "i mod 8"] by (simp add: less_mult_imp_div_less mult.commute)

lemma byte_bits_set_bit:
  assumes "p < length bs" "k < 8"
  shows "byte_bits (bs[p := bs ! p OR push_bit k 1]) = (byte_bits bs)[8 * p + k := True]"
proof (rule nth_equalityI)
  show "length (byte_bits (bs[p := bs ! p OR push_bit k 1])) = length ((byte_bits bs)[8 * p + k := True])"
    by simp
next
  fix i assume "i < length (byte_bits (bs[p := bs ! p OR push_bit k 1]))"
  then have i: "i < 8 * length bs" by simp
  have eq: "i = 8 * p + k \<longleftrightarrow> i div 8 = p \<and> i mod 8 = k"
    using assms(2) by auto
  show "byte_bits (bs[p := bs ! p OR push_bit k 1]) ! i = (byte_bits bs)[8 * p + k := True] ! i"
    using i assms eq
    by (auto simp: nth_byte_bits_div nth_list_update bit_simps)
qed

lemma word_bits_zero: "word_bits n 0 = replicate n False"
  by (rule nth_equalityI) (auto simp: word_bits_def)

lemma byte_bits_snoc_zero: "byte_bits (bs @ [0]) = byte_bits bs @ replicate 8 False"
  by (simp add: byte_bits_append byte_bits_Cons word_bits_zero)

lemma append_bit_content:
  assumes "bb_inv bb"
  shows "bb_inv (append_bit b bb) \<and> bb_content (append_bit b bb) = bb_content bb @ [b]"
proof -
  define p where "p = bb_byte_pos bb"
  define k where "k = bb_bit_pos bb"
  define grown where "grown = (if length (bb_bytes bb) \<le> p then bb_bytes bb @ [0] else bb_bytes bb)"
  define bytes where "bytes = (if b then grown[p := grown ! p OR push_bit k 1] else grown)"
  have k: "k < 8" and len: "length (bb_bytes bb) = p + (if k = 0 then 0 else 1)"
    and zero: "\<And>i. i < 8 * length (bb_bytes bb) \<Longrightarrow> 8 * p + k \<le> i \<Longrightarrow> \<not> byte_bits (bb_bytes bb) ! i"
    using assms by (auto simp: bb_inv_def bb_len_def p_def k_def)
  have lg: "length grown = p + 1"
    using len by (auto simp: grown_def)
  have tk: "take (8 * p + k) (byte_bits grown) = take (8 * p + k) (byte_bits (bb_bytes bb))"
    using len k by (auto simp: grown_def byte_bits_snoc_zero)
  have zg: "\<not> byte_bits grown ! i" if "i < 8 * length grown" "8 * p + k \<le> i" for i
    using that zero len
    by (auto simp: grown_def byte_bits_snoc_zero nth_append split: if_splits)
  have bytes: "byte_bits bytes = (byte_bits grown)[8 * p + k := b]"
  proof (cases b)
    case True
    then show ?thesis using lg k by (simp add: bytes_def byte_bits_set_bit del: push_bit_of_1)
  next
    case False
    then have "\<not> byte_bits grown ! (8 * p + k)" using zg lg k by simp
    then have "(byte_bits grown)[8 * p + k := False] = byte_bits grown"
      by (metis list_update_id)
    then show ?thesis using False by (simp add: bytes_def)
  qed
  have lb: "length bytes = p + 1" using lg by (simp add: bytes_def)
  have ab: "append_bit b bb = (if k + 1 = 8 then \<lparr>bb_bytes = bytes, bb_byte_pos = p + 1, bb_bit_pos = 0\<rparr>
      else \<lparr>bb_bytes = bytes, bb_byte_pos = p, bb_bit_pos = k + 1\<rparr>)"
    by (simp add: append_bit_def Let_def p_def k_def grown_def bytes_def)
  have pos: "bb_len (append_bit b bb) = 8 * p + k + 1"
    using k by (auto simp: ab bb_len_def)
  have bb': "bb_bytes (append_bit b bb) = bytes" by (simp add: ab)
  have "bb_content (append_bit b bb) = take (8 * p + k + 1) ((byte_bits grown)[8 * p + k := b])"
    by (simp add: bb_content_def pos bb' bytes)
  also have "\<dots> = take (8 * p + k) (byte_bits grown) @ [b]"
    using lg k by (simp add: take_Suc_conv_app_nth)
  finally have content: "bb_content (append_bit b bb) = bb_content bb @ [b]"
    using tk by (simp add: bb_content_def bb_len_def p_def k_def)
  have "\<not> byte_bits bytes ! i" if "i < 8 * length bytes" "8 * p + k + 1 \<le> i" for i
    using that zg [of i] lg lb by (simp add: bytes)
  moreover have "bb_bit_pos (append_bit b bb) = (if k + 1 = 8 then 0 else k + 1)"
    and "bb_byte_pos (append_bit b bb) = (if k + 1 = 8 then p + 1 else p)"
    by (simp_all add: ab)
  ultimately have "bb_inv (append_bit b bb)"
    using k lb by (simp add: bb_inv_def pos bb')
  with content show ?thesis by blast
qed

interpretation bb: bit_sink append_bit bb_content bb_inv
  by unfold_locales (auto simp: append_bit_content)

lemma bb_inv_empty [simp]: "bb_inv empty_buffer"
  by (simp add: bb_inv_def empty_buffer_def bb_len_def)

lemma bb_content_empty [simp]: "bb_content empty_buffer = []"
  by (simp add: bb_content_def empty_buffer_def)

text \<open>The finished bytes hold exactly the written bits and fewer than eight padding zeros.\<close>

lemma bb_bytes_padding:
  assumes "bb_inv bb"
  obtains pad where "pad < 8" "byte_bits (bb_bytes bb) = bb_content bb @ replicate pad False"
proof -
  let ?bits = "byte_bits (bb_bytes bb)"
  let ?n = "bb_len bb"
  have le: "?n \<le> length ?bits" "length ?bits - ?n < 8"
    using assms by (auto simp: bb_inv_def bb_len_def)
  have "drop ?n ?bits = replicate (length ?bits - ?n) False"
    by (rule nth_equalityI) (use assms in \<open>auto simp: bb_inv_def\<close>)
  then have "?bits = bb_content bb @ replicate (length ?bits - ?n) False"
    by (metis append_take_drop_id bb_content_def)
  with le(2) show thesis by (rule that)
qed

section \<open>Reading bits\<close>

text \<open>
  The reading position \<^verbatim>\<open>(bp, bitp)\<close> of the closures is kept as the one number
  \<open>8 * bp + bitp\<close>: \<^verbatim>\<open>if (++bitp == 8) { bitp = 0; bp++; }\<close> adds one to it, \<^verbatim>\<open>bp\<close>
  is \<open>p div 8\<close> and \<^verbatim>\<open>bitp\<close> is \<open>p mod 8\<close>.
\<close>

type_synonym bit_pos = nat

definition at_end :: "byte list \<Rightarrow> bit_pos \<Rightarrow> bool" where
  "at_end data p \<longleftrightarrow> length data \<le> p div 8"

definition read_bit :: "byte list \<Rightarrow> bit_pos \<Rightarrow> bool \<times> bit_pos" where
  "read_bit data p =
     (if at_end data p then (False, p)
      else (drop_bit (p mod 8) (data ! (p div 8)) AND 1 = 1, p + 1))"

definition gather :: "('s \<Rightarrow> bool \<times> 's) \<Rightarrow> nat \<Rightarrow> 's \<Rightarrow> u64 \<times> 's" where
  "gather get n s =
     fold (\<lambda>i (v, s). case get s of (b, s') \<Rightarrow> (v OR push_bit i (of_bool b), s')) [0..<n] (0, s)"

definition read_bits :: "byte list \<Rightarrow> nat \<Rightarrow> bit_pos \<Rightarrow> u64 \<times> bit_pos" where
  "read_bits data n p = gather (read_bit data) n p"

text \<open>A source: one bit per call, and zeros without moving once the bits are used up.\<close>

locale bit_source =
  fixes get :: "'s \<Rightarrow> bool \<times> 's"
    and rest :: "'s \<Rightarrow> bool list"
  assumes get_bit: "fst (get s) = (rest s \<noteq> [] \<and> hd (rest s))"
    and get_rest: "rest (snd (get s)) = tl (rest s)"
begin

lemma gather_spec:
  assumes "n \<le> 64"
  shows "fst (gather get n s) = bits_word (take n (rest s))
    \<and> rest (snd (gather get n s)) = drop n (rest s)"
  using assms
proof (induction n)
  case 0
  then show ?case by (simp add: gather_def bits_word_def)
next
  case (Suc n)
  obtain v t where g: "gather get n s = (v, t)" by (cases "gather get n s")
  with Suc have v: "v = bits_word (take n (rest s))" and t: "rest t = drop n (rest s)"
    by simp_all
  have gS: "gather get (Suc n) s = (v OR push_bit n (of_bool (fst (get t))), snd (get t))"
    using g by (simp add: gather_def split: prod.split)
  have b: "fst (get t) = (n < length (rest s) \<and> rest s ! n)"
    using t by (auto simp: get_bit hd_drop_conv_nth)
  have "v OR push_bit n (of_bool (fst (get t))) = bits_word (take (Suc n) (rest s))"
    by (rule bit_word_eqI) (use Suc.prems in \<open>auto simp: v b bit_simps bit_facts less_Suc_eq\<close>)
  then show ?case
    using t by (simp add: gS get_rest tl_drop drop_Suc)
qed

lemma gather_value: "n \<le> 64 \<Longrightarrow> fst (gather get n s) = bits_word (take n (rest s))"
  and gather_rest: "n \<le> 64 \<Longrightarrow> rest (snd (gather get n s)) = drop n (rest s)"
  by (simp_all add: gather_spec)

end

definition rest_bits :: "byte list \<Rightarrow> bit_pos \<Rightarrow> bool list" where
  "rest_bits data p = drop p (byte_bits data)"

lemma rest_bits_start [simp]: "rest_bits data 0 = byte_bits data"
  by (simp add: rest_bits_def)

lemma at_end_iff: "at_end data p \<longleftrightarrow> rest_bits data p = []"
proof -
  have "length data \<le> p div 8 \<longleftrightarrow> 8 * length data \<le> p" by linarith
  then show ?thesis by (simp add: at_end_def rest_bits_def)
qed

interpretation rd: bit_source "read_bit data" "rest_bits data" for data
proof unfold_locales
  fix s
  show "fst (read_bit data s) = (rest_bits data s \<noteq> [] \<and> hd (rest_bits data s))"
  proof (cases "at_end data s")
    case True
    then show ?thesis by (simp add: read_bit_def at_end_iff)
  next
    case False
    then have "s < length (byte_bits data)" by (simp add: at_end_iff rest_bits_def)
    with False show ?thesis
      by (simp add: read_bit_def at_end_iff [symmetric] drop_bit_and_1)
         (simp add: rest_bits_def hd_drop_conv_nth nth_byte_bits_div)
  qed
  show "rest_bits data (snd (read_bit data s)) = tl (rest_bits data s)"
    by (simp add: read_bit_def at_end_iff) (simp add: rest_bits_def tl_drop drop_Suc)
qed

lemmas read_bits_value = rd.gather_value [folded read_bits_def]
lemmas read_bits_rest = rd.gather_rest [folded read_bits_def]

text \<open>Reading never moves back, and moves on as long as there are bits.\<close>

lemma read_bit_mono: "p \<le> snd (read_bit data p)"
  by (simp add: read_bit_def)

lemma read_bit_progress: "\<not> at_end data p \<Longrightarrow> p < snd (read_bit data p)"
  by (simp add: read_bit_def)

lemma read_bits_mono: "p \<le> snd (read_bits data n p)"
proof (induction n)
  case 0
  then show ?case by (simp add: read_bits_def gather_def)
next
  case (Suc n)
  obtain v q where g: "read_bits data n p = (v, q)" by (cases "read_bits data n p")
  then have "snd (read_bits data (Suc n) p) = snd (read_bit data q)"
    by (simp add: read_bits_def gather_def split: prod.split)
  with Suc g read_bit_mono [of q data] show ?case by simp
qed

text \<open>Consuming a known bit, or a known word, from the front of the remaining bits.\<close>

lemma rest_bits_add: "rest_bits data (p + n) = drop n (rest_bits data p)"
  by (simp add: rest_bits_def add.commute)

lemma read_bit_Cons:
  assumes "rest_bits data p = b # r"
  shows "read_bit data p = (b, p + 1)" and "rest_bits data (p + 1) = r"
proof -
  have "fst (read_bit data p) = b" using assms by (simp add: rd.get_bit)
  moreover have "snd (read_bit data p) = p + 1" using assms by (simp add: read_bit_def at_end_iff)
  ultimately show "read_bit data p = (b, p + 1)" by (simp add: prod_eq_iff)
  show "rest_bits data (p + 1) = r" using assms by (simp only: rest_bits_add) simp
qed

lemma read_bits_pos:
  "n \<le> length (rest_bits data p) \<Longrightarrow> snd (read_bits data n p) = p + n"
proof (induction n)
  case 0
  then show ?case by (simp add: read_bits_def gather_def)
next
  case (Suc n)
  obtain v q where g: "read_bits data n p = (v, q)" by (cases "read_bits data n p")
  with Suc have q: "q = p + n" by simp
  have "rest_bits data (p + n) \<noteq> []" using Suc.prems by (simp add: rest_bits_add)
  then have "snd (read_bit data (p + n)) = p + n + 1" by (simp add: read_bit_def at_end_iff)
  moreover have "snd (read_bits data (Suc n) p) = snd (read_bit data q)"
    using g by (simp add: read_bits_def gather_def split: prod.split)
  ultimately show ?case by (simp add: q)
qed

lemma read_bits_word:
  assumes "rest_bits data p = word_bits n w @ r" "n \<le> 64"
  shows "read_bits data n p = (take_bit n w, p + n)" and "rest_bits data (p + n) = r"
proof -
  have "fst (read_bits data n p) = take_bit n w"
    using assms by (simp add: read_bits_value bits_word_word_bits)
  moreover have "snd (read_bits data n p) = p + n" using assms by (simp add: read_bits_pos)
  ultimately show "read_bits data n p = (take_bit n w, p + n)" by (simp add: prod_eq_iff)
  show "rest_bits data (p + n) = r" using assms by (simp add: rest_bits_add)
qed

end
