(* ===== verification/Stream_Codec.thy ===== *)
theory Stream_Codec
  imports Bitstream
begin

text \<open>
  The contract that the timestamp and the value codec of \<^verbatim>\<open>compressor.cpp\<close> share. An encoder
  in state \<open>e\<close> emits a non-empty bit string for each item and moves to its next state; a decoder
  step, positioned before that string, returns the item as the encoder meant it (\<open>out\<close>) and
  stops right behind it. \<^verbatim>\<open>Decode\<close> repeats the step while items remain and the byte vector
  is not used up; \<open>None\<close> stands for the sentinel count \<^verbatim>\<open>SIZE_MAX\<close>.
\<close>

fun emit_all :: "('e \<Rightarrow> 'a \<Rightarrow> bool list) \<Rightarrow> ('e \<Rightarrow> 'a \<Rightarrow> 'e) \<Rightarrow> 'e \<Rightarrow> 'a list \<Rightarrow> bool list" where
  "emit_all emit nxt e [] = []"
| "emit_all emit nxt e (x # xs) = emit e x @ emit_all emit nxt (nxt e x) xs"

fun out_all :: "('e \<Rightarrow> 'a \<Rightarrow> 'b) \<Rightarrow> ('e \<Rightarrow> 'a \<Rightarrow> 'e) \<Rightarrow> 'e \<Rightarrow> 'a list \<Rightarrow> 'b list" where
  "out_all out nxt e [] = []"
| "out_all out nxt e (x # xs) = out e x # out_all out nxt (nxt e x) xs"

fun ok_all :: "('e \<Rightarrow> 'a \<Rightarrow> bool) \<Rightarrow> ('e \<Rightarrow> 'a \<Rightarrow> 'e) \<Rightarrow> 'e \<Rightarrow> 'a list \<Rightarrow> bool" where
  "ok_all ok nxt e [] = True"
| "ok_all ok nxt e (x # xs) = (ok e x \<and> ok_all ok nxt (nxt e x) xs)"

lemma length_out_all [simp]: "length (out_all out nxt e xs) = length xs"
  by (induction xs arbitrary: e) auto

lemma out_all_map: "(\<And>e x. out e x = f x) \<Longrightarrow> out_all out nxt e xs = map f xs"
  by (induction xs arbitrary: e) auto

definition has_more :: "nat option \<Rightarrow> bool" where
  "has_more remaining \<longleftrightarrow> remaining \<noteq> Some 0"

definition one_less :: "nat option \<Rightarrow> nat option" where
  "one_less remaining = map_option (\<lambda>n. n - 1) remaining"

lemma has_more_simps [simp]: "has_more None" "has_more (Some n) \<longleftrightarrow> n \<noteq> 0"
  by (simp_all add: has_more_def)

lemma one_less_simps [simp]: "one_less None = None" "one_less (Some n) = Some (n - 1)"
  by (simp_all add: one_less_def)

locale stream_codec =
  fixes emit :: "'e \<Rightarrow> 'a \<Rightarrow> bool list"
    and nxt :: "'e \<Rightarrow> 'a \<Rightarrow> 'e"
    and ok :: "'e \<Rightarrow> 'a \<Rightarrow> bool"
    and out :: "'e \<Rightarrow> 'a \<Rightarrow> 'b"
    and agree :: "'e \<Rightarrow> 'd \<Rightarrow> bool"
    and step :: "byte list \<Rightarrow> 'd \<Rightarrow> bit_pos \<Rightarrow> 'b \<times> 'd \<times> bit_pos"
    and loop :: "byte list \<Rightarrow> nat option \<Rightarrow> 'd \<Rightarrow> bit_pos \<Rightarrow> 'b list"
  assumes step_emit: "agree e d \<Longrightarrow> ok e x \<Longrightarrow> rest_bits data p = emit e x @ tail \<Longrightarrow>
      \<exists>d' p'. step data d p = (out e x, d', p') \<and> rest_bits data p' = tail \<and> agree (nxt e x) d'"
    and emit_nonempty: "emit e x \<noteq> []"
    and step_rest: "rest_bits data p \<noteq> [] \<Longrightarrow>
      length (rest_bits data (snd (snd (step data d p)))) < length (rest_bits data p)"
    and loop_unfold: "loop data r d p =
      (if has_more r \<and> rest_bits data p \<noteq> []
       then case step data d p of (y, d', p') \<Rightarrow> y # loop data (one_less r) d' p'
       else [])"
begin

text \<open>Decoding runs through everything the encoder emitted, whatever follows it.\<close>

lemma loop_emitted:
  assumes "agree e d" "ok_all ok nxt e xs"
    and "rest_bits data p = emit_all emit nxt e xs @ tail"
    and "r = None \<or> r = Some (length xs + n)"
  shows "\<exists>d' p'. loop data r d p = out_all out nxt e xs @ loop data (map_option (\<lambda>_. n) r) d' p'
    \<and> rest_bits data p' = tail \<and> agree (foldl nxt e xs) d'"
  using assms
proof (induction xs arbitrary: e d p r)
  case Nil
  then show ?case by (cases r) auto
next
  case (Cons x xs)
  from Cons.prems have ok: "ok e x"
    and rest: "rest_bits data p = emit e x @ (emit_all emit nxt (nxt e x) xs @ tail)"
    by simp_all
  from step_emit [OF Cons.prems(1) ok rest] obtain d1 p1 where
    st: "step data d p = (out e x, d1, p1)" and
    r1: "rest_bits data p1 = emit_all emit nxt (nxt e x) xs @ tail" and
    a1: "agree (nxt e x) d1" by blast
  have ne: "rest_bits data p \<noteq> []" using rest emit_nonempty by simp
  have m: "has_more r" using Cons.prems(4) by auto
  have un: "loop data r d p = out e x # loop data (one_less r) d1 p1"
    by (subst loop_unfold) (simp add: ne m st)
  have "one_less r = None \<or> one_less r = Some (length xs + n)"
    using Cons.prems(4) by auto
  with Cons.IH [OF a1 _ r1, of "one_less r"] Cons.prems(2)
  obtain d' p' where
    "loop data (one_less r) d1 p1 =
       out_all out nxt (nxt e x) xs @ loop data (map_option (\<lambda>_. n) (one_less r)) d' p'"
    "rest_bits data p' = tail" "agree (foldl nxt (nxt e x) xs) d'" by auto
  moreover have "map_option (\<lambda>_. n) (one_less r) = map_option (\<lambda>_. n) r"
    by (cases r) simp_all
  ultimately show ?case using un by auto
qed

text \<open>With the item count known, decoding returns exactly the encoded items.\<close>

lemma loop_counted:
  assumes "agree e d" "ok_all ok nxt e xs" "rest_bits data p = emit_all emit nxt e xs @ tail"
  shows "loop data (Some (length xs)) d p = out_all out nxt e xs"
proof -
  obtain d' p' where "loop data (Some (length xs)) d p =
      out_all out nxt e xs @ loop data (Some 0) d' p'"
    using loop_emitted [OF assms, of "Some (length xs)" 0] by auto
  moreover have "loop data (Some 0) d' p' = []" by (subst loop_unfold) simp
  ultimately show ?thesis by simp
qed

text \<open>Without the count it returns the items and then whatever the leftover bits decode to.\<close>

lemma loop_uncounted:
  assumes "agree e d" "ok_all ok nxt e xs" "rest_bits data p = emit_all emit nxt e xs @ tail"
  obtains d' p' where "loop data None d p = out_all out nxt e xs @ loop data None d' p'"
    and "rest_bits data p' = tail" and "agree (foldl nxt e xs) d'"
  using loop_emitted [OF assms, of None 0] by auto

lemma length_loop: "length (loop data r d p) \<le> length (rest_bits data p)"
proof (induction "length (rest_bits data p)" arbitrary: r d p rule: less_induct)
  case less
  show ?case
  proof (cases "has_more r \<and> rest_bits data p \<noteq> []")
    case True
    obtain y d' p' where st: "step data d p = (y, d', p')" by (cases "step data d p")
    from True step_rest [of data p d] st
    have lt: "length (rest_bits data p') < length (rest_bits data p)" by simp
    from less [OF lt, of "one_less r" d'] lt True st show ?thesis
      by (subst loop_unfold) simp
  next
    case False
    then show ?thesis by (subst loop_unfold) auto
  qed
qed

end

end
