(* ===== verification/Timestamp_Codec.thy ===== *)
theory Timestamp_Codec
  imports Stream_Codec
begin

unbundle bit_operations_syntax

text \<open>
  \<^verbatim>\<open>TimestampCompressor\<close> of \<^verbatim>\<open>src/src/storage/compressor.cpp\<close>: the first timestamp is
  written with 64 bits, every later one as the difference of two consecutive deltas in one of five
  prefix-coded widths. \<^verbatim>\<open>int64_t\<close> arithmetic is \<^typ>\<open>64 word\<close> arithmetic; comparisons read
  the word through \<^const>\<open>sint\<close>.
\<close>

record ts_compressor =
  tc_buffer :: bit_buffer
  tc_prev_ts :: timestamp
  tc_prev_delta :: "64 word"
  tc_first :: bool

definition tc_reset :: ts_compressor where
  "tc_reset = \<lparr>tc_buffer = empty_buffer, tc_prev_ts = 0, tc_prev_delta = 0, tc_first = True\<rparr>"

definition tc_delta_delta :: "ts_compressor \<Rightarrow> timestamp \<Rightarrow> 64 word" where
  "tc_delta_delta c ts = (ts - tc_prev_ts c) - tc_prev_delta c"

definition tc_encode :: "ts_compressor \<Rightarrow> timestamp \<Rightarrow> ts_compressor" where
  "tc_encode c ts =
     (if tc_first c
      then \<lparr>tc_buffer = append_bits ts 64 ((tc_buffer c)\<lparr>bb_byte_pos := 0, bb_bit_pos := 0\<rparr>),
            tc_prev_ts = ts, tc_prev_delta = 0, tc_first = False\<rparr>
      else
        let delta = ts - tc_prev_ts c; dd = delta - tc_prev_delta c; bb = tc_buffer c;
            bb' = (if dd = 0 then append_bit False bb
                   else if - 63 \<le> sint dd \<and> sint dd \<le> 64
                        then append_bits (dd + 63) 7 (append_bits 0b01 2 bb)
                   else if - 255 \<le> sint dd \<and> sint dd \<le> 256
                        then append_bits (dd + 255) 9 (append_bits 0b011 3 bb)
                   else if - 2047 \<le> sint dd \<and> sint dd \<le> 2048
                        then append_bits (dd + 2047) 12 (append_bits 0b0111 4 bb)
                   else append_bits dd 32 (append_bits 0b1111 4 bb))
        in \<lparr>tc_buffer = bb', tc_prev_ts = ts, tc_prev_delta = delta, tc_first = False\<rparr>)"

text \<open>The decoder state is \<^verbatim>\<open>(prev_ts, prev_delta)\<close>.\<close>

definition td_delta :: "byte list \<Rightarrow> 64 word \<Rightarrow> bit_pos \<Rightarrow> 64 word \<times> bit_pos" where
  "td_delta data prev_delta p =
     (case read_bit data p of (b0, p) \<Rightarrow>
      if \<not> b0 then (prev_delta, p) else
      case read_bit data p of (b1, p) \<Rightarrow>
      if \<not> b1 then (case read_bits data 7 p of (v, p) \<Rightarrow> (prev_delta + v - 63, p)) else
      case read_bit data p of (b2, p) \<Rightarrow>
      if \<not> b2 then (case read_bits data 9 p of (v, p) \<Rightarrow> (prev_delta + v - 255, p)) else
      case read_bit data p of (b3, p) \<Rightarrow>
      if \<not> b3 then (case read_bits data 12 p of (v, p) \<Rightarrow> (prev_delta + v - 2047, p)) else
      case read_bits data 32 p of (v, p) \<Rightarrow>
        (prev_delta + scast (ucast (v AND 0xFFFFFFFF) :: 32 word), p))"

definition td_step :: "byte list \<Rightarrow> 64 word \<times> 64 word \<Rightarrow> bit_pos
    \<Rightarrow> timestamp \<times> (64 word \<times> 64 word) \<times> bit_pos" where
  "td_step data d p =
     (case td_delta data (snd d) p of (delta, p) \<Rightarrow> (fst d + delta, (fst d + delta, delta), p))"

lemma td_delta_progress:
  assumes "\<not> at_end data p"
  shows "p < snd (td_delta data prev p)"
proof -
  have 1: "p < snd (read_bit data p)" using assms by (rule read_bit_progress)
  have 2: "q < snd (read_bit data x)" "q < snd (read_bits data n x)" if "q < x" for q x n
    using that read_bit_mono [of x data] read_bits_mono [of x data n] by linarith+
  show ?thesis
    using 1 by (auto simp: td_delta_def split: prod.split) (metis 2 snd_conv)+
qed

function td_loop :: "byte list \<Rightarrow> nat option \<Rightarrow> 64 word \<times> 64 word \<Rightarrow> bit_pos \<Rightarrow> timestamp list" where
  "td_loop data remaining d p =
     (if has_more remaining \<and> \<not> at_end data p
      then case td_step data d p of (ts, d, p) \<Rightarrow> ts # td_loop data (one_less remaining) d p
      else [])"
  by pat_completeness auto
termination
proof (relation "measure (\<lambda>(data, _, _, p). 8 * length data - p)", goal_cases)
  case 1
  then show ?case by simp
next
  case (2 data remaining d p y d' d1 p1)
  have "p < p1" using 2 td_delta_progress [of data p "snd d"]
    by (auto simp: td_step_def split: prod.splits)
  moreover have "p < 8 * length data" using 2 by (auto simp: at_end_def)
  ultimately show ?case by auto
qed

declare td_loop.simps [simp del]

definition td_remaining :: "nat \<Rightarrow> nat option" where
  "td_remaining count = (if count > 0 then Some (count - 1) else None)"

definition td_decode :: "byte list \<Rightarrow> nat \<Rightarrow> timestamp list" where
  "td_decode data count =
     (if data = [] then []
      else case read_bits data 64 0 of (t0, p) \<Rightarrow> t0 # td_loop data (td_remaining count) (t0, 0) p)"

section \<open>The bits of one timestamp\<close>

definition tc_emit :: "ts_compressor \<Rightarrow> timestamp \<Rightarrow> bool list" where
  "tc_emit c ts =
     (let dd = tc_delta_delta c ts in
      if dd = 0 then [False]
      else if - 63 \<le> sint dd \<and> sint dd \<le> 64 then [True, False] @ word_bits 7 (dd + 63)
      else if - 255 \<le> sint dd \<and> sint dd \<le> 256 then [True, True, False] @ word_bits 9 (dd + 255)
      else if - 2047 \<le> sint dd \<and> sint dd \<le> 2048
           then [True, True, True, False] @ word_bits 12 (dd + 2047)
      else [True, True, True, True] @ word_bits 32 dd)"

text \<open>The delta of deltas that the 32-bit escape can carry.\<close>

definition tc_ok :: "ts_compressor \<Rightarrow> timestamp \<Rightarrow> bool" where
  "tc_ok c ts \<longleftrightarrow> - (2 ^ 31) \<le> sint (tc_delta_delta c ts) \<and> sint (tc_delta_delta c ts) < 2 ^ 31"

definition tc_agree :: "ts_compressor \<Rightarrow> 64 word \<times> 64 word \<Rightarrow> bool" where
  "tc_agree c d \<longleftrightarrow> \<not> tc_first c \<and> d = (tc_prev_ts c, tc_prev_delta c)"

lemma word_bits_numeral_prefixes:
  "word_bits 2 (0b01 :: u64) = [True, False]"
  "word_bits 3 (0b011 :: u64) = [True, True, False]"
  "word_bits 4 (0b0111 :: u64) = [True, True, True, False]"
  "word_bits 4 (0b1111 :: u64) = [True, True, True, True]"
  by (simp_all add: word_bits_def upt_rec)

lemma tc_encode_content:
  assumes "\<not> tc_first c" "bb_inv (tc_buffer c)"
  shows "bb_content (tc_buffer (tc_encode c ts)) = bb_content (tc_buffer c) @ tc_emit c ts
    \<and> bb_inv (tc_buffer (tc_encode c ts))"
proof -
  have "tc_buffer (tc_encode c ts) = fold append_bit (tc_emit c ts) (tc_buffer c)"
    using assms(1)
    by (simp add: tc_encode_def tc_emit_def tc_delta_delta_def Let_def append_bits_fold
        word_bits_numeral_prefixes)
  then show ?thesis using assms(2) by (simp add: bb.puts_written bb.puts_inv)
qed

section \<open>Decoding what was emitted\<close>

lemma td_delta_emit:
  assumes "tc_ok c ts" "rest_bits data p = tc_emit c ts @ tail"
  shows "\<exists>p'. td_delta data (tc_prev_delta c) p = (ts - tc_prev_ts c, p') \<and> rest_bits data p' = tail"
proof -
  define dd where "dd = tc_delta_delta c ts"
  have delta: "ts - tc_prev_ts c = tc_prev_delta c + dd"
    by (simp add: dd_def tc_delta_delta_def)
  have window: "tc_prev_delta c + take_bit n (dd + word_of_int k) - word_of_int k = tc_prev_delta c + dd"
    if "0 \<le> sint dd + k" "sint dd + k < 2 ^ n" "n < 64" for n k
    using take_bit_window [OF that] by simp
  note emit = assms(2) [unfolded tc_emit_def Let_def, folded dd_def]
  consider (same) "dd = 0"
    | (w7) "dd \<noteq> 0" "- 63 \<le> sint dd \<and> sint dd \<le> 64"
    | (w9) "dd \<noteq> 0" "\<not> (- 63 \<le> sint dd \<and> sint dd \<le> 64)" "- 255 \<le> sint dd \<and> sint dd \<le> 256"
    | (w12) "dd \<noteq> 0" "\<not> (- 63 \<le> sint dd \<and> sint dd \<le> 64)"
        "\<not> (- 255 \<le> sint dd \<and> sint dd \<le> 256)" "- 2047 \<le> sint dd \<and> sint dd \<le> 2048"
    | (w32) "dd \<noteq> 0" "\<not> (- 63 \<le> sint dd \<and> sint dd \<le> 64)"
        "\<not> (- 255 \<le> sint dd \<and> sint dd \<le> 256)" "\<not> (- 2047 \<le> sint dd \<and> sint dd \<le> 2048)"
    by blast
  then show ?thesis
  proof cases
    case same
    with emit have r: "rest_bits data p = False # tail" by simp
    from read_bit_Cons [OF r] same show ?thesis by (simp add: td_delta_def delta)
  next
    case w7
    with emit have r: "rest_bits data p = True # False # word_bits 7 (dd + 63) @ tail" by simp
    note r1 = read_bit_Cons [OF r]
    note r2 = read_bit_Cons [OF r1(2)]
    note r3 = read_bits_word [OF r2(2)]
    from r1 r2 r3 window [of 63 7] w7 show ?thesis by (simp add: td_delta_def delta)
  next
    case w9
    with emit have r: "rest_bits data p = True # True # False # word_bits 9 (dd + 255) @ tail" by simp
    note r1 = read_bit_Cons [OF r]
    note r2 = read_bit_Cons [OF r1(2)]
    note r3 = read_bit_Cons [OF r2(2)]
    note r4 = read_bits_word [OF r3(2)]
    from r1 r2 r3 r4 window [of 255 9] w9 show ?thesis by (simp add: td_delta_def delta)
  next
    case w12
    with emit have r: "rest_bits data p = True # True # True # False # word_bits 12 (dd + 2047) @ tail"
      by simp
    note r1 = read_bit_Cons [OF r]
    note r2 = read_bit_Cons [OF r1(2)]
    note r3 = read_bit_Cons [OF r2(2)]
    note r4 = read_bit_Cons [OF r3(2)]
    note r5 = read_bits_word [OF r4(2)]
    from r1 r2 r3 r4 r5 window [of 2047 12] w12 show ?thesis by (simp add: td_delta_def delta)
  next
    case w32
    with emit have r: "rest_bits data p = True # True # True # True # word_bits 32 dd @ tail"
      by simp
    note r1 = read_bit_Cons [OF r]
    note r2 = read_bit_Cons [OF r1(2)]
    note r3 = read_bit_Cons [OF r2(2)]
    note r4 = read_bit_Cons [OF r3(2)]
    note r5 = read_bits_word [OF r4(2)]
    have "scast (ucast (take_bit 32 dd AND 0xFFFFFFFF) :: 32 word) = dd"
      using assms(1) by (intro sign_extend_32) (simp_all add: tc_ok_def dd_def)
    with r1 r2 r3 r4 r5 show ?thesis by (simp add: td_delta_def delta)
  qed
qed

lemma tc_emit_nonempty: "tc_emit c ts \<noteq> []"
  by (simp add: tc_emit_def Let_def)

interpretation tcodec: stream_codec tc_emit tc_encode tc_ok "\<lambda>_ ts. ts" tc_agree td_step td_loop
proof unfold_locales
  fix e d x data p tail
  assume a: "tc_agree e d" and ok: "tc_ok e x" and r: "rest_bits data p = tc_emit e x @ tail"
  from a have d: "d = (tc_prev_ts e, tc_prev_delta e)" and nf: "\<not> tc_first e"
    by (simp_all add: tc_agree_def)
  from td_delta_emit [OF ok r] obtain p' where
    "td_delta data (tc_prev_delta e) p = (x - tc_prev_ts e, p')" "rest_bits data p' = tail" by blast
  then have "td_step data d p = (x, (x, x - tc_prev_ts e), p')" by (simp add: td_step_def d)
  moreover have "tc_agree (tc_encode e x) (x, x - tc_prev_ts e)"
    using nf by (simp add: tc_agree_def tc_encode_def Let_def)
  ultimately show "\<exists>d' p'. td_step data d p = (x, d', p') \<and> rest_bits data p' = tail
      \<and> tc_agree (tc_encode e x) d'"
    using \<open>rest_bits data p' = tail\<close> by blast
next
  show "tc_emit e x \<noteq> []" for e x by (rule tc_emit_nonempty)
next
  fix data p d
  assume ne: "rest_bits data p \<noteq> []"
  have "p < snd (snd (td_step data d p))"
    using td_delta_progress [of data p "snd d"] ne
    by (auto simp: td_step_def at_end_iff split: prod.split)
  with ne show "length (rest_bits data (snd (snd (td_step data d p)))) < length (rest_bits data p)"
    by (auto simp: rest_bits_def)
next
  show "td_loop data r d p = (if has_more r \<and> rest_bits data p \<noteq> []
     then case td_step data d p of (y, d', p') \<Rightarrow> y # td_loop data (one_less r) d' p' else [])"
    for data r d p
    by (subst td_loop.simps) (simp add: at_end_iff)
qed

section \<open>Whole sequences\<close>

definition tc_encode_all :: "timestamp list \<Rightarrow> ts_compressor" where
  "tc_encode_all ts = foldl tc_encode tc_reset ts"

text \<open>The sequences whose deltas of deltas all fit the 32-bit escape.\<close>

definition fits32 :: "64 word \<Rightarrow> bool" where
  "fits32 w \<longleftrightarrow> - (2 ^ 31) \<le> sint w \<and> sint w < 2 ^ 31"

fun ts_chain_ok :: "timestamp \<Rightarrow> 64 word \<Rightarrow> timestamp list \<Rightarrow> bool" where
  "ts_chain_ok prev delta [] = True"
| "ts_chain_ok prev delta (t # ts) = (fits32 ((t - prev) - delta) \<and> ts_chain_ok t (t - prev) ts)"

fun ts_encodable :: "timestamp list \<Rightarrow> bool" where
  "ts_encodable [] = True"
| "ts_encodable (t # ts) = ts_chain_ok t 0 ts"

lemma tc_encode_fields:
  "\<not> tc_first c \<Longrightarrow> tc_prev_ts (tc_encode c t) = t"
  "\<not> tc_first c \<Longrightarrow> tc_prev_delta (tc_encode c t) = t - tc_prev_ts c"
  "\<not> tc_first (tc_encode c t)"
  by (simp_all add: tc_encode_def Let_def)

lemma ok_all_chain:
  "\<not> tc_first c \<Longrightarrow> ok_all tc_ok tc_encode c ts = ts_chain_ok (tc_prev_ts c) (tc_prev_delta c) ts"
  by (induction ts arbitrary: c)
     (simp_all add: tc_ok_def fits32_def tc_delta_delta_def tc_encode_fields)

lemma foldl_tc_encode_content:
  assumes "\<not> tc_first c" "bb_inv (tc_buffer c)"
  shows "bb_content (tc_buffer (foldl tc_encode c ts)) =
      bb_content (tc_buffer c) @ emit_all tc_emit tc_encode c ts
    \<and> bb_inv (tc_buffer (foldl tc_encode c ts))"
  using assms
proof (induction ts arbitrary: c)
  case (Cons t ts)
  from tc_encode_content [OF Cons.prems, of t] Cons.IH [of "tc_encode c t"] show ?case
    by (simp add: tc_encode_fields)
qed simp

lemma tc_encode_first:
  "tc_encode tc_reset t = \<lparr>tc_buffer = append_bits t 64 empty_buffer, tc_prev_ts = t,
     tc_prev_delta = 0, tc_first = False\<rparr>"
  by (simp add: tc_encode_def tc_reset_def empty_buffer_def)

lemma append_first_content:
  "bb_content (append_bits t 64 empty_buffer) = word_bits 64 t"
  "bb_inv (append_bits t 64 empty_buffer)"
  by (simp_all add: append_bits_fold bb.puts_written bb.puts_inv)

text \<open>The finished bytes of a non-empty sequence, as a bit string.\<close>

lemma tc_bytes_bits:
  obtains pad where "pad < 8"
    "byte_bits (bb_bytes (tc_buffer (tc_encode_all (t # ts)))) =
       word_bits 64 t @ emit_all tc_emit tc_encode (tc_encode tc_reset t) ts @ replicate pad False"
proof -
  let ?c = "tc_encode tc_reset t"
  have "bb_content (tc_buffer (foldl tc_encode ?c ts)) =
      word_bits 64 t @ emit_all tc_emit tc_encode ?c ts"
    and inv: "bb_inv (tc_buffer (foldl tc_encode ?c ts))"
    using foldl_tc_encode_content [of ?c ts]
    by (simp_all add: tc_encode_first append_first_content)
  then show thesis
    using bb_bytes_padding [OF inv] that by (auto simp: tc_encode_all_def)
qed

lemma tc_bytes_nonempty: "bb_bytes (tc_buffer (tc_encode_all (t # ts))) \<noteq> []"
proof -
  obtain pad where "byte_bits (bb_bytes (tc_buffer (tc_encode_all (t # ts)))) =
       word_bits 64 t @ emit_all tc_emit tc_encode (tc_encode tc_reset t) ts @ replicate pad False"
    by (rule tc_bytes_bits)
  then have "length (byte_bits (bb_bytes (tc_buffer (tc_encode_all (t # ts))))) \<ge> 64" by simp
  then show ?thesis by auto
qed

lemma td_decode_start:
  "td_decode (bb_bytes (tc_buffer (tc_encode_all (t # ts)))) n =
     t # td_loop (bb_bytes (tc_buffer (tc_encode_all (t # ts)))) (td_remaining n) (t, 0) 64"
proof -
  let ?data = "bb_bytes (tc_buffer (tc_encode_all (t # ts)))"
  obtain pad where r: "rest_bits ?data 0 =
       word_bits 64 t @ emit_all tc_emit tc_encode (tc_encode tc_reset t) ts @ replicate pad False"
    using tc_bytes_bits [of t ts] rest_bits_start by metis
  have "read_bits ?data 64 0 = (t, 64)"
    using read_bits_word(1) [OF r] by (simp add: take_bit_id_word)
  then show ?thesis using tc_bytes_nonempty by (simp add: td_decode_def)
qed

lemma td_start_rest:
  obtains pad where "pad < 8" "rest_bits (bb_bytes (tc_buffer (tc_encode_all (t # ts)))) 64 =
      emit_all tc_emit tc_encode (tc_encode tc_reset t) ts @ replicate pad False"
proof (rule tc_bytes_bits [of t ts])
  fix pad
  assume pad: "pad < 8" and bits: "byte_bits (bb_bytes (tc_buffer (tc_encode_all (t # ts)))) =
       word_bits 64 t @ emit_all tc_emit tc_encode (tc_encode tc_reset t) ts @ replicate pad False"
  show thesis
    by (rule that [OF pad]) (simp only: rest_bits_def bits drop_append_exact length_word_bits)
qed

lemma tc_agree_first: "tc_agree (tc_encode tc_reset t) (t, 0)"
  by (simp add: tc_agree_def tc_encode_first)

lemma ts_roundtrip_lemma:
  assumes "ts_encodable ts"
  shows "td_decode (bb_bytes (tc_buffer (tc_encode_all ts))) (length ts) = ts"
proof (cases ts)
  case Nil
  then show ?thesis by (simp add: tc_encode_all_def tc_reset_def empty_buffer_def td_decode_def)
next
  case (Cons t us)
  let ?data = "bb_bytes (tc_buffer (tc_encode_all ts))"
  let ?c = "tc_encode tc_reset t"
  obtain pad where "rest_bits ?data 64 = emit_all tc_emit tc_encode ?c us @ replicate pad False"
    using td_start_rest [of t us] Cons by auto
  moreover have "ok_all tc_ok tc_encode ?c us"
    using assms Cons by (simp add: ok_all_chain tc_encode_fields tc_encode_first)
  ultimately have "td_loop ?data (Some (length us)) (t, 0) 64 = out_all (\<lambda>_ ts. ts) tc_encode ?c us"
    using tcodec.loop_counted [OF tc_agree_first] by blast
  then show ?thesis
    using td_decode_start [of t us "length ts"] Cons by (simp add: td_remaining_def out_all_map)
qed

text \<open>
  Zero padding bits read as timestamps: each one repeats the last delta. This is what a decoder
  that was not told the count makes of the rest of the last byte.
\<close>

lemma td_loop_padding:
  "rest_bits data p = replicate pad False \<Longrightarrow>
   td_loop data None (t, d) p = map (\<lambda>i. t + word_of_nat (Suc i) * d) [0..<pad]"
proof (induction pad arbitrary: t p)
  case 0
  then show ?case by (subst td_loop.simps) (simp add: at_end_iff)
next
  case (Suc pad)
  then have r: "rest_bits data p = False # replicate pad False" by simp
  have "td_loop data None (t, d) p = (t + d) # td_loop data None (t + d, d) (p + 1)"
    using read_bit_Cons(1) [OF r] r
    by (subst td_loop.simps) (simp add: at_end_iff td_step_def td_delta_def)
  also have "\<dots> = (t + d) # map (\<lambda>i. t + d + word_of_nat (Suc i) * d) [0..<pad]"
    using Suc.IH [OF read_bit_Cons(2) [OF r]] by simp
  also have "\<dots> = map (\<lambda>i. t + word_of_nat (Suc i) * d) [0..<Suc pad]"
    by (simp only: upt_conv_Cons [of 0 "Suc pad"] map_Suc_upt [symmetric]) (simp add: algebra_simps)
  finally show ?case .
qed

text \<open>Decoding a finished sequence without its count.\<close>

fun last_delta :: "timestamp list \<Rightarrow> 64 word" where
  "last_delta [] = 0"
| "last_delta [t] = 0"
| "last_delta [t, u] = u - t"
| "last_delta (t # ts) = last_delta ts"

lemma foldl_tc_encode_fields:
  "\<not> tc_first c \<Longrightarrow> tc_prev_ts (foldl tc_encode c ts) = last (tc_prev_ts c # ts)
    \<and> (ts \<noteq> [] \<longrightarrow> tc_prev_delta (foldl tc_encode c ts) = last_delta (tc_prev_ts c # ts))"
proof (induction ts arbitrary: c)
  case (Cons t ts)
  then show ?case by (cases ts) (simp_all add: tc_encode_fields)
qed simp

lemma ts_uncounted_lemma:
  assumes "ts_encodable ts" "ts \<noteq> []"
  obtains k where "k < 8" "td_decode (bb_bytes (tc_buffer (tc_encode_all ts))) 0 =
    ts @ map (\<lambda>i. last ts + word_of_nat (Suc i) * last_delta ts) [0..<k]"
proof -
  obtain t us where ts: "ts = t # us" using assms(2) by (cases ts) auto
  let ?data = "bb_bytes (tc_buffer (tc_encode_all ts))"
  let ?c = "tc_encode tc_reset t"
  obtain pad where pad: "pad < 8"
    and r: "rest_bits ?data 64 = emit_all tc_emit tc_encode ?c us @ replicate pad False"
    using td_start_rest [of t us] ts by metis
  have ok: "ok_all tc_ok tc_encode ?c us"
    using assms ts by (simp add: ok_all_chain tc_encode_fields tc_encode_first)
  obtain d p where l: "td_loop ?data None (t, 0) 64 =
      out_all (\<lambda>_ ts. ts) tc_encode ?c us @ td_loop ?data None d p"
    and p: "rest_bits ?data p = replicate pad False" and d: "tc_agree (foldl tc_encode ?c us) d"
    by (rule tcodec.loop_uncounted [OF tc_agree_first ok r])
  have "d = (last ts, last_delta ts)"
    using d foldl_tc_encode_fields [of ?c us] ts
    by (cases us) (auto simp: tc_agree_def tc_encode_fields tc_encode_first)
  then have "td_loop ?data None (t, 0) 64 =
      us @ map (\<lambda>i. last ts + word_of_nat (Suc i) * last_delta ts) [0..<pad]"
    using p by (simp add: l td_loop_padding out_all_map)
  then show thesis
    using pad td_decode_start [of t us 0] ts
    by (intro that [of pad]) (simp_all add: td_remaining_def)
qed

section \<open>Property\<close>

text \<open>
  Timestamps survive delta-of-delta coding: decoding the finished bytes with the count gives the
  sequence back, as long as every delta of deltas after the first fits a signed 32-bit integer.
\<close>

lemma timestamps_roundtrip:
  assumes "ts_encodable ts"
  shows "td_decode (bb_bytes (tc_buffer (foldl tc_encode tc_reset ts))) (length ts) = ts"
  using ts_roundtrip_lemma [OF assms] by (simp add: tc_encode_all_def)

lemma timestamps_roundtrip_witness:
  "td_decode (bb_bytes (tc_buffer (foldl tc_encode tc_reset [1000, 2000, 3001, 9000, 5])))
      (length [1000, 2000, 3001, 9000, 5 :: timestamp])
    = [1000, 2000, 3001, 9000, 5]"
  by (rule timestamps_roundtrip) (simp add: fits32_def)


end
