(* ===== verification/Value_Codec.thy ===== *)
theory Value_Codec
  imports Stream_Codec
begin

unbundle bit_operations_syntax

text \<open>
  \<^verbatim>\<open>ValueEncoder\<close> of \<^verbatim>\<open>src/src/storage/compressor.cpp\<close>: every value carries a two-bit type
  tag; numbers are XORed with the previous number of their type and only the meaningful bits of
  the difference are written; strings go to a side buffer and leave their length in the stream.
\<close>

record value_encoder =
  ve_buffer :: bit_buffer
  ve_string_data :: "byte list"
  ve_prev_bits :: u64
  ve_prev_int :: "64 word"
  ve_first :: bool

definition ve_reset :: value_encoder where
  "ve_reset = \<lparr>ve_buffer = empty_buffer, ve_string_data = [], ve_prev_bits = 0, ve_prev_int = 0,
     ve_first = True\<rparr>"

definition leading_zeros :: "u64 \<Rightarrow> nat" where
  "leading_zeros x = (if x = 0 then 64 else length (takeWhile (\<lambda>i. \<not> bit x i) (rev [0..<64])))"

definition trailing_zeros :: "u64 \<Rightarrow> nat" where
  "trailing_zeros x = (if x = 0 then 64 else length (takeWhile (\<lambda>i. \<not> bit x i) [0..<64]))"

definition ve_write_bit :: "bool \<Rightarrow> value_encoder \<Rightarrow> value_encoder" where
  "ve_write_bit b e = e\<lparr>ve_buffer := append_bit b (ve_buffer e)\<rparr>"

definition ve_write_bits :: "u64 \<Rightarrow> nat \<Rightarrow> value_encoder \<Rightarrow> value_encoder" where
  "ve_write_bits v n e = e\<lparr>ve_buffer := append_bits v n (ve_buffer e)\<rparr>"

text \<open>The XOR branch, which the code repeats for doubles and for integers.\<close>

definition ve_write_xor :: "u64 \<Rightarrow> value_encoder \<Rightarrow> value_encoder" where
  "ve_write_xor x e =
     (if x = 0 then ve_write_bit False e
      else let lead = leading_zeros x; trail = trailing_zeros x; m = 64 - lead - trail;
               mv = (if m = 64 then 0 else m)
           in ve_write_bits (drop_bit trail x) m
                (ve_write_bits (word_of_nat mv) 6
                  (ve_write_bits (word_of_nat lead) 6 (ve_write_bit True e))))"

fun ve_encode :: "value_encoder \<Rightarrow> val \<Rightarrow> value_encoder" where
  "ve_encode e (VDouble bits) =
     (let e = ve_write_bit False (ve_write_bit False e) in
      if ve_first e
      then (ve_write_bits bits 64 e)\<lparr>ve_prev_bits := bits, ve_prev_int := 0, ve_first := False\<rparr>
      else (ve_write_xor (bits XOR ve_prev_bits e) e)\<lparr>ve_prev_bits := bits\<rparr>)"
| "ve_encode e (VInt ival) =
     (let e = ve_write_bit True (ve_write_bit False e) in
      if ve_first e
      then (ve_write_bits ival 64 e)\<lparr>ve_prev_int := ival, ve_prev_bits := 0, ve_first := False\<rparr>
      else (ve_write_xor (ival XOR ve_prev_int e) e)\<lparr>ve_prev_int := ival\<rparr>)"
| "ve_encode e (VString s) =
     (let e = ve_write_bit False (ve_write_bit True e);
          e = ve_write_bits (ucast (word_of_nat (length s) :: u32)) 32 e;
          e = e\<lparr>ve_string_data := ve_string_data e @ string_bytes s\<rparr>
      in if ve_first e then e\<lparr>ve_prev_bits := 0, ve_prev_int := 0, ve_first := False\<rparr> else e)"

text \<open>
  The decoder. The two tag bits are read in the order of the stream (the operands of
  \<^verbatim>\<open>(rb() << 1) | rb()\<close> evaluated left to right, as clang does). A stream whose leading-zero and
  length fields exceed 64 together is never produced by the encoder; the shift distance the code
  computes for it is negative, and \<open>64 - lead - mv\<close> is 0 here.
\<close>

record value_decoder =
  vd_first :: bool
  vd_prev_bits :: u64
  vd_prev_int :: "64 word"
  vd_str_off :: nat

definition vd_start :: value_decoder where
  "vd_start = \<lparr>vd_first = True, vd_prev_bits = 0, vd_prev_int = 0, vd_str_off = 0\<rparr>"

definition vd_number :: "nat \<Rightarrow> u64 \<Rightarrow> value_decoder \<Rightarrow> val \<times> value_decoder" where
  "vd_number tag raw d =
     (if tag = 0 then (VDouble raw, d\<lparr>vd_prev_bits := raw\<rparr>)
      else (VInt raw, d\<lparr>vd_prev_int := raw\<rparr>))"

definition vd_step :: "byte list \<Rightarrow> byte list \<Rightarrow> value_decoder \<Rightarrow> bit_pos
    \<Rightarrow> val \<times> value_decoder \<times> bit_pos" where
  "vd_step str_data data d p =
     (case read_bit data p of (t1, p) \<Rightarrow>
      case read_bit data p of (t0, p) \<Rightarrow>
      let tag = 2 * of_bool t1 + of_bool t0 in
      if tag = 2 then
        (case read_bits data 32 p of (v, p) \<Rightarrow>
         let slen = unat (ucast v :: u32);
             s = (if vd_str_off d + slen \<le> length str_data
                  then bytes_string (take slen (drop (vd_str_off d) str_data)) else [])
         in (VString s, d\<lparr>vd_str_off := vd_str_off d + slen, vd_first := False\<rparr>, p))
      else if vd_first d then
        (case read_bits data 64 p of (raw, p) \<Rightarrow>
         case vd_number tag raw d of (v, d) \<Rightarrow> (v, d\<lparr>vd_first := False\<rparr>, p))
      else
        case read_bit data p of (b, p) \<Rightarrow>
        if \<not> b then (if tag = 0 then VDouble (vd_prev_bits d) else VInt (vd_prev_int d), d, p)
        else
          case read_bits data 6 p of (lead, p) \<Rightarrow>
          case read_bits data 6 p of (meaningful, p) \<Rightarrow>
          let mv = (if meaningful = 0 then 64 else unat meaningful) in
          case read_bits data mv p of (xv, p) \<Rightarrow>
          let pp = (if tag = 0 then vd_prev_bits d else vd_prev_int d);
              vb = (if mv = 64 then pp XOR xv else pp XOR push_bit (64 - unat lead - mv) xv)
          in case vd_number tag vb d of (v, d) \<Rightarrow> (v, d, p))"

lemma vd_step_progress:
  assumes "\<not> at_end data p"
  shows "p < snd (snd (vd_step str_data data d p))"
proof -
  have 1: "p < snd (read_bit data p)" using assms by (rule read_bit_progress)
  have 2: "p < snd (read_bit data x)" "p < snd (read_bits data n x)" if "p < x" for x n
    using that read_bit_mono [of x data] read_bits_mono [of x data n] by linarith+
  define q where "q = snd (read_bit data (snd (read_bit data p)))"
  have q: "p < q" unfolding q_def by (intro 2 1)
  have "p < snd (read_bits data 32 q)" "p < snd (read_bits data 64 q)" "p < snd (read_bit data q)"
    "p < snd (read_bits data n (snd (read_bits data 6 (snd (read_bits data 6 (snd (read_bit data q)))))))" for n
    by (intro 2 q)+
  then show ?thesis
    unfolding vd_step_def q_def by (simp add: case_prod_beta Let_def)
qed

function vd_loop :: "byte list \<Rightarrow> byte list \<Rightarrow> nat option \<Rightarrow> value_decoder \<Rightarrow> bit_pos \<Rightarrow> val list" where
  "vd_loop str_data data remaining d p =
     (if has_more remaining \<and> \<not> at_end data p
      then case vd_step str_data data d p of (v, d, p) \<Rightarrow> v # vd_loop str_data data (one_less remaining) d p
      else [])"
  by pat_completeness auto
termination
proof (relation "measure (\<lambda>(_, data, _, _, p). 8 * length data - p)", goal_cases)
  case 1
  then show ?case by simp
next
  case (2 str_data data remaining d p v d' d1 p1)
  have "p < p1" using 2 vd_step_progress [of data p str_data d] by (metis snd_conv)
  moreover have "p < 8 * length data" using 2 by (auto simp: at_end_def)
  ultimately show ?case by auto
qed

declare vd_loop.simps [simp del]

definition vd_decode :: "byte list \<Rightarrow> byte list \<Rightarrow> nat \<Rightarrow> val list" where
  "vd_decode data str_data count =
     (if data = [] then []
      else vd_loop str_data data (if count > 0 then Some count else None) vd_start 0)"

section \<open>Leading and trailing zeros\<close>

lemma takeWhile_shorter: "\<exists>y\<in>set xs. \<not> P y \<Longrightarrow> length (takeWhile P xs) < length xs"
  by (induction xs) auto

lemma trailing_zeros_bits:
  assumes "x \<noteq> 0"
  shows "trailing_zeros x < 64" "bit x (trailing_zeros x)" "i < trailing_zeros x \<Longrightarrow> \<not> bit x i"
proof -
  let ?t = "takeWhile (\<lambda>i. \<not> bit x i) [0..<64]"
  have t: "trailing_zeros x = length ?t" using assms by (simp add: trailing_zeros_def)
  obtain j where j: "bit x j" using assms by (auto simp: bit_eq_iff)
  then have "j < 64" by (auto dest: bit_imp_le_length)
  with j have "\<exists>y \<in> set [0..<64]. \<not> \<not> bit x y" by auto
  from takeWhile_shorter [OF this] show lt: "trailing_zeros x < 64" by (simp add: t)
  show "bit x (trailing_zeros x)"
    using nth_length_takeWhile [of "\<lambda>i. \<not> bit x i" "[0..<64]"] lt t by simp
  show "\<not> bit x i" if "i < trailing_zeros x"
  proof -
    have "?t ! i = i" using that lt by (simp add: t takeWhile_nth)
    then show ?thesis using that set_takeWhileD nth_mem [of i ?t] t by metis
  qed
qed

lemma leading_zeros_bits:
  assumes "x \<noteq> 0"
  shows "leading_zeros x < 64" "bit x (63 - leading_zeros x)"
    "63 - leading_zeros x < i \<Longrightarrow> i < 64 \<Longrightarrow> \<not> bit x i"
proof -
  let ?r = "rev [0..<64::nat]"
  let ?t = "takeWhile (\<lambda>i. \<not> bit x i) ?r"
  have r: "?r ! k = 63 - k" if "k < 64" for k using that by (simp add: rev_nth)
  have t: "leading_zeros x = length ?t" using assms by (simp add: leading_zeros_def)
  obtain j where j: "bit x j" using assms by (auto simp: bit_eq_iff)
  then have "j < 64" by (auto dest: bit_imp_le_length)
  with j have "\<exists>y \<in> set ?r. \<not> \<not> bit x y" by auto
  from takeWhile_shorter [OF this] show lt: "leading_zeros x < 64" by (simp add: t)
  show "bit x (63 - leading_zeros x)"
    using nth_length_takeWhile [of "\<lambda>i. \<not> bit x i" ?r] lt t r [of "leading_zeros x"] by simp
  show "\<not> bit x i" if i: "63 - leading_zeros x < i" "i < 64"
  proof -
    have k: "63 - i < length ?t" using i lt t by simp
    then have "?t ! (63 - i) = ?r ! (63 - i)" by (rule takeWhile_nth)
    also have "\<dots> = i" using i by (subst r) auto
    finally show ?thesis using k set_takeWhileD nth_mem [of "63 - i" ?t] by metis
  qed
qed

lemma zeros_span:
  assumes "x \<noteq> 0"
  shows "trailing_zeros x \<le> 63 - leading_zeros x"
  using leading_zeros_bits [OF assms] trailing_zeros_bits [OF assms] by (meson linorder_not_less)

lemma xor_window:
  assumes "x \<noteq> 0"
  defines "lead \<equiv> leading_zeros x" and "trail \<equiv> trailing_zeros x"
  shows "push_bit trail (take_bit (64 - lead - trail) (drop_bit trail x)) = x"
proof (rule bit_word_eqI)
  fix i assume i: "i < LENGTH(64)"
  have "trail \<le> i \<and> i < 64 - lead" if b: "bit x i"
  proof -
    have "\<not> i < trail" using b trailing_zeros_bits(3) [OF assms(1)] by (auto simp: trail_def)
    moreover have "\<not> 63 - lead < i" using b i leading_zeros_bits(3) [OF assms(1)] by (auto simp: lead_def)
    ultimately show ?thesis using leading_zeros_bits(1) [OF assms(1)] by (auto simp: lead_def)
  qed
  then show "bit (push_bit trail (take_bit (64 - lead - trail) (drop_bit trail x))) i = bit x i"
    using i by (auto simp: bit_simps)
qed

section \<open>The bits of one value\<close>

definition xor_emit :: "u64 \<Rightarrow> bool list" where
  "xor_emit x =
     (if x = 0 then [False]
      else let lead = leading_zeros x; trail = trailing_zeros x; m = 64 - lead - trail
           in True # word_bits 6 (word_of_nat lead :: u64)
              @ word_bits 6 (word_of_nat (if m = 64 then 0 else m) :: u64)
              @ word_bits m (drop_bit trail x))"

fun ve_emit :: "value_encoder \<Rightarrow> val \<Rightarrow> bool list" where
  "ve_emit e (VDouble bits) =
     [False, False] @ (if ve_first e then word_bits 64 bits else xor_emit (bits XOR ve_prev_bits e))"
| "ve_emit e (VInt ival) =
     [False, True] @ (if ve_first e then word_bits 64 ival else xor_emit (ival XOR ve_prev_int e))"
| "ve_emit e (VString s) =
     [True, False] @ word_bits 32 (ucast (word_of_nat (length s) :: u32) :: u64)"

fun ve_ok :: "value_encoder \<Rightarrow> val \<Rightarrow> bool" where
  "ve_ok e (VString s) = (length s < 2 ^ 32)"
| "ve_ok e v = True"

text \<open>What the decoder makes of a value when it is given the string bytes \<open>str_data\<close>.\<close>

fun ve_out :: "byte list \<Rightarrow> value_encoder \<Rightarrow> val \<Rightarrow> val" where
  "ve_out str_data e (VString s) =
     VString (let off = length (ve_string_data e) in
        if off + length s \<le> length str_data then bytes_string (take (length s) (drop off str_data))
        else [])"
| "ve_out str_data e v = v"

definition ve_agree :: "value_encoder \<Rightarrow> value_decoder \<Rightarrow> bool" where
  "ve_agree e d \<longleftrightarrow> vd_first d = ve_first e \<and> vd_prev_bits d = ve_prev_bits e
     \<and> vd_prev_int d = ve_prev_int e \<and> vd_str_off d = length (ve_string_data e)
     \<and> (ve_first e \<longrightarrow> ve_prev_bits e = 0 \<and> ve_prev_int e = 0)"

lemma ve_write_xor_buffer:
  "ve_buffer (ve_write_xor x e) = fold append_bit (xor_emit x) (ve_buffer e)"
  by (simp add: ve_write_xor_def xor_emit_def ve_write_bit_def ve_write_bits_def append_bits_fold Let_def)

lemma ve_write_simps [simp]:
  "ve_buffer (ve_write_bit b e) = append_bit b (ve_buffer e)"
  "ve_string_data (ve_write_bit b e) = ve_string_data e"
  "ve_prev_bits (ve_write_bit b e) = ve_prev_bits e"
  "ve_prev_int (ve_write_bit b e) = ve_prev_int e"
  "ve_first (ve_write_bit b e) = ve_first e"
  "ve_buffer (ve_write_bits v n e) = fold append_bit (word_bits n v) (ve_buffer e)"
  "ve_string_data (ve_write_bits v n e) = ve_string_data e"
  "ve_prev_bits (ve_write_bits v n e) = ve_prev_bits e"
  "ve_prev_int (ve_write_bits v n e) = ve_prev_int e"
  "ve_first (ve_write_bits v n e) = ve_first e"
  "ve_string_data (ve_write_xor x e) = ve_string_data e"
  "ve_prev_bits (ve_write_xor x e) = ve_prev_bits e"
  "ve_prev_int (ve_write_xor x e) = ve_prev_int e"
  "ve_first (ve_write_xor x e) = ve_first e"
  by (simp_all add: ve_write_bit_def ve_write_bits_def ve_write_xor_def Let_def append_bits_fold)

lemma ve_encode_buffer: "ve_buffer (ve_encode e v) = fold append_bit (ve_emit e v) (ve_buffer e)"
  by (cases v) (simp_all add: Let_def ve_write_xor_buffer)

lemma ve_encode_content:
  assumes "bb_inv (ve_buffer e)"
  shows "bb_content (ve_buffer (ve_encode e v)) = bb_content (ve_buffer e) @ ve_emit e v"
    and "bb_inv (ve_buffer (ve_encode e v))"
  using assms by (simp_all add: ve_encode_buffer bb.puts_written bb.puts_inv)

lemma ve_encode_strings:
  "ve_string_data (ve_encode e v) = ve_string_data e @ (case v of VString s \<Rightarrow> string_bytes s | _ \<Rightarrow> [])"
  by (cases v) (simp_all add: Let_def)

lemma ve_agree_start [simp]: "ve_agree ve_reset vd_start"
  by (simp add: ve_agree_def ve_reset_def vd_start_def)

section \<open>Decoding what was emitted\<close>

text \<open>The decoder's number branch for a later value, as a function of the previous value.\<close>

definition vd_xor :: "byte list \<Rightarrow> u64 \<Rightarrow> bit_pos \<Rightarrow> u64 option \<times> bit_pos" where
  "vd_xor data pp p =
     (case read_bit data p of (b, p) \<Rightarrow>
      if \<not> b then (None, p)
      else case read_bits data 6 p of (lead, p) \<Rightarrow>
           case read_bits data 6 p of (meaningful, p) \<Rightarrow>
           let mv = (if meaningful = 0 then 64 else unat meaningful) in
           case read_bits data mv p of (xv, p) \<Rightarrow>
           (Some (if mv = 64 then pp XOR xv else pp XOR push_bit (64 - unat lead - mv) xv), p))"

lemma vd_xor_emit:
  assumes "rest_bits data p = xor_emit (v XOR pp) @ tail"
  shows "\<exists>p'. vd_xor data pp p = (if v = pp then None else Some v, p') \<and> rest_bits data p' = tail"
proof (cases "v XOR pp = 0")
  case True
  moreover have "pp XOR (v XOR pp) = v" by (rule bit_word_eqI) (auto simp: bit_simps)
  ultimately have "v = pp" by simp
  from assms True have r: "rest_bits data p = False # tail" by (simp add: xor_emit_def)
  from read_bit_Cons [OF r] \<open>v = pp\<close> show ?thesis by (simp add: vd_xor_def)
next
  case False
  define x where "x = v XOR pp"
  define lead where "lead = leading_zeros x"
  define trail where "trail = trailing_zeros x"
  define m where "m = 64 - lead - trail"
  have x0: "x \<noteq> 0" using False by (simp add: x_def)
  have ne: "v \<noteq> pp" using False by auto
  have ppx: "pp XOR x = v" unfolding x_def by (rule bit_word_eqI) (auto simp: bit_simps)
  have lt: "lead < 64" "trail \<le> 63 - lead"
    using leading_zeros_bits(1) [OF x0] zeros_span [OF x0] by (simp_all add: lead_def trail_def)
  then have m: "0 < m" "m \<le> 64" "64 - lead - m = trail" "m = 64 \<longrightarrow> trail = 0"
    by (auto simp: m_def)
  have win: "push_bit trail (take_bit m (drop_bit trail x)) = x"
    using xor_window [OF x0] by (simp add: lead_def trail_def m_def)
  have small: "take_bit 6 (word_of_nat k :: u64) = word_of_nat k" "unat (word_of_nat k :: u64) = k"
    if "k < 64" for k
  proof -
    show "unat (word_of_nat k :: u64) = k" using that by (simp add: unat_of_nat take_bit_nat_eq_self)
    have "take_bit 6 k = k" using that by (simp add: take_bit_nat_eq_self)
    then have "bit k i \<Longrightarrow> i < 6" for i by (metis bit_take_bit_iff)
    then show "take_bit 6 (word_of_nat k :: u64) = word_of_nat k"
      by (intro bit_word_eqI) (auto simp: bit_simps)
  qed
  define mv where "mv = (if m = 64 then 0 else m)"
  have mv: "mv < 64" "(word_of_nat mv :: u64) = 0 \<longleftrightarrow> m = 64"
    using m small(2) [of mv] by (auto simp: mv_def)
  have "xor_emit x = True # word_bits 6 (word_of_nat lead :: u64)
      @ word_bits 6 (word_of_nat mv :: u64) @ word_bits m (drop_bit trail x)"
    using x0 unfolding xor_emit_def Let_def lead_def trail_def m_def mv_def by simp
  then have r: "rest_bits data p = True # word_bits 6 (word_of_nat lead :: u64)
      @ word_bits 6 (word_of_nat mv :: u64) @ word_bits m (drop_bit trail x) @ tail"
    using assms by (simp add: x_def)
  note r1 = read_bit_Cons [OF r]
  note r2 = read_bits_word [OF r1(2), simplified]
  note r3 = read_bits_word [OF r2(2), simplified]
  note r4 = read_bits_word [OF r3(2) m(2)]
  have mveq: "(if (word_of_nat mv :: u64) = 0 then 64 else unat (word_of_nat mv :: u64)) = m"
    using mv m small(2) [of mv] by (auto simp: mv_def)
  show ?thesis
    using r1 r2 r3 r4 ne m win small [OF lt(1)] small [OF mv(1)] mveq
    by (auto simp: vd_xor_def Let_def ppx)
qed


lemma vd_step_xor:
  assumes "read_bit data p = (t1, p1)" "read_bit data p1 = (t0, p2)" "\<not> (t1 \<and> \<not> t0)" "\<not> vd_first d"
  defines "tag \<equiv> 2 * of_bool t1 + of_bool t0"
  shows "vd_step str_data data d p =
    (case vd_xor data (if tag = 0 then vd_prev_bits d else vd_prev_int d) p2 of
       (None, p) \<Rightarrow> (if tag = 0 then VDouble (vd_prev_bits d) else VInt (vd_prev_int d), d, p)
     | (Some vb, p) \<Rightarrow> (case vd_number tag vb d of (v, d) \<Rightarrow> (v, d, p)))"
  using assms by (cases t1; cases t0; simp add: vd_step_def vd_xor_def Let_def case_prod_beta)

lemma ve_step_emit:
  assumes ag: "ve_agree e d" and ok: "ve_ok e v" and r: "rest_bits data p = ve_emit e v @ tail"
  shows "\<exists>d' p'. vd_step str_data data d p = (ve_out str_data e v, d', p')
    \<and> rest_bits data p' = tail \<and> ve_agree (ve_encode e v) d'"
proof (cases v)
  case (VString s)
  with r have r0: "rest_bits data p = True # False #
      word_bits 32 (ucast (word_of_nat (length s) :: u32) :: u64) @ tail" by simp
  note r1 = read_bit_Cons [OF r0]
  note r2 = read_bit_Cons [OF r1(2)]
  note r3 = read_bits_word [OF r2(2), simplified]
  have u: "ucast (take_bit 32 (ucast (word_of_nat (length s) :: u32)) :: u64) = (word_of_nat (length s) :: u32)"
    by (rule bit_word_eqI) (auto simp: bit_simps)
  have "unat (word_of_nat (length s) :: u32) = length s"
    using ok VString by (simp add: unat_of_nat take_bit_nat_eq_self)
  with r1 r2 r3 u show ?thesis
    using ag VString by (auto simp: vd_step_def ve_agree_def Let_def)
next
  case (VDouble w)
  show ?thesis
  proof (cases "ve_first e")
    case True
    with r VDouble have r0: "rest_bits data p = False # False # word_bits 64 w @ tail" by simp
    note r1 = read_bit_Cons [OF r0]
    note r2 = read_bit_Cons [OF r1(2)]
    note r3 = read_bits_word [OF r2(2), simplified]
    from r1 r2 r3 show ?thesis
      using ag VDouble True
      by (auto simp: vd_step_def ve_agree_def vd_number_def Let_def take_bit_id_word)
  next
    case False
    with r VDouble have r0: "rest_bits data p = False # False # xor_emit (w XOR ve_prev_bits e) @ tail"
      by simp
    note r1 = read_bit_Cons [OF r0]
    note r2 = read_bit_Cons [OF r1(2)]
    from vd_xor_emit [OF r2(2)] obtain p' where
      "vd_xor data (ve_prev_bits e) (p + 1 + 1) = (if w = ve_prev_bits e then None else Some w, p')"
      "rest_bits data p' = tail" by blast
    then show ?thesis
      using vd_step_xor [OF r1(1) r2(1), of d str_data] ag VDouble False
      by (auto simp: ve_agree_def vd_number_def Let_def)
  qed
next
  case (VInt w)
  show ?thesis
  proof (cases "ve_first e")
    case True
    with r VInt have r0: "rest_bits data p = False # True # word_bits 64 w @ tail" by simp
    note r1 = read_bit_Cons [OF r0]
    note r2 = read_bit_Cons [OF r1(2)]
    note r3 = read_bits_word [OF r2(2), simplified]
    from r1 r2 r3 show ?thesis
      using ag VInt True
      by (auto simp: vd_step_def ve_agree_def vd_number_def Let_def take_bit_id_word)
  next
    case False
    with r VInt have r0: "rest_bits data p = False # True # xor_emit (w XOR ve_prev_int e) @ tail"
      by simp
    note r1 = read_bit_Cons [OF r0]
    note r2 = read_bit_Cons [OF r1(2)]
    from vd_xor_emit [OF r2(2)] obtain p' where
      "vd_xor data (ve_prev_int e) (p + 1 + 1) = (if w = ve_prev_int e then None else Some w, p')"
      "rest_bits data p' = tail" by blast
    then show ?thesis
      using vd_step_xor [OF r1(1) r2(1), of d str_data] ag VInt False
      by (auto simp: ve_agree_def vd_number_def Let_def)
  qed
qed

lemma ve_emit_nonempty: "ve_emit e v \<noteq> []"
  by (cases v) auto

interpretation vcodec: stream_codec ve_emit ve_encode ve_ok "ve_out str_data" ve_agree
  "vd_step str_data" "vd_loop str_data" for str_data
proof unfold_locales
  show "ve_agree e d \<Longrightarrow> ve_ok e x \<Longrightarrow> rest_bits data p = ve_emit e x @ tail \<Longrightarrow>
      \<exists>d' p'. vd_step str_data data d p = (ve_out str_data e x, d', p') \<and> rest_bits data p' = tail
        \<and> ve_agree (ve_encode e x) d'" for e d x data p tail
    by (rule ve_step_emit)
  show "ve_emit e x \<noteq> []" for e x by (rule ve_emit_nonempty)
  fix data :: "byte list" and p d
  assume ne: "rest_bits data p \<noteq> []"
  then have "p < snd (snd (vd_step str_data data d p))"
    by (intro vd_step_progress) (simp add: at_end_iff)
  with ne show "length (rest_bits data (snd (snd (vd_step str_data data d p)))) < length (rest_bits data p)"
    by (auto simp: rest_bits_def)
next
  show "vd_loop str_data data r d p = (if has_more r \<and> rest_bits data p \<noteq> []
     then case vd_step str_data data d p of (y, d', p') \<Rightarrow> y # vd_loop str_data data (one_less r) d' p'
     else [])" for data r d p
    by (subst vd_loop.simps) (simp add: at_end_iff)
qed

section \<open>Whole sequences\<close>

definition ve_encode_all :: "val list \<Rightarrow> value_encoder" where
  "ve_encode_all vs = foldl ve_encode ve_reset vs"

fun val_encodable :: "val \<Rightarrow> bool" where
  "val_encodable (VString s) = (length s < 2 ^ 32)"
| "val_encodable v = True"

text \<open>A value read back without its string bytes: numbers survive, strings become empty.\<close>

fun strip_string :: "val \<Rightarrow> val" where
  "strip_string (VString s) = VString []"
| "strip_string v = v"

lemma ok_all_values: "ok_all ve_ok ve_encode e vs = list_all val_encodable vs"
proof (induction vs arbitrary: e)
  case (Cons v vs)
  then show ?case by (cases v) auto
qed simp

lemma foldl_ve_encode_content:
  assumes "bb_inv (ve_buffer e)"
  shows "bb_content (ve_buffer (foldl ve_encode e vs)) =
      bb_content (ve_buffer e) @ emit_all ve_emit ve_encode e vs"
    and "bb_inv (ve_buffer (foldl ve_encode e vs))"
  using assms by (induction vs arbitrary: e) (simp_all add: ve_encode_content)

lemma foldl_ve_encode_strings:
  "ve_string_data (foldl ve_encode e vs) =
     ve_string_data e @ concat (map (\<lambda>v. case v of VString s \<Rightarrow> string_bytes s | _ \<Rightarrow> []) vs)"
  by (induction vs arbitrary: e) (simp_all add: ve_encode_strings)

lemma out_all_full:
  "prefix (ve_string_data (foldl ve_encode e vs)) str_data \<Longrightarrow>
   out_all (ve_out str_data) ve_encode e vs = vs"
proof (induction vs arbitrary: e)
  case (Cons v vs)
  then have IH: "out_all (ve_out str_data) ve_encode (ve_encode e v) vs = vs" by simp
  obtain rest where "str_data = ve_string_data e @ (case v of VString s \<Rightarrow> string_bytes s | _ \<Rightarrow> []) @ rest"
    using Cons.prems by (auto simp: foldl_ve_encode_strings ve_encode_strings prefix_def)
  then have "ve_out str_data e v = v"
    by (cases v) (simp_all add: byte_facts)
  with IH show ?case by simp
qed simp

lemma out_all_stripped: "out_all (ve_out []) ve_encode e vs = map strip_string vs"
proof (induction vs arbitrary: e)
  case (Cons v vs)
  then show ?case by (cases v) (auto simp: bytes_string_def)
qed simp

lemma ve_bytes_bits:
  obtains pad where "pad < 8"
    "rest_bits (bb_bytes (ve_buffer (ve_encode_all vs))) 0 =
       emit_all ve_emit ve_encode ve_reset vs @ replicate pad False"
proof -
  have r: "bb_inv (ve_buffer ve_reset)" "bb_content (ve_buffer ve_reset) = []"
    by (simp_all add: ve_reset_def)
  show thesis
    using bb_bytes_padding [OF foldl_ve_encode_content(2) [OF r(1), of vs]] that
      foldl_ve_encode_content(1) [OF r(1), of vs] r(2)
    by (auto simp: ve_encode_all_def)
qed

lemma ve_bytes_Nil_iff: "bb_bytes (ve_buffer (ve_encode_all vs)) = [] \<longleftrightarrow> vs = []"
proof (cases vs)
  case Nil
  then show ?thesis by (simp add: ve_encode_all_def ve_reset_def empty_buffer_def)
next
  case (Cons v us)
  obtain pad where "rest_bits (bb_bytes (ve_buffer (ve_encode_all vs))) 0 =
       emit_all ve_emit ve_encode ve_reset vs @ replicate pad False"
    using ve_bytes_bits [of vs] by metis
  then show ?thesis using Cons ve_emit_nonempty by auto
qed

lemma value_roundtrip_lemma:
  assumes "list_all val_encodable vs"
  shows "vd_decode (bb_bytes (ve_buffer (ve_encode_all vs))) (ve_string_data (ve_encode_all vs)) (length vs) = vs"
proof (cases "vs = []")
  case True
  then show ?thesis by (simp add: vd_decode_def ve_bytes_Nil_iff)
next
  case False
  let ?data = "bb_bytes (ve_buffer (ve_encode_all vs))"
  let ?str = "ve_string_data (ve_encode_all vs)"
  obtain pad where "rest_bits ?data 0 = emit_all ve_emit ve_encode ve_reset vs @ replicate pad False"
    using ve_bytes_bits [of vs] by metis
  then have "vd_loop ?str ?data (Some (length vs)) vd_start 0 = out_all (ve_out ?str) ve_encode ve_reset vs"
    using assms by (intro vcodec.loop_counted [OF ve_agree_start]) (simp_all add: ok_all_values)
  moreover have "out_all (ve_out ?str) ve_encode ve_reset vs = vs"
    by (rule out_all_full) (simp add: ve_encode_all_def)
  ultimately show ?thesis using False by (simp add: vd_decode_def ve_bytes_Nil_iff)
qed

section \<open>Reading without the count\<close>

text \<open>
  Zero padding bits read as values: every three of them are the tag of a double and the flag
  that repeats the last double of the stream.
\<close>

lemma read_bit_zeros:
  assumes "rest_bits data p = replicate pad False"
  obtains q where "read_bit data p = (False, q)" "rest_bits data q = replicate (pad - 1) False"
proof (cases pad)
  case 0
  with assms have "read_bit data p = (False, p)" by (simp add: read_bit_def at_end_iff)
  with assms 0 show thesis by (intro that) simp_all
next
  case (Suc k)
  with assms have "rest_bits data p = False # replicate k False" by simp
  from read_bit_Cons [OF this] Suc show thesis by (intro that) simp_all
qed

lemma vd_step_zeros:
  assumes "rest_bits data p = replicate pad False" "\<not> vd_first d"
  obtains q where "vd_step str_data data d p = (VDouble (vd_prev_bits d), d, q)"
    "rest_bits data q = replicate (pad - 3) False"
proof -
  obtain p1 where 1: "read_bit data p = (False, p1)" "rest_bits data p1 = replicate (pad - 1) False"
    using assms(1) by (rule read_bit_zeros)
  obtain p2 where 2: "read_bit data p1 = (False, p2)" "rest_bits data p2 = replicate (pad - 1 - 1) False"
    using 1(2) by (rule read_bit_zeros)
  obtain p3 where 3: "read_bit data p2 = (False, p3)" "rest_bits data p3 = replicate (pad - 1 - 1 - 1) False"
    using 2(2) by (rule read_bit_zeros)
  show thesis
    by (rule that [of p3]) (use 1 2 3 assms(2) in \<open>simp_all add: vd_step_def numeral_3_eq_3\<close>)
qed

lemma vd_loop_padding:
  "rest_bits data p = replicate pad False \<Longrightarrow> \<not> vd_first d \<Longrightarrow>
   vd_loop str_data data None d p = replicate ((pad + 2) div 3) (VDouble (vd_prev_bits d))"
proof (induction pad arbitrary: p rule: less_induct)
  case (less pad)
  show ?case
  proof (cases "pad = 0")
    case True
    with less.prems show ?thesis by (subst vd_loop.simps) (simp add: at_end_iff)
  next
    case False
    obtain q where q: "vd_step str_data data d p = (VDouble (vd_prev_bits d), d, q)"
      "rest_bits data q = replicate (pad - 3) False"
      using less.prems by (rule vd_step_zeros)
    have "vd_loop str_data data None d p = VDouble (vd_prev_bits d) # vd_loop str_data data None d q"
      using False less.prems(1) q(1) by (subst vd_loop.simps) (simp add: at_end_iff)
    also have "\<dots> = replicate (Suc ((pad - 3 + 2) div 3)) (VDouble (vd_prev_bits d))"
      using less.IH [of "pad - 3" q] False q(2) less.prems(2) by simp
    also have "Suc ((pad - 3 + 2) div 3) = (pad + 2) div 3"
    proof (cases "pad < 3")
      case True
      with False have "pad = 1 \<or> pad = 2" by linarith
      then show ?thesis by auto
    next
      case ge: False
      then obtain k where "pad = k + 3" by (metis add.commute le_Suc_ex linorder_not_less)
      then show ?thesis by simp
    qed
    finally show ?thesis .
  qed
qed

text \<open>The double that the padding repeats: the last one encoded, 0.0 if there is none.\<close>

fun last_double :: "u64 \<Rightarrow> val list \<Rightarrow> u64" where
  "last_double w [] = w"
| "last_double w (VDouble b # vs) = last_double b vs"
| "last_double w (v # vs) = last_double w vs"

lemma foldl_ve_encode_prev:
  "(ve_first e \<longrightarrow> ve_prev_bits e = 0) \<Longrightarrow>
   ve_prev_bits (foldl ve_encode e vs) = last_double (ve_prev_bits e) vs"
proof (induction vs arbitrary: e)
  case (Cons v vs)
  then show ?case by (cases v) (simp_all add: Let_def)
qed simp

lemma foldl_ve_encode_first: "ve_first (foldl ve_encode e vs) \<longleftrightarrow> ve_first e \<and> vs = []"
proof (induction vs arbitrary: e)
  case (Cons v vs)
  have "\<not> ve_first (ve_encode e v)" by (cases v) (simp_all add: Let_def)
  with Cons show ?case by simp
qed simp

lemma value_uncounted_lemma:
  assumes "list_all val_encodable vs" "vs \<noteq> []"
  obtains k where "k \<le> 3" "vd_decode (bb_bytes (ve_buffer (ve_encode_all vs))) [] 0 =
    map strip_string vs @ replicate k (VDouble (last_double 0 vs))"
proof -
  let ?data = "bb_bytes (ve_buffer (ve_encode_all vs))"
  obtain pad where pad: "pad < 8"
    and r: "rest_bits ?data 0 = emit_all ve_emit ve_encode ve_reset vs @ replicate pad False"
    using ve_bytes_bits [of vs] by metis
  have ok: "ok_all ve_ok ve_encode ve_reset vs" using assms(1) by (simp add: ok_all_values)
  obtain d p where l: "vd_loop [] ?data None vd_start 0 =
      out_all (ve_out []) ve_encode ve_reset vs @ vd_loop [] ?data None d p"
    and p: "rest_bits ?data p = replicate pad False" and d: "ve_agree (foldl ve_encode ve_reset vs) d"
    by (rule vcodec.loop_uncounted [OF ve_agree_start ok r])
  have "\<not> vd_first d" "vd_prev_bits d = last_double 0 vs"
    using d assms(2) by (simp_all add: ve_agree_def foldl_ve_encode_first foldl_ve_encode_prev ve_reset_def)
  then have "vd_loop [] ?data None vd_start 0 =
      map strip_string vs @ replicate ((pad + 2) div 3) (VDouble (last_double 0 vs))"
    by (simp add: l vd_loop_padding [OF p] out_all_stripped)
  then show thesis
    using pad assms(2) by (intro that [of "(pad + 2) div 3"]) (simp_all add: vd_decode_def ve_bytes_Nil_iff)
qed

section \<open>Property\<close>

text \<open>
  Values of all three types, mixed in any order, survive the coding bit for bit (doubles by
  their bit pattern, so NaN payloads and the sign of zero are kept); strings shorter than
  \<open>2^32\<close> bytes.
\<close>

lemma values_roundtrip:
  assumes "list_all val_encodable vs"
  shows "vd_decode (bb_bytes (ve_buffer (foldl ve_encode ve_reset vs)))
      (ve_string_data (foldl ve_encode ve_reset vs)) (length vs) = vs"
  using value_roundtrip_lemma [OF assms] by (simp add: ve_encode_all_def)

lemma values_roundtrip_witness:
  "vd_decode (bb_bytes (ve_buffer (foldl ve_encode ve_reset [VDouble 9, VString ''ab'', VInt (- 4), VDouble 9])))
      (ve_string_data (foldl ve_encode ve_reset [VDouble 9, VString ''ab'', VInt (- 4), VDouble 9]))
      (length [VDouble 9, VString ''ab'', VInt (- 4), VDouble 9])
    = [VDouble 9, VString ''ab'', VInt (- 4), VDouble 9]"
  by (rule values_roundtrip) simp

end
