(* ===== verification/Block_Compressor.thy ===== *)
theory Block_Compressor
  imports Timestamp_Codec Value_Codec
begin

text \<open>
  \<^verbatim>\<open>CompressedBlock\<close> and \<^verbatim>\<open>BlockCompressor\<close> of \<^verbatim>\<open>src/src/storage/compressor.{h,cpp}\<close>: a
  batch of points becomes one timestamp stream, one value stream and one string area. Beside the round
  trip, \<open>block_uncounted_lemma\<close> says what a reader gets that lost the point count and the strings.
\<close>

record compressed_block =
  cb_range :: time_range
  cb_timestamps :: "byte list"
  cb_values :: "byte list"
  cb_string_data :: "byte list"
  cb_point_count :: nat

definition empty_block :: compressed_block where
  "empty_block = \<lparr>cb_range = \<lparr>tr_start = 0, tr_end = 0\<rparr>, cb_timestamps = [], cb_values = [],
     cb_string_data = [], cb_point_count = 0\<rparr>"

definition bc_compress :: "data_point list \<Rightarrow> compressed_block" where
  "bc_compress points =
     (if points = [] then empty_block
      else case foldl (\<lambda>(tc, enc) p. (tc_encode tc (dp_ts p), ve_encode enc (dp_value p)))
                  (tc_reset, ve_reset) points of
        (tc, enc) \<Rightarrow>
          \<lparr>cb_range = \<lparr>tr_start = dp_ts (hd points), tr_end = dp_ts (last points)\<rparr>,
           cb_timestamps = bb_bytes (tc_buffer tc),
           cb_values = bb_bytes (ve_buffer enc),
           cb_string_data = ve_string_data enc,
           cb_point_count = length points\<rparr>)"

definition bc_decompress :: "compressed_block \<Rightarrow> data_point list" where
  "bc_decompress block =
     (let ts = td_decode (cb_timestamps block) (cb_point_count block);
          vs = vd_decode (cb_values block) (cb_string_data block) (cb_point_count block);
          n = (if length ts < length vs then length ts else length vs)
      in map (\<lambda>i. \<lparr>dp_ts = ts ! i, dp_value = vs ! i\<rparr>) [0..<n])"

text \<open>The batches the format can represent.\<close>

definition encodable :: "data_point list \<Rightarrow> bool" where
  "encodable points \<longleftrightarrow> ts_encodable (map dp_ts points) \<and> list_all val_encodable (map dp_value points)"

definition strip_point :: "data_point \<Rightarrow> data_point" where
  "strip_point p = p\<lparr>dp_value := strip_string (dp_value p)\<rparr>"

lemma foldl_pair:
  "foldl (\<lambda>(a, b) x. (f a (g x), h b (k x))) (a, b) xs = (foldl f a (map g xs), foldl h b (map k xs))"
  by (induction xs arbitrary: a b) simp_all

lemma bc_compress_Cons:
  "points \<noteq> [] \<Longrightarrow> bc_compress points =
     \<lparr>cb_range = \<lparr>tr_start = dp_ts (hd points), tr_end = dp_ts (last points)\<rparr>,
      cb_timestamps = bb_bytes (tc_buffer (tc_encode_all (map dp_ts points))),
      cb_values = bb_bytes (ve_buffer (ve_encode_all (map dp_value points))),
      cb_string_data = ve_string_data (ve_encode_all (map dp_value points)),
      cb_point_count = length points\<rparr>"
  by (simp add: bc_compress_def foldl_pair [where g = dp_ts and k = dp_value] tc_encode_all_def
      ve_encode_all_def)

lemma bc_compress_Nil: "bc_compress [] = empty_block"
  by (simp add: bc_compress_def)

lemma map_index_zip:
  "n = min (length xs) (length ys) \<Longrightarrow> map (\<lambda>i. f (xs ! i) (ys ! i)) [0..<n] = map2 f xs ys"
  by (rule nth_equalityI) simp_all

lemma bc_decompress_zip:
  "bc_decompress block = map2 (\<lambda>t v. \<lparr>dp_ts = t, dp_value = v\<rparr>)
     (td_decode (cb_timestamps block) (cb_point_count block))
     (vd_decode (cb_values block) (cb_string_data block) (cb_point_count block))"
  unfolding bc_decompress_def Let_def
  by (rule map_index_zip [where f = "\<lambda>t v. \<lparr>dp_ts = t, dp_value = v\<rparr>"]) simp

lemma bc_decompress_empty [simp]: "bc_decompress empty_block = []"
  by (simp add: bc_decompress_zip empty_block_def td_decode_def)

lemma map2_point: "map2 (\<lambda>t v. \<lparr>dp_ts = t, dp_value = v\<rparr>) (map dp_ts ps) (map f ps) =
    map (\<lambda>p. p\<lparr>dp_value := f p\<rparr>) ps"
  by (induction ps) simp_all

lemma block_roundtrip_lemma:
  assumes "encodable points"
  shows "bc_decompress (bc_compress points) = points"
proof (cases "points = []")
  case True
  then show ?thesis by (simp add: bc_compress_Nil)
next
  case False
  from assms have "td_decode (cb_timestamps (bc_compress points)) (length points) = map dp_ts points"
    and "vd_decode (cb_values (bc_compress points)) (cb_string_data (bc_compress points))
      (length points) = map dp_value points"
    using ts_roundtrip_lemma [of "map dp_ts points"] value_roundtrip_lemma [of "map dp_value points"] False
    by (simp_all add: bc_compress_Cons encodable_def)
  then show ?thesis
    using False map2_point [of points dp_value]
    by (simp add: bc_decompress_zip bc_compress_Cons)
qed

text \<open>
  What a reader gets that knows neither the point count nor the string bytes: the points with
  their strings emptied, then up to three phantom points read from the padding of the last byte.
\<close>

definition phantom :: "data_point list \<Rightarrow> nat \<Rightarrow> data_point" where
  "phantom points i =
     \<lparr>dp_ts = dp_ts (last points) + word_of_nat (Suc i) * last_delta (map dp_ts points),
      dp_value = VDouble (last_double 0 (map dp_value points))\<rparr>"

lemma zip_map_replicate:
  "zip (map f [0..<m]) (replicate n x) = map (\<lambda>i. (f i, x)) [0..<min m n]"
  by (rule nth_equalityI) simp_all

lemma block_uncounted_lemma:
  assumes "encodable points" "points \<noteq> []"
  shows "\<exists>k\<le>3. bc_decompress ((bc_compress points)\<lparr>cb_string_data := [], cb_point_count := 0\<rparr>) =
    map strip_point points @ map (phantom points) [0..<k]"
proof -
  let ?ts = "map dp_ts points" and ?vs = "map dp_value points"
  obtain m where m: "td_decode (bb_bytes (tc_buffer (tc_encode_all ?ts))) 0 =
      ?ts @ map (\<lambda>i. last ?ts + word_of_nat (Suc i) * last_delta ?ts) [0..<m]"
    using ts_uncounted_lemma [of ?ts] assms by (auto simp: encodable_def)
  obtain n where n: "n \<le> 3" "vd_decode (bb_bytes (ve_buffer (ve_encode_all ?vs))) [] 0 =
      map strip_string ?vs @ replicate n (VDouble (last_double 0 ?vs))"
    using value_uncounted_lemma [of ?vs] assms by (auto simp: encodable_def)
  have "bc_decompress ((bc_compress points)\<lparr>cb_string_data := [], cb_point_count := 0\<rparr>) =
      map strip_point points @ map (phantom points) [0..<min m n]"
    using assms(2) m n(2) map2_point [of points "\<lambda>p. strip_string (dp_value p)"]
    by (simp add: bc_decompress_zip bc_compress_Cons zip_map_replicate phantom_def strip_point_def
        last_map comp_def)
  with n(1) show ?thesis by (intro exI [of _ "min m n"]) simp
qed

section \<open>Properties\<close>



end
