(* ===== verification/Sstable.thy ===== *)
theory Sstable
  imports Os_File Checksum Block_Compressor
begin

unbundle bit_operations_syntax

text \<open>
  The table files of \<^verbatim>\<open>src/src/storage/sstable.{h,cpp}\<close>: \<^verbatim>\<open>SSTableWriter\<close> writes a
  32-byte header, compressed blocks and a CRC-32; \<^verbatim>\<open>SSTableReader\<close> checks the header and the
  checksum, indexes the blocks and reads ranges. Results that the code ignores are ignored here.
\<close>

section \<open>SSTableWriter\<close>

record sst_writer =
  sw_filepath :: string
  sw_file :: os_file
  sw_file_size :: nat
  sw_data_end :: nat
  sw_block_count :: nat
  sw_block_offsets :: "nat list"
  sw_opened :: bool
  sw_range :: time_range

definition unset_range :: time_range where
  "unset_range = \<lparr>tr_start = int64_max, tr_end = 0\<rparr>"

definition sst_writer_new :: "string \<Rightarrow> sst_writer" where
  "sst_writer_new path = \<lparr>sw_filepath = path, sw_file = None, sw_file_size = 0, sw_data_end = 0,
     sw_block_count = 0, sw_block_offsets = [], sw_opened = False, sw_range = unset_range\<rparr>"

definition sst_version_crc :: u32 where
  "sst_version_crc = 2"

definition sst_placeholder :: "byte list" where
  "sst_placeholder = string_bytes ''MINITSDB'' @ le_bytes 4 sst_version_crc @ replicate 20 0"

definition sst_writer_open :: "sst_writer \<Rightarrow> fsys \<Rightarrow> bool \<times> sst_writer \<times> fsys" where
  "sst_writer_open w fs =
     (case file_open (sw_filepath w) READ_WRITE fs of
        (None, fs) \<Rightarrow> (False, w\<lparr>sw_file := None\<rparr>, fs)
      | (f, fs) \<Rightarrow>
          (case file_write sst_placeholder f fs of
             (_, f, fs) \<Rightarrow> (True, w\<lparr>sw_file := f, sw_file_size := 32, sw_opened := True\<rparr>, fs)))"

definition widen_range :: "time_range \<Rightarrow> time_range \<Rightarrow> time_range" where
  "widen_range r b =
     \<lparr>tr_start = (if tr_start r = int64_max \<or> tr_start b <s tr_start r then tr_start b else tr_start r),
      tr_end = (if tr_end r <s tr_end b then tr_end b else tr_end r)\<rparr>"

definition sst_add_block :: "compressed_block \<Rightarrow> sst_writer \<Rightarrow> fsys \<Rightarrow> sst_writer \<times> fsys" where
  "sst_add_block block w fs =
     (if \<not> sw_opened w then (w, fs)
      else
        let offset = nat (file_tell (sw_file w));
            ts_len = (word_of_nat (length (cb_timestamps block)) :: u32);
            val_len = (word_of_nat (length (cb_values block)) :: u32)
        in (case file_writes
              [le_bytes 8 (tr_start (cb_range block)), le_bytes 8 (tr_end (cb_range block)),
               le_bytes 4 ts_len, take (unat ts_len) (cb_timestamps block),
               le_bytes 4 val_len, take (unat val_len) (cb_values block)] (sw_file w) fs of
            (f, fs) \<Rightarrow>
              (w\<lparr>sw_file := f, sw_block_offsets := sw_block_offsets w @ [offset],
                 sw_range := widen_range (sw_range w) (cb_range block),
                 sw_block_count := sw_block_count w + 1\<rparr>, fs)))"

text \<open>The checksum of the next \<open>remaining\<close> bytes, read in chunks of 64 KiB.\<close>

function crc_read_loop :: "nat \<Rightarrow> u32 \<Rightarrow> os_file \<Rightarrow> fsys \<Rightarrow> u32 \<times> os_file" where
  "crc_read_loop remaining crc f fs =
     (if remaining > 0
      then case file_read (min remaining 65536) f fs of
             (None, f') \<Rightarrow> (crc, f')
           | (Some chunk, f') \<Rightarrow>
               if chunk = [] then (crc, f')
               else crc_read_loop (remaining - length chunk) (crc_update k_crc32_table chunk crc) f' fs
      else (crc, f))"
  by pat_completeness auto
termination by (relation "measure fst") auto

declare crc_read_loop.simps [simp del]

definition sst_writer_close :: "sst_writer \<Rightarrow> fsys \<Rightarrow> sst_writer \<times> fsys" where
  "sst_writer_close w fs =
     (if \<not> sw_opened w then (w, fs)
      else
        let data_end = nat (file_tell (sw_file w));
            f = snd (file_seek 12 SEEK_SET (sw_file w) fs) in
        (case file_writes [le_bytes 2 (0 :: u16), le_bytes 8 (word_of_nat (sw_block_count w) :: u64)] f fs of
           (f, fs) \<Rightarrow>
             let f = snd (file_seek 0 SEEK_SET f fs);
                 (crc, f) = crc_read_loop data_end 0xFFFFFFFF f fs;
                 f = snd (file_seek 0 SEEK_END f fs) in
             (case file_write (le_bytes 4 (crc XOR 0xFFFFFFFF)) f fs of
                (_, f, fs) \<Rightarrow>
                  (w\<lparr>sw_file := file_close f, sw_data_end := data_end, sw_file_size := data_end + 4,
                     sw_opened := False\<rparr>, fs))))"

section \<open>SSTableReader\<close>

record block_index =
  bi_range :: time_range
  bi_file_offset :: nat
  bi_ts_comp_size :: nat
  bi_val_comp_size :: nat

record sst_reader =
  sr_filepath :: string
  sr_file :: os_file
  sr_tag_name :: string
  sr_range :: time_range
  sr_block_count :: nat
  sr_blocks :: "block_index list"
  sr_opened :: bool

definition sst_reader_new :: "string \<Rightarrow> sst_reader" where
  "sst_reader_new path = \<lparr>sr_filepath = path, sr_file = None, sr_tag_name = [], sr_range = unset_range,
     sr_block_count = 0, sr_blocks = [], sr_opened = False\<rparr>"

definition sst_read_header :: "sst_reader \<Rightarrow> fsys \<Rightarrow> sst_reader option" where
  "sst_read_header r fs =
     (case read_zeroed 8 (sr_file r) fs of
        (magic, f) \<Rightarrow>
          if magic \<noteq> string_bytes ''MINITSDB'' then None
          else (case read_exact 4 f fs of None \<Rightarrow> None
          | Some (version, f) \<Rightarrow>
              if le_word version \<noteq> sst_version_crc then None
              else let f = snd (file_seek 12 SEEK_SET f fs) in
              (case read_exact 2 f fs of None \<Rightarrow> None
              | Some (d, f) \<Rightarrow>
                  let tag_len = unat (le_word d :: u16) in
                  (case (if tag_len > 0 then read_exact tag_len f fs else Some ([], f)) of None \<Rightarrow> None
                  | Some (name, f) \<Rightarrow>
                      let tag = (if tag_len > 0 then bytes_string name else sr_tag_name r) in
                      (case read_exact 4 f fs of None \<Rightarrow> None
                      | Some (d, f) \<Rightarrow>
                          Some (r\<lparr>sr_file := snd (file_seek 32 SEEK_SET f fs), sr_tag_name := tag,
                                  sr_block_count := unat (le_word d :: u32)\<rparr>))))))"

text \<open>One turn of the index loop, from the offset of a block to the offset of the next.\<close>

definition sst_index_block :: "sst_reader \<Rightarrow> fsys \<Rightarrow> sst_reader option" where
  "sst_index_block r fs =
     (let header_size = nat (file_tell (sr_file r)) in
      case read_exact 8 (sr_file r) fs of None \<Rightarrow> None
      | Some (start, f) \<Rightarrow> (case read_exact 8 f fs of None \<Rightarrow> None
      | Some (fin, f) \<Rightarrow> (case read_exact 4 f fs of None \<Rightarrow> None
      | Some (d, f) \<Rightarrow>
          let ts_len = unat (le_word d :: u32); f = snd (file_seek (int ts_len) SEEK_CUR f fs) in
          (case read_exact 4 f fs of None \<Rightarrow> None
          | Some (d, f) \<Rightarrow>
              let val_len = unat (le_word d :: u32); f = snd (file_seek (int val_len) SEEK_CUR f fs);
                  rng = \<lparr>tr_start = le_word start, tr_end = le_word fin\<rparr>;
                  idx = \<lparr>bi_range = rng, bi_file_offset = header_size, bi_ts_comp_size = ts_len,
                         bi_val_comp_size = val_len\<rparr>
              in Some (r\<lparr>sr_file := f, sr_blocks := sr_blocks r @ [idx],
                         sr_range := widen_range (sr_range r) rng\<rparr>)))))"

fun sst_index_blocks :: "nat \<Rightarrow> sst_reader \<Rightarrow> fsys \<Rightarrow> sst_reader option" where
  "sst_index_blocks 0 r fs = Some r"
| "sst_index_blocks (Suc n) r fs =
     (case sst_index_block r fs of None \<Rightarrow> None | Some r \<Rightarrow> sst_index_blocks n r fs)"

definition sst_verify_crc :: "sst_reader \<Rightarrow> fsys \<Rightarrow> sst_reader option" where
  "sst_verify_crc r fs =
     (let fsize = file_size (sr_file r) fs in
      if fsize < 4 then None
      else let f = snd (file_seek (fsize - 4) SEEK_SET (sr_file r) fs) in
        (case read_exact 4 f fs of None \<Rightarrow> None
         | Some (stored, f) \<Rightarrow>
             let f = snd (file_seek 0 SEEK_SET f fs);
                 (crc, f) = crc_read_loop (nat fsize - 4) 0xFFFFFFFF f fs in
             if crc XOR 0xFFFFFFFF \<noteq> le_word stored then None else Some (r\<lparr>sr_file := f\<rparr>)))"

definition sst_read_block_index :: "sst_reader \<Rightarrow> fsys \<Rightarrow> sst_reader option" where
  "sst_read_block_index r fs =
     (case sst_index_blocks (sr_block_count r) r fs of None \<Rightarrow> None | Some r \<Rightarrow> sst_verify_crc r fs)"

text \<open>\<open>None\<close> is the result \<^verbatim>\<open>false\<close>; every caller drops the reader then.\<close>

definition sst_reader_open :: "sst_reader \<Rightarrow> fsys \<Rightarrow> sst_reader option" where
  "sst_reader_open r fs =
     (case file_open (sr_filepath r) READ fs of
        (None, _) \<Rightarrow> None
      | (f, _) \<Rightarrow>
          (case sst_read_header (r\<lparr>sr_file := f\<rparr>) fs of None \<Rightarrow> None
           | Some r \<Rightarrow>
               (case sst_read_block_index r fs of None \<Rightarrow> None
                | Some r \<Rightarrow> Some (r\<lparr>sr_opened := True\<rparr>))))"

definition sst_reader_close :: "sst_reader \<Rightarrow> sst_reader" where
  "sst_reader_close r = (if sr_opened r then r\<lparr>sr_file := file_close (sr_file r), sr_opened := False\<rparr> else r)"

text \<open>
  One block read back. The block handed to the decompressor has neither string bytes nor a point
  count: the file does not hold the former and the code does not set the latter.
\<close>

definition sst_load_block :: "block_index \<Rightarrow> os_file \<Rightarrow> fsys \<Rightarrow> compressed_block \<times> os_file" where
  "sst_load_block idx f fs =
     (let f = snd (file_seek (int (bi_file_offset idx)) SEEK_SET f fs);
          f = snd (file_read 8 f fs);
          f = snd (file_read 8 f fs);
          (d, f) = read_zeroed 4 f fs;
          (ts, f) = read_zeroed (unat (le_word d :: u32)) f fs;
          (d, f) = read_zeroed 4 f fs;
          (vs, f) = read_zeroed (unat (le_word d :: u32)) f fs
      in (empty_block\<lparr>cb_timestamps := ts, cb_values := vs\<rparr>, f))"

fun sst_read_blocks :: "block_index list \<Rightarrow> time_range \<Rightarrow> os_file \<Rightarrow> fsys \<Rightarrow> data_point list \<times> os_file" where
  "sst_read_blocks [] rng f fs = ([], f)"
| "sst_read_blocks (idx # idxs) rng f fs =
     (if \<not> overlaps (bi_range idx) rng then sst_read_blocks idxs rng f fs
      else case sst_load_block idx f fs of
        (block, f) \<Rightarrow>
          let points = filter (\<lambda>p. contains rng (dp_ts p)) (bc_decompress block) in
          (case sst_read_blocks idxs rng f fs of (rest, f) \<Rightarrow> (points @ rest, f)))"

definition sst_read_range :: "time_range \<Rightarrow> sst_reader \<Rightarrow> fsys \<Rightarrow> data_point list \<times> sst_reader" where
  "sst_read_range rng r fs =
     (if \<not> sr_opened r then ([], r)
      else case sst_read_blocks (sr_blocks r) rng (sr_file r) fs of (points, f) \<Rightarrow> (points, r\<lparr>sr_file := f\<rparr>))"

section \<open>The image of a table file\<close>

text \<open>The file format as a function of the blocks; the writer produces it and the reader parses it.\<close>

definition sst_header :: "nat \<Rightarrow> byte list" where
  "sst_header n = string_bytes ''MINITSDB'' @ le_bytes 4 sst_version_crc @ le_bytes 2 (0 :: u16)
     @ le_bytes 8 (word_of_nat n :: u64) @ replicate 10 0"

definition block_image :: "compressed_block \<Rightarrow> byte list" where
  "block_image b = le_bytes 8 (tr_start (cb_range b)) @ le_bytes 8 (tr_end (cb_range b))
     @ le_bytes 4 (word_of_nat (length (cb_timestamps b)) :: u32) @ cb_timestamps b
     @ le_bytes 4 (word_of_nat (length (cb_values b)) :: u32) @ cb_values b"

definition sst_data :: "compressed_block list \<Rightarrow> byte list" where
  "sst_data bs = sst_header (length bs) @ concat (map block_image bs)"

definition sst_image :: "compressed_block list \<Rightarrow> byte list" where
  "sst_image bs = sst_data bs @ le_bytes 4 (sst_crc32 (sst_data bs))"

definition block_ok :: "compressed_block \<Rightarrow> bool" where
  "block_ok b \<longleftrightarrow> length (cb_timestamps b) < 2 ^ 32 \<and> length (cb_values b) < 2 ^ 32"

lemma length_sst_header [simp]: "length (sst_header n) = 32"
  by (simp add: sst_header_def)

lemma le_bytes_0: "le_bytes n (0 :: 'a::len word) = replicate n 0"
  by (induction n) simp_all

lemma sst_placeholder_header: "sst_placeholder = sst_header 0"
  by (simp add: sst_placeholder_def sst_header_def le_bytes_0 flip: replicate_add)

lemma sst_header_patch:
  "take 12 (sst_header m) = take 12 (sst_header n)"
  "sst_header n = take 12 (sst_header n) @ (le_bytes 2 (0 :: u16) @ le_bytes 8 (word_of_nat n :: u64)) @ replicate 10 0"
  "drop 22 (sst_header n) = replicate 10 0"
  by (simp_all add: sst_header_def)

lemma unat_u32_of_nat: "n < 2 ^ 32 \<Longrightarrow> unat (word_of_nat n :: u32) = n"
  by (simp add: unat_of_nat take_bit_nat_eq_self)

section \<open>What the writer leaves in the file\<close>

abbreviation rw_handle :: "nat \<Rightarrow> nat \<Rightarrow> os_file" where
  "rw_handle i p \<equiv> Some \<lparr>of_ino = i, of_pos = p, of_mode = READ_WRITE\<rparr>"

lemma file_writes_end:
  "length (ino_data fs i) = p \<Longrightarrow>
   \<exists>fs'. file_writes ds (rw_handle i p) fs = (rw_handle i (p + length (concat ds)), fs')
     \<and> grown i (concat ds) fs fs'"
proof (induction ds arbitrary: p fs)
  case Nil
  then show ?case by (simp add: grown_refl)
next
  case (Cons d ds)
  obtain fs1 where 1: "file_write d (rw_handle i p) fs = (True, rw_handle i (p + length d), fs1)"
    "grown i d fs fs1"
    using file_write_at_end [of "\<lparr>of_ino = i, of_pos = p, of_mode = READ_WRITE\<rparr>" fs d] Cons.prems
    by (auto simp: grown_def)
  moreover obtain fs2 where "file_writes ds (rw_handle i (p + length d)) fs1 =
      (rw_handle i (p + length d + length (concat ds)), fs2)" "grown i (concat ds) fs1 fs2"
    using Cons.IH [of fs1 "p + length d"] 1(2) Cons.prems by (auto simp: grown_def)
  ultimately show ?case by (auto simp: add.assoc intro: grown_trans)
qed

text \<open>A writer on an inode that holds the header and the images of \<open>bs\<close>.\<close>

definition sw_on :: "nat \<Rightarrow> compressed_block list \<Rightarrow> sst_writer \<Rightarrow> fsys \<Rightarrow> bool" where
  "sw_on i bs w fs \<longleftrightarrow> sw_opened w \<and> sw_block_count w = length bs
     \<and> ino_data fs i = sst_header 0 @ concat (map block_image bs)
     \<and> sw_file w = rw_handle i (length (ino_data fs i))"

lemma sst_add_block_on:
  assumes "sw_on i bs w fs" "block_ok b"
  obtains w' fs' where "sst_add_block b w fs = (w', fs')" "sw_on i (bs @ [b]) w' fs'"
    "grown i (block_image b) fs fs'"
proof -
  let ?n = "length (ino_data fs i)"
  obtain fs' where *: "file_writes
      [le_bytes 8 (tr_start (cb_range b)), le_bytes 8 (tr_end (cb_range b)),
       le_bytes 4 (word_of_nat (length (cb_timestamps b)) :: u32), cb_timestamps b,
       le_bytes 4 (word_of_nat (length (cb_values b)) :: u32), cb_values b] (rw_handle i ?n) fs
      = (rw_handle i (?n + length (block_image b)), fs')" "grown i (block_image b) fs fs'"
    using file_writes_end [of fs i ?n "[le_bytes 8 (tr_start (cb_range b)), le_bytes 8 (tr_end (cb_range b)),
       le_bytes 4 (word_of_nat (length (cb_timestamps b)) :: u32), cb_timestamps b,
       le_bytes 4 (word_of_nat (length (cb_values b)) :: u32), cb_values b]"]
    by (auto simp: block_image_def)
  show thesis
    by (rule that [of "w\<lparr>sw_file := rw_handle i (?n + length (block_image b)),
          sw_block_offsets := sw_block_offsets w @ [?n],
          sw_range := widen_range (sw_range w) (cb_range b), sw_block_count := sw_block_count w + 1\<rparr>" fs'])
      (use assms * in \<open>simp_all add: sst_add_block_def sw_on_def block_ok_def unat_u32_of_nat
         file_tell_def grown_def del: file_writes.simps\<close>)
qed

definition sst_add_blocks :: "compressed_block list \<Rightarrow> sst_writer \<times> fsys \<Rightarrow> sst_writer \<times> fsys" where
  "sst_add_blocks bs s = foldl (\<lambda>(w, fs) b. sst_add_block b w fs) s bs"

lemma sst_add_blocks_on:
  "sw_on i bs w fs \<Longrightarrow> list_all block_ok cs \<Longrightarrow>
   \<exists>w' fs'. sst_add_blocks cs (w, fs) = (w', fs') \<and> sw_on i (bs @ cs) w' fs'
     \<and> grown i (concat (map block_image cs)) fs fs'"
proof (induction cs arbitrary: bs w fs)
  case Nil
  then show ?case by (simp add: sst_add_blocks_def grown_refl)
next
  case (Cons c cs)
  obtain w1 fs1 where 1: "sst_add_block c w fs = (w1, fs1)" "sw_on i (bs @ [c]) w1 fs1"
    "grown i (block_image c) fs fs1"
    using sst_add_block_on [of i bs w fs c] Cons.prems by (metis list.pred_inject(2))
  with Cons.IH [OF 1(2)] Cons.prems show ?case
    by (auto simp: sst_add_blocks_def intro: grown_trans)
qed

lemma crc_read_loop_take:
  assumes "m \<noteq> WRITE" "m \<noteq> APPEND"
  shows "crc_read_loop n crc (Some \<lparr>of_ino = i, of_pos = p, of_mode = m\<rparr>) fs =
    (let got = take n (drop p (ino_data fs i))
     in (crc_update k_crc32_table got crc, Some \<lparr>of_ino = i, of_pos = p + length got, of_mode = m\<rparr>))"
proof (induction n arbitrary: crc p rule: less_induct)
  case (less n)
  let ?d = "drop p (ino_data fs i)"
  let ?k = "min n 65536"
  show ?case
  proof (cases "n = 0 \<or> ?d = []")
    case True
    then show ?thesis
      using assms
      by (auto simp: crc_read_loop.simps [of n] file_read_some Let_def crc_update_def)
  next
    case False
    let ?c = "take ?k ?d"
    have c: "?c \<noteq> []" using False by (auto simp: take_eq_Nil)
    have "take n ?d = ?c @ take (n - length ?c) (drop (length ?c) ?d)"
    proof (cases "?k \<le> length ?d")
      case True
      then have "length ?c = ?k" by simp
      moreover have "n = ?k + (n - ?k)" by simp
      then have "take n ?d = take ?k ?d @ take (n - ?k) (drop ?k ?d)" by (metis take_add)
      ultimately show ?thesis by simp
    next
      case False
      then have "length ?d \<le> ?k" by linarith
      then have "?c = ?d" "take n ?d = ?d" by simp_all
      then show ?thesis by simp
    qed
    then have "crc_update k_crc32_table (take n ?d) crc =
        crc_update k_crc32_table (take (n - length ?c) (drop (length ?c) ?d)) (crc_update k_crc32_table ?c crc)"
      and len: "length (take n ?d) = length ?c + length (take (n - length ?c) (drop (length ?c) ?d))"
      by (metis crc_update_def foldl_append, metis length_append)
    moreover have d: "drop (length ?c) ?d = drop (p + length ?c) (ino_data fs i)"
      by (simp only: drop_drop add.commute)
    moreover have "n - length ?c < n" using c False by (cases "n") auto
    moreover have "crc_read_loop n crc (Some \<lparr>of_ino = i, of_pos = p, of_mode = m\<rparr>) fs =
        crc_read_loop (n - length ?c) (crc_update k_crc32_table ?c crc)
          (Some \<lparr>of_ino = i, of_pos = p + length ?c, of_mode = m\<rparr>) fs"
      using False c assms by (simp add: crc_read_loop.simps [of n crc] file_read_some Let_def min_def del: length_take)
    ultimately show ?thesis
      using less.IH [of "n - length ?c" "crc_update k_crc32_table ?c crc" "p + length ?c"]
      by (simp only: Let_def add.assoc)
  qed
qed

lemma file_write_rw:
  "d \<noteq> [] \<Longrightarrow> file_write d (rw_handle i p) fs =
     (True, rw_handle i (p + length d), set_inode i (overwrite (ino_data fs i) p d) fs)"
  by (simp add: file_write_def Let_def)

lemma le_bytes_neq_Nil [simp]: "le_bytes n w = [] \<longleftrightarrow> n = 0"
  by (metis length_0_conv length_le_bytes)

lemma sst_writer_close_on:
  assumes "sw_on i bs w fs"
  obtains w' fs' where "sst_writer_close w fs = (w', fs')" "ino_data fs' i = sst_image bs"
    "only_inode i fs fs'"
proof -
  let ?old = "ino_data fs i" and ?n = "length (ino_data fs i)"
  let ?c = "le_bytes 8 (word_of_nat (length bs) :: u64) :: byte list"
  have w: "sw_opened w" "sw_block_count w = length bs" "sw_file w = rw_handle i ?n"
    and old: "?old = sst_header 0 @ concat (map block_image bs)"
    using assms by (simp_all add: sw_on_def)
  have "overwrite (overwrite ?old 12 (le_bytes 2 (0 :: u16))) 14 ?c
      = take 12 ?old @ (le_bytes 2 (0 :: u16) @ ?c) @ drop 22 ?old"
    by (simp add: old overwrite_inside)
  also have "\<dots> = sst_data bs"
    using sst_header_patch(1) [of 0 "length bs"] sst_header_patch(3) [of 0]
      sst_header_patch(2) [of "length bs"]
    by (simp add: old sst_data_def)
  finally have patched: "overwrite (overwrite ?old 12 (le_bytes 2 (0 :: u16))) 14 ?c = sst_data bs" .
  have n: "length (sst_data bs) = ?n" by (simp add: old sst_data_def)
  let ?fs1 = "set_inode i (overwrite ?old 12 (le_bytes 2 (0 :: u16))) fs"
  let ?fs2 = "set_inode i (sst_data bs) ?fs1"
  have writes: "file_writes [le_bytes 2 (0 :: u16), ?c] (rw_handle i 12) fs = (rw_handle i 22, ?fs2)"
    by (simp add: file_write_rw os_facts patched)
  have crc: "crc_read_loop ?n 0xFFFFFFFF (rw_handle i 0) ?fs2 =
      (crc_update k_crc32_table (sst_data bs) 0xFFFFFFFF, rw_handle i ?n)"
    by (simp add: crc_read_loop_take Let_def os_facts n)
  let ?fs3 = "set_inode i (sst_image bs) ?fs2"
  have last: "file_write (le_bytes 4 (sst_crc32 (sst_data bs))) (rw_handle i ?n) ?fs2 =
      (True, rw_handle i (?n + 4), ?fs3)"
    by (simp add: file_write_rw os_facts sst_image_def overwrite_end flip: n)
  show thesis
    by (rule that [of "w\<lparr>sw_file := None, sw_data_end := ?n, sw_file_size := ?n + 4, sw_opened := False\<rparr>" ?fs3])
      (use writes crc last w in \<open>simp_all add: sst_writer_close_def Let_def file_tell_def file_seek_def file_size_def
          file_close_def os_facts n only_inode_def flip: sst_crc32_def del: file_writes.simps\<close>)
qed

text \<open>A file written in one go, as the flush callback and the compactor do it.\<close>

definition sst_write_blocks :: "string \<Rightarrow> compressed_block list \<Rightarrow> fsys \<Rightarrow> bool \<times> fsys" where
  "sst_write_blocks path bs fs =
     (case sst_writer_open (sst_writer_new path) fs of
        (ok, w, fs) \<Rightarrow>
          if \<not> ok then (False, fs)
          else case sst_add_blocks bs (w, fs) of (w, fs) \<Rightarrow> (True, snd (sst_writer_close w fs)))"

lemma sst_writer_open_on:
  assumes "sst_writer_open (sst_writer_new path) fs = (True, w, fs')"
  obtains i fs0 where "file_open path READ_WRITE fs = (rw_handle i 0, fs0)" "ino_data fs0 i = []"
    "map_of (fs_tree fs0) (split_path path) = Some (FileNode i)"
    "sw_on i [] w fs'" "grown i sst_placeholder fs0 fs'"
proof -
  obtain h fs0 where h: "file_open path READ_WRITE fs = (Some h, fs0)"
    using assms by (auto simp: sst_writer_open_def sst_writer_new_def split: prod.splits option.splits)
  then obtain i where i: "h = \<lparr>of_ino = i, of_pos = 0, of_mode = READ_WRITE\<rparr>" "ino_data fs0 i = []"
    "map_of (fs_tree fs0) (split_path path) = Some (FileNode i)"
    by (auto simp: file_open_def Let_def create_file_def os_facts split: option.splits node.splits if_splits)
  have "sst_placeholder \<noteq> []" by (simp add: sst_placeholder_def)
  then have wr: "file_write sst_placeholder (rw_handle i 0) fs0 =
      (True, rw_handle i 32, set_inode i sst_placeholder fs0)"
    using i(2) by (simp add: file_write_rw overwrite_def sst_placeholder_header)
  have "w = (sst_writer_new path)\<lparr>sw_file := rw_handle i 32, sw_file_size := 32, sw_opened := True\<rparr>"
    "fs' = set_inode i sst_placeholder fs0"
    using assms h i(1) wr by (simp_all add: sst_writer_open_def sst_writer_new_def)
  then have "sw_on i [] w fs'" "grown i sst_placeholder fs0 fs'"
    using i(2) by (simp_all add: sw_on_def sst_writer_new_def os_facts sst_placeholder_header grown_def)
  with h i show thesis by (intro that [of i fs0]) simp_all
qed

lemma sst_write_blocks_image:
  assumes "sst_write_blocks path bs fs = (True, fs')" "list_all block_ok bs"
  obtains i fs0 where "file_open path READ_WRITE fs = (rw_handle i 0, fs0)" "only_inode i fs0 fs'"
    "ino_data fs' i = sst_image bs" "map_of (fs_tree fs0) (split_path path) = Some (FileNode i)"
proof -
  obtain w fs1 where 1: "sst_writer_open (sst_writer_new path) fs = (True, w, fs1)"
    using assms(1) by (auto simp: sst_write_blocks_def split: prod.splits if_splits)
  obtain i fs0 where i: "file_open path READ_WRITE fs = (rw_handle i 0, fs0)" "sw_on i [] w fs1"
    "grown i sst_placeholder fs0 fs1" "map_of (fs_tree fs0) (split_path path) = Some (FileNode i)"
    using sst_writer_open_on [OF 1] .
  obtain w2 fs2 where 2: "sst_add_blocks bs (w, fs1) = (w2, fs2)" "sw_on i bs w2 fs2"
    "grown i (concat (map block_image bs)) fs1 fs2"
    using sst_add_blocks_on [OF i(2) assms(2)] by auto
  obtain w3 fs3 where 3: "sst_writer_close w2 fs2 = (w3, fs3)" "ino_data fs3 i = sst_image bs" "only_inode i fs2 fs3"
    using sst_writer_close_on [OF 2(2)] .
  have "fs' = fs3" using assms(1) 1 2(1) 3(1) by (simp add: sst_write_blocks_def)
  moreover have "only_inode i fs0 fs3"
    using grown_only [OF i(3)] grown_only [OF 2(3)] 3(3) by (blast intro: only_inode_trans)
  ultimately show thesis using i(1,4) 3(2) that by blast
qed

section \<open>What the reader gets from an image\<close>

lemma range_eta [simp]: "\<lparr>tr_start = tr_start r, tr_end = tr_end r\<rparr> = r"
  by (cases r) simp

lemma nth_le_bytes: "i < n \<Longrightarrow> le_bytes n w ! i = ucast (drop_bit (8 * i) w)"
  by (induction n w arbitrary: i rule: le_bytes.induct) (auto simp: nth_Cons drop_bit_drop_bit ac_simps
      split: nat.splits)

lemma le_bytes_count_low:
  "le_bytes 8 (word_of_nat n :: u64) =
     le_bytes 4 (word_of_nat n :: u32) @ drop 4 (le_bytes 8 (word_of_nat n :: u64))"
proof -
  have "take 4 (le_bytes 8 (word_of_nat n :: u64)) = le_bytes 4 (word_of_nat n :: u32)"
  proof (rule nth_equalityI)
    fix i assume "i < length (take 4 (le_bytes 8 (word_of_nat n :: u64)))"
    then have "i < 4" by simp
    then show "take 4 (le_bytes 8 (word_of_nat n :: u64)) ! i = le_bytes 4 (word_of_nat n :: u32) ! i"
      by (simp add: nth_le_bytes) (rule bit_word_eqI, auto simp: bit_simps)
  qed simp
  then show ?thesis by (metis append_take_drop_id)
qed

definition index_of :: "nat \<Rightarrow> compressed_block \<Rightarrow> block_index" where
  "index_of p b = \<lparr>bi_range = cb_range b, bi_file_offset = p, bi_ts_comp_size = length (cb_timestamps b),
     bi_val_comp_size = length (cb_values b)\<rparr>"

fun indices_of :: "nat \<Rightarrow> compressed_block list \<Rightarrow> block_index list" where
  "indices_of p [] = []"
| "indices_of p (b # bs) = index_of p b # indices_of (p + length (block_image b)) bs"

lemma length_block_image:
  "length (block_image b) = 24 + length (cb_timestamps b) + length (cb_values b)"
  by (simp add: block_image_def)

lemma sst_index_block_image:
  assumes "drop p (ino_data fs i) = block_image b @ rest" "block_ok b" "sr_file r = rd_handle i p"
  shows "sst_index_block r fs = Some (r\<lparr>sr_file := rd_handle i (p + length (block_image b)),
    sr_blocks := sr_blocks r @ [index_of p b], sr_range := widen_range (sr_range r) (cb_range b)\<rparr>)"
proof -
  let ?ts = "cb_timestamps b" and ?vs = "cb_values b"
  let ?tl = "word_of_nat (length ?ts) :: u32" and ?vl = "word_of_nat (length ?vs) :: u32"
  have u: "unat ?tl = length ?ts" "unat ?vl = length ?vs"
    using assms(2) by (simp_all add: block_ok_def unat_u32_of_nat)
  have d0: "drop p (ino_data fs i) = le_bytes 8 (tr_start (cb_range b)) @ le_bytes 8 (tr_end (cb_range b))
      @ le_bytes 4 ?tl @ ?ts @ le_bytes 4 ?vl @ ?vs @ rest"
    using assms(1) by (simp add: block_image_def)
  note d1 = drop_rest [OF d0 length_le_bytes]
  note d2 = drop_rest [OF d1 length_le_bytes]
  note d3 = drop_rest [OF d2 length_le_bytes]
  note d4 = drop_rest [OF d3 refl]
  note r = read_rest(1) [OF d0 length_le_bytes] read_rest(1) [OF d1 length_le_bytes]
    read_rest(1) [OF d2 length_le_bytes] read_rest(1) [OF d4 length_le_bytes]
  show ?thesis
    using r u assms(3)
    by (simp add: sst_index_block_def Let_def file_seek_def file_tell_def byte_facts index_of_def
        length_block_image nat_add_distrib ac_simps)
qed

lemma sst_index_blocks_image:
  assumes "drop p (ino_data fs i) = concat (map block_image bs) @ rest" "list_all block_ok bs"
    "sr_file r = rd_handle i p"
  shows "sst_index_blocks (length bs) r fs = Some (r\<lparr>sr_file := rd_handle i (p + length (concat (map block_image bs))),
    sr_blocks := sr_blocks r @ indices_of p bs,
    sr_range := foldl widen_range (sr_range r) (map cb_range bs)\<rparr>)"
  using assms
proof (induction bs arbitrary: p r)
  case (Cons b bs)
  then have d: "drop p (ino_data fs i) = block_image b @ (concat (map block_image bs) @ rest)" by simp
  from Cons.prems drop_rest [OF d refl] show ?case
    by (simp add: sst_index_block_image [OF d] Cons.IH add.assoc)
qed simp

lemma sst_read_header_image:
  assumes "ino_data fs i = sst_image bs" "length bs < 2 ^ 32" "sr_file r = rd_handle i 0"
  shows "sst_read_header r fs = Some (r\<lparr>sr_file := rd_handle i 32, sr_block_count := length bs\<rparr>)"
proof -
  define hi where "hi = drop 4 (le_bytes 8 (word_of_nat (length bs) :: u64) :: byte list)"
  define tail where "tail = hi @ replicate 10 0 @ concat (map block_image bs) @ le_bytes 4 (sst_crc32 (sst_data bs))"
  have lo: "le_bytes 8 (word_of_nat (length bs) :: u64) = le_bytes 4 (word_of_nat (length bs) :: u32) @ hi"
    unfolding hi_def by (rule le_bytes_count_low)
  have d0: "drop 0 (ino_data fs i) = string_bytes ''MINITSDB'' @ le_bytes 4 sst_version_crc @ le_bytes 2 (0 :: u16)
      @ le_bytes 4 (word_of_nat (length bs) :: u32) @ tail"
    by (simp add: assms(1) sst_image_def sst_data_def sst_header_def lo tail_def)
  have m: "length (string_bytes ''MINITSDB'') = 8" by simp
  note d1 = drop_rest [OF d0 m]
  note d2 = drop_rest [OF d1 length_le_bytes]
  note d3 = drop_rest [OF d2 length_le_bytes]
  note r = read_rest(2) [OF d0 m] read_rest(1) [OF d1 length_le_bytes]
    read_rest(1) [OF d2 length_le_bytes] read_rest(1) [OF d3 length_le_bytes]
  show ?thesis
    using r assms(2,3)
    by (simp add: sst_read_header_def Let_def file_seek_def byte_facts unat_u32_of_nat)
qed

lemma sst_crc32_fold: "crc_update k_crc32_table data 0xFFFFFFFF XOR 0xFFFFFFFF = sst_crc32 data"
  by (simp add: sst_crc32_def)

text \<open>The checksum test on any file: the CRC of all bytes but the last four is those four bytes.\<close>

lemma sst_verify_crc_eq:
  assumes "sr_file r = rd_handle i p"
  shows "sst_verify_crc r fs =
    (let d = ino_data fs i; n = length d - 4 in
     if length d < 4 \<or> sst_crc32 (take n d) \<noteq> le_word (drop n d) then None
     else Some (r\<lparr>sr_file := rd_handle i n\<rparr>))"
proof (cases "length (ino_data fs i) < 4")
  case True
  with assms show ?thesis by (simp add: sst_verify_crc_def file_size_def Let_def)
next
  case False
  let ?d = "ino_data fs i" and ?n = "length (ino_data fs i) - 4"
  have r: "read_exact 4 (rd_handle i ?n) fs = Some (drop ?n ?d, rd_handle i (?n + 4))"
    using False by (intro read_rest(1)) simp_all
  have s: "file_seek (int (length ?d) - 4) SEEK_SET (rd_handle i p) fs = (True, rd_handle i ?n)"
    using False by (simp add: file_seek_def Let_def)
  have s0: "file_seek 0 SEEK_SET (rd_handle i q) fs = (True, rd_handle i 0)" for q
    by (simp add: file_seek_def)
  have n: "nat (int (length ?d)) - 4 = ?n" by simp
  show ?thesis
    using False assms
    by (simp add: sst_verify_crc_def file_size_def s s0 r n crc_read_loop_take sst_crc32_fold Let_def)
qed

lemma sst_image_crc:
  "sst_crc32 (take (length (sst_image bs) - 4) (sst_image bs)) = le_word (drop (length (sst_image bs) - 4) (sst_image bs))"
  by (simp add: sst_image_def byte_facts)

definition opened_reader :: "string \<Rightarrow> os_file \<Rightarrow> compressed_block list \<Rightarrow> sst_reader" where
  "opened_reader path f bs = (sst_reader_new path)\<lparr>sr_file := f, sr_block_count := length bs,
     sr_blocks := indices_of 32 bs, sr_range := foldl widen_range unset_range (map cb_range bs), sr_opened := True\<rparr>"

lemma sst_reader_open_image:
  assumes "file_bytes fs path = Some (sst_image bs)" "list_all block_ok bs" "length bs < 2 ^ 32"
  obtains i p where "ino_data fs i = sst_image bs"
    "sst_reader_open (sst_reader_new path) fs = Some (opened_reader path (rd_handle i p) bs)"
proof -
  obtain i where i: "file_open path READ fs = (rd_handle i 0, fs)" "ino_data fs i = sst_image bs"
    using assms(1) by (rule file_bytes_open_read)
  have d: "drop 32 (ino_data fs i) = concat (map block_image bs) @ le_bytes 4 (sst_crc32 (sst_data bs))"
    by (simp add: i(2) sst_image_def sst_data_def)
  let ?r0 = "(sst_reader_new path)\<lparr>sr_file := rd_handle i 0\<rparr>"
  let ?r1 = "?r0\<lparr>sr_file := rd_handle i 32, sr_block_count := length bs\<rparr>"
  have 1: "sst_read_header ?r0 fs = Some ?r1"
    using sst_read_header_image [of fs i bs ?r0] i(2) assms(3) by simp
  let ?r2 = "?r1\<lparr>sr_file := rd_handle i (32 + length (concat (map block_image bs))),
      sr_blocks := indices_of 32 bs, sr_range := foldl widen_range unset_range (map cb_range bs)\<rparr>"
  have 2: "sst_index_blocks (length bs) ?r1 fs = Some ?r2"
    using sst_index_blocks_image [of 32 fs i bs _ ?r1] d assms(2) by (simp add: sst_reader_new_def)
  have 3: "sst_verify_crc ?r2 fs = Some (?r2\<lparr>sr_file := rd_handle i (length (sst_image bs) - 4)\<rparr>)"
    using sst_image_crc [of bs] by (simp add: sst_verify_crc_eq i(2) Let_def sst_image_def)
  show thesis
    by (rule that [of i "length (sst_image bs) - 4"])
      (use i 1 2 3 in \<open>simp_all add: sst_reader_open_def sst_read_block_index_def sst_reader_new_def
         opened_reader_def\<close>)
qed

lemma sst_load_block_image:
  assumes "drop (bi_file_offset idx) (ino_data fs i) = block_image b @ rest" "block_ok b"
  obtains q where "sst_load_block idx (rd_handle i p) fs =
    (empty_block\<lparr>cb_timestamps := cb_timestamps b, cb_values := cb_values b\<rparr>, rd_handle i q)"
proof -
  let ?o = "bi_file_offset idx"
  let ?ts = "cb_timestamps b" and ?vs = "cb_values b"
  let ?tl = "word_of_nat (length ?ts) :: u32" and ?vl = "word_of_nat (length ?vs) :: u32"
  have u: "unat ?tl = length ?ts" "unat ?vl = length ?vs"
    using assms(2) by (simp_all add: block_ok_def unat_u32_of_nat)
  have d0: "drop ?o (ino_data fs i) = le_bytes 8 (tr_start (cb_range b)) @ le_bytes 8 (tr_end (cb_range b))
      @ le_bytes 4 ?tl @ ?ts @ le_bytes 4 ?vl @ ?vs @ rest"
    using assms(1) by (simp add: block_image_def)
  note d1 = drop_rest [OF d0 length_le_bytes]
  note d2 = drop_rest [OF d1 length_le_bytes]
  note d3 = drop_rest [OF d2 length_le_bytes]
  note d4 = drop_rest [OF d3 refl]
  note d5 = drop_rest [OF d4 length_le_bytes]
  note r = read_rest(3) [OF d0 length_le_bytes] read_rest(3) [OF d1 length_le_bytes]
    read_rest(2) [OF d2 length_le_bytes] read_rest(2) [OF d3 refl] read_rest(2) [OF d4 length_le_bytes]
    read_rest(2) [OF d5 refl]
  show thesis
    by (rule that) (use r u in \<open>simp add: sst_load_block_def file_seek_def byte_facts\<close>)
qed

text \<open>A block as it is decompressed by \<^verbatim>\<open>ReadRange\<close>.\<close>

definition uncounted :: "compressed_block \<Rightarrow> compressed_block" where
  "uncounted b = empty_block\<lparr>cb_timestamps := cb_timestamps b, cb_values := cb_values b\<rparr>"

definition image_points :: "time_range \<Rightarrow> compressed_block list \<Rightarrow> data_point list" where
  "image_points rng bs =
     concat (map (\<lambda>b. filter (\<lambda>p. contains rng (dp_ts p)) (bc_decompress (uncounted b)))
       (filter (\<lambda>b. overlaps (cb_range b) rng) bs))"

lemma bi_range_index_of: "bi_range (index_of p b) = cb_range b"
  by (simp add: index_of_def)

lemma sst_read_blocks_image:
  assumes "drop o' (ino_data fs i) = concat (map block_image bs) @ rest" "list_all block_ok bs"
  shows "fst (sst_read_blocks (indices_of o' bs) rng (rd_handle i p) fs) = image_points rng bs"
  using assms
proof (induction bs arbitrary: o' p)
  case Nil
  then show ?case by (simp add: image_points_def)
next
  case (Cons b bs)
  then have d: "drop o' (ino_data fs i) = block_image b @ (concat (map block_image bs) @ rest)" by simp
  have d': "drop (bi_file_offset (index_of o' b)) (ino_data fs i) =
      block_image b @ (concat (map block_image bs) @ rest)"
    using d by (simp add: index_of_def)
  note d2 = drop_rest [OF d refl]
  obtain q where q: "sst_load_block (index_of o' b) (rd_handle i p) fs = (uncounted b, rd_handle i q)"
    using sst_load_block_image [OF d', of p] Cons.prems(2) by (auto simp: uncounted_def)
  show ?case
  proof (cases "overlaps (cb_range b) rng")
    case False
    with Cons.IH [OF d2, of p] Cons.prems(2) show ?thesis by (simp add: image_points_def index_of_def)
  next
    case True
    then have "fst (sst_read_blocks (indices_of o' (b # bs)) rng (rd_handle i p) fs) =
        filter (\<lambda>p. contains rng (dp_ts p)) (bc_decompress (uncounted b))
        @ fst (sst_read_blocks (indices_of (o' + length (block_image b)) bs) rng (rd_handle i q) fs)"
      using q by (simp add: bi_range_index_of split: prod.splits)
    then show ?thesis using Cons.IH [OF d2, of q] Cons.prems(2) True by (simp add: image_points_def)
  qed
qed

lemma file_bytes_write_blocks:
  assumes "sst_write_blocks path bs fs = (True, fs')" "list_all block_ok bs"
  shows "file_bytes fs' path = Some (sst_image bs)"
proof -
  obtain i fs0 where "only_inode i fs0 fs'" "ino_data fs' i = sst_image bs"
    "map_of (fs_tree fs0) (split_path path) = Some (FileNode i)"
    using sst_write_blocks_image [OF assms] .
  then show ?thesis by (simp add: file_bytes_def only_inode_def)
qed

definition sst_read_file :: "string \<Rightarrow> time_range \<Rightarrow> fsys \<Rightarrow> data_point list option" where
  "sst_read_file path rng fs =
     map_option (\<lambda>r. fst (sst_read_range rng r fs)) (sst_reader_open (sst_reader_new path) fs)"

lemma sst_read_image:
  assumes "file_bytes fs path = Some (sst_image bs)" "list_all block_ok bs" "length bs < 2 ^ 32"
  shows "sst_read_file path rng fs = Some (image_points rng bs)"
proof -
  obtain i p where i: "ino_data fs i = sst_image bs"
    "sst_reader_open (sst_reader_new path) fs = Some (opened_reader path (rd_handle i p) bs)"
    using sst_reader_open_image [OF assms] .
  have "drop 32 (ino_data fs i) = concat (map block_image bs) @ le_bytes 4 (sst_crc32 (sst_data bs))"
    by (simp add: i(1) sst_image_def sst_data_def)
  from sst_read_blocks_image [OF this assms(2)] i(2) show ?thesis
    by (simp add: sst_read_file_def sst_read_range_def opened_reader_def split_beta)
qed

section \<open>A reader that opened a file has checked its checksum\<close>

definition reads_inode :: "nat \<Rightarrow> os_file \<Rightarrow> bool" where
  "reads_inode i f \<longleftrightarrow> (\<exists>p. f = rd_handle i p)"

named_theorems reads_facts \<open>reading and seeking stay on the inode\<close>

lemma reads_exact [reads_facts]: "reads_inode i f \<Longrightarrow> read_exact n f fs = Some (d, f') \<Longrightarrow> reads_inode i f'"
  by (auto simp: reads_inode_def read_exact_def file_read_some Let_def split: if_splits)

lemma reads_zeroed [reads_facts]: "reads_inode i f \<Longrightarrow> read_zeroed n f fs = (d, f') \<Longrightarrow> reads_inode i f'"
  by (auto simp: reads_inode_def read_zeroed_def file_read_some Let_def)

lemma reads_seek [reads_facts]: "reads_inode i f \<Longrightarrow> reads_inode i (snd (file_seek k w f fs))"
  by (auto simp: reads_inode_def file_seek_def Let_def)

lemma sst_read_header_reads:
  assumes "reads_inode i (sr_file r)" "sst_read_header r fs = Some r'"
  shows "reads_inode i (sr_file r')"
proof -
  obtain m f1 where 1: "read_zeroed 8 (sr_file r) fs = (m, f1)" by (cases "read_zeroed 8 (sr_file r) fs")
  obtain v f2 where 2: "read_exact 4 f1 fs = Some (v, f2)"
    using assms(2) 1 by (auto simp: sst_read_header_def split: if_splits option.splits)
  let ?f3 = "snd (file_seek 12 SEEK_SET f2 fs)"
  obtain d f4 where 4: "read_exact 2 ?f3 fs = Some (d, f4)"
    using assms(2) 1 2 by (auto simp: sst_read_header_def Let_def split: if_splits option.splits)
  define len where "len = unat (le_word d :: u16)"
  obtain nm f5 where 5: "(if len > 0 then read_exact len f4 fs else Some ([], f4)) = Some (nm, f5)"
    using assms(2) 1 2 4 by (auto simp: sst_read_header_def Let_def len_def split: if_splits option.splits)
  obtain c f6 where 6: "read_exact 4 f5 fs = Some (c, f6)"
    using assms(2) 1 2 4 5 by (auto simp: sst_read_header_def Let_def len_def split: if_splits option.splits)
  have "sr_file r' = snd (file_seek 32 SEEK_SET f6 fs)"
    using assms(2) 1 2 4 5 6 by (auto simp: sst_read_header_def Let_def len_def split: if_splits)
  moreover have "reads_inode i f1" by (rule reads_zeroed [OF assms(1) 1])
  then have "reads_inode i f2" using 2 by (rule reads_exact)
  then have "reads_inode i f4" using 4 by (blast intro: reads_seek reads_exact)
  then have "reads_inode i f5" using 5 reads_exact by (auto split: if_splits)
  then have "reads_inode i f6" using 6 by (rule reads_exact)
  ultimately show ?thesis by (simp add: reads_seek)
qed

lemma sst_index_block_reads:
  assumes "reads_inode i (sr_file r)" "sst_index_block r fs = Some r'"
  shows "reads_inode i (sr_file r')"
  using assms
  by (auto simp: sst_index_block_def Let_def split: prod.splits option.splits)
    (metis reads_exact reads_seek)

lemma sst_index_blocks_reads:
  "reads_inode i (sr_file r) \<Longrightarrow> sst_index_blocks n r fs = Some r' \<Longrightarrow> reads_inode i (sr_file r')"
  by (induction n arbitrary: r) (auto split: option.splits dest: sst_index_block_reads)

definition crc_valid :: "byte list \<Rightarrow> bool" where
  "crc_valid d \<longleftrightarrow> 4 \<le> length d
     \<and> sst_crc32 (take (length d - 4) d) = le_word (drop (length d - 4) d)"

lemma sst_reader_open_crc:
  assumes "file_bytes fs path = Some d" "sst_reader_open (sst_reader_new path) fs = Some r"
  shows "crc_valid d"
proof -
  obtain i where i: "file_open path READ fs = (rd_handle i 0, fs)" "ino_data fs i = d"
    using assms(1) by (rule file_bytes_open_read)
  obtain r1 r2 r3 where 1: "sst_read_header ((sst_reader_new path)\<lparr>sr_file := rd_handle i 0\<rparr>) fs = Some r1"
    and 2: "sst_index_blocks (sr_block_count r1) r1 fs = Some r2" and 3: "sst_verify_crc r2 fs = Some r3"
    using assms(2) i(1)
    by (auto simp: sst_reader_open_def sst_read_block_index_def sst_reader_new_def split: option.splits)
  have "reads_inode i (sr_file r2)"
    using sst_index_blocks_reads [OF sst_read_header_reads [OF _ 1] 2] by (simp add: reads_inode_def)
  then obtain p where "sr_file r2 = rd_handle i p" by (auto simp: reads_inode_def)
  from sst_verify_crc_eq [OF this, of fs] 3 i(2) show ?thesis
    by (auto simp: Let_def crc_valid_def split: if_splits)
qed

lemma bit_le_word:
  "bit (le_word bs :: 'a::len word) k \<longleftrightarrow> k < LENGTH('a) \<and> k < 8 * length bs \<and> byte_bits bs ! k"
proof (induction bs arbitrary: k)
  case (Cons b bs)
  show ?case
  proof (cases "k < 8")
    case True
    then show ?thesis
      by (auto simp: bit_simps byte_bits_Cons nth_append word_bits_def dest: bit_imp_le_length)
  next
    case False
    then obtain j where "k = 8 + j" using le_Suc_ex not_less by blast
    then show ?thesis
      by (auto simp: bit_simps Cons.IH byte_bits_Cons nth_append dest: bit_imp_le_length)
  qed
qed simp

lemma le_word_inj:
  assumes "length bs = length cs" "8 * length bs \<le> LENGTH('a)" "(le_word bs :: 'a::len word) = le_word cs"
  shows "bs = cs"
proof -
  have "byte_bits bs ! k = byte_bits cs ! k" if "k < 8 * length bs" for k
    using that assms bit_le_word [of bs k, where 'a = 'a] bit_le_word [of cs k, where 'a = 'a] by simp
  then have bits: "byte_bits bs = byte_bits cs" using assms(1) by (simp add: list_eq_iff_nth_eq)
  show ?thesis
  proof (rule nth_equalityI [OF assms(1)])
    fix i assume i: "i < length bs"
    show "bs ! i = cs ! i"
    proof (rule bit_word_eqI)
      fix k assume k: "k < LENGTH(8)"
      with i have "8 * i + k < 8 * length bs" by simp
      then show "bit (bs ! i) k = bit (cs ! i) k"
        using nth_byte_bits [of i bs k] nth_byte_bits [of i cs k] bits i k assms(1) by simp
    qed
  qed
qed

lemma crc_valid_change:
  assumes "crc_valid d" "i < length d" "b \<noteq> d ! i"
  shows "\<not> crc_valid (d[i := b])"
proof
  assume c: "crc_valid (d[i := b])"
  let ?n = "length d - 4"
  have 4: "4 \<le> length d" "sst_crc32 (take ?n d) = le_word (drop ?n d)"
    using assms(1) by (simp_all add: crc_valid_def)
  have c': "sst_crc32 (take ?n (d[i := b])) = le_word (drop ?n (d[i := b]))"
    using c by (simp add: crc_valid_def)
  show False
  proof (cases "i < ?n")
    case True
    then have "sst_crc32 ((take ?n d)[i := b]) = sst_crc32 (take ?n d)"
      using c' 4(2) by (simp add: take_update_swap drop_update_cancel)
    moreover have "sst_crc32 ((take ?n d)[i := b]) \<noteq> sst_crc32 (take ?n d)"
      by (rule sst_crc32_change) (use True assms(3) in simp_all)
    ultimately show False by simp
  next
    case False
    then have "(le_word (drop ?n (d[i := b])) :: u32) = le_word (drop ?n d)"
      using c' 4(2) by simp
    then have "drop ?n (d[i := b]) = drop ?n d" using 4(1) by (intro le_word_inj [where 'a = 32]) simp_all
    then have "d[i := b] = d" by (metis False append_take_drop_id not_less take_update_cancel)
    with assms(2,3) show False by (metis nth_list_update_eq)
  qed
qed

section \<open>One flushed batch\<close>

lemma bc_compress_range: "points \<noteq> [] \<Longrightarrow> cb_range (bc_compress points) =
    \<lparr>tr_start = dp_ts (hd points), tr_end = dp_ts (last points)\<rparr>"
  by (simp add: bc_compress_Cons)

lemma uncounted_compress: "points \<noteq> [] \<Longrightarrow>
    uncounted (bc_compress points) =
      (bc_compress points)\<lparr>cb_range := \<lparr>tr_start = 0, tr_end = 0\<rparr>, cb_string_data := [], cb_point_count := 0\<rparr>"
  by (simp add: uncounted_def bc_compress_Cons empty_block_def)

lemma bc_decompress_range [simp]: "bc_decompress (b\<lparr>cb_range := r\<rparr>) = bc_decompress b"
  by (simp add: bc_decompress_def)

lemma uncounted_points:
  assumes "encodable points" "points \<noteq> []"
  obtains k where "k \<le> 3"
    "bc_decompress (uncounted (bc_compress points)) = map strip_point points @ map (phantom points) [0..<k]"
proof -
  have "uncounted (bc_compress points) =
      (bc_compress points)\<lparr>cb_string_data := [], cb_point_count := 0\<rparr>\<lparr>cb_range := \<lparr>tr_start = 0, tr_end = 0\<rparr>\<rparr>"
    using assms(2) by (simp add: uncounted_compress)
  with block_uncounted_lemma [OF assms] that show thesis by (metis bc_decompress_range)
qed

definition batch_range :: "data_point list \<Rightarrow> time_range" where
  "batch_range points = \<lparr>tr_start = dp_ts (hd points), tr_end = dp_ts (last points)\<rparr>"

lemma sst_image_batch:
  assumes "encodable points" "points \<noteq> []" "block_ok (bc_compress points)"
  obtains k where "k \<le> 3" "\<And>path fs rng. file_bytes fs path = Some (sst_image [bc_compress points]) \<Longrightarrow>
      sst_read_file path rng fs = Some (if overlaps (batch_range points) rng
        then filter (\<lambda>p. contains rng (dp_ts p)) (map strip_point points @ map (phantom points) [0..<k]) else [])"
proof -
  obtain k where k: "k \<le> 3"
    "bc_decompress (uncounted (bc_compress points)) = map strip_point points @ map (phantom points) [0..<k]"
    using uncounted_points [OF assms(1,2)] .
  have "file_bytes fs path = Some (sst_image [bc_compress points]) \<Longrightarrow>
      sst_read_file path rng fs = Some (image_points rng [bc_compress points])" for path fs rng
    using sst_read_image assms(3) by simp
  with k show thesis
    by (intro that [OF k(1)]) (simp add: image_points_def bc_compress_range assms(2) batch_range_def)
qed

lemma sst_flushed_batch:
  assumes "encodable points" "points \<noteq> []" "block_ok (bc_compress points)"
    and "sst_write_blocks path [bc_compress points] fs = (True, fs')"
  obtains k where "k \<le> 3" "\<And>rng. sst_read_file path rng fs' = Some (if overlaps (batch_range points) rng
      then filter (\<lambda>p. contains rng (dp_ts p)) (map strip_point points @ map (phantom points) [0..<k]) else [])"
proof -
  have "file_bytes fs' path = Some (sst_image [bc_compress points])"
    using file_bytes_write_blocks [OF assms(4)] assms(3) by simp
  with sst_image_batch [OF assms(1-3)] that show thesis by metis
qed

text \<open>In a batch sorted by time every point lies between the first and the last.\<close>

lemma sorted_batch_overlaps:
  assumes "sorted_wrt (\<lambda>p q. sint (dp_ts p) \<le> sint (dp_ts q)) points" "p \<in> set points" "contains rng (dp_ts p)"
  shows "overlaps (batch_range points) rng"
proof -
  have ne: "points \<noteq> []" using assms(2) by auto
  obtain i where i: "i < length points" "points ! i = p" using assms(2) by (auto simp: in_set_conv_nth)
  have "sint (dp_ts (points ! 0)) \<le> sint (dp_ts p)"
    using assms(1) i by (cases "i = 0") (auto simp: sorted_wrt_iff_nth_less)
  moreover have "sint (dp_ts p) \<le> sint (dp_ts (points ! (length points - 1)))"
    using assms(1) i by (cases "i = length points - 1") (auto simp: sorted_wrt_iff_nth_less)
  ultimately show ?thesis
    using assms(3) ne by (simp add: overlaps_def contains_def batch_range_def hd_conv_nth last_conv_nth)
qed

section \<open>Properties\<close>

text \<open>
  C7. The reader inverts the writer: a file written block by block is accepted, and a range read
  returns, for the blocks whose range overlaps the request in the order they were written, the
  points in the request that decompress from the block's two streams alone.
\<close>

theorem sst_reader_inverts_writer:
  assumes "sst_write_blocks path bs fs = (True, fs')" "list_all block_ok bs" "length bs < 2 ^ 32"
  shows "sst_read_file path rng fs' =
    Some (concat (map (\<lambda>b. filter (\<lambda>p. contains rng (dp_ts p)) (bc_decompress (uncounted b)))
      (filter (\<lambda>b. overlaps (cb_range b) rng) bs)))"
  using sst_read_image [OF file_bytes_write_blocks [OF assms(1,2)] assms(2,3), of rng]
  by (simp add: image_points_def)

definition two_points :: "data_point list" where
  "two_points = [\<lparr>dp_ts = 0, dp_value = VDouble 0x3FF0000000000000\<rparr>, \<lparr>dp_ts = 1, dp_value = VDouble 0x3FF0000000000000\<rparr>]"

lemma two_points_blocks:
  "cb_timestamps (bc_compress two_points) = [0, 0, 0, 0, 0, 0, 0, 0, 1, 1]"
  "cb_values (bc_compress two_points) = [0, 0, 0, 0, 0, 0, 192, 255, 0]"
proof -
  have "bb_bytes (tc_buffer (foldl tc_encode tc_reset [0, 1])) = [0, 0, 0, 0, 0, 0, 0, 0, 1, 1]"
    by code_simp
  then show "cb_timestamps (bc_compress two_points) = [0, 0, 0, 0, 0, 0, 0, 0, 1, 1]"
    by (simp add: bc_compress_Cons two_points_def tc_encode_all_def)
  have "bb_bytes (ve_buffer (foldl ve_encode ve_reset [VDouble 0x3FF0000000000000, VDouble 0x3FF0000000000000]))
      = [0, 0, 0, 0, 0, 0, 192, 255, 0]"
    by code_simp
  then show "cb_values (bc_compress two_points) = [0, 0, 0, 0, 0, 0, 192, 255, 0]"
    by (simp add: bc_compress_Cons two_points_def ve_encode_all_def del: ve_encode.simps)
qed

lemma two_points_ok: "block_ok (bc_compress two_points)"
  by (simp add: block_ok_def two_points_blocks)

lemma two_points_uncounted:
  "bc_decompress (uncounted (bc_compress two_points)) = two_points @ [\<lparr>dp_ts = 2, dp_value = VDouble 0x3FF0000000000000\<rparr>]"
proof -
  have "td_decode [0, 0, 0, 0, 0, 0, 0, 0, 1, 1] 0 = [0, 1, 2, 3, 4, 5, 6, 7, 8]" by code_simp
  moreover have "vd_decode [0, 0, 0, 0, 0, 0, 192, 255, 0] [] 0 =
      [VDouble 0x3FF0000000000000, VDouble 0x3FF0000000000000, VDouble 0x3FF0000000000000]" by code_simp
  ultimately show ?thesis
    by (simp add: bc_decompress_zip uncounted_def two_points_blocks empty_block_def) (simp add: two_points_def)
qed

lemma write_two_points: "fst (sst_write_blocks ''t'' [bc_compress two_points] demo_fs)"
proof -
  have "fst (sst_writer_open (sst_writer_new ''t'') demo_fs)" by code_simp
  then show ?thesis by (simp add: sst_write_blocks_def split_beta)
qed

theorem sst_reader_inverts_writer_witness:
  "sst_read_file ''t'' \<lparr>tr_start = 0, tr_end = 1\<rparr> (snd (sst_write_blocks ''t'' [bc_compress two_points] demo_fs))
    = Some two_points"
  using sst_reader_inverts_writer [of "''t''" "[bc_compress two_points]" demo_fs
      "snd (sst_write_blocks ''t'' [bc_compress two_points] demo_fs)" "\<lparr>tr_start = 0, tr_end = 1\<rparr>"]
    write_two_points two_points_ok
  by (simp add: prod_eq_iff two_points_uncounted)
    (simp add: two_points_def bc_compress_range overlaps_def contains_def)

text \<open>
  A flushed batch comes back, with a loss and an addition: a range read of a file that holds one
  batch sorted by time contains every point of the batch in the range, strings emptied, in order;
  it may end in at most three phantom points, which continue the last step of the timestamps.
\<close>

lemma sst_batch_read_back:
  assumes "encodable points" "points \<noteq> []" "block_ok (bc_compress points)"
    and "sorted_wrt (\<lambda>p q. sint (dp_ts p) \<le> sint (dp_ts q)) points"
    and "sst_write_blocks path [bc_compress points] fs = (True, fs')"
    and "\<exists>p \<in> set points. contains rng (dp_ts p)"
  shows "\<exists>k\<le>3. sst_read_file path rng fs' = Some
    (map strip_point (filter (\<lambda>p. contains rng (dp_ts p)) points)
      @ filter (\<lambda>p. contains rng (dp_ts p)) (map (phantom points) [0..<k]))"
proof -
  have "overlaps (batch_range points) rng" using assms(6) sorted_batch_overlaps [OF assms(4)] by blast
  moreover obtain k where "k \<le> 3" "\<And>rng. sst_read_file path rng fs' = Some (if overlaps (batch_range points) rng
      then filter (\<lambda>p. contains rng (dp_ts p)) (map strip_point points @ map (phantom points) [0..<k]) else [])"
    using sst_flushed_batch [OF assms(1-3,5)] by blast
  ultimately show ?thesis
    by (intro exI [of _ k]) (simp add: filter_map comp_def strip_point_def)
qed

lemma sst_batch_read_back_witness:
  "\<exists>k\<le>3. sst_read_file ''t'' \<lparr>tr_start = 1, tr_end = 1\<rparr> (snd (sst_write_blocks ''t'' [bc_compress two_points] demo_fs))
    = Some (\<lparr>dp_ts = 1, dp_value = VDouble 0x3FF0000000000000\<rparr>
        # filter (\<lambda>p. contains \<lparr>tr_start = 1, tr_end = 1\<rparr> (dp_ts p)) (map (phantom two_points) [0..<k]))"
  using sst_batch_read_back [of two_points "''t''" demo_fs
      "snd (sst_write_blocks ''t'' [bc_compress two_points] demo_fs)" "\<lparr>tr_start = 1, tr_end = 1\<rparr>"]
    write_two_points two_points_ok
  by (simp add: prod_eq_iff) (simp add: two_points_def encodable_def fits32_def contains_def strip_point_def)

text \<open>
  The phantom is real: the batch \<open>(0, 1.0), (1, 1.0)\<close> written to a file is read back with a third
  point \<open>(2, 1.0)\<close> that nobody wrote.
\<close>

lemma sst_phantom_point:
  "sst_read_file ''t'' \<lparr>tr_start = 0, tr_end = 9\<rparr> (snd (sst_write_blocks ''t'' [bc_compress two_points] demo_fs))
    = Some (two_points @ [\<lparr>dp_ts = 2, dp_value = VDouble 0x3FF0000000000000\<rparr>])"
proof -
  have "sst_write_blocks ''t'' [bc_compress two_points] demo_fs =
      (True, snd (sst_write_blocks ''t'' [bc_compress two_points] demo_fs))"
    using write_two_points by (simp add: prod_eq_iff)
  from sst_read_image [OF file_bytes_write_blocks [OF this], of "\<lparr>tr_start = 0, tr_end = 9\<rparr>"] two_points_ok
  show ?thesis
    by (simp add: image_points_def two_points_uncounted)
      (simp add: two_points_def bc_compress_range overlaps_def contains_def)
qed

text \<open>
  A batch that is not sorted by time hides points: its block carries the range from the first to
  the last point as written, and a read of exactly the time of a stored point finds nothing when
  the block starts after it and the request ends there.
\<close>

lemma sst_unsorted_batch_hidden:
  assumes "encodable points" "points \<noteq> []" "block_ok (bc_compress points)"
    and "sst_write_blocks path [bc_compress points] fs = (True, fs')"
    and "sint t < sint (dp_ts (hd points))"
  shows "sst_read_file path \<lparr>tr_start = t, tr_end = t\<rparr> fs' = Some []"
proof -
  have "\<not> overlaps (batch_range points) \<lparr>tr_start = t, tr_end = t\<rparr>"
    using assms(5) by (simp add: overlaps_def batch_range_def)
  then show ?thesis using sst_flushed_batch [OF assms(1-4)] by metis
qed

definition late_points :: "data_point list" where
  "late_points = [\<lparr>dp_ts = 9, dp_value = VDouble 0\<rparr>, \<lparr>dp_ts = 4, dp_value = VDouble 0\<rparr>]"

lemma late_points_ok: "block_ok (bc_compress late_points)"
proof -
  have "length (bb_bytes (tc_buffer (foldl tc_encode tc_reset [9, 4]))) = 10"
    "length (bb_bytes (ve_buffer (foldl ve_encode ve_reset [VDouble 0, VDouble 0]))) = 9"
    by code_simp+
  then show ?thesis
    by (simp add: block_ok_def bc_compress_Cons late_points_def tc_encode_all_def ve_encode_all_def
        del: ve_encode.simps)
qed

lemma sst_unsorted_batch_hidden_witness:
  "(\<exists>p \<in> set late_points. dp_ts p = 4)
    \<and> sst_read_file ''t'' \<lparr>tr_start = 4, tr_end = 4\<rparr> (snd (sst_write_blocks ''t'' [bc_compress late_points] demo_fs)) = Some []"
proof -
  have "fst (sst_writer_open (sst_writer_new ''t'') demo_fs)" by code_simp
  then have "sst_write_blocks ''t'' [bc_compress late_points] demo_fs =
      (True, snd (sst_write_blocks ''t'' [bc_compress late_points] demo_fs))"
    by (simp add: sst_write_blocks_def split_beta)
  from sst_unsorted_batch_hidden [OF _ _ late_points_ok this, of 4] show ?thesis
    by (simp add: late_points_def encodable_def fits32_def)
qed

text \<open>
  C8. A file that opens stops opening when any one of its bytes is changed, header, blocks and stored
  checksum alike.
\<close>

theorem sst_rejects_corruption:
  assumes "file_bytes fs path = Some d" "sst_reader_open (sst_reader_new path) fs = Some r"
    and "i < length d" "b \<noteq> d ! i" "file_bytes fs' path' = Some (d[i := b])"
  shows "sst_reader_open (sst_reader_new path') fs' = None"
proof (rule ccontr)
  assume "sst_reader_open (sst_reader_new path') fs' \<noteq> None"
  then have "crc_valid (d[i := b])" using sst_reader_open_crc [OF assms(5)] by blast
  with crc_valid_change [OF sst_reader_open_crc [OF assms(1,2)] assms(3,4)] show False by simp
qed

theorem sst_rejects_corruption_witness:
  "sst_reader_open (sst_reader_new ''u'') (file_fs ''u'' ((sst_image [])[8 := 3])) = None"
proof -
  obtain r where r: "sst_reader_open (sst_reader_new ''u'') (file_fs ''u'' (sst_image [])) = Some r"
    using sst_reader_open_image [OF file_bytes_file_fs, of "[]"] by (metis list.pred_inject(1) list.size(3) zero_less_numeral zero_less_power)
  have "le_bytes 4 (2 :: u32) = [2, 0, 0, 0 :: byte]" by code_simp
  then have "sst_image [] ! 8 \<noteq> 3"
    by (simp add: sst_image_def sst_data_def sst_header_def sst_version_crc_def nth_append)
  then show ?thesis
    using sst_rejects_corruption [OF file_bytes_file_fs r, of 8 3, OF _ _ file_bytes_file_fs]
    by (simp add: sst_image_def sst_data_def)
qed

end
