(* ===== verification/Memtable.thy ===== *)
theory Memtable
  imports TSDB_Prelude
begin

text \<open>
  The write buffer of \<^verbatim>\<open>src/src/storage/memtable.{h,cpp}\<close>: points grouped by tag, handed to a
  callback when a tag's estimated size reaches the threshold. The callback is a parameter acting on
  a state of its own (the engine passes one that writes a table file). The \<^verbatim>\<open>unordered_map\<close> is
  an association list; the order in which it is walked is the order of first insertion, one of the
  orders the C++ container may have. Sizes do not wrap. Every method holds the object's mutex, so
  a call is one step. The interface \<open>write_buffer\<close> is the promise that nothing written is lost.
\<close>

section \<open>The buffer\<close>

record tag_buffer =
  tb_points :: "data_point list"
  tb_estimated_bytes :: nat

record memtable =
  mt_flush_threshold :: nat
  mt_buffers :: "(string \<times> tag_buffer) list"

type_synonym 's flush_callback = "string \<Rightarrow> data_point list \<Rightarrow> 's \<Rightarrow> 's"

text \<open>\<^verbatim>\<open>sizeof(DataPoint)\<close> with the 64-bit libstdc++ layout: 8 for the time, 40 for the variant.\<close>

definition sizeof_data_point :: nat where
  "sizeof_data_point = 48"

definition empty_tag_buffer :: tag_buffer where
  "empty_tag_buffer = \<lparr>tb_points = [], tb_estimated_bytes = 0\<rparr>"

definition mt_new :: "nat \<Rightarrow> memtable" where
  "mt_new threshold = \<lparr>mt_flush_threshold = threshold, mt_buffers = []\<rparr>"

definition mt_flush_buffer :: "'s flush_callback option \<Rightarrow> string \<Rightarrow> tag_buffer \<times> 's \<Rightarrow> tag_buffer \<times> 's" where
  "mt_flush_buffer cb tag bs =
     (case bs of (buf, s) \<Rightarrow>
        if tb_points buf = [] then (buf, s)
        else let s' = (case cb of None \<Rightarrow> s | Some f \<Rightarrow> f tag (tb_points buf) s)
             in (\<lparr>tb_points = [], tb_estimated_bytes = 0\<rparr>, s'))"

definition mt_check_flush :: "nat \<Rightarrow> 's flush_callback option \<Rightarrow> string \<Rightarrow> tag_buffer \<times> 's \<Rightarrow> tag_buffer \<times> 's" where
  "mt_check_flush threshold cb tag bs =
     (if threshold \<le> tb_estimated_bytes (fst bs) \<and> cb \<noteq> None then mt_flush_buffer cb tag bs else bs)"

text \<open>\<^verbatim>\<open>operator[]\<close>-like access: the buffer of a tag, created empty if there is none.\<close>

definition mt_find :: "memtable \<Rightarrow> string \<Rightarrow> tag_buffer" where
  "mt_find m tag = (case map_of (mt_buffers m) tag of Some b \<Rightarrow> b | None \<Rightarrow> empty_tag_buffer)"

definition mt_add :: "'s flush_callback option \<Rightarrow> string \<Rightarrow> data_point \<Rightarrow> memtable \<times> 's \<Rightarrow> memtable \<times> 's" where
  "mt_add cb tag point ms =
     (case ms of (m, s) \<Rightarrow>
        let buf = mt_find m tag;
            buf = buf\<lparr>tb_points := tb_points buf @ [point],
                      tb_estimated_bytes := tb_estimated_bytes buf + (sizeof_data_point + length tag)\<rparr>
        in (case mt_check_flush (mt_flush_threshold m) cb tag (buf, s) of
              (buf, s) \<Rightarrow> (m\<lparr>mt_buffers := AList.update tag buf (mt_buffers m)\<rparr>, s)))"

definition mt_add_batch :: "'s flush_callback option \<Rightarrow> data_batch list \<Rightarrow> memtable \<times> 's \<Rightarrow> memtable \<times> 's" where
  "mt_add_batch cb batches ms =
     fold (\<lambda>batch. fold (mt_add cb (db_tag_name batch)) (db_points batch)) batches ms"

fun mt_flush_entries :: "'s flush_callback option \<Rightarrow> (string \<times> tag_buffer) list \<Rightarrow> 's
    \<Rightarrow> (string \<times> tag_buffer) list \<times> 's" where
  "mt_flush_entries cb [] s = ([], s)"
| "mt_flush_entries cb ((tag, buf) # es) s =
     (case mt_flush_buffer cb tag (buf, s) of
        (buf, s) \<Rightarrow> (case mt_flush_entries cb es s of (es, s) \<Rightarrow> ((tag, buf) # es, s)))"

definition mt_flush_all :: "'s flush_callback option \<Rightarrow> memtable \<times> 's \<Rightarrow> memtable \<times> 's" where
  "mt_flush_all cb ms =
     (case ms of (m, s) \<Rightarrow>
        (case mt_flush_entries cb (mt_buffers m) s of (es, s) \<Rightarrow> (m\<lparr>mt_buffers := es\<rparr>, s)))"

definition mt_flush_tag :: "'s flush_callback option \<Rightarrow> string \<Rightarrow> memtable \<times> 's \<Rightarrow> memtable \<times> 's" where
  "mt_flush_tag cb tag ms =
     (case ms of (m, s) \<Rightarrow>
        (case map_of (mt_buffers m) tag of
           None \<Rightarrow> (m, s)
         | Some buf \<Rightarrow>
             (case mt_flush_buffer cb tag (buf, s) of
                (buf, s) \<Rightarrow> (m\<lparr>mt_buffers := AList.update tag buf (mt_buffers m)\<rparr>, s))))"

definition mt_get_all_data :: "memtable \<Rightarrow> (string \<times> data_point list) list" where
  "mt_get_all_data m = map (\<lambda>(tag, buf). (tag, tb_points buf)) (mt_buffers m)"

definition mt_size :: "memtable \<Rightarrow> nat" where
  "mt_size m = sum_list (map (\<lambda>(tag, buf). tb_estimated_bytes buf) (mt_buffers m))"

definition mt_tag_count :: "memtable \<Rightarrow> nat" where
  "mt_tag_count m = length (mt_buffers m)"

definition mt_clear :: "memtable \<Rightarrow> memtable" where
  "mt_clear m = m\<lparr>mt_buffers := []\<rparr>"

section \<open>The contract of a write buffer\<close>

text \<open>
  \<open>content s tag\<close> is everything that was written to a tag, whether it already left through the
  callback or is still buffered.
\<close>

locale write_buffer =
  fixes add :: "'k \<Rightarrow> 'p \<Rightarrow> 's \<Rightarrow> 's" and drain :: "'s \<Rightarrow> 's"
    and content :: "'s \<Rightarrow> 'k \<Rightarrow> 'p list" and ok :: "'s \<Rightarrow> bool"
  assumes add_content: "ok s \<Longrightarrow> content (add k p s) = (content s)(k := content s k @ [p])"
    and add_ok: "ok s \<Longrightarrow> ok (add k p s)"
    and drain_content: "ok s \<Longrightarrow> content (drain s) = content s"
    and drain_ok: "ok s \<Longrightarrow> ok (drain s)"
begin

lemma fold_add:
  "ok s \<Longrightarrow> ok (fold (\<lambda>(k, p). add k p) kps s)
    \<and> content (fold (\<lambda>(k, p). add k p) kps s) = (\<lambda>k. content s k @ map snd (filter (\<lambda>kp. fst kp = k) kps))"
proof (induction kps arbitrary: s)
  case (Cons kp kps)
  obtain k p where kp: "kp = (k, p)" by (cases kp)
  from Cons.IH [OF add_ok [OF Cons.prems, of k p]] show ?case
    by (auto simp: kp add_content [OF Cons.prems])
qed simp

lemma fold_add_drain:
  "ok s \<Longrightarrow> content (drain (fold (\<lambda>(k, p). add k p) kps s)) =
    (\<lambda>k. content s k @ map snd (filter (\<lambda>kp. fst kp = k) kps))"
  using fold_add [of s kps] drain_content by simp

end

section \<open>The memtable keeps the contract\<close>

text \<open>The callback that keeps what it is given, batch by batch.\<close>

definition record_flush :: "(string \<times> data_point list) list flush_callback" where
  "record_flush tag points log = log @ [(tag, points)]"

definition flushed :: "string \<Rightarrow> (string \<times> data_point list) list \<Rightarrow> data_point list" where
  "flushed tag log = concat (map snd (filter (\<lambda>e. fst e = tag) log))"

definition mt_content :: "memtable \<times> (string \<times> data_point list) list \<Rightarrow> string \<Rightarrow> data_point list" where
  "mt_content ms tag = flushed tag (snd ms) @ tb_points (mt_find (fst ms) tag)"

lemma flushed_simps [simp]: "flushed tag [] = []"
  "flushed tag (log @ [(t, ps)]) = flushed tag log @ (if t = tag then ps else [])"
  by (auto simp: flushed_def)

lemma mt_find_update: "mt_find (m\<lparr>mt_buffers := AList.update t b (mt_buffers m)\<rparr>) tag =
    (if tag = t then b else mt_find m tag)"
  by (simp add: mt_find_def update_conv')

definition mt_ok :: "memtable \<Rightarrow> bool" where
  "mt_ok m \<longleftrightarrow> distinct (map fst (mt_buffers m))"

lemma mt_add_ok: "mt_ok m \<Longrightarrow> mt_ok (fst (mt_add cb t p (m, s)))"
  by (simp add: mt_ok_def mt_add_def Let_def split_beta distinct_update)

lemma mt_add_content:
  "mt_content (mt_add (Some record_flush) t p ms) = (mt_content ms)(t := mt_content ms t @ [p])"
proof -
  obtain m log where "ms = (m, log)" by (cases ms)
  then show ?thesis
    by (auto simp: fun_eq_iff mt_content_def mt_add_def Let_def mt_check_flush_def mt_flush_buffer_def
        mt_find_update record_flush_def split: prod.splits if_splits)
qed

definition entry_points :: "(string \<times> tag_buffer) list \<Rightarrow> string \<Rightarrow> data_point list" where
  "entry_points es tag = (case map_of es tag of Some b \<Rightarrow> tb_points b | None \<Rightarrow> [])"

lemma entry_points_simps [simp]:
  "entry_points [] tag = []"
  "entry_points ((t, b) # es) tag = (if t = tag then tb_points b else entry_points es tag)"
  by (simp_all add: entry_points_def)

lemma entry_points_absent: "tag \<notin> fst ` set es \<Longrightarrow> entry_points es tag = []"
  by (induction es) auto

lemma mt_find_points: "tb_points (mt_find m tag) = entry_points (mt_buffers m) tag"
  by (simp add: mt_find_def entry_points_def empty_tag_buffer_def split: option.splits)

lemma mt_flush_entries_content:
  "distinct (map fst es) \<Longrightarrow> mt_flush_entries (Some record_flush) es log = (es', log') \<Longrightarrow>
   map fst es' = map fst es \<and> entry_points es' tag = []
   \<and> flushed tag log' = flushed tag log @ entry_points es tag"
proof (induction es arbitrary: es' log)
  case (Cons e es)
  obtain t b where e: "e = (t, b)" by (cases e)
  obtain b1 log1 where 1: "mt_flush_buffer (Some record_flush) t (b, log) = (b1, log1)" by fastforce
  obtain es2 where 2: "mt_flush_entries (Some record_flush) es log1 = (es2, log')" "es' = (t, b1) # es2"
    using Cons.prems(2) e 1 by (auto split: prod.splits)
  have d: "distinct (map fst es)" "t \<notin> fst ` set es" using Cons.prems(1) e by auto
  have "tb_points b1 = []" "flushed tag log1 = flushed tag log @ (if t = tag then tb_points b else [])"
    using 1 by (auto simp: mt_flush_buffer_def record_flush_def split: if_splits)
  then show ?case
    using Cons.IH [OF d(1) 2(1)] 2(2) e entry_points_absent [OF d(2)] by auto
qed simp

lemma mt_flush_entries_keys: "map fst (fst (mt_flush_entries cb es s)) = map fst es"
  by (induction es arbitrary: s) (auto simp: split_beta)

lemma mt_flush_all_content:
  assumes "mt_ok m"
  shows "mt_content (mt_flush_all (Some record_flush) (m, log)) = mt_content (m, log)"
    and "mt_ok (fst (mt_flush_all cb (m, s)))"
    and "tb_points (mt_find (fst (mt_flush_all (Some record_flush) (m, log))) tag) = []"
proof -
  obtain es' log' where r: "mt_flush_entries (Some record_flush) (mt_buffers m) log = (es', log')" by fastforce
  note c = mt_flush_entries_content [OF assms [unfolded mt_ok_def] r]
  show "mt_content (mt_flush_all (Some record_flush) (m, log)) = mt_content (m, log)"
    using c r by (simp add: fun_eq_iff mt_flush_all_def mt_content_def mt_find_points)
  show "tb_points (mt_find (fst (mt_flush_all (Some record_flush) (m, log))) tag) = []"
    using c r by (simp add: mt_flush_all_def mt_find_points)
  show "mt_ok (fst (mt_flush_all cb (m, s)))"
    using assms by (simp add: mt_ok_def mt_flush_all_def split_beta mt_flush_entries_keys)
qed

interpretation mtb: write_buffer "mt_add (Some record_flush)" "mt_flush_all (Some record_flush)"
  mt_content "\<lambda>ms. mt_ok (fst ms)"
proof unfold_locales
  fix ms :: "memtable \<times> (string \<times> data_point list) list" and k p
  assume ok: "mt_ok (fst ms)"
  show "mt_content (mt_add (Some record_flush) k p ms) = (mt_content ms)(k := mt_content ms k @ [p])"
    by (rule mt_add_content)
  show "mt_ok (fst (mt_add (Some record_flush) k p ms))"
    using mt_add_ok [OF ok, of "Some record_flush" k p "snd ms"] by simp
  show "mt_content (mt_flush_all (Some record_flush) ms) = mt_content ms"
    using mt_flush_all_content(1) [OF ok, of "snd ms"] by simp
  show "mt_ok (fst (mt_flush_all (Some record_flush) ms))"
    using mt_flush_all_content(2) [OF ok, of "Some record_flush" "snd ms"] by simp
qed

section \<open>Sizes\<close>

text \<open>The estimate of every buffer is exact, and with a callback it stays below the threshold.\<close>

definition mt_sized :: "memtable \<Rightarrow> bool" where
  "mt_sized m \<longleftrightarrow> (\<forall>(tag, b) \<in> set (mt_buffers m).
     tb_estimated_bytes b = length (tb_points b) * (sizeof_data_point + length tag)
     \<and> (0 < mt_flush_threshold m \<longrightarrow> tb_estimated_bytes b < mt_flush_threshold m))"

lemma mt_find_sized:
  assumes "mt_sized m" shows "tb_estimated_bytes (mt_find m tag) =
    length (tb_points (mt_find m tag)) * (sizeof_data_point + length tag)"
  using assms by (auto simp: mt_find_def mt_sized_def empty_tag_buffer_def dest: map_of_SomeD split: option.splits)

lemma mt_add_sized:
  assumes "mt_sized m"
  shows "mt_sized (fst (mt_add (Some f) tag p (m, s)))"
proof -
  let ?b = "mt_find m tag"
  let ?n = "tb_estimated_bytes ?b + (sizeof_data_point + length tag)"
  let ?b' = "if mt_flush_threshold m \<le> ?n then empty_tag_buffer
    else \<lparr>tb_points = tb_points ?b @ [p], tb_estimated_bytes = ?n\<rparr>"
  have "mt_buffers (fst (mt_add (Some f) tag p (m, s))) = AList.update tag ?b' (mt_buffers m)"
    "mt_flush_threshold (fst (mt_add (Some f) tag p (m, s))) = mt_flush_threshold m"
    by (simp_all add: mt_add_def Let_def mt_check_flush_def mt_flush_buffer_def empty_tag_buffer_def)
      (cases "mt_find m tag"; simp)
  then show ?thesis
    using assms mt_find_sized [OF assms, of tag] set_update_subset [of tag ?b' "mt_buffers m"]
    by (fastforce simp: mt_sized_def empty_tag_buffer_def algebra_simps)
qed

section \<open>Properties\<close>

text \<open>
  C9. The memtable loses nothing: after any sequence of adds and a final flush of everything, what
  the callback received for a tag, concatenated, is the sequence of points added to that tag, each
  once and in order, whatever the threshold and however often a buffer was flushed in between.
\<close>

theorem memtable_conserves_points:
  "flushed tag (snd (mt_flush_all (Some record_flush)
      (fold (\<lambda>(t, p). mt_add (Some record_flush) t p) tps (mt_new threshold, []))))
    = map snd (filter (\<lambda>tp. fst tp = tag) tps)"
proof -
  have ok: "mt_ok (fst (mt_new threshold, []))" by (simp add: mt_ok_def mt_new_def)
  obtain m log where ml: "fold (\<lambda>(t, p). mt_add (Some record_flush) t p) tps (mt_new threshold, []) = (m, log)"
    by fastforce
  have m: "mt_ok m" using mtb.fold_add [OF ok, of tps] ml by simp
  have "mt_content (mt_flush_all (Some record_flush) (m, log)) tag = map snd (filter (\<lambda>tp. fst tp = tag) tps)"
    using mtb.fold_add_drain [OF ok, of tps] ml
    by (simp add: mt_content_def mt_find_points mt_new_def)
  moreover have "tb_points (mt_find (fst (mt_flush_all (Some record_flush) (m, log))) tag) = []"
    by (rule mt_flush_all_content(3) [OF m])
  ultimately show ?thesis by (simp add: mt_content_def ml)
qed

text \<open>
  The memtable stays small: with a callback set, after any sequence of adds every buffer is below
  the flush threshold and its size estimate is exact.
\<close>

lemma memtable_bounded:
  assumes "0 < threshold" "fold (\<lambda>(t, p). mt_add (Some f) t p) tps (mt_new threshold, s) = (m, s')"
  shows "\<forall>(tag, b) \<in> set (mt_buffers m). tb_estimated_bytes b < threshold
    \<and> tb_estimated_bytes b = length (tb_points b) * (sizeof_data_point + length tag)"
proof -
  have inv: "mt_sized (fst (fold (\<lambda>(t, p). mt_add (Some f) t p) tps (m0, s0)))
      \<and> mt_flush_threshold (fst (fold (\<lambda>(t, p). mt_add (Some f) t p) tps (m0, s0))) = mt_flush_threshold m0"
    if "mt_sized m0" for m0 s0
    using that
  proof (induction tps arbitrary: m0 s0)
    case (Cons tp tps)
    obtain t p where tp: "tp = (t, p)" by (cases tp)
    obtain m1 s1 where 1: "mt_add (Some f) t p (m0, s0) = (m1, s1)" by fastforce
    have "mt_sized m1" "mt_flush_threshold m1 = mt_flush_threshold m0"
      using mt_add_sized [OF Cons.prems, of f t p s0] 1
      by (auto simp: mt_add_def Let_def split: prod.splits)
    then show ?case using Cons.IH [of m1 s1] tp 1 by simp
  qed simp
  have "mt_sized (mt_new threshold)" by (simp add: mt_sized_def mt_new_def)
  from inv [OF this, of s] assms(2) have "mt_sized m" "mt_flush_threshold m = threshold"
    by (simp_all add: mt_new_def)
  then show ?thesis using assms(1) by (auto simp: mt_sized_def)
qed

lemma memtable_bounded_witness:
  "list_all (\<lambda>(tag, b). tb_estimated_bytes b < 100
      \<and> tb_estimated_bytes b = length (tb_points b) * (sizeof_data_point + length tag))
    (mt_buffers (fst (fold (\<lambda>(t, p). mt_add (Some record_flush) t p)
      [(''a'', default_point), (''a'', default_point), (''a'', default_point)] (mt_new 100, []))))"
  unfolding list_all_iff by (rule memtable_bounded [OF _ prod.collapse [symmetric]]) simp

end
