(* ===== verification/Pattern.thy ===== *)
theory Pattern
  imports TSDB_Prelude
begin

text \<open>
  Name patterns: \<open>like\<close> is the meaning of SQL \<^verbatim>\<open>LIKE\<close> (\<^verbatim>\<open>%\<close> any sequence, \<^verbatim>\<open>_\<close> any
  character); \<open>lc_match\<close> is \<^verbatim>\<open>LatestCache::MatchPattern\<close> of
  \<^verbatim>\<open>src/src/cache/latest_cache.cpp\<close> and \<open>ss_match\<close> is
  \<^verbatim>\<open>SnapshotStore::MatchPattern\<close> of \<^verbatim>\<open>src/src/snapshot/snapshot_store.cpp\<close>, over the
  suffixes that the indices of the code stand for. The interface \<open>name_matcher\<close> is what a lookup by
  pattern needs of a matcher; both are instances.
\<close>

fun like :: "string \<Rightarrow> string \<Rightarrow> bool" where
  "like t [] \<longleftrightarrow> t = []"
| "like [] (x # p) \<longleftrightarrow> x = CHR ''%'' \<and> like [] p"
| "like (c # t) (x # p) \<longleftrightarrow>
     (if x = CHR ''%'' then like (c # t) p \<or> like t (x # p)
      else (x = CHR ''_'' \<or> x = c) \<and> like t p)"

text \<open>\<open>lc_search\<close> is the inner loop: the rest of the pattern against every non-empty suffix.\<close>

function lc_match :: "string \<Rightarrow> string \<Rightarrow> bool" and lc_search :: "string \<Rightarrow> string \<Rightarrow> bool" where
  "lc_match t [] \<longleftrightarrow> t = []"
| "lc_match [] (x # p) \<longleftrightarrow> False"
| "lc_match (c # t) (x # p) \<longleftrightarrow>
     (if x = CHR ''%'' then (if p = [] then True else lc_search (c # t) p)
      else if x = CHR ''_'' then lc_match t p
      else if x = c then lc_match t p
      else False)"
| "lc_search [] p \<longleftrightarrow> False"
| "lc_search (c # t) p \<longleftrightarrow> (if lc_match (c # t) p then True else lc_search t p)"
  by pat_completeness auto
termination
  by (relation "measures [\<lambda>x. case x of Inl (t, p) \<Rightarrow> length p | Inr (t, p) \<Rightarrow> length p,
      \<lambda>x. case x of Inl (t, p) \<Rightarrow> length t | Inr (t, p) \<Rightarrow> length t,
      \<lambda>x. case x of Inl _ \<Rightarrow> 0 | Inr _ \<Rightarrow> 1]") auto

function ss_match :: "string \<Rightarrow> string \<Rightarrow> bool" where
  "ss_match t p \<longleftrightarrow>
     (case (t, p) of
        (c # t', x # p') \<Rightarrow>
          if x = CHR ''%'' then
            (if p' = [] then True
             else let rest = dropWhile (\<lambda>d. d \<noteq> hd p') t in if rest = [] then False else ss_match rest p')
          else if x = CHR ''_'' then ss_match t' p'
          else if x = c then ss_match t' p'
          else False
      | _ \<Rightarrow> dropWhile (\<lambda>x. x = CHR ''%'') p = [] \<and> t = [])"
  by pat_completeness auto
termination by (relation "measure (\<lambda>(t, p). length p)") auto

declare ss_match.simps [simp del]

section \<open>What the matchers compute\<close>

lemma like_percent: "like t (CHR ''%'' # p) \<longleftrightarrow> (\<exists>i \<le> length t. like (drop i t) p)"
proof (induction t)
  case (Cons c t)
  show ?case
  proof
    assume "like (c # t) (CHR ''%'' # p)"
    then consider "like (c # t) p" | "like t (CHR ''%'' # p)" by auto
    then show "\<exists>i \<le> length (c # t). like (drop i (c # t)) p"
    proof cases
      case 1
      then show ?thesis by (intro exI [of _ 0]) simp
    next
      case 2
      then obtain i where "i \<le> length t" "like (drop i t) p" using Cons.IH by blast
      then show ?thesis by (intro exI [of _ "Suc i"]) simp
    qed
  next
    assume "\<exists>i \<le> length (c # t). like (drop i (c # t)) p"
    then obtain i where "i \<le> length (c # t)" "like (drop i (c # t)) p" by blast
    then show "like (c # t) (CHR ''%'' # p)" using Cons.IH by (cases i) auto
  qed
qed simp

lemma lc_search_iff: "lc_search t p \<longleftrightarrow> (\<exists>i < length t. lc_match (drop i t) p)"
proof (induction t)
  case (Cons c t)
  have "(\<exists>i < length (c # t). lc_match (drop i (c # t)) p) \<longleftrightarrow>
      lc_match (c # t) p \<or> (\<exists>i < length t. lc_match (drop i t) p)"
    by (simp only: Ex_less_Suc2 length_Cons) simp
  with Cons.IH show ?case by simp
qed simp

text \<open>A trailing \<^verbatim>\<open>%\<close> asks \<^verbatim>\<open>LatestCache\<close> for at least one character.\<close>

definition demand_one :: "string \<Rightarrow> string" where
  "demand_one p = (if p \<noteq> [] \<and> last p = CHR ''%'' then p @ ''_'' else p)"

lemma like_Nil_iff: "like [] p \<longleftrightarrow> set p \<subseteq> {CHR ''%''}"
  by (induction p) auto

lemma demand_one_not_Nil: "p \<noteq> [] \<Longrightarrow> \<not> like [] (demand_one p)"
  unfolding like_Nil_iff demand_one_def
  by (cases "last p = CHR ''%''") (auto dest: last_in_set)

lemma demand_one_Cons: "p \<noteq> [] \<Longrightarrow> demand_one (x # p) = x # demand_one p"
  by (simp add: demand_one_def)

lemma like_percent_one: "like (c # t) (CHR ''%'' # CHR ''_'' # [])"
proof (induction t arbitrary: c)
  case (Cons d t)
  then have "like (d # t) (CHR ''%'' # CHR ''_'' # [])" by blast
  then show ?case by simp
qed simp

lemma lc_match_like: "lc_match t p \<longleftrightarrow> like t (demand_one p)"
proof (induction p arbitrary: t)
  case Nil
  then show ?case by (simp add: demand_one_def)
next
  case (Cons x p)
  show ?case
  proof (cases t)
    case Nil
    then show ?thesis using demand_one_not_Nil [of "x # p"] by simp
  next
    case t: (Cons c u)
    consider "x = CHR ''%''" "p = []" | "x = CHR ''%''" "p \<noteq> []" | "x \<noteq> CHR ''%''" by blast
    then show ?thesis
    proof cases
      case 1
      then show ?thesis using like_percent_one [of c u] t by (simp add: demand_one_def)
    next
      case 2
      have "lc_match t (x # p) \<longleftrightarrow> (\<exists>i < length t. like (drop i t) (demand_one p))"
        using 2 t Cons.IH by (simp add: lc_search_iff del: lc_search.simps)
      also have "\<dots> \<longleftrightarrow> (\<exists>i \<le> length t. like (drop i t) (demand_one p))"
        using demand_one_not_Nil [OF 2(2)] by (auto simp: le_less)
      also have "\<dots> \<longleftrightarrow> like t (demand_one (x # p))"
        using 2 by (simp add: demand_one_Cons like_percent)
      finally show ?thesis .
    next
      case 3
      then have "demand_one (x # p) = x # demand_one p"
        by (cases "p = []") (auto simp: demand_one_def)
      with 3 t Cons.IH show ?thesis by simp
    qed
  qed
qed

lemma like_drop_percent: "like (drop i t) p \<Longrightarrow> like t (CHR ''%'' # p)"
proof -
  assume "like (drop i t) p"
  moreover have "drop (min i (length t)) t = drop i t" by (simp add: min_def)
  ultimately show ?thesis unfolding like_percent by (metis min.cobounded2)
qed

lemma like_append_one: "like t (p @ ''_'') \<Longrightarrow> p \<noteq> [] \<Longrightarrow> last p = CHR ''%'' \<Longrightarrow> like t p"
proof (induction t p rule: like.induct)
  case (3 c t x p)
  show ?case
  proof (cases "p = []")
    case True
    have "like u ''%''" for u by (simp add: like_percent) (metis drop_all le_refl like.simps(1))
    with True 3 show ?thesis by simp
  next
    case False
    with 3 show ?thesis by (auto split: if_splits)
  qed
qed (auto simp: like_Nil_iff)

lemma lc_match_sound: "lc_match t p \<Longrightarrow> like t p"
  using like_append_one by (auto simp: lc_match_like demand_one_def split: if_splits)

lemma all_percent: "(\<forall>x \<in> set p. x = CHR ''%'') \<longleftrightarrow> like [] p"
  by (auto simp: like_Nil_iff)

lemma ss_match_sound: "ss_match t p \<Longrightarrow> like t p"
proof (induction t p rule: ss_match.induct)
  case (1 t p)
  show ?case
  proof (cases t)
    case Nil
    with 1 show ?thesis by (simp add: ss_match.simps [of "[]"] all_percent)
  next
    case t: (Cons c u)
    show ?thesis
    proof (cases p)
      case Nil
      with 1(4) t show ?thesis by (simp add: ss_match.simps [of _ "[]"])
    next
      case p: (Cons x q)
      consider "x = CHR ''%''" "q = []" | "x = CHR ''%''" "q \<noteq> []" | "x \<noteq> CHR ''%''" by blast
      then show ?thesis
      proof cases
        case 1
        then show ?thesis using t p by (simp only: like_percent) (metis drop_all le_refl like.simps(1))
      next
        case 2
        let ?rest = "dropWhile (\<lambda>d. d \<noteq> hd q) t"
        have "?rest \<noteq> []" "ss_match ?rest q"
          using 1(4) 2 t p by (auto simp: ss_match.simps [of "_ # _" "_ # _"] Let_def split: if_splits)
        then have "like ?rest q" using 1(1) [OF _ t p 2 refl] t p by simp
        then show ?thesis unfolding p 2(1) dropWhile_eq_drop by (rule like_drop_percent)
      next
        case 3
        then show ?thesis using 1 t p by (auto simp: ss_match.simps [of "_ # _" "_ # _"] split: if_splits)
      qed
    qed
  qed
qed

text \<open>With \<^verbatim>\<open>%\<close> at the end only, \<^verbatim>\<open>SnapshotStore\<close> decides \<^verbatim>\<open>LIKE\<close>.\<close>

lemma ss_match_prefix: "CHR ''%'' \<notin> set (butlast p) \<Longrightarrow> ss_match t p \<longleftrightarrow> like t p"
proof (induction p arbitrary: t)
  case Nil
  then show ?case by (cases t) (simp_all add: ss_match.simps)
next
  case (Cons x p)
  show ?case
  proof (cases t)
    case Nil
    then show ?thesis by (simp add: ss_match.simps [of "[]"] all_percent)
  next
    case t: (Cons c u)
    show ?thesis
    proof (cases "x = CHR ''%''")
      case True
      with Cons.prems have "p = []" by (auto split: if_splits)
      then show ?thesis using True t
        by (simp add: ss_match.simps [of "_ # _"] like_percent del: like.simps(3))
          (metis drop_all le_refl length_Cons like.simps(1))
    next
      case False
      with Cons t show ?thesis by (auto simp: ss_match.simps [of "_ # _" "_ # _"] split: if_splits)
    qed
  qed
qed

section \<open>The matcher interface\<close>

locale name_matcher =
  fixes match :: "string \<Rightarrow> string \<Rightarrow> bool"
  assumes sound: "match t p \<Longrightarrow> like t p"
    and literal: "CHR ''%'' \<notin> set p \<Longrightarrow> CHR ''_'' \<notin> set p \<Longrightarrow> match t p \<longleftrightarrow> t = p"
begin

text \<open>A lookup by pattern in a keyed list.\<close>

lemma select_sound: "kv \<in> set (filter (\<lambda>kv. match (fst kv) p) kvs) \<Longrightarrow> kv \<in> set kvs \<and> like (fst kv) p"
  using sound by auto

lemma select_literal:
  assumes "CHR ''%'' \<notin> set p" "CHR ''_'' \<notin> set p" "distinct (map fst kvs)"
  shows "filter (\<lambda>kv. match (fst kv) p) kvs = (case map_of kvs p of Some v \<Rightarrow> [(p, v)] | None \<Rightarrow> [])"
proof -
  have "filter (\<lambda>kv. match (fst kv) p) kvs = filter (\<lambda>kv. fst kv = p) kvs"
    using literal [OF assms(1,2)] by simp
  also have "\<dots> = (case map_of kvs p of Some v \<Rightarrow> [(p, v)] | None \<Rightarrow> [])"
    using assms(3)
  proof (induction kvs)
    case (Cons kv kvs)
    obtain k v where kv: "kv = (k, v)" by (cases kv)
    have "filter (\<lambda>kv. fst kv = k) kvs = []" if "k \<notin> fst ` set kvs"
      using that by (auto simp: filter_empty_conv)
    with Cons kv show ?case by (auto split: option.splits)
  qed simp
  finally show ?thesis .
qed

end

lemma like_literal: "CHR ''%'' \<notin> set p \<Longrightarrow> CHR ''_'' \<notin> set p \<Longrightarrow> like t p \<longleftrightarrow> t = p"
  by (induction t p rule: like.induct) auto

interpretation lcm: name_matcher lc_match
proof unfold_locales
  fix t p :: string
  assume p: "CHR ''%'' \<notin> set p" "CHR ''_'' \<notin> set p"
  then have "demand_one p = p" by (metis demand_one_def last_in_set)
  with like_literal [OF p] show "lc_match t p \<longleftrightarrow> t = p" by (simp add: lc_match_like)
qed (rule lc_match_sound)

interpretation ssm: name_matcher ss_match
proof unfold_locales
  fix t p :: string
  assume "CHR ''%'' \<notin> set p" "CHR ''_'' \<notin> set p"
  then show "ss_match t p \<longleftrightarrow> t = p"
    using like_literal ss_match_prefix [of p t] in_set_butlastD [of _ p] by blast
qed (rule ss_match_sound)

section \<open>Properties\<close>

text \<open>
  What \<^verbatim>\<open>LatestCache\<close> matches is exactly SQL \<^verbatim>\<open>LIKE\<close> with one deviation: a pattern that
  ends in \<^verbatim>\<open>%\<close> is matched as if it ended in \<^verbatim>\<open>%_\<close>, so the last \<^verbatim>\<open>%\<close> never matches the
  empty rest (\<^verbatim>\<open>abc%\<close> does not match \<^verbatim>\<open>abc\<close>). The backtracking search is complete.
\<close>

lemma latest_match_is_like:
  "lc_match t p \<longleftrightarrow> like t (if p \<noteq> [] \<and> last p = CHR ''%'' then p @ ''_'' else p)"
  using lc_match_like [of t p] by (simp add: demand_one_def)

text \<open>
  The greedy matcher of the snapshot store accepts nothing that \<^verbatim>\<open>LIKE\<close> rejects, decides
  \<^verbatim>\<open>LIKE\<close> on patterns whose only \<^verbatim>\<open>%\<close> is the last character, and is incomplete beyond that:
  it rejects \<^verbatim>\<open>aab\<close> for \<^verbatim>\<open>%ab\<close>.
\<close>

lemma snapshot_match_sound_incomplete:
  "(ss_match t p \<longrightarrow> like t p) \<and> (CHR ''%'' \<notin> set (butlast p) \<longrightarrow> ss_match t p = like t p)
    \<and> like ''aab'' ''%ab'' \<and> \<not> ss_match ''aab'' ''%ab''"
proof -
  have "\<not> ss_match ''aab'' ''%ab''" by (simp add: ss_match.simps)
  then show ?thesis using ss_match_sound ss_match_prefix by simp
qed

lemma snapshot_match_sound_incomplete_witness:
  "like ''boiler-1'' ''boiler%'' \<and> ss_match ''boiler-1'' ''boiler%''"
proof -
  have "like ''boiler-1'' ''boiler%''" by simp
  with snapshot_match_sound_incomplete [of "''boiler-1''" "''boiler%''"] show ?thesis by simp
qed

end
