(* ===== verification/Latest_Cache.thy ===== *)
theory Latest_Cache
  imports Pattern
begin

text \<open>
  The cache of latest values, \<^verbatim>\<open>src/src/cache/latest_cache.{h,cpp}\<close>: one point per key, with the
  flat interface and the three-level one (\<^verbatim>\<open>db:table:tag\<close>). The \<^verbatim>\<open>unordered_map\<close> is an
  association list walked in insertion order. Every method holds the mutex, so a call is one step.
  The interface \<open>latest_store\<close> is the promise of a latest-value store; the cache is an instance.
\<close>

section \<open>The cache\<close>

type_synonym latest_cache = "(string \<times> data_point) list"

definition make_key :: "string \<Rightarrow> string \<Rightarrow> string \<Rightarrow> string" where
  "make_key db tab tag = db @ '':'' @ tab @ '':'' @ tag"

definition lc_update :: "string \<Rightarrow> data_point \<Rightarrow> latest_cache \<Rightarrow> latest_cache" where
  "lc_update tag point c =
     (case map_of c tag of
        Some old \<Rightarrow> if sint (dp_ts old) \<le> sint (dp_ts point) then AList.update tag point c else c
      | None \<Rightarrow> AList.update tag point c)"

definition lc_get :: "string \<Rightarrow> latest_cache \<Rightarrow> data_point option" where
  "lc_get tag c = map_of c tag"

definition lc_get_by_pattern :: "string \<Rightarrow> latest_cache \<Rightarrow> (string \<times> data_point) list" where
  "lc_get_by_pattern pattern c = filter (\<lambda>kv. lc_match (fst kv) pattern) c"

definition lc_get_all :: "latest_cache \<Rightarrow> (string \<times> data_point) list" where
  "lc_get_all c = c"

definition lc_remove :: "string \<Rightarrow> latest_cache \<Rightarrow> latest_cache" where
  "lc_remove tag c = AList.delete tag c"

definition lc_clear :: "latest_cache \<Rightarrow> latest_cache" where
  "lc_clear c = []"

definition lc_size :: "latest_cache \<Rightarrow> nat" where
  "lc_size c = length c"

text \<open>The three-level interface.\<close>

definition lc_update3 :: "string \<Rightarrow> string \<Rightarrow> string \<Rightarrow> data_point \<Rightarrow> latest_cache \<Rightarrow> latest_cache" where
  "lc_update3 db tab tag point c =
     (let key = make_key db tab tag in
      case map_of c key of
        Some old \<Rightarrow> if sint (dp_ts old) \<le> sint (dp_ts point) then AList.update key point c else c
      | None \<Rightarrow> AList.update key point c)"

definition lc_get3 :: "string \<Rightarrow> string \<Rightarrow> string \<Rightarrow> latest_cache \<Rightarrow> data_point option" where
  "lc_get3 db tab tag c = map_of c (make_key db tab tag)"

definition lc_get_by_pattern3 :: "string \<Rightarrow> string \<Rightarrow> string \<Rightarrow> latest_cache \<Rightarrow> (string \<times> data_point) list" where
  "lc_get_by_pattern3 db tab pattern c =
     (let prefix' = make_key db tab []; full_pattern = prefix' @ pattern in
      filter (\<lambda>kv. prefix prefix' (fst kv) \<and> lc_match (fst kv) full_pattern) c)"

definition lc_get_all3 :: "string \<Rightarrow> string \<Rightarrow> latest_cache \<Rightarrow> (string \<times> data_point) list" where
  "lc_get_all3 db tab c = filter (\<lambda>kv. prefix (make_key db tab []) (fst kv)) c"

definition lc_remove3 :: "string \<Rightarrow> string \<Rightarrow> string \<Rightarrow> latest_cache \<Rightarrow> latest_cache" where
  "lc_remove3 db tab tag c = AList.delete (make_key db tab tag) c"

definition lc_remove_by_prefix :: "string \<Rightarrow> latest_cache \<Rightarrow> latest_cache" where
  "lc_remove_by_prefix p c = filter (\<lambda>kv. \<not> prefix p (fst kv)) c"

lemma lc_update3_update: "lc_update3 db tab tag = lc_update (make_key db tab tag)"
  by (simp add: fun_eq_iff lc_update3_def lc_update_def Let_def)

section \<open>The contract of a latest-value store\<close>

text \<open>\<open>newest ps p\<close>: of the sequence, \<open>p\<close> is the last one among those with the greatest time.\<close>

definition newest :: "data_point list \<Rightarrow> data_point \<Rightarrow> bool" where
  "newest ps p \<longleftrightarrow> (\<exists>xs ys. ps = xs @ p # ys
     \<and> (\<forall>q \<in> set xs. sint (dp_ts q) \<le> sint (dp_ts p)) \<and> (\<forall>q \<in> set ys. sint (dp_ts q) < sint (dp_ts p)))"

locale latest_store =
  fixes put :: "'k \<Rightarrow> data_point \<Rightarrow> 's \<Rightarrow> 's" and get :: "'k \<Rightarrow> 's \<Rightarrow> data_point option" and empty :: 's
  assumes get_empty: "get k empty = None"
    and get_put: "get k (put j p s) =
      (if k = j then (case get j s of
         Some old \<Rightarrow> if sint (dp_ts old) \<le> sint (dp_ts p) then Some p else Some old
       | None \<Rightarrow> Some p) else get k s)"
begin

definition track :: "('k \<times> data_point) list \<Rightarrow> 's" where
  "track kps = fold (\<lambda>(k, p). put k p) kps empty"

lemma track_snoc: "track (kps @ [(k, p)]) = put k p (track kps)"
  by (simp add: track_def)

lemma get_track:
  "case get k (track kps) of
     None \<Rightarrow> k \<notin> fst ` set kps
   | Some p \<Rightarrow> newest (map snd (filter (\<lambda>kp. fst kp = k) kps)) p"
proof (induction kps rule: rev_induct)
  case Nil
  then show ?case by (simp add: track_def get_empty)
next
  case (snoc kp kps)
  obtain j q where kp: "kp = (j, q)" by (cases kp)
  let ?old = "map snd (filter (\<lambda>kp. fst kp = k) kps)"
  show ?case
  proof (cases "j = k")
    case False
    with snoc kp show ?thesis by (auto simp: track_snoc get_put split: option.splits)
  next
    case True
    show ?thesis
    proof (cases "get k (track kps)")
      case None
      with snoc have "?old = []" by (auto simp: filter_empty_conv image_iff)
      then show ?thesis
        using None True kp by (auto simp: track_snoc get_put newest_def intro: exI [of _ "[]"])
    next
      case (Some p)
      with snoc obtain xs ys where n: "?old = xs @ p # ys" "\<forall>r \<in> set xs. sint (dp_ts r) \<le> sint (dp_ts p)"
        "\<forall>r \<in> set ys. sint (dp_ts r) < sint (dp_ts p)"
        by (auto simp: newest_def)
      show ?thesis
      proof (cases "sint (dp_ts p) \<le> sint (dp_ts q)")
        case le: True
        have "newest (?old @ [q]) q"
          unfolding newest_def by (rule exI [of _ ?old], rule exI [of _ "[]"]) (use n le in \<open>force intro: order_trans\<close>)
        with le Some True kp show ?thesis by (simp add: track_snoc get_put)
      next
        case False
        have "newest (?old @ [q]) p"
          unfolding newest_def by (rule exI [of _ xs], rule exI [of _ "ys @ [q]"]) (use n False in auto)
        with False Some True kp show ?thesis by (simp add: track_snoc get_put)
      qed
    qed
  qed
qed

end

interpretation lc: latest_store lc_update lc_get "[]"
  by unfold_locales (auto simp: lc_get_def lc_update_def update_conv' split: option.splits)

section \<open>Keys\<close>

lemma append_colon_inj:
  assumes "CHR '':'' \<notin> set a" "CHR '':'' \<notin> set b" "a @ '':'' @ x = b @ '':'' @ y"
  shows "a = b \<and> x = y"
proof -
  have "takeWhile (\<lambda>c. c \<noteq> CHR '':'') (a @ '':'' @ x) = a" "takeWhile (\<lambda>c. c \<noteq> CHR '':'') (b @ '':'' @ y) = b"
    using assms(1,2) by (simp_all add: takeWhile_append1 takeWhile_tail takeWhile_eq_all_conv [THEN iffD2])
       (metis (mono_tags, lifting) append_Nil2 takeWhile_append2 takeWhile.simps)+
  with assms(3) show ?thesis by (metis append_same_eq same_append_eq)
qed

lemma make_key_prefix:
  assumes "CHR '':'' \<notin> set db" "CHR '':'' \<notin> set tab" "CHR '':'' \<notin> set db'" "CHR '':'' \<notin> set tab'"
  shows "prefix (make_key db tab []) (make_key db' tab' tag) \<longleftrightarrow> db = db' \<and> tab = tab'"
proof
  assume "prefix (make_key db tab []) (make_key db' tab' tag)"
  then obtain z where "db' @ '':'' @ (tab' @ '':'' @ tag) = db @ '':'' @ (tab @ '':'' @ z)"
    by (auto simp: prefix_def make_key_def)
  with append_colon_inj [of db' db] append_colon_inj [of tab' tab] assms
  show "db = db' \<and> tab = tab'" by blast
qed (auto simp: make_key_def)

lemma make_key_append: "make_key db tab tag = make_key db tab [] @ tag"
  by (simp add: make_key_def)

lemma lc_update_distinct: "distinct (map fst c) \<Longrightarrow> distinct (map fst (lc_update k p c))"
  by (simp add: lc_update_def distinct_update split: option.splits)

lemma lc_track_distinct: "distinct (map fst (fold (\<lambda>(k, p). lc_update k p) kps []))"
  by (induction kps rule: rev_induct) (auto simp: lc_update_distinct)

section \<open>Properties\<close>

text \<open>
  C10. After any sequence of updates a lookup finds, for every key that was updated, the point with
  the greatest timestamp, the last of them when several have it; other keys are absent. The order in
  which late points arrive does not matter.
\<close>

theorem latest_cache_holds_newest:
  "case lc_get k (fold (\<lambda>(k, p). lc_update k p) kps []) of
     None \<Rightarrow> k \<notin> fst ` set kps
   | Some p \<Rightarrow> newest (map snd (filter (\<lambda>kp. fst kp = k) kps)) p"
  using lc.get_track [of k kps] by (simp add: lc.track_def)

definition write_key :: "string \<times> string \<times> string \<times> data_point \<Rightarrow> string \<times> data_point" where
  "write_key w = (case w of (db, tab, tag, p) \<Rightarrow> (make_key db tab tag, p))"

definition plain_name :: "string \<Rightarrow> bool" where
  "plain_name s \<longleftrightarrow> CHR '':'' \<notin> set s"

lemma newest_nth:
  assumes "newest ps p"
  obtains i where "i < length ps" "ps ! i = p" "\<And>j. j < i \<Longrightarrow> sint (dp_ts (ps ! j)) \<le> sint (dp_ts p)"
    "\<And>j. i < j \<Longrightarrow> j < length ps \<Longrightarrow> sint (dp_ts (ps ! j)) < sint (dp_ts p)"
proof -
  obtain xs ys where n: "ps = xs @ p # ys" "\<forall>r \<in> set xs. sint (dp_ts r) \<le> sint (dp_ts p)"
    "\<forall>r \<in> set ys. sint (dp_ts r) < sint (dp_ts p)"
    using assms by (auto simp: newest_def)
  show thesis
    by (rule that [of "length xs"]) (use n in \<open>auto simp: nth_append nth_Cons'\<close>)
qed

lemma newest_unique: "newest ps p \<Longrightarrow> newest ps q \<Longrightarrow> p = q"
  by (elim newest_nth) (metis leD nat_neq_iff)

lemma make_key_eq:
  assumes "plain_name db" "plain_name tab" "plain_name db'" "plain_name tab'"
  shows "make_key db tab tag = make_key db' tab' tag' \<longleftrightarrow> db = db' \<and> tab = tab' \<and> tag = tag'"
proof
  assume eq: "make_key db tab tag = make_key db' tab' tag'"
  then have "prefix (make_key db tab []) (make_key db' tab' tag')"
    by (metis make_key_append prefixI)
  then have "db = db' \<and> tab = tab'" using make_key_prefix assms by (simp add: plain_name_def)
  with eq show "db = db' \<and> tab = tab' \<and> tag = tag'" by (simp add: make_key_def)
qed simp

lemma map_of_filter_key: "map_of (filter (\<lambda>kv. P (fst kv)) c) k = (if P k then map_of c k else None)"
  by (induction c) auto

definition writes_to :: "string \<Rightarrow> string \<Rightarrow> string \<Rightarrow> (string \<times> string \<times> string \<times> data_point) list \<Rightarrow> data_point list" where
  "writes_to db tab tag ws = map (\<lambda>(_, _, _, p). p) (filter (\<lambda>(d, t, g, _). d = db \<and> t = tab \<and> g = tag) ws)"

lemma writes_to_keys:
  assumes "list_all (\<lambda>(db, tab, _, _). plain_name db \<and> plain_name tab) ws" "plain_name db" "plain_name tab"
  shows "map snd (filter (\<lambda>kp. fst kp = make_key db tab tag) (map write_key ws)) = writes_to db tab tag ws"
  using assms(1)
proof (induction ws)
  case (Cons w ws)
  obtain d t g p where w: "w = (d, t, g, p)" by (cases w)
  with Cons make_key_eq [of d t db tab g tag] assms(2,3) show ?case
    by (simp add: writes_to_def write_key_def)
qed (simp add: writes_to_def)

lemma fold_update3: "fold (\<lambda>(db, tab, tag, p). lc_update3 db tab tag p) ws c =
    fold (\<lambda>(k, p). lc_update k p) (map write_key ws) c"
  by (induction ws arbitrary: c) (auto simp: write_key_def lc_update3_update)

text \<open>
  Databases and tables are kept apart as long as their names hold no colon: listing a table
  returns exactly one entry for each tag written under that database and table, with the newest
  point written to it, whatever was written elsewhere.
\<close>

lemma latest_cache_isolates_tables:
  assumes "list_all (\<lambda>(db, tab, _, _). plain_name db \<and> plain_name tab) ws" "plain_name db" "plain_name tab"
    and "c = fold (\<lambda>(db, tab, tag, p). lc_update3 db tab tag p) ws []"
  shows "(k, p) \<in> set (lc_get_all3 db tab c) \<longleftrightarrow>
    (\<exists>tag. k = make_key db tab tag \<and> newest (writes_to db tab tag ws) p)"
proof -
  let ?kps = "map write_key ws"
  have c: "c = fold (\<lambda>(k, p). lc_update k p) ?kps []" using assms(4) by (simp add: fold_update3)
  have in_c: "(k, p) \<in> set c \<longleftrightarrow> lc_get k c = Some p" for k p
    using lc_track_distinct [of ?kps] by (simp add: c lc_get_def)
  have get: "lc_get (make_key db tab tag) c = Some p \<longleftrightarrow> newest (writes_to db tab tag ws) p" for tag p
  proof -
    have "case lc_get (make_key db tab tag) c of
        None \<Rightarrow> make_key db tab tag \<notin> fst ` set ?kps
      | Some q \<Rightarrow> newest (writes_to db tab tag ws) q"
      unfolding c writes_to_keys [OF assms(1-3), symmetric]
      using lc.get_track [of "make_key db tab tag" ?kps] unfolding lc.track_def .
    moreover have "writes_to db tab tag ws = []" if "make_key db tab tag \<notin> fst ` set ?kps"
      using that unfolding writes_to_keys [OF assms(1-3), symmetric]
      by (auto simp: filter_empty_conv) (metis image_eqI)
    ultimately show ?thesis
      by (auto simp: newest_def [of "[]"] dest: newest_unique split: option.splits)
  qed
  show ?thesis
    by (auto simp: lc_get_all3_def in_c get prefix_def simp flip: make_key_append)
qed

lemma latest_cache_isolates_tables_witness:
  "(make_key ''plant'' ''boiler'' ''t'', \<lparr>dp_ts = 5, dp_value = VInt 1\<rparr>) \<in>
    set (lc_get_all3 ''plant'' ''boiler'' (fold (\<lambda>(db, tab, tag, p). lc_update3 db tab tag p)
      [(''plant'', ''boiler'', ''t'', \<lparr>dp_ts = 5, dp_value = VInt 1\<rparr>), (''plant'', ''pump'', ''t'', default_point),
       (''plant'', ''boiler'', ''t'', default_point)] []))"
proof -
  have "newest [\<lparr>dp_ts = 5, dp_value = VInt 1\<rparr>, default_point] \<lparr>dp_ts = 5, dp_value = VInt 1\<rparr>"
    unfolding newest_def by (rule exI [of _ "[]"]) (simp add: default_point_def)
  then show ?thesis
    by (subst latest_cache_isolates_tables [OF _ _ _ refl])
      (simp_all add: plain_name_def writes_to_def, metis)
qed

text \<open>
  Removing the prefix of a table forgets that table's entries and no other's, again for names
  without a colon; with colons the keys of different tables coincide.
\<close>

lemma latest_cache_remove_prefix:
  assumes "plain_name db" "plain_name tab" "plain_name db'" "plain_name tab'"
  shows "lc_get3 db' tab' tag (lc_remove_by_prefix (make_key db tab []) c) =
      (if db' = db \<and> tab' = tab then None else lc_get3 db' tab' tag c)
    \<and> make_key ''a:b'' ''c'' tag = make_key ''a'' ''b:c'' tag"
  using make_key_prefix [of db tab db' tab' tag] assms
  by (auto simp: lc_get3_def lc_remove_by_prefix_def map_of_filter_key [of "\<lambda>k. \<not> prefix _ k"] plain_name_def
      make_key_def)

lemma latest_cache_remove_prefix_witness:
  "lc_get3 ''plant'' ''pump'' ''t'' (lc_remove_by_prefix (make_key ''plant'' ''boiler'' [])
      [(make_key ''plant'' ''boiler'' ''t'', default_point), (make_key ''plant'' ''pump'' ''t'', default_point)])
    = Some default_point"
  using latest_cache_remove_prefix [of "''plant''" "''boiler''" "''plant''" "''pump''" "''t''"
      "[(make_key ''plant'' ''boiler'' ''t'', default_point), (make_key ''plant'' ''pump'' ''t'', default_point)]"]
  by (simp add: plain_name_def lc_get3_def make_key_def)

end
