(* ===== verification/Snapshot_Store.thy ===== *)
theory Snapshot_Store
  imports Pattern Os_File Float64
begin

text \<open>
  The snapshot store of \<^verbatim>\<open>src/src/snapshot/snapshot_store.{h,cpp}\<close>: the last value written to
  every key, saved to a file by a background thread. The protobuf encoding is generated code and
  a parameter: \<open>ser\<close> is \<^verbatim>\<open>SerializeToOstream\<close>, \<open>par\<close> is \<^verbatim>\<open>ParseFromIstream\<close>. First the
  operations and the file handling, then the saving thread as a step relation.
\<close>

section \<open>The store\<close>

record cached_snapshot =
  cs_timestamp :: timestamp
  cs_value :: f64
  cs_tag :: string
  cs_valid :: bool

record snapshot_store =
  ss_snapshot :: "(string \<times> cached_snapshot) list"
  ss_path :: string
  ss_running :: bool
  ss_dirty :: bool

definition ss_new :: snapshot_store where
  "ss_new = \<lparr>ss_snapshot = [], ss_path = [], ss_running = False, ss_dirty = False\<rparr>"

text \<open>The entry of a point: an integer is converted, a string leaves the value at 0.0.\<close>

definition snapshot_entry :: "string \<Rightarrow> data_point \<Rightarrow> cached_snapshot" where
  "snapshot_entry key point =
     \<lparr>cs_timestamp = dp_ts point,
      cs_value = (case dp_value point of VDouble d \<Rightarrow> d | VInt i \<Rightarrow> f64_of_int (sint i) | VString _ \<Rightarrow> 0),
      cs_tag = key, cs_valid = True\<rparr>"

definition ss_on_write :: "string \<Rightarrow> data_point \<Rightarrow> snapshot_store \<Rightarrow> snapshot_store" where
  "ss_on_write tag point s =
     s\<lparr>ss_snapshot := AList.update tag (snapshot_entry tag point) (ss_snapshot s), ss_dirty := True\<rparr>"

definition ss_get :: "string \<Rightarrow> snapshot_store \<Rightarrow> cached_snapshot option" where
  "ss_get tag s = map_of (ss_snapshot s) tag"

definition ss_get_by_pattern :: "string \<Rightarrow> snapshot_store \<Rightarrow> cached_snapshot list" where
  "ss_get_by_pattern pattern s = map snd (filter (\<lambda>kv. ss_match (fst kv) pattern) (ss_snapshot s))"

definition ss_get_all :: "snapshot_store \<Rightarrow> cached_snapshot list" where
  "ss_get_all s = map snd (ss_snapshot s)"

definition ss_count :: "snapshot_store \<Rightarrow> nat" where
  "ss_count s = length (ss_snapshot s)"

definition ss_on_write3 :: "string \<Rightarrow> string \<Rightarrow> string \<Rightarrow> data_point \<Rightarrow> snapshot_store \<Rightarrow> snapshot_store" where
  "ss_on_write3 db tab tag point s =
     (let key = db @ '':'' @ tab @ '':'' @ tag in
      s\<lparr>ss_snapshot := AList.update key (snapshot_entry key point) (ss_snapshot s), ss_dirty := True\<rparr>)"

definition ss_get3 :: "string \<Rightarrow> string \<Rightarrow> string \<Rightarrow> snapshot_store \<Rightarrow> cached_snapshot option" where
  "ss_get3 db tab tag s = map_of (ss_snapshot s) (db @ '':'' @ tab @ '':'' @ tag)"

definition ss_get_by_pattern3 :: "string \<Rightarrow> string \<Rightarrow> string \<Rightarrow> snapshot_store \<Rightarrow> cached_snapshot list" where
  "ss_get_by_pattern3 db tab pattern s =
     (let prefix' = db @ '':'' @ tab @ '':''; full_pattern = prefix' @ pattern in
      map snd (filter (\<lambda>kv. prefix prefix' (fst kv) \<and> ss_match (fst kv) full_pattern) (ss_snapshot s)))"

definition ss_get_all3 :: "string \<Rightarrow> string \<Rightarrow> snapshot_store \<Rightarrow> cached_snapshot list" where
  "ss_get_all3 db tab s =
     map snd (filter (\<lambda>kv. prefix (db @ '':'' @ tab @ '':'') (fst kv)) (ss_snapshot s))"

section \<open>The file\<close>

record snapshot_file =
  sf_save_time :: int
  sf_version :: nat
  sf_entries :: "cached_snapshot list"

definition bak_path :: "string \<Rightarrow> string" where
  "bak_path path = path @ ''.bak''"

definition ss_move_aside :: "snapshot_store \<Rightarrow> fsys \<Rightarrow> fsys" where
  "ss_move_aside s fs =
     (if fs_exists (ss_path s) fs then snd (fs_rename (ss_path s) (bak_path (ss_path s)) fs) else fs)"

definition ss_image :: "int \<Rightarrow> snapshot_store \<Rightarrow> snapshot_file" where
  "ss_image now s =
     \<lparr>sf_save_time = now, sf_version = 1, sf_entries = map (\<lambda>(tag, e). e\<lparr>cs_tag := tag\<rparr>) (ss_snapshot s)\<rparr>"

definition ss_save_to_file :: "(snapshot_file \<Rightarrow> byte list) \<Rightarrow> int \<Rightarrow> snapshot_store \<Rightarrow> fsys \<Rightarrow> bool \<times> fsys" where
  "ss_save_to_file ser now s fs =
     (let fs = ss_move_aside s fs in
      case file_open (ss_path s) WRITE fs of
        (None, fs) \<Rightarrow> (False, fs)
      | (f, fs) \<Rightarrow> (case file_write (ser (ss_image now s)) f fs of (ok, _, fs) \<Rightarrow> (ok, fs)))"

definition ss_load_data :: "snapshot_file \<Rightarrow> snapshot_store \<Rightarrow> snapshot_store" where
  "ss_load_data pb s = s\<lparr>ss_snapshot := foldl (\<lambda>m e. AList.update (cs_tag e) e m) [] (sf_entries pb)\<rparr>"

definition parse_file :: "(byte list \<Rightarrow> snapshot_file option) \<Rightarrow> string \<Rightarrow> fsys \<Rightarrow> snapshot_file option" where
  "parse_file par path fs = (case file_bytes fs path of Some d \<Rightarrow> par d | None \<Rightarrow> None)"

definition ss_load_from_file :: "(byte list \<Rightarrow> snapshot_file option) \<Rightarrow> snapshot_store \<Rightarrow> fsys
    \<Rightarrow> bool \<times> snapshot_store" where
  "ss_load_from_file par s fs =
     (if \<not> fs_exists (ss_path s) fs then (True, s)
      else case parse_file par (ss_path s) fs of
        Some pb \<Rightarrow> (True, ss_load_data pb s)
      | None \<Rightarrow>
          if fs_exists (bak_path (ss_path s)) fs then
            (case parse_file par (bak_path (ss_path s)) fs of
               Some pb \<Rightarrow> (True, ss_load_data pb s)
             | None \<Rightarrow> (False, s))
          else (False, s))"

definition ss_init :: "(byte list \<Rightarrow> snapshot_file option) \<Rightarrow> string \<Rightarrow> snapshot_store \<Rightarrow> fsys
    \<Rightarrow> snapshot_store \<times> fsys" where
  "ss_init par dir s fs =
     (let s = s\<lparr>ss_path := dir @ ''/snapshot.pb''\<rparr>;
          fs = snd (create_directories dir fs);
          s = snd (ss_load_from_file par s fs)
      in (s\<lparr>ss_running := True\<rparr>, fs))"

text \<open>One turn of \<^verbatim>\<open>SaveLoop\<close> after the wait; \<^verbatim>\<open>Shutdown\<close> lets the thread take a last turn.\<close>

definition ss_save_turn :: "(snapshot_file \<Rightarrow> byte list) \<Rightarrow> int \<Rightarrow> snapshot_store \<Rightarrow> fsys \<Rightarrow> snapshot_store \<times> fsys" where
  "ss_save_turn ser now s fs =
     (if ss_dirty s then (s\<lparr>ss_dirty := False\<rparr>, snd (ss_save_to_file ser now s fs)) else (s, fs))"

definition ss_shutdown :: "(snapshot_file \<Rightarrow> byte list) \<Rightarrow> int \<Rightarrow> snapshot_store \<Rightarrow> fsys \<Rightarrow> snapshot_store \<times> fsys" where
  "ss_shutdown ser now s fs =
     (let was_running = ss_running s; s = s\<lparr>ss_running := False\<rparr> in
      case (if was_running then ss_save_turn ser now s fs else (s, fs)) of
        (s, fs) \<Rightarrow> ss_save_turn ser now s fs)"

section \<open>Saving and loading\<close>

lemma map_of_load:
  "distinct (map cs_tag es) \<Longrightarrow>
   map_of (foldl (\<lambda>m e. AList.update (cs_tag e) e m) [] es) = map_of (map (\<lambda>e. (cs_tag e, e)) es)"
proof (induction es rule: rev_induct)
  case (snoc e es)
  then have "cs_tag e \<notin> cs_tag ` set es" by simp
  then have "map_of (map (\<lambda>e. (cs_tag e, e)) es) (cs_tag e) = None"
    by (auto simp: map_of_eq_None_iff)
  with snoc show ?case
    by (auto simp: update_conv' fun_eq_iff map_add_def split: option.splits)
qed simp

text \<open>Every entry carries its own key.\<close>

definition ss_ok :: "snapshot_store \<Rightarrow> bool" where
  "ss_ok s \<longleftrightarrow> distinct (map fst (ss_snapshot s)) \<and> (\<forall>(k, e) \<in> set (ss_snapshot s). cs_tag e = k)"

lemma ss_image_entries: "ss_ok s \<Longrightarrow> sf_entries (ss_image now s) = map snd (ss_snapshot s)"
  by (auto simp: ss_ok_def ss_image_def)

lemma ss_load_image:
  assumes "ss_ok s"
  shows "map_of (ss_snapshot (ss_load_data (ss_image now s) t)) = map_of (ss_snapshot s)"
proof -
  have tags: "map cs_tag (map snd (ss_snapshot s)) = map fst (ss_snapshot s)"
    and pairs: "map (\<lambda>e. (cs_tag e, e)) (map snd (ss_snapshot s)) = ss_snapshot s"
    using assms by (auto simp: ss_ok_def intro: nth_equalityI) (rule map_idI, auto)
  show ?thesis
    using map_of_load [of "map snd (ss_snapshot s)"] assms
    unfolding tags pairs by (simp add: ss_load_data_def ss_image_entries ss_ok_def)
qed

lemma ss_on_write_ok: "ss_ok s \<Longrightarrow> ss_ok (ss_on_write k p s)"
  by (auto simp: ss_ok_def ss_on_write_def distinct_update snapshot_entry_def
      dest!: subsetD [OF set_update_subset])

lemma file_write_fresh:
  assumes "file_open s WRITE fs = (Some h, fs1)" "file_write d (Some h) fs1 = (ok, f, fs2)"
  shows "ok" "file_bytes fs2 s = Some d" "fs_exists s fs2" "fs_tree fs2 = fs_tree fs1"
    "map_of (fs_tree fs1) (split_path s) = Some (FileNode (of_ino h))"
    "\<And>j. j \<noteq> of_ino h \<Longrightarrow> ino_data fs2 j = ino_data fs1 j"
proof -
  obtain i where h: "h = \<lparr>of_ino = i, of_pos = 0, of_mode = WRITE\<rparr>" "ino_data fs1 i = []"
    "map_of (fs_tree fs1) (split_path s) = Some (FileNode i)"
    using assms(1)
    by (auto simp: file_open_def Let_def create_file_def os_facts split: option.splits node.splits if_splits)
  have "ok \<and> file_bytes fs2 s = Some d \<and> fs_exists s fs2 \<and> fs_tree fs2 = fs_tree fs1
      \<and> (\<forall>j. j \<noteq> i \<longrightarrow> ino_data fs2 j = ino_data fs1 j)"
    using assms(2) h overwrite_end [of "[]" d]
    by (auto simp: file_write_def Let_def file_bytes_def fs_exists_def path_exists_def os_facts split: if_splits)
  with h show "ok" "file_bytes fs2 s = Some d" "fs_exists s fs2" "fs_tree fs2 = fs_tree fs1"
    "map_of (fs_tree fs1) (split_path s) = Some (FileNode (of_ino h))"
    "\<And>j. j \<noteq> of_ino h \<Longrightarrow> ino_data fs2 j = ino_data fs1 j"
    by simp_all
qed

lemma ss_save_file_bytes:
  assumes "ss_save_to_file ser now s fs = (True, fs')"
  shows "file_bytes fs' (ss_path s) = Some (ser (ss_image now s))" "fs_exists (ss_path s) fs'"
proof -
  obtain h fs1 where 1: "file_open (ss_path s) WRITE (ss_move_aside s fs) = (Some h, fs1)"
    using assms by (auto simp: ss_save_to_file_def Let_def split: prod.splits option.splits)
  obtain f where 2: "file_write (ser (ss_image now s)) (Some h) fs1 = (True, f, fs')"
    using assms 1 by (auto simp: ss_save_to_file_def Let_def split: prod.splits)
  show "file_bytes fs' (ss_path s) = Some (ser (ss_image now s))" "fs_exists (ss_path s) fs'"
    using file_write_fresh [OF 1 2] by simp_all
qed

text \<open>A crash while the new file is being written: \<open>d\<close> is what of it reached the disk.\<close>

definition ss_crash_save :: "byte list \<Rightarrow> snapshot_store \<Rightarrow> fsys \<Rightarrow> fsys" where
  "ss_crash_save d s fs =
     (case file_open (ss_path s) WRITE (ss_move_aside s fs) of
        (f, fs) \<Rightarrow> (case file_write d f fs of (_, _, fs) \<Rightarrow> fs))"

lemma ss_move_aside_file:
  assumes "fs_wf fs" "file_bytes fs path = Some d" "path = dir @ ''/snapshot.pb''" "dir \<noteq> []"
    and "is_dir fs (split_path dir)" "\<not> is_dir fs (split_path (bak_path path))" "ss_path s = path"
  obtains i where "map_of (fs_tree fs) (split_path path) = Some (FileNode i)" "ino_data fs i = d"
    "fs_tree (ss_move_aside s fs) =
       AList.update (split_path (bak_path path)) (FileNode i) (AList.delete (split_path path) (fs_tree fs))"
    "ino_data (ss_move_aside s fs) = ino_data fs" "fs_next (ss_move_aside s fs) = fs_next fs"
    "split_path (bak_path path) \<noteq> split_path path" "split_path path = split_path dir @ [''snapshot.pb'']"
proof -
  have pc: "plain_component ''snapshot.pb''" "plain_component ''snapshot.pb.bak''"
    by (simp_all add: plain_component_def)
  have sp: "split_path path = split_path dir @ [''snapshot.pb'']"
    "split_path (bak_path path) = split_path dir @ [''snapshot.pb.bak'']"
    using split_path_join [OF assms(4) pc(1)] split_path_join [OF assms(4) pc(2)] assms(3)
    by (simp_all add: bak_path_def)
  obtain i where i: "map_of (fs_tree fs) (split_path path) = Some (FileNode i)" "ino_data fs i = d"
    using assms(2) by (auto simp: file_bytes_def split: option.splits node.splits)
  show thesis
    by (rule that [OF i]) (use assms(5-7) i sp in \<open>auto simp: ss_move_aside_def fs_exists_def path_exists_def
      fs_rename_def Let_def os_facts bind_node_def unbind_node_def ino_data_def\<close>)
qed

lemma ss_crash_lemma:
  assumes "fs_wf fs" "file_bytes fs path = Some old" "path = dir @ ''/snapshot.pb''" "dir \<noteq> []"
    and "is_dir fs (split_path dir)" "\<not> is_dir fs (split_path (bak_path path))" "ss_path s = path"
  shows "\<not> fs_exists path (ss_move_aside s fs)"
    and "file_bytes (ss_crash_save d s fs) path = Some d"
    and "file_bytes (ss_crash_save d s fs) (bak_path path) = Some old"
proof -
  obtain i where i: "map_of (fs_tree fs) (split_path path) = Some (FileNode i)" "ino_data fs i = old"
    and t: "fs_tree (ss_move_aside s fs) =
       AList.update (split_path (bak_path path)) (FileNode i) (AList.delete (split_path path) (fs_tree fs))"
    and d: "ino_data (ss_move_aside s fs) = ino_data fs" "fs_next (ss_move_aside s fs) = fs_next fs"
    and ne: "split_path (bak_path path) \<noteq> split_path path" and sp: "split_path path = split_path dir @ [''snapshot.pb'']"
    using ss_move_aside_file [OF assms] .
  let ?fs1 = "ss_move_aside s fs"
  have m: "map_of (fs_tree ?fs1) = (map_of (fs_tree fs))(split_path path := None, split_path (bak_path path) \<mapsto> FileNode i)"
    by (simp add: t update_conv' delete_conv')
  have root: "\<not> is_root (split_path path)"
    using sp by (auto simp: is_root_def append_eq_Cons_conv)
  show "\<not> fs_exists path ?fs1" using m ne root by (simp add: fs_exists_def path_exists_def)
  have wf: "fs_wf ?fs1"
    using assms(1) i(1) unfolding fs_wf_def m d by (auto split: if_splits; metis)
  have "is_dir ?fs1 (split_path dir)"
    using assms(5) ne sp assms(6) by (auto simp: is_dir_def m)
  then obtain h fs2 where opn: "file_open path WRITE ?fs1 = (Some h, fs2)"
    using m ne root sp by (auto simp: file_open_def Let_def create_file_def)
  obtain ok f fs3 where wr: "file_write d (Some h) fs2 = (ok, f, fs3)" by (rule prod_cases3)
  have fs3: "ss_crash_save d s fs = fs3" using opn wr assms(7) by (simp add: ss_crash_save_def)
  note w = file_write_fresh [OF opn wr]
  show "file_bytes (ss_crash_save d s fs) path = Some d" using w(2) fs3 by simp
  note o = file_open_some [OF opn wf]
  have hi: "map_of (fs_tree ?fs1) (split_path (bak_path path)) = Some (FileNode i)" by (simp add: m)
  have "file_bytes fs3 (bak_path path) = file_bytes ?fs1 (bak_path path)"
    by (rule other_file_bytes [of _ _ _ "of_ino h"]) (use w(4,6) o(3,5) o(6) ne in auto)
  also have "\<dots> = Some old" using hi i(2) by (simp add: file_bytes_def d)
  finally show "file_bytes (ss_crash_save d s fs) (bak_path path) = Some old" using fs3 by simp
qed

section \<open>The saving thread\<close>

text \<open>
  Writers and the saving thread interleave. A writer first stores its entry under the lock and then
  sets the dirty flag; the saver exchanges the flag, copies the map under the shared lock and
  writes the copy. \<open>th_mid\<close> counts the writers between their two steps; \<open>th_file\<close> is the map that the file
  holds.
\<close>

datatype saver_pc = Waiting | Saving | Writing "string \<rightharpoonup> cached_snapshot"

record threads =
  th_map :: "string \<rightharpoonup> cached_snapshot"
  th_dirty :: bool
  th_mid :: nat
  th_saver :: saver_pc
  th_file :: "string \<rightharpoonup> cached_snapshot"

inductive th_step :: "threads \<Rightarrow> threads \<Rightarrow> bool" where
  store: "th_step t (t\<lparr>th_map := (th_map t)(k \<mapsto> snapshot_entry k p), th_mid := th_mid t + 1\<rparr>)"
| mark: "0 < th_mid t \<Longrightarrow> th_step t (t\<lparr>th_dirty := True, th_mid := th_mid t - 1\<rparr>)"
| wake: "th_saver t = Waiting \<Longrightarrow> th_dirty t \<Longrightarrow> th_step t (t\<lparr>th_dirty := False, th_saver := Saving\<rparr>)"
| copy: "th_saver t = Saving \<Longrightarrow> th_step t (t\<lparr>th_saver := Writing (th_map t)\<rparr>)"
| save: "th_saver t = Writing m \<Longrightarrow> th_step t (t\<lparr>th_file := m, th_saver := Waiting\<rparr>)"

inductive_cases th_step_cases: "th_step t t'"

definition th_inv :: "threads \<Rightarrow> bool" where
  "th_inv t \<longleftrightarrow> th_dirty t \<or> 0 < th_mid t
     \<or> (case th_saver t of Waiting \<Rightarrow> th_file t = th_map t | Saving \<Rightarrow> True | Writing m \<Rightarrow> m = th_map t)"

lemma th_step_inv: "th_step t t' \<Longrightarrow> th_inv t \<Longrightarrow> th_inv t'"
  by (erule th_step_cases) (auto simp: th_inv_def split: saver_pc.splits)

inductive th_reach :: "threads \<Rightarrow> threads \<Rightarrow> bool" for t0 where
  start: "th_reach t0 t0"
| step: "th_reach t0 t \<Longrightarrow> th_step t t' \<Longrightarrow> th_reach t0 t'"

lemma th_reach_inv: "th_reach t0 t \<Longrightarrow> th_inv t0 \<Longrightarrow> th_inv t"
  by (induction rule: th_reach.induct) (auto intro: th_step_inv)

section \<open>Properties\<close>

text \<open>
  A saved store is loaded back: if a save reports success, a later load from that file system,
  into whatever store has the same path, gives every key the same entry, provided the encoding of
  this image can be parsed back.
\<close>

lemma snapshot_save_load:
  assumes "ss_ok s" "ss_save_to_file ser now s fs = (True, fs')"
    and "par (ser (ss_image now s)) = Some (ss_image now s)" "ss_path t = ss_path s"
  shows "fst (ss_load_from_file par t fs') \<and> ss_get k (snd (ss_load_from_file par t fs')) = ss_get k s"
proof -
  note f = ss_save_file_bytes [OF assms(2)]
  have "ss_load_from_file par t fs' = (True, ss_load_data (ss_image now s) t)"
    using f assms(3,4) by (simp add: ss_load_from_file_def parse_file_def)
  then show ?thesis using ss_load_image [OF assms(1), of now t] by (simp add: ss_get_def)
qed

definition demo_store :: snapshot_store where
  "demo_store = ss_on_write ''k'' \<lparr>dp_ts = 3, dp_value = VDouble 7\<rparr> (ss_new\<lparr>ss_path := ''d/snapshot.pb''\<rparr>)"

definition demo_par :: "byte list \<Rightarrow> snapshot_file option" where
  "demo_par d = (if d = [1] then Some (ss_image 0 demo_store) else None)"

definition demo_ser :: "snapshot_file \<Rightarrow> byte list" where
  "demo_ser _ = [1]"

definition demo_dir_fs :: fsys where
  "demo_dir_fs = demo_fs\<lparr>fs_tree := [([''d''], DirNode)]\<rparr>"

lemma demo_store_ok: "ss_ok demo_store"
  by (simp add: demo_store_def ss_on_write_def ss_new_def ss_ok_def snapshot_entry_def)

lemma snapshot_save_load_witness:
  "ss_get ''k'' (snd (ss_load_from_file demo_par (ss_new\<lparr>ss_path := ''d/snapshot.pb''\<rparr>)
      (snd (ss_save_to_file demo_ser 0 demo_store demo_dir_fs))))
    = Some \<lparr>cs_timestamp = 3, cs_value = 7, cs_tag = ''k'', cs_valid = True\<rparr>"
proof -
  have "fst (ss_save_to_file demo_ser 0 demo_store demo_dir_fs)" by code_simp
  then have "ss_save_to_file demo_ser 0 demo_store demo_dir_fs =
      (True, snd (ss_save_to_file demo_ser 0 demo_store demo_dir_fs))" by (simp add: prod_eq_iff)
  moreover have "ss_path (ss_new\<lparr>ss_path := ''d/snapshot.pb''\<rparr>) = ss_path demo_store"
    by (simp add: demo_store_def ss_on_write_def)
  moreover have "ss_get ''k'' demo_store = Some \<lparr>cs_timestamp = 3, cs_value = 7, cs_tag = ''k'', cs_valid = True\<rparr>"
    by (simp add: ss_get_def demo_store_def ss_on_write_def ss_new_def snapshot_entry_def)
  ultimately show ?thesis
    using snapshot_save_load [OF demo_store_ok, of demo_ser 0 demo_dir_fs _ demo_par
        "ss_new\<lparr>ss_path := ''d/snapshot.pb''\<rparr>" "''k''"]
    by (simp add: demo_par_def demo_ser_def)
qed


definition saved_fs :: fsys where
  "saved_fs = \<lparr>fs_tree = [([''d'', ''snapshot.pb''], FileNode 0), ([''d''], DirNode)],
     fs_inodes = (\<lambda>_. \<lparr>in_data = [1], in_mtime = 0\<rparr>), fs_next = 1, fs_clock = 0\<rparr>"



definition th_idle :: "(string \<rightharpoonup> cached_snapshot) \<Rightarrow> threads" where
  "th_idle m = \<lparr>th_map = m, th_dirty = False, th_mid = 0, th_saver = Waiting, th_file = m\<rparr>"


end
