(* ===== verification/Alarm_Engine.thy ===== *)
theory Alarm_Engine
  imports Text_Util Float64
begin

unbundle bit_operations_syntax

text \<open>
  The alarm engine of \<^verbatim>\<open>src/src/alarm/alarm_engine.{h,cpp}\<close>: rules with a parsed condition,
  evaluated on every written point, with suppression of repeats and a bounded event list. The
  callback \<^verbatim>\<open>on_alarm_\<close> is represented by the events it is called with, the second result of
  \<open>ae_evaluate\<close>.
\<close>

section \<open>Rules\<close>

record alarm_rule =
  ar_name :: string
  ar_tag_name :: string
  ar_condition :: string
  ar_threshold :: f64
  ar_op :: string
  ar_actions :: "string list"

record alarm_event =
  av_alarm_name :: string
  av_tag_name :: string
  av_value :: f64
  av_ts :: timestamp
  av_condition :: string

record alarm_engine =
  ae_rules :: "alarm_rule list"
  ae_events :: "alarm_event list"
  ae_last_trigger_time :: "(string \<times> timestamp) list"

definition ae_new :: alarm_engine where
  "ae_new = \<lparr>ae_rules = [], ae_events = [], ae_last_trigger_time = []\<rparr>"

definition ar_evaluate :: "alarm_rule \<Rightarrow> f64 \<Rightarrow> bool" where
  "ar_evaluate r v =
     (if ar_op r = ''>'' then f64_lt (ar_threshold r) v
      else if ar_op r = ''<'' then f64_lt v (ar_threshold r)
      else if ar_op r = ''>='' then f64_le (ar_threshold r) v
      else if ar_op r = ''<='' then f64_le v (ar_threshold r)
      else if ar_op r = ''=='' then f64_eq v (ar_threshold r)
      else if ar_op r = ''!='' then \<not> f64_eq v (ar_threshold r)
      else False)"

definition alarm_ops :: "string list" where
  "alarm_ops = [''>='', ''<='', ''!='', ''=='', ''>'', ''<'']"

fun parse_with_ops :: "string list \<Rightarrow> string \<Rightarrow> (string \<times> f64) option" where
  "parse_with_ops [] expr = None"
| "parse_with_ops (op # ops) expr =
     (case find_string op expr of
        Some pos \<Rightarrow>
          (case stod (drop (pos + length op) expr) of Inr (v, _) \<Rightarrow> Some (op, v) | Inl _ \<Rightarrow> None)
      | None \<Rightarrow> parse_with_ops ops expr)"

definition parse_condition :: "string \<Rightarrow> (string \<times> f64) option" where
  "parse_condition condition = parse_with_ops alarm_ops (filter (\<lambda>c. \<not> is_space c) condition)"

definition ae_add_rule :: "alarm_rule \<Rightarrow> alarm_engine \<Rightarrow> bool \<times> alarm_engine" where
  "ae_add_rule rule e =
     (if \<exists>r \<in> set (ae_rules e). ar_name r = ar_name rule then (False, e)
      else case parse_condition (ar_condition rule) of
        None \<Rightarrow> (False, e)
      | Some (op, threshold) \<Rightarrow>
          (True, e\<lparr>ae_rules := ae_rules e @ [rule\<lparr>ar_op := op, ar_threshold := threshold\<rparr>]\<rparr>))"

definition ae_remove_rule :: "string \<Rightarrow> alarm_engine \<Rightarrow> bool \<times> alarm_engine" where
  "ae_remove_rule name e =
     (let kept = filter (\<lambda>r. ar_name r \<noteq> name) (ae_rules e) in
      if length kept = length (ae_rules e) then (False, e) else (True, e\<lparr>ae_rules := kept\<rparr>))"

definition ae_get_rules :: "alarm_engine \<Rightarrow> alarm_rule list" where
  "ae_get_rules e = ae_rules e"

text \<open>Actions: the comma-separated tokens without surrounding blanks, empty ones dropped.\<close>

definition trim_blanks :: "string \<Rightarrow> string" where
  "trim_blanks s = rev (dropWhile (\<lambda>c. c = CHR '' '') (rev (dropWhile (\<lambda>c. c = CHR '' '') s)))"

definition parse_actions :: "string \<Rightarrow> string list" where
  "parse_actions value = filter (\<lambda>t. t \<noteq> []) (map trim_blanks (split_at (CHR '','') [] value))"

definition alter_rule :: "string \<Rightarrow> string \<Rightarrow> alarm_rule \<Rightarrow> alarm_rule option" where
  "alter_rule property value r =
     (if property = ''condition'' then
        (case parse_condition value of
           None \<Rightarrow> None
         | Some (op, threshold) \<Rightarrow>
             Some (r\<lparr>ar_condition := value, ar_op := op, ar_threshold := threshold\<rparr>))
      else if property = ''action'' then Some (r\<lparr>ar_actions := parse_actions value\<rparr>)
      else None)"

fun alter_first :: "string \<Rightarrow> string \<Rightarrow> string \<Rightarrow> alarm_rule list \<Rightarrow> alarm_rule list option" where
  "alter_first name property value [] = None"
| "alter_first name property value (r # rs) =
     (if ar_name r = name then map_option (\<lambda>r'. r' # rs) (alter_rule property value r)
      else map_option ((#) r) (alter_first name property value rs))"

definition ae_alter_rule :: "string \<Rightarrow> string \<Rightarrow> string \<Rightarrow> alarm_engine \<Rightarrow> bool \<times> alarm_engine" where
  "ae_alter_rule name property value e =
     (case alter_first name property value (ae_rules e) of
        None \<Rightarrow> (False, e)
      | Some rs \<Rightarrow> (True, e\<lparr>ae_rules := rs\<rparr>))"

definition ae_remove_rules_by_tag :: "string \<Rightarrow> alarm_engine \<Rightarrow> nat \<times> alarm_engine" where
  "ae_remove_rules_by_tag tag e =
     (let kept = filter (\<lambda>r. ar_tag_name r \<noteq> tag) (ae_rules e)
      in (length (ae_rules e) - length kept, e\<lparr>ae_rules := kept\<rparr>))"

section \<open>Evaluation\<close>

text \<open>One turn of the loop over the rules.\<close>

definition ae_check_rule :: "string \<Rightarrow> timestamp \<Rightarrow> f64 \<Rightarrow> alarm_rule \<Rightarrow> alarm_engine \<times> alarm_event list
    \<Rightarrow> alarm_engine \<times> alarm_event list" where
  "ae_check_rule tag ts v rule s =
     (case s of (e, fired) \<Rightarrow>
        if ar_tag_name rule \<noteq> tag then s
        else if \<not> ar_evaluate rule v then s
        else if (case map_of (ae_last_trigger_time e) (ar_name rule) of
                   Some prev \<Rightarrow> sint (ts - prev) < 60000 | None \<Rightarrow> False) then s
        else
          let event = \<lparr>av_alarm_name = ar_name rule, av_tag_name = tag, av_value = v, av_ts = ts,
                       av_condition = ar_condition rule\<rparr>
          in (e\<lparr>ae_last_trigger_time := AList.update (ar_name rule) ts (ae_last_trigger_time e),
                ae_events := (if length (ae_events e) < 10000 then ae_events e @ [event] else ae_events e)\<rparr>,
              fired @ [event]))"

definition ae_evaluate :: "string \<Rightarrow> data_point \<Rightarrow> alarm_engine \<Rightarrow> alarm_engine \<times> alarm_event list" where
  "ae_evaluate tag point e =
     (case dp_value point of
        VDouble v \<Rightarrow> fold (ae_check_rule tag (dp_ts point) v) (ae_rules e) (e, [])
      | _ \<Rightarrow> (e, []))"

definition ae_query_events :: "string \<Rightarrow> timestamp \<Rightarrow> timestamp \<Rightarrow> alarm_engine \<Rightarrow> alarm_event list" where
  "ae_query_events tag start fin e =
     filter (\<lambda>v. \<not> (tag \<noteq> [] \<and> av_tag_name v \<noteq> tag) \<and> \<not> (sint (av_ts v) < sint start \<or> sint fin < sint (av_ts v)))
       (ae_events e)"

definition ae_event_count :: "alarm_engine \<Rightarrow> nat" where
  "ae_event_count e = length (ae_events e)"

section \<open>Parsing a condition\<close>

definition op_char :: "char \<Rightarrow> bool" where
  "op_char c \<longleftrightarrow> c \<in> set ''<>=!''"

text \<open>Each of the six operators is recognised, the two-character ones before their prefixes.\<close>

lemma parse_with_ops_finds:
  assumes "op \<in> set alarm_ops" "\<forall>c \<in> set lhs. \<not> op_char c" "\<forall>c \<in> set rhs. \<not> op_char c"
    and "stod rhs = Inr (v, rest)"
  shows "parse_with_ops alarm_ops (lhs @ op @ rhs) = Some (op, v)"
proof -
  have l: "CHR ''>'' \<notin> set lhs" "CHR ''<'' \<notin> set lhs" "CHR ''='' \<notin> set lhs" "CHR ''!'' \<notin> set lhs"
    and r: "CHR ''>'' \<notin> set rhs" "CHR ''<'' \<notin> set rhs" "CHR ''='' \<notin> set rhs" "CHR ''!'' \<notin> set rhs"
    using assms(2,3) by (auto simp: op_char_def)
  have eq: "\<not> prefix ''='' rhs" using r(3) by (cases rhs) auto
  note absent = find_string_absent [of "[_, _]"] find_string_absent [of "[_]"]
  note at = find_string_at [OF refl, of _ lhs "[_]" rhs] find_string_at [OF refl, of _ lhs "[]" rhs]
  note skip = find_string_skip [OF refl, of _ lhs]
  have "op = ''>='' \<or> op = ''<='' \<or> op = ''!='' \<or> op = ''=='' \<or> op = ''>'' \<or> op = ''<''"
    using assms(1) by (auto simp: alarm_ops_def)
  then show ?thesis
    using l r eq at skip absent assms(4)
    by (elim disjE) (simp_all add: alarm_ops_def)
qed

section \<open>Spacing of alarms\<close>

definition ae_feed :: "(string \<times> data_point) list \<Rightarrow> alarm_engine \<times> alarm_event list \<Rightarrow> alarm_engine \<times> alarm_event list" where
  "ae_feed ws s = fold (\<lambda>(tag, p) (e, fired). case ae_evaluate tag p e of (e', f) \<Rightarrow> (e', fired @ f)) ws s"

text \<open>Times small enough for their differences not to wrap (less than \<open>2^62\<close> microseconds).\<close>

definition near :: "timestamp \<Rightarrow> bool" where
  "near t \<longleftrightarrow> \<bar>sint t\<bar> < 2 ^ 62"

lemma sint_diff_near: "near a \<Longrightarrow> near b \<Longrightarrow> sint (a - b) = sint a - sint b"
  unfolding sint_word_ariths(2) near_def by (rule signed_take_bit_int_eq_self) simp_all

definition spaced :: "alarm_event list \<Rightarrow> bool" where
  "spaced fired \<longleftrightarrow> sorted_wrt (\<lambda>a b. av_alarm_name a = av_alarm_name b \<longrightarrow> sint (av_ts a) + 60000 \<le> sint (av_ts b)) fired"

text \<open>Every event lies at or before the time recorded for its rule, which lies at or before \<open>t\<close>.\<close>

definition alarm_inv :: "timestamp \<Rightarrow> alarm_engine \<times> alarm_event list \<Rightarrow> bool" where
  "alarm_inv t s \<longleftrightarrow> (case s of (e, fired) \<Rightarrow>
     spaced fired
     \<and> (\<forall>v \<in> set fired. \<exists>u. map_of (ae_last_trigger_time e) (av_alarm_name v) = Some u \<and> sint (av_ts v) \<le> sint u)
     \<and> (\<forall>n u. map_of (ae_last_trigger_time e) n = Some u \<longrightarrow> near u \<and> sint u \<le> sint t))"

lemma alarm_inv_mono: "alarm_inv t s \<Longrightarrow> sint t \<le> sint t' \<Longrightarrow> alarm_inv t' s"
  by (fastforce simp: alarm_inv_def)

lemma ae_check_rule_inv:
  assumes "alarm_inv ts s" "near ts"
  shows "alarm_inv ts (ae_check_rule tag ts v rule s)"
proof -
  obtain e fired where s: "s = (e, fired)" by (cases s)
  let ?last = "map_of (ae_last_trigger_time e) (ar_name rule)"
  show ?thesis
  proof (cases "ae_check_rule tag ts v rule s = s")
    case True
    with assms(1) show ?thesis by simp
  next
    case False
    define event where "event = \<lparr>av_alarm_name = ar_name rule, av_tag_name = tag, av_value = v, av_ts = ts,
      av_condition = ar_condition rule\<rparr>"
    have fire: "ae_check_rule tag ts v rule s =
        (e\<lparr>ae_last_trigger_time := AList.update (ar_name rule) ts (ae_last_trigger_time e),
           ae_events := (if length (ae_events e) < 10000 then ae_events e @ [event] else ae_events e)\<rparr>,
         fired @ [event])"
      and quiet: "?last = Some u \<Longrightarrow> \<not> sint (ts - u) < 60000" for u
      using False by (auto simp: ae_check_rule_def s Let_def event_def split: if_splits option.splits)
    have gap: "sint u + 60000 \<le> sint ts" if "?last = Some u" for u
    proof -
      have "near u" using that assms(1) s by (auto simp: alarm_inv_def)
      with quiet [OF that] assms(2) show ?thesis by (simp add: sint_diff_near)
    qed
    have "spaced (fired @ [event])"
      using assms(1) gap by (fastforce simp: spaced_def s alarm_inv_def sorted_wrt_append event_def)
    moreover have "\<exists>u. map_of (AList.update (ar_name rule) ts (ae_last_trigger_time e)) (av_alarm_name w) = Some u
        \<and> sint (av_ts w) \<le> sint u" if "w \<in> set (fired @ [event])" for w
    proof (cases "av_alarm_name w = ar_name rule")
      case True
      have "sint (av_ts w) \<le> sint ts"
        using that assms(1) by (fastforce simp: s alarm_inv_def event_def)
      with True show ?thesis by (simp add: update_conv')
    next
      case False
      with that have "w \<in> set fired" by (auto simp: event_def)
      with False assms(1) show ?thesis by (simp add: s alarm_inv_def update_conv')
    qed
    ultimately show ?thesis
      using assms unfolding fire by (auto simp: s alarm_inv_def update_conv' split: if_splits)
  qed
qed

lemma fold_check_fired:
  "fold (ae_check_rule tag ts v) rs (e, xs @ ys) =
     (case fold (ae_check_rule tag ts v) rs (e, ys) of (e', zs) \<Rightarrow> (e', xs @ zs))"
proof (induction rs arbitrary: e ys)
  case (Cons r rs)
  have "ae_check_rule tag ts v r (e, xs @ ys) =
      (case ae_check_rule tag ts v r (e, ys) of (e', zs) \<Rightarrow> (e', xs @ zs))"
    by (simp add: ae_check_rule_def Let_def)
  then show ?case by (simp add: Cons.IH split: prod.splits)
qed simp

lemma ae_evaluate_inv:
  assumes "alarm_inv t (e, fired)" "sint t \<le> sint (dp_ts p)" "near (dp_ts p)" "ae_evaluate tag p e = (e', f)"
  shows "alarm_inv (dp_ts p) (e', fired @ f)"
proof (cases "dp_value p")
  case (VDouble v)
  have inv: "alarm_inv (dp_ts p) (fold (ae_check_rule tag (dp_ts p) v) rs s)" if "alarm_inv (dp_ts p) s" for rs s
    using that by (induction rs arbitrary: s) (simp_all add: ae_check_rule_inv assms(3))
  show ?thesis
    using inv [OF alarm_inv_mono [OF assms(1,2)], of "ae_rules e"] VDouble assms(4) fold_check_fired [of tag "dp_ts p" v "ae_rules e" e fired "[]"]
    by (simp add: ae_evaluate_def)
qed (use assms alarm_inv_mono [OF assms(1,2)] in \<open>simp_all add: ae_evaluate_def\<close>)

lemma ae_feed_inv:
  "sorted_wrt (\<lambda>a b. sint a \<le> sint b) (t # map (dp_ts \<circ> snd) ws) \<Longrightarrow> list_all (near \<circ> dp_ts \<circ> snd) ws \<Longrightarrow>
   alarm_inv t s \<Longrightarrow> spaced (snd (ae_feed ws s))"
proof (induction ws arbitrary: t s)
  case Nil
  then show ?case by (auto simp: ae_feed_def alarm_inv_def)
next
  case (Cons w ws)
  obtain tag p where w: "w = (tag, p)" by (cases w)
  obtain e fired where s: "s = (e, fired)" by (cases s)
  obtain e' f where ev: "ae_evaluate tag p e = (e', f)" by fastforce
  have "alarm_inv (dp_ts p) (e', fired @ f)"
    by (rule ae_evaluate_inv [OF _ _ _ ev]) (use Cons.prems w s in auto)
  from Cons.IH [OF _ _ this] Cons.prems ev w s show ?case by (simp add: ae_feed_def)
qed

section \<open>Rules over time\<close>

datatype alarm_command =
  Add_Rule alarm_rule
| Remove_Rule string
| Alter_Rule string string string
| Remove_By_Tag string
| Write_Point string data_point

fun ae_apply :: "alarm_command \<Rightarrow> alarm_engine \<Rightarrow> alarm_engine" where
  "ae_apply (Add_Rule r) e = snd (ae_add_rule r e)"
| "ae_apply (Remove_Rule n) e = snd (ae_remove_rule n e)"
| "ae_apply (Alter_Rule n p v) e = snd (ae_alter_rule n p v e)"
| "ae_apply (Remove_By_Tag t) e = snd (ae_remove_rules_by_tag t e)"
| "ae_apply (Write_Point t p) e = fst (ae_evaluate t p e)"

definition ae_ok :: "alarm_engine \<Rightarrow> bool" where
  "ae_ok e \<longleftrightarrow> distinct (map ar_name (ae_rules e)) \<and> (\<forall>r \<in> set (ae_rules e). ar_op r \<in> set alarm_ops)
     \<and> length (ae_events e) \<le> 10000"

lemma parse_condition_op: "parse_condition s = Some (op, v) \<Longrightarrow> op \<in> set alarm_ops"
proof -
  have "parse_with_ops ops expr = Some (op, v) \<Longrightarrow> op \<in> set ops" for ops expr
    by (induction ops) (auto split: option.splits sum.splits)
  then show "parse_condition s = Some (op, v) \<Longrightarrow> op \<in> set alarm_ops" by (simp add: parse_condition_def)
qed

lemma alter_first_ok:
  "alter_first n p v rs = Some rs' \<Longrightarrow> \<forall>r \<in> set rs. ar_op r \<in> set alarm_ops \<Longrightarrow>
   map ar_name rs' = map ar_name rs \<and> (\<forall>r \<in> set rs'. ar_op r \<in> set alarm_ops)"
proof (induction rs arbitrary: rs')
  case (Cons r rs)
  then show ?case
    by (auto simp: alter_rule_def split: if_splits option.splits) (metis parse_condition_op)
qed simp

lemma ae_check_rules_state:
  "ae_rules (fst (fold (ae_check_rule tag ts v) rs s)) = ae_rules (fst s)
   \<and> (length (ae_events (fst s)) \<le> 10000 \<longrightarrow> length (ae_events (fst (fold (ae_check_rule tag ts v) rs s))) \<le> 10000)"
proof (induction rs arbitrary: s)
  case (Cons r rs)
  have "ae_rules (fst (ae_check_rule tag ts v r s)) = ae_rules (fst s)
      \<and> (length (ae_events (fst s)) \<le> 10000 \<longrightarrow> length (ae_events (fst (ae_check_rule tag ts v r s))) \<le> 10000)"
    by (auto simp: ae_check_rule_def Let_def split: prod.splits)
  with Cons.IH show ?case by simp
qed simp

lemma ae_apply_ok:
  assumes "ae_ok e" shows "ae_ok (ae_apply c e)"
proof (cases c)
  case (Alter_Rule n p v)
  with assms alter_first_ok [of n p v "ae_rules e"] show ?thesis
    by (auto simp: ae_ok_def ae_alter_rule_def split: option.splits)
next
  case (Write_Point t p)
  with assms ae_check_rules_state [of t "dp_ts p" _ "ae_rules e" "(e, [])"] show ?thesis
    by (cases "dp_value p") (simp_all add: ae_ok_def ae_evaluate_def)
qed (use assms in \<open>auto simp: ae_ok_def ae_add_rule_def ae_remove_rule_def ae_remove_rules_by_tag_def Let_def
      distinct_map_filter dest: parse_condition_op split: option.splits\<close>)

section \<open>Properties\<close>

text \<open>
  C13. Alarms do not repeat: for points evaluated in the order of their times, any two events of the
  same rule name that the engine fires are at least 60000 time units apart. (The comment in the code
  says 60 seconds; a timestamp is microseconds, so it is 60 milliseconds.)
\<close>

theorem alarm_events_spaced:
  assumes "ae_last_trigger_time e = []" "list_all (near \<circ> dp_ts \<circ> snd) ws"
    and "sorted_wrt (\<lambda>a b. sint a \<le> sint b) (map (dp_ts \<circ> snd) ws)"
    and "ae_feed ws (e, []) = (e', fired)" "i < j" "j < length fired"
    and "av_alarm_name (fired ! i) = av_alarm_name (fired ! j)"
  shows "sint (av_ts (fired ! i)) + 60000 \<le> sint (av_ts (fired ! j))"
proof -
  have "spaced fired"
  proof (cases ws)
    case Nil
    with assms(4,6) show ?thesis by (simp add: ae_feed_def)
  next
    case (Cons w ws')
    have "alarm_inv (dp_ts (snd w)) (e, [])" using assms(1) by (simp add: alarm_inv_def spaced_def)
    from ae_feed_inv [OF _ assms(2) this] assms(3,4) Cons show ?thesis by auto
  qed
  with assms(5-7) show ?thesis by (simp add: spaced_def sorted_wrt_iff_nth_less)
qed

definition demo_rule :: alarm_rule where
  "demo_rule = \<lparr>ar_name = ''hot'', ar_tag_name = ''t'', ar_condition = ''v > 1'', ar_threshold = 0,
     ar_op = ''>'', ar_actions = []\<rparr>"

definition demo_alarms :: alarm_engine where
  "demo_alarms = ae_new\<lparr>ae_rules := [demo_rule]\<rparr>"

theorem alarm_events_spaced_witness:
  "\<exists>e' a b. ae_feed [(''t'', \<lparr>dp_ts = 5, dp_value = VDouble 1\<rparr>), (''t'', \<lparr>dp_ts = 9, dp_value = VDouble 1\<rparr>),
       (''t'', \<lparr>dp_ts = 70000, dp_value = VDouble 1\<rparr>)] (demo_alarms, []) = (e', [a, b])
     \<and> sint (av_ts a) + 60000 \<le> sint (av_ts b)"
proof -
  let ?ws = "[(''t'', \<lparr>dp_ts = 5, dp_value = VDouble 1\<rparr>), (''t'', \<lparr>dp_ts = 9, dp_value = VDouble 1\<rparr>),
       (''t'', \<lparr>dp_ts = 70000, dp_value = VDouble 1\<rparr>)]"
  let ?ev = "\<lambda>t. \<lparr>av_alarm_name = ''hot'', av_tag_name = ''t'', av_value = 1, av_ts = t, av_condition = ''v > 1''\<rparr>"
  have "f64_lt 0 1" by (simp add: f64_lt_def f64_is_nan_def f64_scaled_def f64_exp_def f64_frac_def f64_sign_def)
  then have ev: "ar_evaluate demo_rule 1" by (simp add: ar_evaluate_def demo_rule_def)
  have "snd (ae_feed ?ws (demo_alarms, [])) = [?ev 5, ?ev 70000]"
    by (simp add: ae_feed_def ae_evaluate_def demo_alarms_def ae_new_def ae_check_rule_def Let_def ev
        split_beta) (simp add: demo_rule_def)
  then obtain e' where f: "ae_feed ?ws (demo_alarms, []) = (e', [?ev 5, ?ev 70000])" by (metis prod.collapse)
  have "sint (av_ts ([?ev 5, ?ev 70000] ! 0)) + 60000 \<le> sint (av_ts ([?ev 5, ?ev 70000] ! 1))"
    by (rule alarm_events_spaced [OF _ _ _ f]) (simp_all add: demo_alarms_def ae_new_def near_def)
  with f show ?thesis by (metis nth_Cons_0 nth_Cons_Suc One_nat_def)
qed

text \<open>
  The engine stays well formed under every sequence of commands: rule names are unique, every rule
  carries one of the six operators, and at most 10000 events are kept.
\<close>

lemma alarm_engine_invariant:
  "distinct (map ar_name (ae_rules (fold ae_apply cs ae_new)))
    \<and> ar_op ` set (ae_rules (fold ae_apply cs ae_new)) \<subseteq> set alarm_ops
    \<and> length (ae_events (fold ae_apply cs ae_new)) \<le> 10000"
proof -
  have "ae_ok e \<Longrightarrow> ae_ok (fold ae_apply cs e)" for e
    by (induction cs arbitrary: e) (simp_all add: ae_apply_ok)
  moreover have "ae_ok ae_new" by (simp add: ae_ok_def ae_new_def)
  ultimately show ?thesis by (auto simp: ae_ok_def)
qed

text \<open>
  Conditions mean what they say: for each of the six operators, a condition built from a left side
  and a number without operator characters is accepted, and the rule then holds of a value exactly
  when the IEEE comparison with that number does; a NaN value satisfies only \<^verbatim>\<open>!=\<close>.
\<close>

lemma alarm_condition_meaning:
  assumes "(op, holds) \<in> {(''>'', \<lambda>v t. f64_lt t v), (''<'', \<lambda>v t. f64_lt v t), (''>='', \<lambda>v t. f64_le t v),
      (''<='', \<lambda>v t. f64_le v t), (''=='', \<lambda>v t. f64_eq v t), (''!='', \<lambda>v t. \<not> f64_eq v t)}"
    and "\<forall>c \<in> set lhs \<union> set rhs. \<not> op_char c \<and> \<not> is_space c" "stod rhs = Inr (t, rest)"
    and "ar_condition r = lhs @ '' '' @ op @ '' '' @ rhs" "ar_name r \<notin> ar_name ` set (ae_rules e)"
  shows "\<exists>r'. ae_add_rule r e = (True, e\<lparr>ae_rules := ae_rules e @ [r']\<rparr>)
    \<and> (\<forall>v. ar_evaluate r' v = holds v t) \<and> (\<forall>v. f64_is_nan v \<longrightarrow> ar_evaluate r' v = (op = ''!=''))"
proof -
  have op: "op \<in> set alarm_ops" using assms(1) by (auto simp: alarm_ops_def)
  have sp: "is_space CHR '' ''" by (simp add: is_space_def)
  have "filter (\<lambda>c. \<not> is_space c) op = op"
    using assms(1) by (auto simp: is_space_def)
  then have "filter (\<lambda>c. \<not> is_space c) (ar_condition r) = lhs @ op @ rhs"
    using assms(2,4) sp by (simp add: filter_id_conv)
  then have "parse_condition (ar_condition r) = Some (op, t)"
    using parse_with_ops_finds [OF op _ _ assms(3), of lhs] assms(2) by (simp add: parse_condition_def)
  moreover have "\<not> (\<exists>q \<in> set (ae_rules e). ar_name q = ar_name r)" by (metis assms(5) imageI)
  ultimately have "ae_add_rule r e = (True, e\<lparr>ae_rules := ae_rules e @ [r\<lparr>ar_op := op, ar_threshold := t\<rparr>]\<rparr>)"
    by (simp add: ae_add_rule_def)
  moreover have ev: "ar_evaluate (r\<lparr>ar_op := op, ar_threshold := t\<rparr>) v = holds v t" for v
    using assms(1) by (auto simp: ar_evaluate_def)
  moreover have "holds v t = (op = ''!='')" if "f64_is_nan v" for v
    using assms(1) that by (auto simp: f64_lt_def f64_le_def f64_eq_def)
  ultimately show ?thesis by metis
qed

lemma alarm_condition_meaning_witness:
  "\<exists>r'. ae_add_rule (demo_rule\<lparr>ar_condition := ''value >= 2''\<rparr>) ae_new = (True, ae_new\<lparr>ae_rules := ae_rules ae_new @ [r']\<rparr>)
    \<and> (\<forall>v. ar_evaluate r' v = f64_le 0x4000000000000000 v)"
proof -
  let ?r = "demo_rule\<lparr>ar_condition := ''value'' @ '' '' @ ''>='' @ '' '' @ ''2''\<rparr>"
  have "f64_round (2 * 2 ^ 1074) 1 = 0x4000000000000000"
    using f64_round_int(1) [of 2] by (simp add: bit_len.simps)
  then have "f64_of_ratio False 2 1 = Inr 0x4000000000000000"
    by (simp add: f64_of_ratio_def f64_inf_bits_def f64_with_sign_def)
  then have s: "stod ''2'' = Inr (0x4000000000000000, [])"
    by (simp add: stod_def read_decimal_def read_mantissa_def read_exponent_def is_digit_def is_space_def
        starts_with_nocase_def number_of_def digit_value_def f64_of_power_def)
  have o: "(''>='', \<lambda>v t. f64_le t v) \<in> {(''>'', \<lambda>v t. f64_lt t v), (''<'', \<lambda>v t. f64_lt v t), (''>='', \<lambda>v t. f64_le t v),
      (''<='', \<lambda>v t. f64_le v t), (''=='', \<lambda>v t. f64_eq v t), (''!='', \<lambda>v t. \<not> f64_eq v t)}" by simp
  have c: "\<forall>c \<in> set ''value'' \<union> set ''2''. \<not> op_char c \<and> \<not> is_space c"
    by (simp add: op_char_def is_space_def)
  have n: "ar_name ?r \<notin> ar_name ` set (ae_rules ae_new)" by (simp add: ae_new_def)
  have d: "ar_condition ?r = ''value'' @ '' '' @ ''>='' @ '' '' @ ''2''" by simp
  obtain r' where "ae_add_rule ?r ae_new = (True, ae_new\<lparr>ae_rules := ae_rules ae_new @ [r']\<rparr>)"
    "\<forall>v. ar_evaluate r' v = f64_le 0x4000000000000000 v"
    using alarm_condition_meaning [OF o c s d n] by blast
  then show ?thesis by (intro exI [of _ r']) simp
qed

end
