(* ===== verification/Durable.thy ===== *)
theory Durable
  imports Os_File
begin

text \<open>
  The interface of a component that keeps its state in a file: what a successful save wrote is what
  the next load returns. The client's lemma is about histories: after any number of saves the last
  one counts.
\<close>

fun saves :: "('a \<Rightarrow> fsys \<Rightarrow> bool \<times> fsys) \<Rightarrow> 'a list \<Rightarrow> fsys \<Rightarrow> fsys option" where
  "saves save [] fs = Some fs"
| "saves save (x # xs) fs = (case save x fs of (True, fs) \<Rightarrow> saves save xs fs | (False, _) \<Rightarrow> None)"

lemma saves_append:
  "saves save (xs @ ys) fs = (case saves save xs fs of None \<Rightarrow> None | Some fs \<Rightarrow> saves save ys fs)"
  by (induction xs arbitrary: fs) (auto split: prod.splits bool.splits)

locale durable =
  fixes save :: "'a \<Rightarrow> fsys \<Rightarrow> bool \<times> fsys" and load :: "fsys \<Rightarrow> 'a option" and ok :: "'a \<Rightarrow> bool"
  assumes load_save: "ok x \<Longrightarrow> save x fs = (True, fs') \<Longrightarrow> load fs' = Some x"
begin

lemma load_saves:
  assumes "saves save (xs @ [x]) fs = Some fs'" "ok x"
  shows "load fs' = Some x"
  using assms by (auto simp: saves_append intro: load_save split: option.splits prod.splits bool.splits)

end

text \<open>Making directories removes nothing.\<close>

lemma mkdir_keeps: "map_of (fs_tree fs) p = Some n \<Longrightarrow> map_of (fs_tree (snd (mkdir s fs))) p = Some n"
  by (auto simp: mkdir_def Let_def path_exists_def map_of_bind)

lemma mkdir_prefixes_keeps:
  "map_of (fs_tree fs) p = Some n \<Longrightarrow> map_of (fs_tree (mkdir_prefixes cur s fs)) p = Some n"
  by (induction cur s fs rule: mkdir_prefixes.induct) (auto simp: Let_def mkdir_keeps)

lemma create_directories_keeps:
  "map_of (fs_tree fs) p = Some n \<Longrightarrow> map_of (fs_tree (snd (create_directories s fs))) p = Some n"
  by (auto simp: create_directories_def mkdir_keeps mkdir_prefixes_keeps split: prod.splits)
    (metis mkdir_keeps mkdir_prefixes_keeps snd_conv)

lemma file_open_existing:
  assumes "file_bytes fs s = Some d"
  obtains h fs' where "file_open s mode fs = (Some h, fs')"
  using assms by (auto simp: file_bytes_def file_open_def Let_def split: option.splits node.splits)

end
