(* ===== verification/Engine.thy ===== *)
theory Engine
  imports Wal Sstable Memtable Latest_Cache Snapshot_Store Alarm_Engine Number_Text Durable
begin

text \<open>
  The storage engine, \<^verbatim>\<open>src/src/storage/engine.{h,cpp}\<close>: it owns the memtable, the write-ahead
  log, the cache of latest values, the alarm engine and the snapshot store, and puts every write
  through all of them. What the engine takes from outside is the record \<open>env\<close> of one call: the date
  string of the clock, the padding bytes of a log header, the protobuf coding of snapshots and
  \<^verbatim>\<open>std::sort\<close>, which may order points of equal time as it likes. No alarm callback is set.
\<close>

section \<open>State\<close>

record env =
  ev_date :: string
  ev_pad :: padding
  ev_now :: int
  ev_par :: "byte list \<Rightarrow> snapshot_file option"
  ev_ser :: "snapshot_file \<Rightarrow> byte list"
  ev_sort :: "data_point list \<Rightarrow> data_point list"

record storage_config =
  sc_hot_path :: string
  sc_cold_path :: string
  sc_archive_path :: string
  sc_hot_retention_days :: int
  sc_cold_retention_days :: int
  sc_memtable_size :: nat
  sc_flush_interval_ms :: int

definition default_storage_config :: storage_config where
  "default_storage_config = \<lparr>sc_hot_path = ''./data/hot'', sc_cold_path = ''./data/cold'',
     sc_archive_path = ''./data/archive'', sc_hot_retention_days = 90, sc_cold_retention_days = 730,
     sc_memtable_size = 64 * 1024, sc_flush_interval_ms = 100\<rparr>"

record engine =
  eg_config :: storage_config
  eg_mem_table :: "memtable option"
  eg_wal :: "wal_writer option"
  eg_latest_cache :: "latest_cache option"
  eg_alarm :: "alarm_engine option"
  eg_snapshot :: "snapshot_store option"
  eg_initialized :: bool

definition eng_new :: "storage_config \<Rightarrow> engine" where
  "eng_new cfg = \<lparr>eg_config = cfg, eg_mem_table = None, eg_wal = None, eg_latest_cache = None, eg_alarm = None,
     eg_snapshot = None, eg_initialized = False\<rparr>"

section \<open>Starting\<close>

definition tag_dir :: "storage_config \<Rightarrow> string \<Rightarrow> string" where
  "tag_dir cfg tag = sc_hot_path cfg @ ''/tags/'' @ tag"

definition flush_path :: "storage_config \<Rightarrow> string \<Rightarrow> string \<Rightarrow> data_point list \<Rightarrow> string" where
  "flush_path cfg date tag points =
     tag_dir cfg tag @ ''/'' @ date @ ''_'' @ to_string (sint (dp_ts (hd points))) @ ''.sst''"

text \<open>The callback that the engine gives to the memtable.\<close>

definition eng_flush_cb :: "storage_config \<Rightarrow> string \<Rightarrow> fsys flush_callback" where
  "eng_flush_cb cfg date tag points fs =
     (if points = [] then fs
      else let fs = snd (create_directories (tag_dir cfg tag) fs)
           in snd (sst_write_blocks (flush_path cfg date tag points) [bc_compress points] fs))"

definition wal_path :: "storage_config \<Rightarrow> string" where
  "wal_path cfg = sc_hot_path cfg @ ''/wal/wal.log''"

definition eng_replay_entry :: "'s flush_callback \<Rightarrow> wal_entry \<Rightarrow> memtable \<times> 's \<Rightarrow> memtable \<times> 's" where
  "eng_replay_entry cb entry s =
     (if we_type entry = DATA_POINT \<and> we_points entry \<noteq> []
      then fold (mt_add (Some cb) (we_tag_name entry)) (we_points entry) s
      else s)"

definition eng_replay :: "env \<Rightarrow> storage_config \<Rightarrow> memtable \<times> fsys \<Rightarrow> cpp_error + memtable \<times> fsys" where
  "eng_replay env cfg s =
     (if \<not> fs_exists (wal_path cfg) (snd s) then Inr s
      else case wal_read (wal_path cfg) (snd s) of
        Inl e \<Rightarrow> Inl e
      | Inr None \<Rightarrow> Inr s
      | Inr (Some entries) \<Rightarrow> Inr (fold (eng_replay_entry (eng_flush_cb cfg (ev_date env))) entries s))"

definition eng_directories :: "storage_config \<Rightarrow> fsys \<Rightarrow> fsys" where
  "eng_directories cfg fs =
     fold (\<lambda>d fs. snd (create_directories d fs))
       [sc_hot_path cfg @ ''/meta'', sc_hot_path cfg @ ''/tags'', sc_hot_path cfg @ ''/wal'', sc_cold_path cfg] fs"

definition eng_init :: "env \<Rightarrow> engine \<times> fsys \<Rightarrow> cpp_error + bool \<times> engine \<times> fsys" where
  "eng_init env s =
     (case s of (e, fs) \<Rightarrow>
        let cfg = eg_config e;
            fs = eng_directories cfg fs;
            m = mt_new (sc_memtable_size cfg)
        in (case wal_open (wal_writer_new (wal_path cfg)) fs of
              (_, w, fs) \<Rightarrow>
                (case eng_replay env cfg (m, fs) of
                   Inl err \<Rightarrow> Inl err
                 | Inr (m, fs) \<Rightarrow>
                     (case ss_init (ev_par env) (sc_hot_path cfg @ ''/snapshot'') ss_new fs of
                        (snap, fs) \<Rightarrow>
                          Inr (True, e\<lparr>eg_mem_table := Some m, eg_wal := Some w, eg_latest_cache := Some [],
                                 eg_alarm := Some ae_new, eg_snapshot := Some snap, eg_initialized := True\<rparr>, fs)))))"

section \<open>Writing\<close>

definition eng_log :: "env \<Rightarrow> string \<Rightarrow> data_point \<Rightarrow> engine \<times> fsys \<Rightarrow> (cpp_error + bool) \<times> engine \<times> fsys" where
  "eng_log env tag point s =
     (case s of (e, fs) \<Rightarrow>
        (case eg_wal e of
           None \<Rightarrow> (Inr True, e, fs)
         | Some w \<Rightarrow>
             (case wal_append_write (ev_pad env) tag point w fs of (r, w, fs) \<Rightarrow> (r, e\<lparr>eg_wal := Some w\<rparr>, fs))))"

definition eng_buffer :: "env \<Rightarrow> string \<Rightarrow> data_point \<Rightarrow> engine \<times> fsys \<Rightarrow> engine \<times> fsys" where
  "eng_buffer env tag point s =
     (case s of (e, fs) \<Rightarrow>
        (case eg_mem_table e of
           None \<Rightarrow> (e, fs)
         | Some m \<Rightarrow>
             (case mt_add (Some (eng_flush_cb (eg_config e) (ev_date env))) tag point (m, fs) of
                (m, fs) \<Rightarrow> (e\<lparr>eg_mem_table := Some m\<rparr>, fs))))"

definition eng_notify :: "string \<Rightarrow> data_point \<Rightarrow> engine \<Rightarrow> engine" where
  "eng_notify tag point e =
     e\<lparr>eg_latest_cache := map_option (lc_update tag point) (eg_latest_cache e),
       eg_alarm := map_option (\<lambda>a. fst (ae_evaluate tag point a)) (eg_alarm e),
       eg_snapshot := map_option (ss_on_write tag point) (eg_snapshot e)\<rparr>"

definition eng_write :: "env \<Rightarrow> string \<Rightarrow> data_point \<Rightarrow> engine \<times> fsys \<Rightarrow> (cpp_error + bool) \<times> engine \<times> fsys" where
  "eng_write env tag point s =
     (if \<not> eg_initialized (fst s) then (Inr False, s)
      else case eng_log env tag point s of
        (Inl err, s) \<Rightarrow> (Inl err, s)
      | (Inr _, s) \<Rightarrow> (case eng_buffer env tag point s of (e, fs) \<Rightarrow> (Inr True, eng_notify tag point e, fs)))"

definition eng_write3 :: "env \<Rightarrow> string \<Rightarrow> string \<Rightarrow> string \<Rightarrow> data_point \<Rightarrow> engine \<times> fsys
    \<Rightarrow> (cpp_error + bool) \<times> engine \<times> fsys" where
  "eng_write3 env db tab tag point s = eng_write env (db @ '':'' @ tab @ '':'' @ tag) point s"

fun eng_write_points :: "env \<Rightarrow> (string \<times> data_point) list \<Rightarrow> engine \<times> fsys \<Rightarrow> (cpp_error + bool) \<times> engine \<times> fsys" where
  "eng_write_points env [] s = (Inr True, s)"
| "eng_write_points env ((tag, p) # ps) s =
     (case eng_write env tag p s of
        (Inr True, s) \<Rightarrow> eng_write_points env ps s
      | (r, s) \<Rightarrow> (r, s))"

definition eng_write_batch :: "env \<Rightarrow> data_batch list \<Rightarrow> engine \<times> fsys \<Rightarrow> (cpp_error + bool) \<times> engine \<times> fsys" where
  "eng_write_batch env batches s =
     (if \<not> eg_initialized (fst s) then (Inr False, s) else eng_write_points env (batch_points batches) s)"

definition eng_flush :: "env \<Rightarrow> engine \<times> fsys \<Rightarrow> engine \<times> fsys" where
  "eng_flush env s =
     (case s of (e, fs) \<Rightarrow>
        (case eg_mem_table e of
           None \<Rightarrow> (e, fs)
         | Some m \<Rightarrow>
             (case mt_flush_all (Some (eng_flush_cb (eg_config e) (ev_date env))) (m, fs) of
                (m, fs) \<Rightarrow>
                  (e\<lparr>eg_mem_table := Some m\<rparr>,
                   case eg_wal e of None \<Rightarrow> fs | Some w \<Rightarrow> wal_truncate (ww_path w) fs))))"

definition eng_close :: "env \<Rightarrow> engine \<times> fsys \<Rightarrow> engine \<times> fsys" where
  "eng_close env s =
     (if \<not> eg_initialized (fst s) then s
      else case eng_flush env s of (e, fs) \<Rightarrow>
        (case (case eg_snapshot e of
                 None \<Rightarrow> (None, fs)
               | Some snap \<Rightarrow>
                   (case ss_shutdown (ev_ser env) (ev_now env) snap fs of (snap, fs) \<Rightarrow> (Some snap, fs))) of
           (snap, fs) \<Rightarrow>
             (e\<lparr>eg_snapshot := snap, eg_wal := map_option wal_close (eg_wal e), eg_initialized := False\<rparr>, fs)))"

section \<open>Reading\<close>

definition is_sst_name :: "string \<Rightarrow> bool" where
  "is_sst_name name \<longleftrightarrow> \<not> (length name < 4 \<or> drop (length name - 4) name \<noteq> ''.sst'')"

definition eng_read_files :: "time_range \<Rightarrow> dir_entry list \<Rightarrow> fsys \<Rightarrow> data_point list" where
  "eng_read_files rng entries fs =
     concat (map (\<lambda>entry.
       if \<not> is_sst_name (de_name entry) then []
       else case sst_read_file (de_path entry) rng fs of None \<Rightarrow> [] | Some points \<Rightarrow> points) entries)"

definition eng_read_raw :: "env \<Rightarrow> string \<Rightarrow> time_range \<Rightarrow> engine \<times> fsys \<Rightarrow> data_point list" where
  "eng_read_raw env tag rng s =
     (case s of (e, fs) \<Rightarrow>
        let cached = (case eg_latest_cache e of
              None \<Rightarrow> []
            | Some c \<Rightarrow>
                if tag = [] then []
                else (case lc_get tag c of Some p \<Rightarrow> if contains rng (dp_ts p) then [p] else [] | None \<Rightarrow> []))
        in if \<not> fs_exists (tag_dir (eg_config e) tag) fs then cached
           else let files = (case list_directory (tag_dir (eg_config e) tag) fs of
                       Some entries \<Rightarrow> eng_read_files rng entries fs | None \<Rightarrow> [])
                in unique_by dp_ts (ev_sort env (cached @ files)))"

definition eng_read_raw3 :: "env \<Rightarrow> string \<Rightarrow> string \<Rightarrow> string \<Rightarrow> time_range \<Rightarrow> engine \<times> fsys \<Rightarrow> data_point list" where
  "eng_read_raw3 env db tab tag rng s = eng_read_raw env (db @ '':'' @ tab @ '':'' @ tag) rng s"

definition eng_read_latest :: "string \<Rightarrow> engine \<Rightarrow> data_point" where
  "eng_read_latest tag e =
     (case eg_latest_cache e of
        None \<Rightarrow> default_point
      | Some c \<Rightarrow> (case lc_get tag c of Some p \<Rightarrow> p | None \<Rightarrow> default_point))"

definition eng_read_latest3 :: "string \<Rightarrow> string \<Rightarrow> string \<Rightarrow> engine \<Rightarrow> data_point" where
  "eng_read_latest3 db tab tag e = eng_read_latest (db @ '':'' @ tab @ '':'' @ tag) e"

section \<open>Tables and tags on disk\<close>

definition eng_table_path :: "storage_config \<Rightarrow> string \<Rightarrow> string \<Rightarrow> string" where
  "eng_table_path cfg db tab = sc_hot_path cfg @ ''/'' @ db @ ''/tables/'' @ tab"

definition eng_tag_path :: "storage_config \<Rightarrow> string \<Rightarrow> string \<Rightarrow> string \<Rightarrow> string" where
  "eng_tag_path cfg db tab tag = eng_table_path cfg db tab @ ''/tags/'' @ tag"

definition eng_table_exists :: "string \<Rightarrow> string \<Rightarrow> engine \<times> fsys \<Rightarrow> bool" where
  "eng_table_exists db tab s = fs_exists (eng_table_path (eg_config (fst s)) db tab) (snd s)"

definition eng_tag_exists :: "string \<Rightarrow> string \<Rightarrow> string \<Rightarrow> engine \<times> fsys \<Rightarrow> bool" where
  "eng_tag_exists db tab tag s = fs_exists (eng_tag_path (eg_config (fst s)) db tab tag) (snd s)"

definition remove_existing :: "string \<Rightarrow> fsys \<Rightarrow> fsys" where
  "remove_existing path fs = (if fs_exists path fs then snd (remove_all path fs) else fs)"

definition eng_drop_table :: "string \<Rightarrow> string \<Rightarrow> engine \<times> fsys \<Rightarrow> bool \<times> engine \<times> fsys" where
  "eng_drop_table db tab s =
     (case s of (e, fs) \<Rightarrow>
        let cfg = eg_config e;
            fs = remove_existing (eng_table_path cfg db tab) fs;
            fs = remove_existing (sc_cold_path cfg @ ''/'' @ db @ ''/tables/'' @ tab) fs
        in (True, e, fs))"

definition eng_drop_tag :: "string \<Rightarrow> string \<Rightarrow> string \<Rightarrow> engine \<times> fsys \<Rightarrow> bool \<times> engine \<times> fsys" where
  "eng_drop_tag db tab tag s =
     (case s of (e, fs) \<Rightarrow>
        let cfg = eg_config e;
            fs = remove_existing (eng_tag_path cfg db tab tag) fs;
            fs = remove_existing (sc_cold_path cfg @ ''/'' @ db @ ''/tables/'' @ tab @ ''/tags/'' @ tag) fs
        in (True, e, fs))"

section \<open>What leaves the log alone\<close>

text \<open>A name bound to an inode with given contents, in a well-formed file system.\<close>

definition holds_file :: "fsys \<Rightarrow> string \<Rightarrow> nat \<Rightarrow> byte list \<Rightarrow> bool" where
  "holds_file fs path i d \<longleftrightarrow> fs_wf fs \<and> map_of (fs_tree fs) (split_path path) = Some (FileNode i) \<and> ino_data fs i = d"

lemma mkdir_files:
  "map_of (fs_tree (snd (mkdir s fs))) p = Some (FileNode i) \<longleftrightarrow> map_of (fs_tree fs) p = Some (FileNode i)"
  "ino_data (snd (mkdir s fs)) = ino_data fs" "fs_next (snd (mkdir s fs)) = fs_next fs"
  by (auto simp: mkdir_def Let_def path_exists_def os_facts)

lemma mkdir_prefixes_files:
  "map_of (fs_tree (mkdir_prefixes cur s fs)) p = Some (FileNode i) \<longleftrightarrow> map_of (fs_tree fs) p = Some (FileNode i)"
  "ino_data (mkdir_prefixes cur s fs) = ino_data fs" "fs_next (mkdir_prefixes cur s fs) = fs_next fs"
  by (induction cur s fs rule: mkdir_prefixes.induct) (simp_all add: Let_def mkdir_files)

lemma create_directories_files:
  "map_of (fs_tree (snd (create_directories s fs))) p = Some (FileNode i) \<longleftrightarrow> map_of (fs_tree fs) p = Some (FileNode i)"
  "ino_data (snd (create_directories s fs)) = ino_data fs" "fs_next (snd (create_directories s fs)) = fs_next fs"
proof -
  have "snd (create_directories s fs) = (if s = [] then fs else snd (mkdir s (mkdir_prefixes [] s fs)))"
    by (simp add: create_directories_def split_beta)
  then show
    "map_of (fs_tree (snd (create_directories s fs))) p = Some (FileNode i) \<longleftrightarrow> map_of (fs_tree fs) p = Some (FileNode i)"
    "ino_data (snd (create_directories s fs)) = ino_data fs" "fs_next (snd (create_directories s fs)) = fs_next fs"
    by (simp_all add: mkdir_files mkdir_prefixes_files)
qed

lemma create_directories_wf: "fs_wf (snd (create_directories s fs)) = fs_wf fs"
  by (simp add: fs_wf_def create_directories_files)

lemma create_directories_holds: "holds_file (snd (create_directories s fs)) path i d = holds_file fs path i d"
  by (simp add: holds_file_def create_directories_wf create_directories_files)

lemma only_inode_wf: "only_inode j fs fs' \<Longrightarrow> fs_wf fs' = fs_wf fs"
  by (simp add: only_inode_def fs_wf_def)

lemma only_inode_holds: "only_inode j fs fs' \<Longrightarrow> j \<noteq> i \<Longrightarrow> holds_file fs' path i d = holds_file fs path i d"
  by (auto simp: holds_file_def only_inode_wf) (simp_all add: only_inode_def)

text \<open>A handle, if open, on a given inode; the table writer works on one inode only.\<close>

definition handle_on :: "nat \<Rightarrow> os_file \<Rightarrow> bool" where
  "handle_on j f \<longleftrightarrow> (case f of None \<Rightarrow> True | Some h \<Rightarrow> of_ino h = j)"

lemma only_inode_refl: "only_inode j fs fs"
  by (simp add: only_inode_def)

lemma file_write_only:
  "file_write d f fs = (ok, f', fs') \<Longrightarrow> handle_on j f \<Longrightarrow> handle_on j f' \<and> only_inode j fs fs'"
  by (auto simp: file_write_def handle_on_def only_inode_def Let_def os_facts split: option.splits if_splits)

lemma file_writes_only:
  "file_writes ds f fs = (f', fs') \<Longrightarrow> handle_on j f \<Longrightarrow> handle_on j f' \<and> only_inode j fs fs'"
proof (induction ds arbitrary: f fs)
  case (Cons d ds)
  obtain ok f1 fs1 where 1: "file_write d f fs = (ok, f1, fs1)" by (metis prod_cases3)
  with Cons.prems(1) have "file_writes ds f1 fs1 = (f', fs')" by simp
  with Cons.IH file_write_only [OF 1 Cons.prems(2)] show ?case using only_inode_trans by blast
qed (simp add: only_inode_refl)

lemma file_seek_on: "handle_on j f \<Longrightarrow> handle_on j (snd (file_seek off org f fs))"
  by (auto simp: file_seek_def handle_on_def Let_def split: option.splits)

lemma file_read_on: "handle_on j f \<Longrightarrow> file_read n f fs = (r, f') \<Longrightarrow> handle_on j f'"
  by (auto simp: file_read_def handle_on_def Let_def split: option.splits if_splits)

lemma crc_read_loop_on: "handle_on j f \<Longrightarrow> handle_on j (snd (crc_read_loop n crc f fs))"
proof (induction n crc f fs rule: crc_read_loop.induct)
  case (1 n crc f fs)
  then show ?case
    by (subst crc_read_loop.simps) (auto simp: Let_def split: option.splits prod.splits dest: file_read_on)
qed

lemma writes_on:
  "handle_on j f \<Longrightarrow> handle_on j (fst (file_writes ds f fs))"
  "handle_on j f \<Longrightarrow> only_inode j fs (snd (file_writes ds f fs))"
  "handle_on j f \<Longrightarrow> only_inode j fs (snd (snd (file_write d f fs)))"
  using file_writes_only [of ds f fs] file_write_only [of d f fs] by (metis prod.collapse)+

lemma sst_add_block_only:
  "handle_on j (sw_file w) \<Longrightarrow>
   handle_on j (sw_file (fst (sst_add_block b w fs))) \<and> only_inode j fs (snd (sst_add_block b w fs))"
  by (simp add: sst_add_block_def Let_def only_inode_refl split_beta writes_on del: file_writes.simps)

lemma sst_writer_close_only:
  assumes "handle_on j (sw_file w)"
  shows "only_inode j fs (snd (sst_writer_close w fs))"
proof (cases "sw_opened w")
  case True
  let ?f = "snd (file_seek 12 SEEK_SET (sw_file w) fs)"
  let ?w = "file_writes [le_bytes 2 (0 :: u16), le_bytes 8 (word_of_nat (sw_block_count w) :: u64)] ?f fs"
  have 1: "handle_on j (fst ?w)" "only_inode j fs (snd ?w)"
    using assms by (simp_all only: writes_on file_seek_on)
  then have "handle_on j (snd (crc_read_loop n c (snd (file_seek 0 SEEK_SET (fst ?w) (snd ?w))) (snd ?w)))" for n c
    by (simp only: crc_read_loop_on file_seek_on)
  then have "only_inode j (snd ?w) (snd (snd (file_write d (snd (file_seek 0 SEEK_END
      (snd (crc_read_loop n c (snd (file_seek 0 SEEK_SET (fst ?w) (snd ?w))) (snd ?w))) (snd ?w))) (snd ?w))))" for d n c
    by (simp only: writes_on file_seek_on)
  from only_inode_trans [OF 1(2) this] True show ?thesis
    by (simp add: sst_writer_close_def Let_def split_beta del: file_writes.simps)
qed (simp add: sst_writer_close_def only_inode_refl)

lemma sst_write_blocks_frame:
  obtains "snd (sst_write_blocks q bs fs) = fs"
  | h fs1 where "file_open q READ_WRITE fs = (Some h, fs1)" "only_inode (of_ino h) fs1 (snd (sst_write_blocks q bs fs))"
proof (cases "file_open q READ_WRITE fs")
  case (Pair f fs1)
  show ?thesis
  proof (cases f)
    case None
    with Pair have "fs1 = fs"
      by (auto simp: file_open_def Let_def split: option.splits node.splits if_splits prod.splits)
    with Pair None have "snd (sst_write_blocks q bs fs) = fs"
      by (simp add: sst_write_blocks_def sst_writer_open_def sst_writer_new_def)
    then show ?thesis by (rule that(1))
  next
    case (Some h)
    let ?j = "of_ino h"
    have w1: "only_inode ?j fs1 (snd (snd (sst_writer_open (sst_writer_new q) fs)))"
      "handle_on ?j (sw_file (fst (snd (sst_writer_open (sst_writer_new q) fs))))"
      using Pair Some file_write_only [of sst_placeholder f fs1 _ _ _ ?j]
      by (auto simp: sst_writer_open_def sst_writer_new_def handle_on_def split_beta)
        (metis prod.collapse)+
    have blocks: "handle_on ?j (sw_file w) \<Longrightarrow> handle_on ?j (sw_file (fst (sst_add_blocks bs (w, fs))))
        \<and> only_inode ?j fs (snd (sst_add_blocks bs (w, fs)))" for w fs
    proof (induction bs arbitrary: w fs)
      case (Cons b bs)
      from Cons.IH [of "fst (sst_add_block b w fs)" "snd (sst_add_block b w fs)"]
        sst_add_block_only [OF Cons.prems, of b fs]
      show ?case by (auto simp: sst_add_blocks_def split_beta intro: only_inode_trans)
    qed (simp add: sst_add_blocks_def only_inode_refl)
    obtain ok w2 fs2 where 2: "sst_writer_open (sst_writer_new q) fs = (ok, w2, fs2)" by (rule prod_cases3)
    obtain w3 fs3 where 3: "sst_add_blocks bs (w2, fs2) = (w3, fs3)" by (metis surj_pair)
    have "only_inode ?j fs2 fs3" "handle_on ?j (sw_file w3)"
      using blocks [of w2 fs2] w1(2) 2 3 by simp_all
    then have "only_inode ?j fs2 (snd (sst_writer_close w3 fs3))"
      using sst_writer_close_only only_inode_trans by blast
    moreover have "only_inode ?j fs1 fs2" using w1(1) 2 by simp
    moreover have "sst_write_blocks q bs fs = (if ok then (True, snd (sst_writer_close w3 fs3)) else (False, fs2))"
      by (simp add: sst_write_blocks_def 2 3)
    ultimately have "only_inode ?j fs1 (snd (sst_write_blocks q bs fs))"
      using only_inode_trans by simp
    with Pair Some show ?thesis by (intro that(2)) simp_all
  qed
qed

lemma sst_write_blocks_holds:
  assumes "holds_file fs path i d" "split_path q \<noteq> split_path path"
  shows "holds_file (snd (sst_write_blocks q bs fs)) path i d"
proof (rule sst_write_blocks_frame [of q bs fs])
  fix h fs1 assume o: "file_open q READ_WRITE fs = (Some h, fs1)"
    and only: "only_inode (of_ino h) fs1 (snd (sst_write_blocks q bs fs))"
  have wf: "fs_wf fs" using assms(1) by (simp add: holds_file_def)
  note f = file_open_some [OF o wf]
  have i: "of_ino h \<noteq> i" using f(6) assms by (auto simp: holds_file_def)
  then have "holds_file fs1 path i d" using f(3-5) assms by (auto simp: holds_file_def)
  with only_inode_holds [OF only i] show ?thesis by blast
qed (use assms in simp)

text \<open>A name that no file has stays without one.\<close>

definition no_file :: "fsys \<Rightarrow> string \<Rightarrow> bool" where
  "no_file fs path \<longleftrightarrow> fs_wf fs \<and> (\<nexists>i. map_of (fs_tree fs) (split_path path) = Some (FileNode i))"

lemma sst_write_blocks_no_file:
  assumes "no_file fs path" "split_path q \<noteq> split_path path"
  shows "no_file (snd (sst_write_blocks q bs fs)) path"
proof (rule sst_write_blocks_frame [of q bs fs])
  fix h fs1 assume o: "file_open q READ_WRITE fs = (Some h, fs1)"
    and only: "only_inode (of_ino h) fs1 (snd (sst_write_blocks q bs fs))"
  have wf: "fs_wf fs" using assms(1) by (simp add: no_file_def)
  from file_open_some(3,4) [OF o wf] assms only show ?thesis
    by (simp add: no_file_def only_inode_wf) (simp add: only_inode_def)
qed (use assms in simp)

text \<open>A table file never has the name of the log.\<close>

lemma split_at_nonempty [simp]: "split_at sep cur t \<noteq> []"
  by (induction t arbitrary: cur) auto

lemma last_split_at: "sep \<notin> set ys \<Longrightarrow> \<exists>z. last (split_at sep cur (xs @ ys)) = z @ ys"
  by (induction xs arbitrary: cur) (auto simp: split_at_plain)

lemma last_split_path:
  assumes "CHR ''/'' \<notin> set ys" "2 \<le> length ys"
  obtains z where "last (split_path (xs @ ys)) = z @ ys"
proof -
  obtain z where z: "last (split_at (CHR ''/'') [] (xs @ ys)) = z @ ys"
    using last_split_at [OF assms(1)] by blast
  then obtain init where "split_at (CHR ''/'') [] (xs @ ys) = init @ [z @ ys]"
    by (metis append_butlast_last_id split_at_nonempty)
  moreover have "z @ ys \<noteq> []" "z @ ys \<noteq> ''.''"
    using assms(2) by (auto simp: append_eq_Cons_conv)
  ultimately show thesis by (intro that [of z]) (simp add: split_path_def)
qed

lemma flush_path_not_wal: "split_path (flush_path cfg date tag points) \<noteq> split_path (wal_path cfg)"
proof
  assume eq: "split_path (flush_path cfg date tag points) = split_path (wal_path cfg)"
  obtain z where "last (split_path (flush_path cfg date tag points)) = z @ ''.sst''"
    using last_split_path [of "''.sst''" "tag_dir cfg tag @ ''/'' @ date @ ''_'' @ to_string (sint (dp_ts (hd points)))"]
    by (auto simp: flush_path_def)
  moreover obtain y where "last (split_path (wal_path cfg)) = y @ ''.log''"
    using last_split_path [of "''.log''" "sc_hot_path cfg @ ''/wal/wal''"] by (auto simp: wal_path_def)
  ultimately have "rev (z @ ''.sst'') = rev (y @ ''.log'')" using eq by simp
  then show False by simp
qed

lemma eng_flush_cb_holds:
  "holds_file fs (wal_path cfg) i d \<Longrightarrow> holds_file (eng_flush_cb cfg date tag points fs) (wal_path cfg) i d"
  by (simp add: eng_flush_cb_def Let_def sst_write_blocks_holds create_directories_holds flush_path_not_wal)

lemma mt_add_holds:
  assumes "\<And>tag points fs. I fs \<Longrightarrow> I (cb tag points fs)" "I fs"
  shows "I (snd (mt_add (Some cb) tag p (m, fs)))"
  using assms by (auto simp: mt_add_def Let_def mt_check_flush_def mt_flush_buffer_def split: prod.splits)

lemma mt_add_memory: "fst (mt_add (Some f) tag p (m, s)) = fst (mt_add (Some g) tag p (m, t))"
  by (simp add: mt_add_def Let_def mt_check_flush_def mt_flush_buffer_def split: prod.splits)

section \<open>Recovery\<close>

text \<open>What the buffer holds after some writes, whatever became of the flushed files.\<close>

definition buffer_after :: "nat \<Rightarrow> (string \<times> data_point) list \<Rightarrow> memtable" where
  "buffer_after threshold tps =
     fst (fold (\<lambda>(t, p). mt_add (Some (\<lambda>_ _ s. s)) t p) tps (mt_new threshold, ()))"

lemma buffer_after_snoc:
  "fst (mt_add (Some f) t p (buffer_after threshold tps, s)) = buffer_after threshold (tps @ [(t, p)])"
proof -
  obtain m u where "fold (\<lambda>(t, p). mt_add (Some (\<lambda>_ _ s. s)) t p) tps (mt_new threshold, ()) = (m, u)"
    by (metis surj_pair)
  then show ?thesis using mt_add_memory [of f t p m s "\<lambda>_ _ s. s" u] by (simp add: buffer_after_def)
qed

lemma replay_buffer:
  assumes "\<And>tag points fs. I fs \<Longrightarrow> I (cb tag points fs)"
  shows "I fs \<Longrightarrow> \<exists>fs'. fold (eng_replay_entry cb) (map point_entry tps) (buffer_after threshold tps0, fs) =
      (buffer_after threshold (tps0 @ tps), fs') \<and> I fs'"
proof (induction tps arbitrary: tps0 fs)
  case (Cons tp tps)
  obtain t p where tp: "tp = (t, p)" by (cases tp)
  let ?s = "mt_add (Some cb) t p (buffer_after threshold tps0, fs)"
  have "fst ?s = buffer_after threshold (tps0 @ [tp])" by (simp add: buffer_after_snoc tp)
  moreover have "I (snd ?s)" by (rule mt_add_holds [of I, OF assms Cons.prems])
  ultimately show ?case
    using Cons.IH [of "snd ?s" "tps0 @ [tp]"] tp
    by (cases ?s) (simp add: eng_replay_entry_def)
qed simp

text \<open>The engine after the writes \<open>ws\<close>: logged, and buffered in the memtable.\<close>

definition logs :: "(padding \<times> string \<times> data_point) list \<Rightarrow> byte list" where
  "logs ws = concat (map (log_bytes \<circ> logged) ws)"

definition writable :: "padding \<times> string \<times> data_point \<Rightarrow> bool" where
  "writable w \<longleftrightarrow> (case w of (_, t, p) \<Rightarrow> is_double (dp_value p) \<and> length t < 2 ^ 16)"

definition eng_inv :: "storage_config \<Rightarrow> (padding \<times> string \<times> data_point) list \<Rightarrow> engine \<times> fsys \<Rightarrow> bool" where
  "eng_inv cfg ws s \<longleftrightarrow> (\<exists>i w. eg_initialized (fst s) \<and> eg_config (fst s) = cfg \<and> eg_wal (fst s) = Some w
     \<and> wal_on i w (snd s) \<and> ww_path w = wal_path cfg \<and> holds_file (snd s) (wal_path cfg) i (logs ws)
     \<and> eg_mem_table (fst s) = Some (buffer_after (sc_memtable_size cfg) (map snd ws)) \<and> list_all writable ws)"

lemma grown_holds:
  "grown i bs fs fs' \<Longrightarrow> holds_file fs path i d \<Longrightarrow> holds_file fs' path i (d @ bs)"
  by (auto simp: holds_file_def grown_def fs_wf_def)

lemma eng_write_inv:
  assumes "eng_inv cfg ws s" "length tag < 2 ^ 16"
  shows "eng_inv cfg (ws @ (if is_double (dp_value p) then [(ev_pad env, tag, p)] else [])) (snd (eng_write env tag p s))"
proof -
  obtain e fs where s: "s = (e, fs)" by (cases s)
  let ?n = "sc_memtable_size cfg"
  obtain i w where i: "eg_initialized e" "eg_config e = cfg" "eg_wal e = Some w" "wal_on i w fs"
    "ww_path w = wal_path cfg" "holds_file fs (wal_path cfg) i (logs ws)"
    "eg_mem_table e = Some (buffer_after ?n (map snd ws))" "list_all writable ws"
    using assms(1) unfolding eng_inv_def s fst_conv snd_conv by blast
  show ?thesis
  proof (cases "dp_value p")
    case (VDouble v)
    then have p: "p = \<lparr>dp_ts = dp_ts p, dp_value = VDouble v\<rparr>" by simp
    obtain w1 fs1 where 1: "wal_append_write (ev_pad env) tag p w fs = (Inr True, w1, fs1)" "wal_on i w1 fs1"
      "grown i (log_bytes (ev_pad env, Logged_Point tag (dp_ts p) v)) fs fs1" "ww_path w1 = ww_path w"
      using wal_append_write_grows [OF i(4), of "ev_pad env" tag "dp_ts p" v] p by metis
    have logs1: "logs (ws @ [(ev_pad env, tag, p)]) = logs ws @ log_bytes (ev_pad env, Logged_Point tag (dp_ts p) v)"
      using VDouble by (simp add: logs_def)
    let ?I = "\<lambda>fs. holds_file fs (wal_path cfg) i (logs (ws @ [(ev_pad env, tag, p)]))"
    let ?m = "mt_add (Some (eng_flush_cb cfg (ev_date env))) tag p (buffer_after ?n (map snd ws), fs1)"
    have "?I fs1" unfolding logs1 by (rule grown_holds [OF 1(3) i(6)])
    then have I: "?I (snd ?m)" by (intro mt_add_holds [of ?I] eng_flush_cb_holds)
    have m: "fst ?m = buffer_after ?n (map snd (ws @ [(ev_pad env, tag, p)]))" by (simp add: buffer_after_snoc)
    have "wal_on i w1 (snd ?m)"
      using 1(2) I \<open>?I fs1\<close> by (simp add: wal_on_def holds_file_def)
    moreover have "list_all writable (ws @ [(ev_pad env, tag, p)])" using i(8) assms(2) VDouble by (simp add: writable_def)
    moreover obtain m fs2 where "?m = (m, fs2)" by fastforce
    ultimately show ?thesis
      using I m 1 i VDouble
      by (auto simp: eng_inv_def s eng_write_def eng_log_def eng_buffer_def eng_notify_def)
  qed (use assms s i in \<open>auto simp: eng_inv_def eng_write_def eng_log_def wal_append_write_def\<close>)
qed

lemma logs_scan:
  assumes "list_all writable ws"
  shows "wal_scan (logs ws) = Inr (map point_entry (map snd ws))"
proof -
  have "list_all (\<lambda>(_, r). log_ok r) (map logged ws)" "map (log_entry \<circ> snd) (map logged ws) = map point_entry (map snd ws)"
    using assms
    by (induction ws) (auto simp: writable_def data_entry_def split: val.splits)
  from wal_scan_records [OF this(1), of "[]"] this(2) show ?thesis
    by (simp add: logs_def wal_scan_Nil comp_def)
qed

lemma eng_init_inv:
  assumes "wal_open (wal_writer_new (wal_path cfg)) (eng_directories cfg fs) = (True, w, fs1)" "wal_on i w fs1"
    "ww_path w = wal_path cfg" "holds_file fs1 (wal_path cfg) i (logs ws)" "list_all writable ws"
  shows "\<exists>e' fs'. eng_init env (eng_new cfg, fs) = Inr (True, e', fs') \<and> eng_inv cfg ws (e', fs')"
proof -
  let ?n = "sc_memtable_size cfg" and ?cb = "eng_flush_cb cfg (ev_date env)"
  let ?I = "\<lambda>fs. holds_file fs (wal_path cfg) i (logs ws)"
  have "file_bytes fs1 (wal_path cfg) = Some (logs ws)" "fs_exists (wal_path cfg) fs1"
    using assms(4) by (auto simp: holds_file_def file_bytes_ino fs_exists_def path_exists_def)
  moreover obtain fs2 where 2: "fold (eng_replay_entry ?cb) (map point_entry (map snd ws)) (mt_new ?n, fs1) =
      (buffer_after ?n (map snd ws), fs2)" "?I fs2"
    using replay_buffer [of ?I ?cb fs1 "map snd ws" ?n "[]"] eng_flush_cb_holds assms(4)
    by (auto simp: buffer_after_def)
  ultimately have r: "eng_replay env cfg (mt_new ?n, fs1) = Inr (buffer_after ?n (map snd ws), fs2)"
    by (simp add: eng_replay_def wal_read_scan logs_scan [OF assms(5)])
  obtain snap fs3 where s: "ss_init (ev_par env) (sc_hot_path cfg @ ''/snapshot'') ss_new fs2 = (snap, fs3)" by fastforce
  then have "fs3 = snd (create_directories (sc_hot_path cfg @ ''/snapshot'') fs2)"
    by (simp add: ss_init_def Let_def)
  with 2(2) have I3: "?I fs3" by (simp add: create_directories_holds)
  with assms(2,4) have "wal_on i w fs3" by (simp add: wal_on_def holds_file_def)
  with I3 assms(3,5) show ?thesis
    by (auto simp: eng_init_def Let_def eng_new_def assms(1) r s eng_inv_def)
qed

lemma eng_directories_holds: "holds_file (eng_directories cfg fs) path i d = holds_file fs path i d"
  by (simp add: eng_directories_def create_directories_holds)

lemma eng_recover_inv:
  assumes "eng_inv cfg ws (e, fs)"
  shows "\<exists>e' fs'. eng_init env (eng_new cfg, fs) = Inr (True, e', fs') \<and> eng_inv cfg ws (e', fs')"
proof -
  obtain i where i: "holds_file fs (wal_path cfg) i (logs ws)" "list_all writable ws"
    using assms by (auto simp: eng_inv_def)
  then have h: "holds_file (eng_directories cfg fs) (wal_path cfg) i (logs ws)" by (simp add: eng_directories_holds)
  then obtain w where "wal_open (wal_writer_new (wal_path cfg)) (eng_directories cfg fs) = (True, w, eng_directories cfg fs)"
    "wal_on i w (eng_directories cfg fs)" "ww_path w = wal_path cfg"
    by (auto simp: holds_file_def wal_open_def wal_writer_new_def file_open_def file_size_def wal_on_def)
  from eng_init_inv [OF this h i(2)] show ?thesis .
qed

lemma eng_boot_inv:
  assumes "fs_wf fs" "file_bytes fs (wal_path cfg) = None"
    and "fst (wal_open (wal_writer_new (wal_path cfg)) (eng_directories cfg fs))"
  shows "\<exists>e fs'. eng_init env (eng_new cfg, fs) = Inr (True, e, fs') \<and> eng_inv cfg [] (e, fs')"
proof -
  let ?fs = "eng_directories cfg fs"
  obtain w fs1 where o: "wal_open (wal_writer_new (wal_path cfg)) ?fs = (True, w, fs1)"
    using assms(3) by (metis (full_types) prod.collapse)
  have wf: "fs_wf ?fs" using assms(1) by (simp add: eng_directories_def create_directories_wf)
  have "old_bytes ?fs (wal_path cfg) = []"
    using assms(2)
    by (auto simp: old_bytes_def file_bytes_def eng_directories_def create_directories_files
        split: option.splits node.splits)
  then obtain i where i: "wal_on i w fs1" "ino_data fs1 i = []"
    "map_of (fs_tree fs1) (split_path (wal_path cfg)) = Some (FileNode i)" "ww_path w = wal_path cfg"
    using o by (metis wal_open_on)
  obtain h where "file_open (wal_path cfg) APPEND ?fs = (Some h, fs1)"
    using o by (auto simp: wal_open_def wal_writer_new_def split: prod.splits option.splits)
  from file_open_some(4) [OF this wf] have "fs_wf fs1" .
  with i have "holds_file fs1 (wal_path cfg) i (logs [])" by (simp add: holds_file_def logs_def)
  from eng_init_inv [OF o i(1,4) this, of env] show ?thesis by simp
qed

lemma eng_start_inv:
  assumes "fs_wf fs" "file_bytes fs (wal_path cfg) = None"
    and "eng_init env (eng_new cfg, fs) = Inr (True, e, fs')" "ww_opened (the (eg_wal e))"
  shows "eng_inv cfg [] (e, fs')"
proof -
  obtain ok w fs1 where o: "wal_open (wal_writer_new (wal_path cfg)) (eng_directories cfg fs) = (ok, w, fs1)"
    by (rule prod_cases3)
  have "eg_wal e = Some w"
    using assms(3) o by (auto simp: eng_init_def Let_def eng_new_def split: sum.splits prod.splits)
  then have ok using assms(4) o by (auto simp: wal_open_def wal_writer_new_def split: prod.splits option.splits)
  with eng_boot_inv [OF assms(1,2), of env] o assms(3) show ?thesis by simp
qed

text \<open>Writes and crashes. A crash forgets the engine and starts a new one on the same files.\<close>

datatype engine_step = Put env string data_point | Crash env

fun eng_step :: "engine_step \<Rightarrow> engine \<times> fsys \<Rightarrow> (engine \<times> fsys) option" where
  "eng_step (Put env tag p) s = Some (snd (eng_write env tag p s))"
| "eng_step (Crash env) s =
     (case eng_init env (eng_new (eg_config (fst s)), snd s) of Inl _ \<Rightarrow> None | Inr (_, s) \<Rightarrow> Some s)"

fun eng_run :: "engine_step list \<Rightarrow> engine \<times> fsys \<Rightarrow> (engine \<times> fsys) option" where
  "eng_run [] s = Some s"
| "eng_run (st # sts) s = (case eng_step st s of None \<Rightarrow> None | Some s \<Rightarrow> eng_run sts s)"

fun step_puts :: "engine_step \<Rightarrow> (string \<times> data_point) list" where
  "step_puts (Put env tag p) = (if is_double (dp_value p) then [(tag, p)] else [])"
| "step_puts (Crash env) = []"

fun step_short :: "engine_step \<Rightarrow> bool" where
  "step_short (Put env tag p) = (length tag < 2 ^ 16)"
| "step_short (Crash env) = True"

lemma eng_run_inv:
  "eng_inv cfg ws s \<Longrightarrow> list_all step_short sts \<Longrightarrow>
   \<exists>s' ws'. eng_run sts s = Some s' \<and> eng_inv cfg ws' s' \<and> map snd ws' = map snd ws @ concat (map step_puts sts)"
proof (induction sts arbitrary: s ws)
  case (Cons st sts)
  have "\<exists>s' ws'. eng_step st s = Some s' \<and> eng_inv cfg ws' s' \<and> map snd ws' = map snd ws @ step_puts st"
  proof (cases st)
    case (Put env tag p)
    with eng_write_inv [OF Cons.prems(1), of tag p env] Cons.prems(2) show ?thesis
      by (intro exI [of _ "snd (eng_write env tag p s)"]
          exI [of _ "ws @ (if is_double (dp_value p) then [(ev_pad env, tag, p)] else [])"]) simp
  next
    case (Crash env)
    obtain e fs where s: "s = (e, fs)" by (cases s)
    have "eg_config e = cfg" using Cons.prems(1) s by (auto simp: eng_inv_def)
    with eng_recover_inv [of cfg ws e fs env] Cons.prems(1) s Crash show ?thesis by fastforce
  qed
  with Cons.IH Cons.prems(2) show ?case by fastforce
qed auto

section \<open>After a flush\<close>

lemma create_directories_no_file: "no_file (snd (create_directories d fs)) path = no_file fs path"
  by (simp add: no_file_def create_directories_wf create_directories_files)

lemma eng_flush_cb_no_file: "no_file fs (wal_path cfg) \<Longrightarrow> no_file (eng_flush_cb cfg date tag points fs) (wal_path cfg)"
  by (simp add: eng_flush_cb_def Let_def sst_write_blocks_no_file flush_path_not_wal create_directories_no_file)

lemma only_inode_no_file: "only_inode j fs fs' \<Longrightarrow> no_file fs' path = no_file fs path"
  by (auto simp: no_file_def only_inode_wf) (auto simp: only_inode_def)

lemma wal_write_raw_no_file: "wal_write_raw d w fs = (ok, w', fs') \<Longrightarrow> no_file fs path \<Longrightarrow> no_file fs' path"
proof -
  assume w: "wal_write_raw d w fs = (ok, w', fs')" and "no_file fs path"
  moreover have "handle_on (case ww_file w of None \<Rightarrow> 0 | Some h \<Rightarrow> of_ino h) (ww_file w)"
    by (simp add: handle_on_def split: option.split)
  then have "only_inode (case ww_file w of None \<Rightarrow> 0 | Some h \<Rightarrow> of_ino h) fs fs'"
    using w file_write_only by (fastforce simp: wal_write_raw_def only_inode_refl split: if_splits prod.splits)
  ultimately show ?thesis using only_inode_no_file by blast
qed

lemma eng_write_no_file:
  assumes "no_file (snd s) (wal_path cfg)" "eg_config (fst s) = cfg"
  shows "no_file (snd (snd (eng_write env tag p s))) (wal_path cfg) \<and> eg_config (fst (snd (eng_write env tag p s))) = cfg"
proof -
  obtain r s1 where l: "eng_log env tag p s = (r, s1)" by (metis surj_pair)
  have 1: "no_file (snd s1) (wal_path cfg)" "eg_config (fst s1) = cfg"
    using l assms wal_write_raw_no_file
    by (auto simp: eng_log_def wal_append_write_def Let_def split: option.splits prod.splits val.splits if_splits)
  obtain e2 fs2 where b: "eng_buffer env tag p s1 = (e2, fs2)" by (metis surj_pair)
  have "no_file fs2 (wal_path cfg)" "eg_config e2 = cfg"
    using b 1 mt_add_holds [of "\<lambda>fs. no_file fs (wal_path cfg)" "eng_flush_cb cfg (ev_date env)" "snd s1" tag p]
      eng_flush_cb_no_file
    by (auto simp: eng_buffer_def split: option.splits prod.splits) (metis snd_conv)
  with 1 assms b l show ?thesis
    by (auto simp: eng_write_def eng_notify_def split: sum.split)
qed

lemma mt_flush_entries_holds:
  assumes "\<And>tag points fs. I fs \<Longrightarrow> I (cb tag points fs)"
  shows "I fs \<Longrightarrow> I (snd (mt_flush_entries (Some cb) es fs))"
proof (induction es arbitrary: fs)
  case (Cons e es)
  obtain t b where "e = (t, b)" by (cases e)
  with Cons assms show ?case by (auto simp: mt_flush_buffer_def split: prod.splits) (metis snd_conv)+
qed simp

lemma eng_flush_no_file:
  assumes "eng_inv cfg ws s"
  shows "no_file (snd (eng_flush env s)) (wal_path cfg) \<and> eg_config (fst (eng_flush env s)) = cfg"
proof -
  obtain e fs where s: "s = (e, fs)" by (cases s)
  obtain i w m where i: "eg_config e = cfg" "eg_wal e = Some w" "ww_path w = wal_path cfg"
    "holds_file fs (wal_path cfg) i (logs ws)" "eg_mem_table e = Some m"
    using assms unfolding eng_inv_def s fst_conv snd_conv by blast
  let ?f = "mt_flush_all (Some (eng_flush_cb cfg (ev_date env))) (m, fs)"
  obtain m2 fs2 where f: "?f = (m2, fs2)" by (metis surj_pair)
  have h: "holds_file fs2 (wal_path cfg) i (logs ws)"
    using mt_flush_entries_holds [of "\<lambda>fs. holds_file fs (wal_path cfg) i (logs ws)"
        "eng_flush_cb cfg (ev_date env)" fs "mt_buffers m"] eng_flush_cb_holds i(4) f
    by (auto simp: mt_flush_all_def split: prod.splits)
  then have "no_file (wal_truncate (wal_path cfg) fs2) (wal_path cfg)"
  proof -
    have "fs_next (unbind_node p fs2) = fs_next fs2" for p by (simp add: unbind_node_def)
    with h show ?thesis
      by (auto simp: holds_file_def no_file_def wal_truncate_def fs_remove_def Let_def fs_wf_def os_facts)
  qed
  with i f s show ?thesis by (simp add: eng_flush_def)
qed

lemma eng_replay_absent:
  assumes "no_file fs (wal_path cfg)"
    and o: "wal_open (wal_writer_new (wal_path cfg)) (eng_directories cfg fs) = (ok, w, fs1)"
  shows "eng_replay env cfg (m, fs1) = Inr (m, fs1)"
proof -
  have no: "no_file (eng_directories cfg fs) (wal_path cfg)"
    using assms(1) by (simp add: no_file_def eng_directories_def create_directories_wf create_directories_files)
  show ?thesis
  proof (cases ok)
    case True
    have "old_bytes (eng_directories cfg fs) (wal_path cfg) = []"
      using no by (auto simp: old_bytes_def file_bytes_def no_file_def split: option.splits node.splits)
    with o True obtain i where "ino_data fs1 i = []" "map_of (fs_tree fs1) (split_path (wal_path cfg)) = Some (FileNode i)"
      by (metis (full_types) wal_open_on)
    then have "file_bytes fs1 (wal_path cfg) = Some []" by (simp add: file_bytes_ino)
    then show ?thesis by (simp add: eng_replay_def wal_read_scan wal_scan_Nil)
  next
    case False
    then have "fs1 = eng_directories cfg fs" "fst (file_open (wal_path cfg) APPEND (eng_directories cfg fs)) = None"
      using o by (auto simp: wal_open_def wal_writer_new_def file_open_def Let_def create_file_def
          split: prod.splits option.splits node.splits if_splits)
    with no have "wal_read (wal_path cfg) fs1 = Inr None"
      by (auto simp: wal_read_def file_open_def Let_def no_file_def split: option.splits node.splits)
    then show ?thesis by (simp add: eng_replay_def)
  qed
qed

lemma eng_init_no_file:
  assumes "no_file fs (wal_path cfg)"
  shows "\<exists>e fs'. eng_init env (eng_new cfg, fs) = Inr (True, e, fs') \<and> eg_mem_table e = Some (mt_new (sc_memtable_size cfg))"
proof -
  obtain ok w fs1 where o: "wal_open (wal_writer_new (wal_path cfg)) (eng_directories cfg fs) = (ok, w, fs1)"
    by (rule prod_cases3)
  from eng_replay_absent [OF assms o] show ?thesis by (simp add: eng_init_def Let_def eng_new_def o split: prod.splits)
qed

section \<open>What a read returns\<close>

lemma sst_read_file_range:
  assumes "sst_read_file path rng fs = Some ps" "p \<in> set ps"
  shows "contains rng (dp_ts p)"
proof -
  have "p \<in> set (fst (sst_read_blocks idx rng f fs)) \<Longrightarrow> contains rng (dp_ts p)" for idx f
    by (induction idx arbitrary: f) (auto simp: contains_def Let_def split_beta split: if_splits)
  with assms show ?thesis
    by (auto simp: sst_read_file_def sst_read_range_def split: if_splits prod.splits) (metis fst_conv)
qed

lemma eng_read_files_range: "p \<in> set (eng_read_files rng es fs) \<Longrightarrow> contains rng (dp_ts p)"
  using sst_read_file_range
  by (auto simp: eng_read_files_def split: if_splits option.splits) (metis option.inject)+

text \<open>The candidates of a read: the cached point and the points of the files, all in the range.\<close>

definition read_candidates :: "string \<Rightarrow> time_range \<Rightarrow> engine \<times> fsys \<Rightarrow> data_point list" where
  "read_candidates tag rng s =
     (case eg_latest_cache (fst s) of
        None \<Rightarrow> []
      | Some c \<Rightarrow> if tag = [] then []
          else (case lc_get tag c of Some p \<Rightarrow> if contains rng (dp_ts p) then [p] else [] | None \<Rightarrow> []))
     @ (case list_directory (tag_dir (eg_config (fst s)) tag) (snd s) of
          Some es \<Rightarrow> eng_read_files rng es (snd s) | None \<Rightarrow> [])"

lemma list_directory_exists: "list_directory d fs = Some es \<Longrightarrow> fs_exists d fs"
  by (auto simp: list_directory_def Let_def fs_exists_def path_exists_def is_dir_def split: if_splits)

lemma eng_read_raw_candidates:
  "eng_read_raw env tag rng s =
     (if fs_exists (tag_dir (eg_config (fst s)) tag) (snd s)
      then unique_by dp_ts (ev_sort env (read_candidates tag rng s)) else read_candidates tag rng s)"
  using list_directory_exists
  by (cases s) (auto simp: eng_read_raw_def read_candidates_def Let_def split: option.split)

lemma read_candidates_range: "p \<in> set (read_candidates tag rng s) \<Longrightarrow> contains rng (dp_ts p)"
  by (auto simp: read_candidates_def eng_read_files_range split: option.splits if_splits)

definition sorts_by_time :: "(data_point list \<Rightarrow> data_point list) \<Rightarrow> bool" where
  "sorts_by_time srt \<longleftrightarrow> (\<forall>ps. set (srt ps) = set ps \<and> length (srt ps) = length ps
     \<and> sorted (map (\<lambda>p. sint (dp_ts p)) (srt ps)))"

lemma inj_sint: "inj (sint :: timestamp \<Rightarrow> int)"
  by (simp add: inj_def signed_word_eqI)

lemma eng_read_raw_sorted:
  assumes "sorts_by_time (ev_sort env)"
  shows "sorted_wrt (<) (map (\<lambda>p. sint (dp_ts p)) (eng_read_raw env tag rng s))
    \<and> set (eng_read_raw env tag rng s) \<subseteq> set (read_candidates tag rng s)
    \<and> dp_ts ` set (eng_read_raw env tag rng s) = dp_ts ` set (read_candidates tag rng s)"
proof (cases "fs_exists (tag_dir (eg_config (fst s)) tag) (snd s)")
  case True
  let ?c = "read_candidates tag rng s"
  have "set (ev_sort env ?c) = set ?c" "sorted (map (\<lambda>p. sint (dp_ts p)) (ev_sort env ?c))"
    using assms by (simp_all add: sorts_by_time_def)
  then show ?thesis
    using True unique_by_sorted_wrt [OF inj_sint, of dp_ts "ev_sort env ?c"] unique_by_subset [of dp_ts "ev_sort env ?c"]
      unique_by_keys [of dp_ts "ev_sort env ?c"]
    by (simp add: eng_read_raw_candidates)
next
  case False
  have "list_directory (tag_dir (eg_config (fst s)) tag) (snd s) = None"
    using False list_directory_exists by (cases "list_directory (tag_dir (eg_config (fst s)) tag) (snd s)") auto
  then have "length (read_candidates tag rng s) \<le> 1"
    by (auto simp: read_candidates_def split: option.splits)
  then show ?thesis
    using False by (cases "read_candidates tag rng s") (auto simp: eng_read_raw_candidates)
qed

section \<open>Removing other directories\<close>

text \<open>Reading a file depends on the tree only through the name of the file.\<close>

definition with_tree :: "fsys \<Rightarrow> (path \<times> node) list \<Rightarrow> fsys" where
  "with_tree fs t = fs\<lparr>fs_tree := t\<rparr>"

named_theorems tree_facts \<open>operations on handles that do not look at the tree\<close>

lemma handles_with_tree [tree_facts]:
  "file_read n f (with_tree fs t) = file_read n f fs"
  "file_seek off org f (with_tree fs t) = file_seek off org f fs"
  "file_size f (with_tree fs t) = file_size f fs"
  "read_exact n f (with_tree fs t) = read_exact n f fs"
  "read_zeroed n f (with_tree fs t) = read_zeroed n f fs"
proof -
  have ino: "ino_data (with_tree fs t) = ino_data fs" by (simp add: fun_eq_iff with_tree_def ino_data_def)
  show r: "file_read n f (with_tree fs t) = file_read n f fs" for n unfolding file_read_def ino ..
  show sz: "file_size f (with_tree fs t) = file_size f fs" unfolding file_size_def ino ..
  show "file_seek off org f (with_tree fs t) = file_seek off org f fs" unfolding file_seek_def sz ..
  show "read_exact n f (with_tree fs t) = read_exact n f fs" unfolding read_exact_def r ..
  show "read_zeroed n f (with_tree fs t) = read_zeroed n f fs" unfolding read_zeroed_def r ..
qed

lemma crc_read_loop_with_tree [tree_facts]: "crc_read_loop n crc f (with_tree fs t) = crc_read_loop n crc f fs"
proof (induction n crc f fs rule: crc_read_loop.induct)
  case (1 n crc f fs)
  then show ?case
    by (subst (1 2) crc_read_loop.simps) (auto simp: tree_facts split: option.split prod.split)
qed

lemma sst_index_blocks_with_tree [tree_facts]: "sst_index_blocks n r (with_tree fs t) = sst_index_blocks n r fs"
proof (induction n arbitrary: r)
  case (Suc n)
  have "sst_index_block r (with_tree fs t) = sst_index_block r fs" unfolding sst_index_block_def tree_facts ..
  with Suc show ?case by (simp split: option.split)
qed simp

lemma sst_read_blocks_with_tree [tree_facts]: "sst_read_blocks idx rng f (with_tree fs t) = sst_read_blocks idx rng f fs"
proof (induction idx arbitrary: f)
  case (Cons b idx)
  have "sst_load_block b f (with_tree fs t) = sst_load_block b f fs" for b f
    unfolding sst_load_block_def tree_facts ..
  with Cons show ?case by (simp split: prod.split)
qed simp

lemma sst_read_file_with_tree:
  assumes "map_of t (split_path path) = map_of (fs_tree fs) (split_path path)"
  shows "sst_read_file path rng (with_tree fs t) = sst_read_file path rng fs"
proof -
  have o: "fst (file_open path READ (with_tree fs t)) = fst (file_open path READ fs)"
    using assms by (simp add: file_open_def Let_def with_tree_def split: option.split node.split)
  have h: "sst_read_header r (with_tree fs t) = sst_read_header r fs" for r
    unfolding sst_read_header_def tree_facts ..
  have i: "sst_read_block_index r (with_tree fs t) = sst_read_block_index r fs" for r
    unfolding sst_read_block_index_def sst_verify_crc_def tree_facts ..
  have "sst_reader_open (sst_reader_new path) (with_tree fs t) = sst_reader_open (sst_reader_new path) fs"
  proof -
    obtain f fs1 fs2 where "file_open path READ fs = (f, fs1)" "file_open path READ (with_tree fs t) = (f, fs2)"
      using o by (metis prod.collapse)
    then show ?thesis unfolding sst_reader_open_def h i by (simp add: sst_reader_new_def)
  qed
  then show ?thesis unfolding sst_read_file_def sst_read_range_def tree_facts by simp
qed

definition apart :: "string \<Rightarrow> string \<Rightarrow> bool" where
  "apart a b \<longleftrightarrow> \<not> prefix (split_path a) (split_path b) \<and> \<not> prefix (split_path b) (split_path a)"

lemma split_path_below:
  assumes "d \<noteq> []"
  obtains xs where "split_path (d @ CHR ''/'' # n) = split_path d @ xs"
proof -
  have "split_path (d @ CHR ''/'' # n) = split_path d @ filter (\<lambda>c. c \<noteq> [] \<and> c \<noteq> ''.'') (split_at (CHR ''/'') [] n)"
    using assms by (simp add: split_path_def split_at_append)
  then show thesis by (rule that)
qed

lemma apart_below:
  assumes "apart a b" "a \<noteq> []" "b \<noteq> []"
  shows "apart (a @ CHR ''/'' # m) b" "apart a (b @ CHR ''/'' # n)"
proof -
  have no: "\<not> prefix p (q @ xs) \<and> \<not> prefix (q @ xs) p" if "\<not> prefix p q" "\<not> prefix q p" for p q xs :: path
    using that by (meson append_prefixD prefix_same_cases prefixI)
  obtain xs ys where "split_path (a @ CHR ''/'' # m) = split_path a @ xs" "split_path (b @ CHR ''/'' # n) = split_path b @ ys"
    using assms(2,3) by (metis split_path_below)
  then show "apart (a @ CHR ''/'' # m) b" "apart a (b @ CHR ''/'' # n)"
    using assms(1) no by (auto simp: apart_def)
qed

lemma map_of_without_subtree:
  "\<not> prefix p q \<Longrightarrow> map_of (filter (\<lambda>(q, _). \<not> prefix p q) t) q = map_of t q"
  by (induction t) auto

lemma read_after_remove:
  assumes "apart gone d" "d \<noteq> []"
  shows "fs_exists d (remove_existing gone fs) = fs_exists d fs"
    and "list_directory d (remove_existing gone fs) = list_directory d fs"
    and "list_directory d fs = Some es \<Longrightarrow> eng_read_files rng es (remove_existing gone fs) = eng_read_files rng es fs"
proof -
  let ?p = "split_path gone" and ?d = "split_path d"
  let ?t = "filter (\<lambda>(q, _). \<not> prefix ?p q) (fs_tree fs)"
  have r: "remove_existing gone fs = with_tree fs ?t \<or> remove_existing gone fs = fs"
    by (simp add: remove_existing_def remove_all_def Let_def fs_exists_def with_tree_def)
  have np: "\<not> prefix ?p ?d" using assms(1) by (simp add: apart_def)
  then have m: "map_of ?t ?d = map_of (fs_tree fs) ?d" by (rule map_of_without_subtree)
  have "\<not> prefix ?p q" if "q \<noteq> []" "butlast q = ?d" for q
  proof
    assume "prefix ?p q"
    moreover have "q = ?d @ [last q]" using that by (metis append_butlast_last_id)
    ultimately show False using assms(1) by (metis apart_def prefix_same_cases prefixI)
  qed
  then have c: "children (with_tree fs ?t) ?d = children fs ?d"
    by (auto simp: children_def with_tree_def intro!: filter_cong)
  show "fs_exists d (remove_existing gone fs) = fs_exists d fs"
    using r m by (auto simp: fs_exists_def path_exists_def with_tree_def)
  have "dir_entry_of d (with_tree fs ?t) x = dir_entry_of d fs x" for x
    by (simp add: dir_entry_of_def with_tree_def ino_data_def split: prod.split node.split)
  then show "list_directory d (remove_existing gone fs) = list_directory d fs"
    using r m c by (auto simp: list_directory_def Let_def is_dir_def) (auto simp: with_tree_def)
  show "eng_read_files rng es (remove_existing gone fs) = eng_read_files rng es fs"
    if "list_directory d fs = Some es"
  proof -
    have "sst_read_file (de_path x) rng (remove_existing gone fs) = sst_read_file (de_path x) rng fs" if x: "x \<in> set es" for x
    proof -
      obtain q where "de_path x = d @ CHR ''/'' # last q"
        using \<open>list_directory d fs = Some es\<close> x
        by (auto simp: list_directory_def Let_def dir_entry_of_def split: if_splits prod.splits)
      then have "\<not> prefix ?p (split_path (de_path x))"
        using apart_below(2) [OF assms(1) _ assms(2), of "last q"] assms(1)
        by (cases "gone = []") (auto simp: apart_def split_path_def)
      from sst_read_file_with_tree [of ?t, OF map_of_without_subtree [OF this]] r show ?thesis by auto
    qed
    then show ?thesis unfolding eng_read_files_def by (intro arg_cong [where f = concat] map_cong refl) simp
  qed
qed

lemma eng_read_raw_after_remove:
  assumes "apart gone (tag_dir (eg_config e) tag)"
  shows "eng_read_raw env tag rng (e, remove_existing gone fs) = eng_read_raw env tag rng (e, fs)"
proof -
  let ?d = "tag_dir (eg_config e) tag"
  have "?d \<noteq> []" by (simp add: tag_dir_def)
  note r = read_after_remove [OF assms this, where fs = fs]
  show ?thesis
    by (cases "list_directory ?d fs") (simp_all add: eng_read_raw_def Let_def r)
qed

lemma table_apart_from_tags:
  assumes "sc_hot_path cfg \<noteq> []" "plain_component db" "plain_component tab" "CHR ''/'' \<notin> set tag"
  shows "apart (eng_table_path cfg db tab) (tag_dir cfg (db @ '':'' @ tab @ '':'' @ tag))"
proof -
  let ?k = "db @ '':'' @ tab @ '':'' @ tag" and ?h = "sc_hot_path cfg"
  have "CHR '':'' \<in> set ?k" "CHR '':'' \<notin> set ''tables''" by simp_all
  then have k2: "?k \<noteq> ''tables''" by metis
  have k: "plain_component ?k" using assms(2-4) by (auto simp: plain_component_def)
  have "split_path ((?h @ ''/'' @ db) @ CHR ''/'' # ''tables'') = split_path ?h @ [db, ''tables'']"
    using assms by (subst split_path_join) (auto simp: split_path_join plain_component_def)
  then have "split_path (eng_table_path cfg db tab) = split_path ?h @ [db, ''tables'', tab]"
    using split_path_join [of "?h @ ''/'' @ db @ ''/tables''" tab] assms by (simp add: eng_table_path_def)
  moreover have "split_path (tag_dir cfg ?k) = split_path ?h @ [''tags'', ?k]"
    using split_path_join [of "?h @ ''/tags''" ?k] split_path_join [of ?h "''tags''"] assms(1) k
    by (simp add: tag_dir_def plain_component_def)
  ultimately show ?thesis using k2 by (auto simp: apart_def)
qed

section \<open>Properties\<close>

text \<open>
  C14. Recovery is exact: an engine started without a log, whatever sequence of writes and crashes it
  then goes through, restarts after every crash and has at the end the very memtable that the same
  writes leave when nothing ever crashed. Flushes of full buffers in between do not disturb the
  log. A write whose value is not a double is lost: it leaves by an exception before anything is
  stored.
\<close>

theorem engine_recovers_buffer:
  assumes "fs_wf fs0" "file_bytes fs0 (wal_path cfg) = None"
    and "eng_init env (eng_new cfg, fs0) = Inr (True, e0, fs1)" "ww_opened (the (eg_wal e0))"
    and "list_all step_short sts"
  shows "\<exists>e fs. eng_run sts (e0, fs1) = Some (e, fs)
    \<and> eg_mem_table e = Some (buffer_after (sc_memtable_size cfg) (concat (map step_puts sts)))"
proof -
  obtain e fs ws' where r: "eng_run sts (e0, fs1) = Some (e, fs)" "eng_inv cfg ws' (e, fs)"
    "map snd ws' = map snd ([] :: (padding \<times> string \<times> data_point) list) @ concat (map step_puts sts)"
    using eng_run_inv [OF eng_start_inv [OF assms(1-4)] assms(5)] by auto
  from r(2) have "eg_mem_table e = Some (buffer_after (sc_memtable_size cfg) (map snd ws'))"
    unfolding eng_inv_def fst_conv by blast
  with r show ?thesis by simp
qed

definition demo_env :: env where
  "demo_env = \<lparr>ev_date = ''2024-01-01'', ev_pad = (0, 0, 0), ev_now = 0, ev_par = (\<lambda>_. None), ev_ser = (\<lambda>_. []),
     ev_sort = sort_key (\<lambda>p. sint (dp_ts p))\<rparr>"

definition demo_config :: storage_config where
  "demo_config = default_storage_config\<lparr>sc_hot_path := ''h'', sc_cold_path := ''c''\<rparr>"

lemma demo_fs_wf: "fs_wf demo_fs" "file_bytes demo_fs path = None"
  by (simp_all add: fs_wf_def demo_fs_def file_bytes_def)

lemma demo_boot:
  obtains e0 fs1 where "eng_init demo_env (eng_new demo_config, demo_fs) = Inr (True, e0, fs1)" "ww_opened (the (eg_wal e0))"
proof -
  have c: "sc_hot_path demo_config = ''h''" "sc_cold_path demo_config = ''c''" by (simp_all add: demo_config_def)
  have "fst (wal_open (wal_writer_new ''h/wal/wal.log'')
      (fold (\<lambda>d fs. snd (create_directories d fs)) [''h/meta'', ''h/tags'', ''h/wal'', ''c''] demo_fs))" by code_simp
  then have "fst (wal_open (wal_writer_new (wal_path demo_config)) (eng_directories demo_config demo_fs))"
    by (simp add: wal_path_def eng_directories_def c)
  from eng_boot_inv [OF demo_fs_wf this, of demo_env] show thesis
    by (auto simp: eng_inv_def wal_on_def intro: that)
qed

theorem engine_recovers_buffer_witness:
  "\<exists>e0 fs1 e fs. eng_init demo_env (eng_new demo_config, demo_fs) = Inr (True, e0, fs1)
    \<and> eng_run [Put demo_env ''a'' \<lparr>dp_ts = 1, dp_value = VDouble 7\<rparr>, Crash demo_env,
        Put demo_env ''a'' \<lparr>dp_ts = 2, dp_value = VInt 1\<rparr>, Put demo_env ''b'' \<lparr>dp_ts = 3, dp_value = VDouble 8\<rparr>,
        Crash demo_env] (e0, fs1) = Some (e, fs)
    \<and> map_option mt_get_all_data (eg_mem_table e) =
        Some [(''a'', [\<lparr>dp_ts = 1, dp_value = VDouble 7\<rparr>]), (''b'', [\<lparr>dp_ts = 3, dp_value = VDouble 8\<rparr>])]"
proof -
  let ?a = "\<lparr>dp_ts = 1, dp_value = VDouble 7\<rparr>" and ?x = "\<lparr>dp_ts = 2, dp_value = VInt 1\<rparr>"
    and ?b = "\<lparr>dp_ts = 3, dp_value = VDouble 8\<rparr>"
  obtain e0 fs1 where b: "eng_init demo_env (eng_new demo_config, demo_fs) = Inr (True, e0, fs1)" "ww_opened (the (eg_wal e0))"
    by (rule demo_boot)
  let ?sts = "[Put demo_env ''a'' ?a, Crash demo_env, Put demo_env ''a'' ?x, Put demo_env ''b'' ?b, Crash demo_env]"
  obtain e fs where e: "eng_run ?sts (e0, fs1) = Some (e, fs)"
    "eg_mem_table e = Some (buffer_after (sc_memtable_size demo_config) (concat (map step_puts ?sts)))"
    using engine_recovers_buffer [OF demo_fs_wf b, of ?sts] by auto
  have "mt_get_all_data (buffer_after (sc_memtable_size demo_config) (concat (map step_puts ?sts))) = [(''a'', [?a]), (''b'', [?b])]"
    by (simp add: demo_config_def default_storage_config_def buffer_after_def mt_add_def mt_new_def mt_find_def
        empty_tag_buffer_def mt_check_flush_def sizeof_data_point_def mt_get_all_data_def Let_def)
  with b e show ?thesis by (metis option.map(2))
qed

text \<open>
  C15. The first flush detaches the log: \<^verbatim>\<open>Flush\<close> truncates the log by unlinking its file while the
  writer keeps the old one open, so whatever is written afterwards goes to a file without a name. A
  crash then recovers an empty memtable: every write since the flush that was still buffered is
  gone, although \<^verbatim>\<open>Write\<close> returned true and flushed the log each time.
\<close>

theorem engine_flush_detaches_log:
  assumes "fs_wf fs0" "file_bytes fs0 (wal_path cfg) = None"
    and "eng_init env (eng_new cfg, fs0) = Inr (True, e0, fs1)" "ww_opened (the (eg_wal e0))"
    and "list_all step_short sts" "eng_run sts (e0, fs1) = Some s"
    and "t = fold (\<lambda>(env, tag, p) s. snd (eng_write env tag p s)) later (eng_flush env' s)"
  shows "\<exists>e fs. eng_init env'' (eng_new cfg, snd t) = Inr (True, e, fs)
    \<and> eg_mem_table e = Some (mt_new (sc_memtable_size cfg))"
proof -
  obtain ws where "eng_inv cfg ws s"
    using eng_run_inv [OF eng_start_inv [OF assms(1-4)] assms(5)] assms(6) by auto
  from eng_flush_no_file [OF this, of env']
  have start: "no_file (snd (eng_flush env' s)) (wal_path cfg) \<and> eg_config (fst (eng_flush env' s)) = cfg" .
  have "no_file (snd u) (wal_path cfg) \<and> eg_config (fst u) = cfg \<Longrightarrow>
      no_file (snd (fold (\<lambda>(env, tag, p) s. snd (eng_write env tag p s)) later u)) (wal_path cfg)" for u
  proof (induction later arbitrary: u)
    case (Cons l later)
    obtain v tag p where l: "l = (v, tag, p)" by (cases l)
    from Cons.IH [OF eng_write_no_file, of u v tag p] Cons.prems show ?case by (simp add: l)
  qed simp
  from eng_init_no_file [OF this [OF start]] show ?thesis by (simp add: assms(7))
qed

theorem engine_flush_detaches_log_witness:
  "\<exists>e0 fs1 e fs. eng_init demo_env (eng_new demo_config, demo_fs) = Inr (True, e0, fs1)
    \<and> eng_init demo_env (eng_new demo_config,
        snd (snd (eng_write demo_env ''a'' \<lparr>dp_ts = 1, dp_value = VDouble 7\<rparr> (eng_flush demo_env (e0, fs1))))) = Inr (True, e, fs)
    \<and> eg_mem_table e = Some (mt_new (64 * 1024))"
proof -
  obtain e0 fs1 where b: "eng_init demo_env (eng_new demo_config, demo_fs) = Inr (True, e0, fs1)" "ww_opened (the (eg_wal e0))"
    by (rule demo_boot)
  have r: "list_all step_short []" "eng_run [] (e0, fs1) = Some (e0, fs1)" by simp_all
  from engine_flush_detaches_log [OF demo_fs_wf b r refl,
      where env' = demo_env and env'' = demo_env and later = "[(demo_env, ''a'', \<lparr>dp_ts = 1, dp_value = VDouble 7\<rparr>)]"]
  show ?thesis using b by (auto simp: demo_config_def default_storage_config_def)
qed



text \<open>
  Dropping a table deletes nothing that was written to it: the points of a table live under the flat
  key \<^verbatim>\<open>db:table:tag\<close> in the directory \<^verbatim>\<open>tags\<close>, while \<^verbatim>\<open>DropTable\<close> removes
  \<^verbatim>\<open>db/tables/table\<close>, which no write creates. Every read of the dropped table returns what it
  returned before.
\<close>

lemma engine_drop_table_keeps_data:
  assumes "sc_hot_path (eg_config e) \<noteq> []" "sc_cold_path (eg_config e) \<noteq> []"
    and "plain_component db" "plain_component tab" "CHR ''/'' \<notin> set tag"
    and "apart (sc_cold_path (eg_config e)) (sc_hot_path (eg_config e) @ ''/tags'')"
    and "eng_drop_table db tab (e, fs) = (ok, e', fs')"
  shows "ok \<and> eng_read_raw3 env db tab tag rng (e', fs') = eng_read_raw3 env db tab tag rng (e, fs)"
proof -
  let ?cfg = "eg_config e" and ?k = "db @ '':'' @ tab @ '':'' @ tag"
  let ?c = "sc_cold_path ?cfg @ ''/'' @ db @ ''/tables/'' @ tab"
  have 1: "apart (eng_table_path ?cfg db tab) (tag_dir ?cfg ?k)"
    using table_apart_from_tags assms(1,3-5) by blast
  have "apart (sc_cold_path ?cfg) ((sc_hot_path ?cfg @ ''/tags'') @ CHR ''/'' # ?k)"
    by (rule apart_below(2) [OF assms(6,2)]) simp
  then have "apart (sc_cold_path ?cfg @ CHR ''/'' # (db @ ''/tables/'' @ tab)) ((sc_hot_path ?cfg @ ''/tags'') @ CHR ''/'' # ?k)"
    by (rule apart_below(1)) (use assms(2) in simp_all)
  then have 2: "apart ?c (tag_dir ?cfg ?k)" by (simp add: tag_dir_def)
  have e: "e' = e" and fs: "fs' = remove_existing ?c (remove_existing (eng_table_path ?cfg db tab) fs)" and ok
    using assms(7) by (auto simp: eng_drop_table_def Let_def)
  have "eng_read_raw env ?k rng (e, fs') = eng_read_raw env ?k rng (e, fs)"
    unfolding fs by (rule trans [OF eng_read_raw_after_remove [OF 2] eng_read_raw_after_remove [OF 1]])
  with e \<open>ok\<close> show ?thesis by (simp add: eng_read_raw3_def)
qed

lemma engine_drop_table_keeps_data_witness:
  "fst (snd (eng_drop_table ''d'' ''t'' (eng_new demo_config, demo_fs))) = eng_new demo_config
    \<and> eng_read_raw3 demo_env ''d'' ''t'' ''x'' \<lparr>tr_start = 0, tr_end = 9\<rparr>
        (eng_new demo_config, snd (snd (eng_drop_table ''d'' ''t'' (eng_new demo_config, demo_fs))))
      = eng_read_raw3 demo_env ''d'' ''t'' ''x'' \<lparr>tr_start = 0, tr_end = 9\<rparr> (eng_new demo_config, demo_fs)"
proof -
  let ?e = "eng_new demo_config"
  have c: "eg_config ?e = demo_config" "sc_hot_path demo_config = ''h''" "sc_cold_path demo_config = ''c''"
    by (simp_all add: eng_new_def demo_config_def)
  have a: "apart ''c'' ''h/tags''" by (simp add: apart_def split_path_def)
  have d: "eng_drop_table ''d'' ''t'' (?e, demo_fs) = (True, ?e, snd (snd (eng_drop_table ''d'' ''t'' (?e, demo_fs))))"
    by (simp add: eng_drop_table_def Let_def)
  have "eng_read_raw3 demo_env ''d'' ''t'' ''x'' \<lparr>tr_start = 0, tr_end = 9\<rparr>
        (?e, snd (snd (eng_drop_table ''d'' ''t'' (?e, demo_fs))))
      = eng_read_raw3 demo_env ''d'' ''t'' ''x'' \<lparr>tr_start = 0, tr_end = 9\<rparr> (?e, demo_fs)"
    using engine_drop_table_keeps_data [OF _ _ _ _ _ _ d, of "''x''" demo_env] c a by (simp add: plain_component_def)
  with d show ?thesis by (metis fst_conv snd_conv)
qed

end
