(* ===== verification/File_Tree.thy ===== *)
theory File_Tree
  imports Engine
begin

text \<open>
  Facts for the components that move, rename and remove files: the bytes at a path after each
  operation, and names made of numbers.
\<close>

section \<open>Files by their path\<close>

definition file_at :: "fsys \<Rightarrow> path \<Rightarrow> byte list option" where
  "file_at fs p = (case map_of (fs_tree fs) p of Some (FileNode i) \<Rightarrow> Some (ino_data fs i) | _ \<Rightarrow> None)"

lemma file_at_bytes: "file_bytes fs s = file_at fs (split_path s)"
  by (simp add: file_bytes_def file_at_def)

lemma file_at_Some: "file_at fs p = Some d \<longleftrightarrow> (\<exists>i. map_of (fs_tree fs) p = Some (FileNode i) \<and> ino_data fs i = d)"
  by (auto simp: file_at_def split: option.split node.split)

lemma file_at_directories [simp]: "file_at (snd (create_directories s fs)) p = file_at fs p"
proof -
  have "file_at (snd (create_directories s fs)) p = Some d \<longleftrightarrow> file_at fs p = Some d" for d
    by (simp add: file_at_Some create_directories_files)
  then show ?thesis by (metis option.exhaust)
qed

lemma fs_next_unbind [os_facts]: "fs_next (unbind_node p fs) = fs_next fs"
  by (simp add: unbind_node_def)

lemma fs_wf_unbind: "fs_wf fs \<Longrightarrow> fs_wf (unbind_node p fs)"
  by (auto simp: fs_wf_def os_facts split: if_splits)

lemma file_at_remove: "file_at (snd (fs_remove s fs)) p = (if p = split_path s then None else file_at fs p)"
proof (cases "p = split_path s")
  case True
  then show ?thesis
    by (auto simp: file_at_def fs_remove_def Let_def os_facts split: option.split node.split)
next
  case False
  then show ?thesis
    by (auto simp: file_at_def fs_remove_def Let_def os_facts split: option.split node.split)
qed

lemma fs_remove_wf: "fs_wf fs \<Longrightarrow> fs_wf (snd (fs_remove s fs))"
  by (simp add: fs_remove_def Let_def fs_wf_unbind split: option.split node.split)

lemma fs_rename_True:
  "fs_rename a b fs = (True, fs') \<Longrightarrow> split_path a \<noteq> split_path b \<Longrightarrow>
   \<exists>i. map_of (fs_tree fs) (split_path a) = Some (FileNode i)
     \<and> fs' = bind_node (split_path b) (FileNode i) (unbind_node (split_path a) fs)"
  by (auto simp: fs_rename_def Let_def split: option.splits node.splits if_splits)

lemma fs_rename_False: "fs_rename a b fs = (False, fs') \<Longrightarrow> fs' = fs"
  by (auto simp: fs_rename_def Let_def split: option.splits node.splits if_splits)

lemma file_at_rename:
  assumes "fs_rename a b fs = (True, fs')" "fs_wf fs" "split_path a \<noteq> split_path b"
  shows "fs_wf fs'" "file_at fs (split_path a) \<noteq> None"
    "file_at fs' p = (if p = split_path b then file_at fs (split_path a) else if p = split_path a then None else file_at fs p)"
proof -
  obtain i where i: "map_of (fs_tree fs) (split_path a) = Some (FileNode i)"
    "fs' = bind_node (split_path b) (FileNode i) (unbind_node (split_path a) fs)"
    using fs_rename_True [OF assms(1,3)] by blast
  then show "file_at fs (split_path a) \<noteq> None" by (simp add: file_at_def)
  show "file_at fs' p = (if p = split_path b then file_at fs (split_path a) else if p = split_path a then None else file_at fs p)"
    using i by (simp add: file_at_def os_facts split: option.split node.split)
  show "fs_wf fs'" using assms(2,3) i by (auto simp: fs_wf_def os_facts split: if_splits)
qed

lemma file_at_only_inode:
  assumes "only_inode i fs fs'" "map_of (fs_tree fs) p \<noteq> Some (FileNode i)"
  shows "file_at fs' p = file_at fs p"
  using assms by (auto simp: only_inode_def file_at_def split: option.split node.split)

lemma file_at_copy:
  assumes "fs_copy a b fs = (ok, fs')" "fs_wf fs" "split_path a \<noteq> split_path b"
  shows "fs_wf fs' \<and> (ok \<longrightarrow> file_at fs (split_path a) \<noteq> None)
    \<and> file_at fs' p = (if ok \<and> p = split_path b then file_at fs (split_path a) else file_at fs p)"
proof (cases "fst (file_open a READ fs)")
  case None
  then have "file_open a READ fs = (None, fs)"
    by (auto simp: file_open_def Let_def split: option.splits node.splits)
  then show ?thesis using assms by (simp add: fs_copy_def)
next
  case (Some h)
  then have a: "file_open a READ fs = (Some h, fs)" "map_of (fs_tree fs) (split_path a) = Some (FileNode (of_ino h))"
    by (auto simp: file_open_def Let_def split: option.splits node.splits if_splits)
  obtain dst fs2 where o: "file_open b WRITE fs = (dst, fs2)" by (metis surj_pair)
  show ?thesis
  proof (cases dst)
    case None
    with o have "fs2 = fs" by (auto simp: file_open_def Let_def split: option.splits node.splits if_splits prod.splits)
    then show ?thesis using assms a o None by (simp add: fs_copy_def)
  next
    case (Some g)
    note f = file_open_some [OF o [unfolded Some] assms(2)]
    have ne: "of_ino h \<noteq> of_ino g" using f(6) a(2) assms(3) by auto
    let ?d = "ino_data fs (of_ino h)"
    have d: "ino_data fs2 (of_ino h) = ?d" using f(5) ne by simp
    have w: "\<exists>g' fs3. file_write ?d (Some g) fs2 = (True, g', fs3) \<and> only_inode (of_ino g) fs2 fs3
        \<and> ino_data fs3 (of_ino g) = ?d"
    proof (cases "?d = []")
      case True
      then show ?thesis using f(7) by (simp add: file_write_def only_inode_refl)
    next
      case False
      then show ?thesis using f(1,2,7)
        by (auto simp: file_write_def Let_def overwrite_def only_inode_def os_facts)
    qed
    then obtain g' fs3 where w: "file_write ?d (Some g) fs2 = (True, g', fs3)" "only_inode (of_ino g) fs2 fs3"
      "ino_data fs3 (of_ino g) = ?d" by blast
    have e: "ok" "fs' = fs3" using assms(1) a o Some w(1) d by (simp_all add: fs_copy_def)
    have tree: "map_of (fs_tree fs3) = (map_of (fs_tree fs))(split_path b \<mapsto> FileNode (of_ino g))"
      using f(3) w(2) by (simp add: only_inode_def)
    have other: "ino_data fs3 j = ino_data fs j" if "j \<noteq> of_ino g" for j
      using f(5) w(2) that by (simp add: only_inode_def)
    have "file_at fs3 p = file_at fs p" if p: "p \<noteq> split_path b"
      using p f(6) [OF p] by (auto simp: file_at_def tree other split: option.split node.split)
    moreover have "file_at fs3 (split_path b) = Some ?d" using w(3) by (simp add: file_at_def tree)
    moreover have "file_at fs (split_path a) = Some ?d" using a(2) by (simp add: file_at_def)
    moreover have "fs_wf fs3" using f(4) only_inode_wf [OF w(2)] by simp
    ultimately show ?thesis using e by simp
  qed
qed

section \<open>What the file operations touch\<close>

text \<open>Components have no slash, the root apart.\<close>

definition names_plain :: "fsys \<Rightarrow> bool" where
  "names_plain fs \<longleftrightarrow> (\<forall>q\<in>fst ` set (fs_tree fs). \<forall>c\<in>set q. CHR ''/'' \<in> set c \<longrightarrow> c = ''/'')"

text \<open>\<open>touches P\<close>: paths outside \<open>P\<close> keep their nodes and their bytes, and there are no new directories.\<close>

definition touches :: "path set \<Rightarrow> fsys \<Rightarrow> fsys \<Rightarrow> bool" where
  "touches P fs fs' \<longleftrightarrow>
     (\<forall>q. q \<notin> P \<longrightarrow> map_of (fs_tree fs') q = map_of (fs_tree fs) q \<and> file_at fs' q = file_at fs q)
     \<and> (\<forall>q. map_of (fs_tree fs') q = Some DirNode \<longrightarrow> map_of (fs_tree fs) q = Some DirNode)
     \<and> fs_wf fs' \<and> (names_plain fs \<longrightarrow> names_plain fs')"

lemma touches_refl: "fs_wf fs \<Longrightarrow> touches P fs fs"
  by (simp add: touches_def)

lemma touches_trans: "touches P fs fs' \<Longrightarrow> touches P fs' fs'' \<Longrightarrow> touches P fs fs''"
  by (simp add: touches_def)

lemma touches_mono: "touches P fs fs' \<Longrightarrow> P \<subseteq> Q \<Longrightarrow> touches Q fs fs'"
  by (auto simp: touches_def)

lemma touches_wf: "touches P fs fs' \<Longrightarrow> fs_wf fs'"
  by (simp add: touches_def)

lemma touches_node: "touches P fs fs' \<Longrightarrow> q \<notin> P \<Longrightarrow> map_of (fs_tree fs') q = map_of (fs_tree fs) q"
  by (simp add: touches_def)

lemma touches_file: "touches P fs fs' \<Longrightarrow> q \<notin> P \<Longrightarrow> file_at fs' q = file_at fs q"
  by (simp add: touches_def)

lemma touches_plain: "touches P fs fs' \<Longrightarrow> names_plain fs \<Longrightarrow> names_plain fs'"
  by (simp add: touches_def)

lemma split_at_no_sep: "sep \<notin> set cur \<Longrightarrow> c \<in> set (split_at sep cur s) \<Longrightarrow> sep \<notin> set c"
proof (induction s arbitrary: cur)
  case (Cons a s)
  from Cons.IH [of "[]"] Cons.IH [of "a # cur"] Cons.prems show ?case by (auto split: if_splits)
qed simp

lemma split_path_plain: "c \<in> set (split_path s) \<Longrightarrow> CHR ''/'' \<in> set c \<Longrightarrow> c = ''/''"
  using split_at_no_sep [of "CHR ''/''" "[]" c s] by (auto simp: split_path_def split: if_splits)

lemma names_plain_bind: "names_plain fs \<Longrightarrow> names_plain (bind_node (split_path s) n fs)"
  using split_path_plain by (auto simp: names_plain_def bind_node_def dom_update)

lemma names_plain_unbind: "names_plain fs \<Longrightarrow> names_plain (unbind_node p fs)"
  by (auto simp: names_plain_def unbind_node_def AList.delete_eq)

lemma touches_open:
  assumes "file_open s mode fs = (Some h, fs')" "fs_wf fs"
  shows "touches {split_path s} fs fs'"
proof -
  note f = file_open_some [OF assms]
  have "fs_tree fs' = fs_tree fs \<or> fs_tree fs' = fs_tree (bind_node (split_path s) (FileNode (of_ino h)) fs)"
    using assms(1) by (auto simp: file_open_def create_file_def Let_def os_facts bind_node_def split: option.splits node.splits if_splits)
  then have "names_plain fs \<Longrightarrow> names_plain fs'" using names_plain_bind by (auto simp: names_plain_def)
  moreover have "file_at fs' q = file_at fs q" if "q \<noteq> split_path s" for q
    using f(3,5) f(6) [OF that] that by (auto simp: file_at_def split: option.split node.split)
  ultimately show ?thesis using f(3,4) by (auto simp: touches_def split: if_splits)
qed

lemma touches_only_inode:
  assumes "only_inode i fs fs'" "fs_wf fs" "map_of (fs_tree fs) p = Some (FileNode i)"
  shows "touches {p} fs fs'"
proof -
  have "map_of (fs_tree fs) q \<noteq> Some (FileNode i)" if "q \<noteq> p" for q
    using assms(2,3) that by (auto simp: fs_wf_def)
  with file_at_only_inode [OF assms(1)] only_inode_wf [OF assms(1)] assms(1,2) show ?thesis
    by (auto simp: touches_def only_inode_def names_plain_def)
qed

lemma touches_rename:
  assumes "fs_rename a b fs = (True, fs')" "fs_wf fs" "split_path a \<noteq> split_path b"
  shows "touches {split_path a, split_path b} fs fs'"
proof -
  from fs_rename_True [OF assms(1,3)] obtain i where
    i: "fs' = bind_node (split_path b) (FileNode i) (unbind_node (split_path a) fs)" by blast
  then have "names_plain fs \<Longrightarrow> names_plain fs'" by (simp add: names_plain_bind names_plain_unbind)
  then show ?thesis using file_at_rename [OF assms] i by (auto simp: touches_def os_facts split: if_splits)
qed

lemma touches_remove:
  assumes "fs_wf fs"
  shows "touches {split_path s} fs (snd (fs_remove s fs))"
proof -
  have "names_plain fs \<Longrightarrow> names_plain (snd (fs_remove s fs))"
    by (simp add: fs_remove_def Let_def names_plain_unbind split: option.split node.split)
  moreover have "q \<noteq> split_path s \<Longrightarrow> map_of (fs_tree (snd (fs_remove s fs))) q = map_of (fs_tree fs) q" for q
    by (simp add: fs_remove_def Let_def os_facts split: option.split node.split)
  moreover have "map_of (fs_tree (snd (fs_remove s fs))) q = Some DirNode \<Longrightarrow> map_of (fs_tree fs) q = Some DirNode" for q
    by (auto simp: fs_remove_def Let_def os_facts split: option.splits node.splits if_splits)
  ultimately show ?thesis by (simp add: touches_def file_at_remove fs_remove_wf assms)
qed

lemma open_write:
  assumes "fs_wf fs" "\<not> is_root (split_path s)" "is_dir fs (butlast (split_path s))"
    and "map_of (fs_tree fs) (split_path s) \<noteq> Some DirNode"
  shows "\<exists>h fs'. file_open s WRITE fs = (Some h, fs') \<and> of_mode h = WRITE \<and> of_pos h = 0
    \<and> map_of (fs_tree fs') (split_path s) = Some (FileNode (of_ino h)) \<and> ino_data fs' (of_ino h) = []
    \<and> touches {split_path s} fs fs'"
proof -
  have "fst (file_open s WRITE fs) \<noteq> None"
    using assms(2-4) by (simp add: file_open_def create_file_def Let_def split: option.split node.split)
  then obtain h fs' where o: "file_open s WRITE fs = (Some h, fs')" by (metis not_None_eq prod.collapse)
  from file_open_some [OF o assms(1)] touches_open [OF o assms(1)] o show ?thesis by auto
qed

lemma file_write_whole:
  assumes "fs_wf fs" "map_of (fs_tree fs) p = Some (FileNode (of_ino h))"
    and "of_mode h = APPEND \<or> of_mode h = WRITE \<and> of_pos h = length (ino_data fs (of_ino h))"
  shows "\<exists>h' fs'. file_write d (Some h) fs = (True, Some h', fs') \<and> of_ino h' = of_ino h \<and> of_mode h' = of_mode h
    \<and> (of_mode h = WRITE \<longrightarrow> of_pos h' = length (ino_data fs (of_ino h) @ d))
    \<and> ino_data fs' (of_ino h) = ino_data fs (of_ino h) @ d \<and> touches {p} fs fs'"
proof (cases "d = []")
  case True
  then show ?thesis using assms(1,3) by (auto simp: file_write_def touches_refl)
next
  case False
  let ?fs = "set_inode (of_ino h) (ino_data fs (of_ino h) @ d) fs"
  have "only_inode (of_ino h) fs ?fs" by (simp add: only_inode_def os_facts)
  from touches_only_inode [OF this assms(1,2)] False assms(3) show ?thesis
    by (auto simp: file_write_def Let_def overwrite_end os_facts)
qed

section \<open>Names\<close>

lemma plain_append: "CHR ''/'' \<notin> set s \<Longrightarrow> CHR ''/'' \<notin> set t \<Longrightarrow> CHR ''/'' \<notin> set (s @ t)"
  by simp

lemma to_string_plain: "CHR ''/'' \<notin> set (to_string i)"
proof
  assume "CHR ''/'' \<in> set (to_string i)"
  then have "CHR ''/'' \<in> set (digits 10 (nat \<bar>i\<bar>))" by (auto simp: to_string_def split: if_splits)
  from digits10_is_digit [OF this] show False by (simp add: is_digit_def)
qed

end
