(* ===== verification/Compaction.thy ===== *)
theory Compaction
  imports File_Tree
begin

text \<open>
  The compactor, \<^verbatim>\<open>src/src/storage/compaction.{h,cpp}\<close>: the small table files of a tag are read,
  their points sorted and made unique, written to a temporary file that is renamed, and the files
  that were read are removed. The worker thread is reduced to its running flag and one turn of its loop.
\<close>

section \<open>One tag\<close>

definition full_range :: time_range where
  "full_range = \<lparr>tr_start = 0, tr_end = int64_max\<rparr>"

definition small_files :: "nat \<Rightarrow> dir_entry list \<Rightarrow> string list" where
  "small_files threshold entries =
     map de_path (filter (\<lambda>e. is_sst_name (de_name e) \<and> nat (de_file_size e) < threshold) entries)"

definition readable_files :: "string list \<Rightarrow> fsys \<Rightarrow> (string \<times> data_point list) list" where
  "readable_files files fs =
     concat (map (\<lambda>f. case sst_read_file f full_range fs of None \<Rightarrow> [] | Some ps \<Rightarrow> [(f, ps)]) files)"

definition merge_points :: "(data_point list \<Rightarrow> data_point list) \<Rightarrow> (string \<times> data_point list) list \<Rightarrow> data_point list" where
  "merge_points srt readable = unique_by dp_ts (srt (concat (map snd readable)))"

definition merge_path :: "string \<Rightarrow> string \<Rightarrow> data_point list \<Rightarrow> string" where
  "merge_path dir stem points =
     dir @ ''/'' @ stem @ to_string (sint (dp_ts (hd points))) @ ''_'' @ to_string (sint (dp_ts (last points))) @ ''.sst''"

definition remove_files :: "string list \<Rightarrow> fsys \<Rightarrow> fsys" where
  "remove_files files fs = fold (\<lambda>f fs. snd (fs_remove f fs)) files fs"

definition compact_tag :: "(data_point list \<Rightarrow> data_point list) \<Rightarrow> string \<Rightarrow> nat \<Rightarrow> fsys \<Rightarrow> fsys" where
  "compact_tag srt dir threshold fs =
     (let small = (case list_directory dir fs of None \<Rightarrow> [] | Some es \<Rightarrow> small_files threshold es) in
      if length small < 2 then fs
      else let readable = readable_files small fs in
        if concat (map snd readable) = [] then fs
        else let points = merge_points srt readable;
                 tmp = merge_path dir ''.tmp_merge_'' points;
                 merged = merge_path dir ''merged_'' points
          in (case sst_write_blocks tmp [bc_compress points] fs of
                (False, fs) \<Rightarrow> fs
              | (True, fs) \<Rightarrow>
                  (case fs_rename tmp merged fs of
                     (False, fs) \<Rightarrow> snd (fs_remove tmp fs)
                   | (True, fs) \<Rightarrow> remove_files (map fst readable) fs)))"

definition compact_once :: "(data_point list \<Rightarrow> data_point list) \<Rightarrow> string \<Rightarrow> nat \<Rightarrow> fsys \<Rightarrow> fsys" where
  "compact_once srt hot threshold fs =
     (let tags = hot @ ''/tags'' in
      if \<not> fs_exists tags fs then fs
      else case list_directory tags fs of
        None \<Rightarrow> fs
      | Some es \<Rightarrow> fold (\<lambda>e fs. if de_is_directory e then compact_tag srt (de_path e) threshold fs else fs) es fs)"

section \<open>The thread\<close>

record compaction =
  cp_hot_path :: string
  cp_running :: bool
  cp_worker :: bool

definition cp_new :: "string \<Rightarrow> compaction" where
  "cp_new hot = \<lparr>cp_hot_path = hot, cp_running = False, cp_worker = False\<rparr>"

definition cp_start :: "compaction \<Rightarrow> compaction" where
  "cp_start c = (if cp_running c then c else c\<lparr>cp_running := True, cp_worker := True\<rparr>)"

definition cp_stop :: "compaction \<Rightarrow> compaction" where
  "cp_stop c = (if cp_running c then c\<lparr>cp_running := False, cp_worker := False\<rparr> else c)"

definition cp_turn :: "(data_point list \<Rightarrow> data_point list) \<Rightarrow> compaction \<Rightarrow> fsys \<Rightarrow> fsys" where
  "cp_turn srt c fs = (if cp_running c then compact_once srt (cp_hot_path c) (1024 * 1024) fs else fs)"

section \<open>Names and files\<close>

lemma remove_files_Cons: "remove_files (f # files) fs = remove_files files (snd (fs_remove f fs))"
  by (simp add: remove_files_def)

lemma fs_remove_tree:
  "ino_data (snd (fs_remove f fs)) = ino_data fs"
  "p \<noteq> split_path f \<Longrightarrow> map_of (fs_tree (snd (fs_remove f fs))) p = map_of (fs_tree fs) p"
  "map_of (fs_tree fs) p \<noteq> Some DirNode \<Longrightarrow> map_of (fs_tree (snd (fs_remove f fs))) p =
     (if p = split_path f then None else map_of (fs_tree fs) p)"
  by (auto simp: fs_remove_def Let_def os_facts split: option.split node.split)

lemma remove_files_data: "ino_data (remove_files files fs) = ino_data fs"
  by (induction files arbitrary: fs) (simp_all add: remove_files_Cons fs_remove_tree, simp add: remove_files_def)

lemma remove_files_tree:
  "p \<notin> split_path ` set files \<Longrightarrow> map_of (fs_tree (remove_files files fs)) p = map_of (fs_tree fs) p"
  by (induction files arbitrary: fs) (simp_all add: remove_files_Cons fs_remove_tree(2), simp add: remove_files_def)

lemma remove_files_gone:
  "map_of (fs_tree fs) p \<noteq> Some DirNode \<Longrightarrow> map_of (fs_tree (remove_files files fs)) p =
     (if p \<in> split_path ` set files then None else map_of (fs_tree fs) p)"
proof (induction files arbitrary: fs)
  case (Cons f files)
  from Cons.IH [of "snd (fs_remove f fs)"] Cons.prems show ?case
    by (cases "p = split_path f") (auto simp: remove_files_Cons fs_remove_tree(3))
qed (simp add: remove_files_def)

lemma merge_path_split:
  assumes "dir \<noteq> []" "CHR ''/'' \<notin> set stem" "stem \<noteq> []"
  shows "split_path (merge_path dir stem points) =
    split_path dir @ [stem @ to_string (sint (dp_ts (hd points))) @ ''_'' @ to_string (sint (dp_ts (last points))) @ ''.sst'']"
proof -
  let ?n = "stem @ to_string (sint (dp_ts (hd points))) @ ''_'' @ to_string (sint (dp_ts (last points))) @ ''.sst''"
  have "plain_component ?n"
    using assms(2,3) to_string_plain by (auto simp: plain_component_def append_eq_Cons_conv)
  from split_path_join [OF assms(1) this] show ?thesis by (simp add: merge_path_def)
qed

text \<open>A file that was read is a file; the temporary file is written and takes the merged name.\<close>

lemma sst_read_file_some:
  assumes "sst_read_file f rng fs = Some ps"
  shows "\<exists>i. map_of (fs_tree fs) (split_path f) = Some (FileNode i)"
  using assms
  by (auto simp: sst_read_file_def sst_reader_open_def sst_reader_new_def file_open_def Let_def
      split: option.splits node.splits prod.splits)

lemma readable_files_read: "(f, ps) \<in> set (readable_files files fs) \<longleftrightarrow> f \<in> set files \<and> sst_read_file f full_range fs = Some ps"
  by (auto simp: readable_files_def split: option.splits)

lemma sst_write_blocks_ok:
  assumes "\<not> is_dir fs (split_path path)" "is_dir fs (butlast (split_path path))"
  shows "fst (sst_write_blocks path bs fs)"
proof -
  have "fst (file_open path READ_WRITE fs) \<noteq> None"
    using assms by (auto simp: file_open_def Let_def is_dir_def split: option.split node.split prod.split)
  then show ?thesis
    by (auto simp: sst_write_blocks_def sst_writer_open_def sst_writer_new_def split: prod.split option.split)
qed

lemma fs_rename_file:
  assumes "map_of (fs_tree fs) (split_path a) = Some (FileNode i)" "split_path a \<noteq> split_path b"
    and "\<not> is_dir fs (split_path b)" "is_dir fs (butlast (split_path b))"
  obtains fs' where "fs_rename a b fs = (True, fs')" "ino_data fs' = ino_data fs"
    "map_of (fs_tree fs') = (map_of (fs_tree fs))(split_path a := None, split_path b \<mapsto> FileNode i)"
  using assms that by (auto simp: fs_rename_def Let_def os_facts)

section \<open>What a pass over a tag leaves\<close>

text \<open>The files a pass reads, with their points, when it finds at least two.\<close>

definition compaction_input :: "string \<Rightarrow> nat \<Rightarrow> fsys \<Rightarrow> (string \<times> data_point list) list" where
  "compaction_input dir threshold fs =
     (case list_directory dir fs of
        None \<Rightarrow> []
      | Some es \<Rightarrow> let small = small_files threshold es in if length small < 2 then [] else readable_files small fs)"

definition can_merge :: "string \<Rightarrow> data_point list \<Rightarrow> fsys \<Rightarrow> bool" where
  "can_merge dir points fs \<longleftrightarrow> fs_wf fs \<and> dir \<noteq> [] \<and> encodable points \<and> block_ok (bc_compress points)
     \<and> \<not> is_dir fs (split_path (merge_path dir ''.tmp_merge_'' points))
     \<and> \<not> is_dir fs (split_path (merge_path dir ''merged_'' points))"

lemma merge_names_differ:
  assumes "dir \<noteq> []"
  shows "split_path (merge_path dir ''.tmp_merge_'' points) \<noteq> split_path (merge_path dir ''merged_'' points)"
    "butlast (split_path (merge_path dir ''.tmp_merge_'' points)) = split_path dir"
    "butlast (split_path (merge_path dir ''merged_'' points)) = split_path dir"
  using assms by (simp_all add: merge_path_split)

lemma compact_tag_input:
  assumes "compaction_input dir threshold fs = readable" "points = merge_points srt readable"
    and "concat (map snd readable) \<noteq> []" "can_merge dir points fs"
  obtains i fs1 fs2 where
    "sst_write_blocks (merge_path dir ''.tmp_merge_'' points) [bc_compress points] fs = (True, fs1)"
    "compact_tag srt dir threshold fs = remove_files (map fst readable) fs2"
    "ino_data fs2 = ino_data fs1" "ino_data fs1 i = sst_image [bc_compress points]"
    "\<And>p j. map_of (fs_tree fs) p = Some (FileNode j) \<Longrightarrow>
       p \<noteq> split_path (merge_path dir ''.tmp_merge_'' points) \<Longrightarrow> j \<noteq> i \<and> ino_data fs1 j = ino_data fs j"
    "map_of (fs_tree fs2) = (map_of (fs_tree fs))(split_path (merge_path dir ''.tmp_merge_'' points) := None,
       split_path (merge_path dir ''merged_'' points) \<mapsto> FileNode i)"
proof -
  let ?tmp = "merge_path dir ''.tmp_merge_'' points" and ?merged = "merge_path dir ''merged_'' points"
  obtain es where es: "list_directory dir fs = Some es" "\<not> length (small_files threshold es) < 2"
    "readable_files (small_files threshold es) fs = readable"
    using assms(1,3) by (auto simp: compaction_input_def Let_def split: option.splits if_splits)
  have dir: "is_dir fs (split_path dir)" using es(1) by (auto simp: list_directory_def Let_def split: if_splits)
  have ok: "fs_wf fs" "dir \<noteq> []" "block_ok (bc_compress points)" "\<not> is_dir fs (split_path ?tmp)" "\<not> is_dir fs (split_path ?merged)"
    using assms(4) by (simp_all add: can_merge_def)
  note names = merge_names_differ [OF ok(2)]
  have "fst (sst_write_blocks ?tmp [bc_compress points] fs)"
    using sst_write_blocks_ok [OF ok(4)] names(2) dir by simp
  then obtain fs1 where w: "sst_write_blocks ?tmp [bc_compress points] fs = (True, fs1)"
    by (metis (full_types) prod.collapse)
  obtain i fs0 where i: "file_open ?tmp READ_WRITE fs = (rw_handle i 0, fs0)" "only_inode i fs0 fs1"
    "ino_data fs1 i = sst_image [bc_compress points]"
    using sst_write_blocks_image [OF w] ok(3) by (metis list.pred_inject(1,2))
  note o = file_open_some [OF i(1) ok(1)]
  have tree1: "map_of (fs_tree fs1) = (map_of (fs_tree fs))(split_path ?tmp \<mapsto> FileNode i)"
    using o(3) i(2) by (simp add: only_inode_def)
  have "\<not> is_dir fs1 (split_path ?merged)" "is_dir fs1 (butlast (split_path ?merged))"
    using ok(4,5) dir names by (auto simp: is_dir_def tree1)
  then obtain fs2 where r: "fs_rename ?tmp ?merged fs1 = (True, fs2)" "ino_data fs2 = ino_data fs1"
    "map_of (fs_tree fs2) = (map_of (fs_tree fs1))(split_path ?tmp := None, split_path ?merged \<mapsto> FileNode i)"
    using fs_rename_file [of fs1 ?tmp i ?merged] names(1) tree1 by auto
  show thesis
  proof (rule that [OF w _ r(2) i(3)])
    show "compact_tag srt dir threshold fs = remove_files (map fst readable) fs2"
      using es assms(2,3) w r(1) by (simp add: compact_tag_def Let_def del: concat_eq_Nil_conv)
    show "map_of (fs_tree fs2) = (map_of (fs_tree fs))(split_path ?tmp := None, split_path ?merged \<mapsto> FileNode i)"
      using r(3) tree1 by simp
    fix p j assume pj: "map_of (fs_tree fs) p = Some (FileNode j)" "p \<noteq> split_path ?tmp"
    then have "j \<noteq> i" using o(6) by auto
    then show "j \<noteq> i \<and> ino_data fs1 j = ino_data fs j" using o(5) i(2) by (auto simp: only_inode_def)
  qed
qed

lemma merged_points:
  assumes "sorts_by_time srt" "concat (map snd readable) \<noteq> []" "points = merge_points srt readable"
  shows "points \<noteq> []" "sorted_wrt (\<lambda>p q. sint (dp_ts p) \<le> sint (dp_ts q)) points"
    "set points \<subseteq> \<Union> (set ` snd ` set readable)"
    "dp_ts ` set points = dp_ts ` \<Union> (set ` snd ` set readable)"
proof -
  let ?c = "concat (map snd readable)"
  have s: "set (srt ?c) = set ?c" "sorted (map (\<lambda>p. sint (dp_ts p)) (srt ?c))"
    using assms(1) by (simp_all add: sorts_by_time_def)
  have u: "set ?c = \<Union> (set ` snd ` set readable)" by auto
  with s(1) show k: "dp_ts ` set points = dp_ts ` \<Union> (set ` snd ` set readable)"
    using unique_by_keys [of dp_ts "srt ?c"] assms(3) by (simp add: merge_points_def)
  show "set points \<subseteq> \<Union> (set ` snd ` set readable)"
    using unique_by_subset [of dp_ts "srt ?c"] s(1) assms(3) by (auto simp: merge_points_def)
  have "set ?c \<noteq> {}" using assms(2) by (metis set_empty)
  then show "points \<noteq> []" using k u by (metis image_is_empty set_empty)
  have "sorted_wrt (<) (map (\<lambda>p. sint (dp_ts p)) points)"
    using unique_by_sorted_wrt [OF inj_sint, of dp_ts "srt ?c"] s(2) assms(3) by (simp add: merge_points_def)
  then show "sorted_wrt (\<lambda>p q. sint (dp_ts p) \<le> sint (dp_ts q)) points"
    by (auto simp: sorted_wrt_map elim: sorted_wrt_mono_rel [rotated])
qed

section \<open>Two files of one tag\<close>

definition demo_tag_fs :: "string \<Rightarrow> fsys" where
  "demo_tag_fs a = \<lparr>fs_tree = [([''h''], DirNode), ([''h'', ''tags''], DirNode), ([''h'', ''tags'', ''a''], DirNode), ([''h'', ''tags'', ''a'', a], FileNode 0), ([''h'', ''tags'', ''a'', ''b.sst''], FileNode 1)],
     fs_inodes = (\<lambda>_. \<lparr>in_data = sst_image [bc_compress two_points], in_mtime = 0\<rparr>), fs_next = 2, fs_clock = 0\<rparr>"

definition sort_points :: "data_point list \<Rightarrow> data_point list" where
  "sort_points = sort_key (\<lambda>p. sint (dp_ts p))"

lemma sort_points_sorts: "sorts_by_time sort_points"
  by (simp add: sorts_by_time_def sort_points_def)

definition three_points :: "data_point list" where
  "three_points = two_points @ [\<lparr>dp_ts = 2, dp_value = VDouble 0x3FF0000000000000\<rparr>]"

lemma three_points_ok: "block_ok (bc_compress three_points)"
proof -
  have "length (bb_bytes (tc_buffer (foldl tc_encode tc_reset [0, 1, 2]))) = 10" by code_simp
  moreover have "length (bb_bytes (ve_buffer (foldl ve_encode ve_reset (replicate 3 (VDouble 0x3FF0000000000000))))) = 9"
    by code_simp
  ultimately show ?thesis
    by (simp add: block_ok_def three_points_def two_points_def bc_compress_Cons tc_encode_all_def ve_encode_all_def
        numeral_3_eq_3 del: ve_encode.simps)
qed

lemma demo_tag_read:
  assumes "split_path f = [''h'', ''tags'', ''a'', a] \<or> split_path f = [''h'', ''tags'', ''a'', ''b.sst'']"
  shows "sst_read_file f full_range (demo_tag_fs a) = Some three_points"
proof -
  have "file_bytes (demo_tag_fs a) f = Some (sst_image [bc_compress two_points])"
    using assms by (auto simp: file_bytes_def demo_tag_fs_def ino_data_def)
  from sst_read_image [OF this, of full_range] two_points_ok show ?thesis
    by (simp add: image_points_def two_points_uncounted)
      (simp add: two_points_def three_points_def bc_compress_range overlaps_def contains_def full_range_def int64_max_def)
qed

lemma demo_tag_input:
  assumes "a = ''a.sst'' \<or> a = ''merged_0_2.sst''"
  shows "compaction_input ''h/tags/a'' 1000 (demo_tag_fs a) = [(''h/tags/a/'' @ a, three_points), (''h/tags/a/b.sst'', three_points)]"
proof -
  have len: "length (sst_image [bc_compress two_points]) < 1000"
    by (simp add: sst_image_def sst_data_def block_image_def two_points_blocks)
  have paths: "split_path ''h/tags/a'' = [''h'', ''tags'', ''a'']" "split_path ''h/tags/a/b.sst'' = [''h'', ''tags'', ''a'', ''b.sst'']" "split_path (''h/tags/a/'' @ a) = [''h'', ''tags'', ''a'', a]"
    using assms by (auto simp: split_path_def)
  have es: "list_directory ''h/tags/a'' (demo_tag_fs a) = Some (map (dir_entry_of ''h/tags/a'' (demo_tag_fs a))
      [([''h'', ''tags'', ''a'', a], FileNode 0), ([''h'', ''tags'', ''a'', ''b.sst''], FileNode 1)])"
  proof -
    have "is_dir (demo_tag_fs a) [''h'', ''tags'', ''a'']" by (simp add: is_dir_def demo_tag_fs_def)
    moreover have "children (demo_tag_fs a) [''h'', ''tags'', ''a''] = [([''h'', ''tags'', ''a'', a], FileNode 0), ([''h'', ''tags'', ''a'', ''b.sst''], FileNode 1)]"
      by (simp add: children_def demo_tag_fs_def)
    ultimately show ?thesis by (simp add: list_directory_def paths)
  qed
  have "is_sst_name a" using assms by (auto simp: is_sst_name_def)
  then have "small_files 1000 (map (dir_entry_of ''h/tags/a'' (demo_tag_fs a))
      [([''h'', ''tags'', ''a'', a], FileNode 0), ([''h'', ''tags'', ''a'', ''b.sst''], FileNode 1)]) = [''h/tags/a/'' @ a, ''h/tags/a/b.sst'']"
    using len by (simp add: small_files_def dir_entry_of_def demo_tag_fs_def ino_data_def) (simp add: is_sst_name_def)
  with es show ?thesis
    using demo_tag_read [of "''h/tags/a/'' @ a" a] demo_tag_read [of "''h/tags/a/b.sst''" a] paths
    by (simp add: compaction_input_def readable_files_def)
qed

lemma demo_tag_merge:
  "merge_points sort_points [(f, three_points), (g, three_points)] = three_points"
  "merge_path ''h/tags/a'' ''.tmp_merge_'' three_points = ''h/tags/a/.tmp_merge_0_2.sst''"
  "merge_path ''h/tags/a'' ''merged_'' three_points = ''h/tags/a/merged_0_2.sst''"
proof -
  have "unique_by dp_ts (sort_points (three_points @ three_points)) = three_points" by code_simp
  then show "merge_points sort_points [(f, three_points), (g, three_points)] = three_points" by (simp add: merge_points_def)
  show "merge_path ''h/tags/a'' ''.tmp_merge_'' three_points = ''h/tags/a/.tmp_merge_0_2.sst''"
    "merge_path ''h/tags/a'' ''merged_'' three_points = ''h/tags/a/merged_0_2.sst''"
    by code_simp+
qed

lemma demo_tag_ready:
  assumes "a = ''a.sst'' \<or> a = ''merged_0_2.sst''"
  shows "can_merge ''h/tags/a'' three_points (demo_tag_fs a)"
proof -
  have "encodable three_points" by (simp add: encodable_def three_points_def two_points_def fits32_def)
  moreover have "fs_wf (demo_tag_fs a)" using assms by (auto simp: fs_wf_def demo_tag_fs_def)
  moreover have "\<not> is_dir (demo_tag_fs a) [''h'', ''tags'', ''a'', n]" for n
    by (simp add: is_dir_def is_root_def demo_tag_fs_def)
  moreover have "split_path ''h/tags/a/.tmp_merge_0_2.sst'' = [''h'', ''tags'', ''a'', ''.tmp_merge_0_2.sst'']"
    "split_path ''h/tags/a/merged_0_2.sst'' = [''h'', ''tags'', ''a'', ''merged_0_2.sst'']" by (simp_all add: split_path_def)
  ultimately show ?thesis using three_points_ok by (simp add: can_merge_def demo_tag_merge)
qed

lemma compaction_input_read:
  assumes "compaction_input dir threshold fs = readable" "concat (map snd readable) \<noteq> []" "(f, ps) \<in> set readable"
  shows "sst_read_file f full_range fs = Some ps"
proof -
  obtain es where "readable = readable_files (small_files threshold es) fs"
    using assms(1,2) by (auto simp: compaction_input_def Let_def split: option.splits if_splits)
  with assms(3) show ?thesis by (simp add: readable_files_read)
qed

text \<open>The files that were read are gone, whatever else the pass has done to the tree.\<close>

lemma compaction_input_gone:
  assumes "compaction_input dir threshold fs = readable" "concat (map snd readable) \<noteq> []"
    and "map_of (fs_tree fs2) = (map_of (fs_tree fs))(t := None, m \<mapsto> FileNode i)"
    and "split_path f \<in> split_path ` fst ` set readable"
  shows "map_of (fs_tree (remove_files (map fst readable) fs2)) (split_path f) = None"
proof -
  obtain g ps where "(g, ps) \<in> set readable" "split_path f = split_path g" using assms(4) by auto
  then obtain j where "map_of (fs_tree fs) (split_path f) = Some (FileNode j)"
    using compaction_input_read [OF assms(1,2)] sst_read_file_some by metis
  then have "map_of (fs_tree fs2) (split_path f) \<noteq> Some DirNode" by (simp add: assms(3))
  from remove_files_gone [OF this, of "map fst readable"] assms(4) show ?thesis
    by (simp add: image_image)
qed

text \<open>The tree and the bytes after a pass whose names do not clash.\<close>

lemma compaction_result:
  assumes "compaction_input dir threshold fs = readable" "points = merge_points srt readable"
    and "concat (map snd readable) \<noteq> []" "can_merge dir points fs"
    and "split_path (merge_path dir ''merged_'' points) \<notin> split_path ` fst ` set readable"
  shows "file_bytes (compact_tag srt dir threshold fs) (merge_path dir ''merged_'' points) = Some (sst_image [bc_compress points])"
    and "split_path f \<in> insert (split_path (merge_path dir ''.tmp_merge_'' points)) (split_path ` fst ` set readable) \<Longrightarrow>
        map_of (fs_tree (compact_tag srt dir threshold fs)) (split_path f) = None"
    and "p \<notin> {split_path (merge_path dir ''merged_'' points), split_path (merge_path dir ''.tmp_merge_'' points)}
        \<union> split_path ` fst ` set readable \<Longrightarrow> map_of (fs_tree (compact_tag srt dir threshold fs)) p = map_of (fs_tree fs) p"
    and "split_path f \<notin> {split_path (merge_path dir ''merged_'' points), split_path (merge_path dir ''.tmp_merge_'' points)}
        \<union> split_path ` fst ` set readable \<Longrightarrow> file_bytes (compact_tag srt dir threshold fs) f = file_bytes fs f"
proof -
  let ?tmp = "merge_path dir ''.tmp_merge_'' points" and ?merged = "merge_path dir ''merged_'' points"
  let ?fs' = "compact_tag srt dir threshold fs"
  obtain fs1 fs2 i where w: "sst_write_blocks ?tmp [bc_compress points] fs = (True, fs1)"
    "?fs' = remove_files (map fst readable) fs2" "ino_data fs2 = ino_data fs1"
    "ino_data fs1 i = sst_image [bc_compress points]"
    "\<And>p j. map_of (fs_tree fs) p = Some (FileNode j) \<Longrightarrow> p \<noteq> split_path ?tmp \<Longrightarrow> j \<noteq> i \<and> ino_data fs1 j = ino_data fs j"
    "map_of (fs_tree fs2) = (map_of (fs_tree fs))(split_path ?tmp := None, split_path ?merged \<mapsto> FileNode i)"
    by (rule compact_tag_input [OF assms(1-4)]) blast
  have data: "ino_data ?fs' = ino_data fs1" by (simp add: w(2,3) remove_files_data)
  have tree: "map_of (fs_tree ?fs') p = map_of (fs_tree fs2) p" if "p \<notin> split_path ` fst ` set readable" for p
    using that remove_files_tree [of p "map fst readable"] by (auto simp: w(2) image_image)
  show "file_bytes ?fs' ?merged = Some (sst_image [bc_compress points])"
    using tree [OF assms(5)] by (simp add: file_bytes_def w(4,6) data)
  show "map_of (fs_tree ?fs') (split_path f) = None"
    if "split_path f \<in> insert (split_path ?tmp) (split_path ` fst ` set readable)"
  proof (cases "split_path f \<in> split_path ` fst ` set readable")
    case True
    then show ?thesis unfolding w(2) by (rule compaction_input_gone [OF assms(1,3) w(6)])
  next
    case False
    have "split_path ?tmp \<noteq> split_path ?merged" using merge_names_differ(1) assms(4) by (simp add: can_merge_def)
    with False that tree [OF False] show ?thesis by (simp add: w(6))
  qed
  show keep: "map_of (fs_tree ?fs') p = map_of (fs_tree fs) p"
    if "p \<notin> {split_path ?merged, split_path ?tmp} \<union> split_path ` fst ` set readable" for p
    using that tree [of p] by (auto simp: w(6))
  show "file_bytes ?fs' f = file_bytes fs f"
    if "split_path f \<notin> {split_path ?merged, split_path ?tmp} \<union> split_path ` fst ` set readable"
    using that keep [OF that] w(5) [of "split_path f"]
    by (auto simp: file_bytes_def data split: option.split node.split)
qed

section \<open>Properties\<close>

text \<open>
  Compacting a tag loses no point that was read, unless a name clashes: when the pass can write
  its files and the merged name is not the name of a file that was read, the merged file reads back
  as one point, with its string emptied, for every timestamp read, in order, and at most three
  phantom points; the files that were read are gone, and every other file keeps its bytes.
\<close>

lemma compaction_keeps_points:
  assumes "compaction_input dir threshold fs = readable" "points = merge_points srt readable"
    and "concat (map snd readable) \<noteq> []" "can_merge dir points fs" "sorts_by_time srt"
    and "split_path (merge_path dir ''merged_'' points) \<notin> split_path ` fst ` set readable"
  shows "(\<exists>k\<le>3. sst_read_file (merge_path dir ''merged_'' points) full_range (compact_tag srt dir threshold fs) =
        Some (map strip_point points @ filter (\<lambda>p. contains full_range (dp_ts p)) (map (phantom points) [0..<k])))
    \<and> dp_ts ` set points = dp_ts ` \<Union> (set ` snd ` set readable)
    \<and> sorted_wrt (\<lambda>p q. sint (dp_ts p) \<le> sint (dp_ts q)) points
    \<and> (\<forall>f. split_path f \<in> split_path ` fst ` set readable \<longrightarrow> file_bytes (compact_tag srt dir threshold fs) f = None)
    \<and> (\<forall>f. split_path f \<notin> {split_path (merge_path dir ''merged_'' points), split_path (merge_path dir ''.tmp_merge_'' points)}
             \<union> split_path ` fst ` set readable \<longrightarrow>
           file_bytes (compact_tag srt dir threshold fs) f = file_bytes fs f)"
proof -
  let ?merged = "merge_path dir ''merged_'' points" and ?fs' = "compact_tag srt dir threshold fs"
  note r = compaction_result [OF assms(1-4,6)]
  have ok: "encodable points" "block_ok (bc_compress points)" using assms(4) by (simp_all add: can_merge_def)
  note m = merged_points [OF assms(5,3,2)]
  obtain k where k: "k \<le> 3" "\<And>rng. sst_read_file ?merged rng ?fs' = Some (if overlaps (batch_range points) rng
      then filter (\<lambda>p. contains rng (dp_ts p)) (map strip_point points @ map (phantom points) [0..<k]) else [])"
    using sst_image_batch [OF ok(1) m(1) ok(2)] r(1) by metis
  have inside: "contains full_range (dp_ts p)" if p: "p \<in> set points" for p
    using p m(3) compaction_input_read [OF assms(1,3)] sst_read_file_range by fastforce
  have "overlaps (batch_range points) full_range"
    using sorted_batch_overlaps [OF m(2) hd_in_set [OF m(1)] inside [OF hd_in_set [OF m(1)]]] .
  moreover have "filter (\<lambda>p. contains full_range (dp_ts p)) (map strip_point points) = map strip_point points"
    using inside by (auto simp: filter_id_conv strip_point_def)
  ultimately have "sst_read_file ?merged full_range ?fs' =
      Some (map strip_point points @ filter (\<lambda>p. contains full_range (dp_ts p)) (map (phantom points) [0..<k]))"
    by (simp add: k(2))
  moreover have "file_bytes ?fs' f = None" if "split_path f \<in> split_path ` fst ` set readable" for f
    using r(2) [of f] that by (simp add: file_bytes_def)
  ultimately show ?thesis using k(1) m(2,4) r(4) by blast
qed

lemma compaction_keeps_points_witness:
  "file_bytes (compact_tag sort_points ''h/tags/a'' 1000 (demo_tag_fs ''a.sst'')) ''h/tags/a/b.sst'' = None
   \<and> file_bytes (compact_tag sort_points ''h/tags/a'' 1000 (demo_tag_fs ''a.sst'')) ''h/tags/a/merged_0_2.sst'' \<noteq> None"
proof -
  let ?r = "[(''h/tags/a/a.sst'', three_points), (''h/tags/a/b.sst'', three_points)]"
  have "compaction_input ''h/tags/a'' 1000 (demo_tag_fs ''a.sst'') = ?r" using demo_tag_input [of "''a.sst''"] by simp
  moreover have "three_points = merge_points sort_points ?r" by (simp add: demo_tag_merge)
  moreover have "concat (map snd ?r) \<noteq> []" by (simp add: three_points_def)
  moreover have "can_merge ''h/tags/a'' three_points (demo_tag_fs ''a.sst'')" by (simp add: demo_tag_ready)
  moreover have "split_path (merge_path ''h/tags/a'' ''merged_'' three_points) \<notin> split_path ` fst ` set ?r"
    by (simp add: demo_tag_merge) (simp add: split_path_def)
  ultimately have k: "file_bytes (compact_tag sort_points ''h/tags/a'' 1000 (demo_tag_fs ''a.sst'')) ''h/tags/a/b.sst'' = None"
    "\<exists>ps. sst_read_file (merge_path ''h/tags/a'' ''merged_'' three_points) full_range
       (compact_tag sort_points ''h/tags/a'' 1000 (demo_tag_fs ''a.sst'')) = Some ps"
    using compaction_keeps_points [of "''h/tags/a''" 1000 "demo_tag_fs ''a.sst''" ?r three_points sort_points] sort_points_sorts
    by auto
  from k(2) sst_read_file_some show ?thesis using k(1) by (fastforce simp: demo_tag_merge file_bytes_def)
qed

text \<open>
  When the merged name is the name of a file that was read, as when two files have the same
  first and last timestamps as an earlier merge, the pass deletes the file it has just renamed:
  none of the points read is left in any of the files read or in the merged file.
\<close>

lemma compaction_collision_loses:
  assumes "compaction_input dir threshold fs = readable" "points = merge_points srt readable"
    and "concat (map snd readable) \<noteq> []" "can_merge dir points fs"
    and "split_path (merge_path dir ''merged_'' points) \<in> split_path ` fst ` set readable"
  shows "\<forall>f. split_path f \<in> {split_path (merge_path dir ''merged_'' points)} \<union> split_path ` fst ` set readable \<longrightarrow>
      file_bytes (compact_tag srt dir threshold fs) f = None"
proof -
  let ?merged = "merge_path dir ''merged_'' points"
  obtain i fs2 where w: "compact_tag srt dir threshold fs = remove_files (map fst readable) fs2"
    "map_of (fs_tree fs2) = (map_of (fs_tree fs))(split_path (merge_path dir ''.tmp_merge_'' points) := None,
       split_path ?merged \<mapsto> FileNode i)"
    using compact_tag_input [OF assms(1-4)] by metis
  have "file_bytes (compact_tag srt dir threshold fs) f = None" if "split_path f \<in> split_path ` fst ` set readable" for f
    using compaction_input_gone [OF assms(1,3) w(2) that] by (simp add: w(1) file_bytes_def)
  with assms(5) show ?thesis by auto
qed

lemma compaction_collision_loses_witness:
  "file_bytes (compact_tag sort_points ''h/tags/a'' 1000 (demo_tag_fs ''merged_0_2.sst'')) ''h/tags/a/merged_0_2.sst'' = None
   \<and> file_bytes (compact_tag sort_points ''h/tags/a'' 1000 (demo_tag_fs ''merged_0_2.sst'')) ''h/tags/a/b.sst'' = None"
proof -
  let ?r = "[(''h/tags/a/merged_0_2.sst'', three_points), (''h/tags/a/b.sst'', three_points)]"
  have "compaction_input ''h/tags/a'' 1000 (demo_tag_fs ''merged_0_2.sst'') = ?r"
    using demo_tag_input [of "''merged_0_2.sst''"] by simp
  moreover have "three_points = merge_points sort_points ?r" by (simp add: demo_tag_merge)
  moreover have "concat (map snd ?r) \<noteq> []" by (simp add: three_points_def)
  moreover have "can_merge ''h/tags/a'' three_points (demo_tag_fs ''merged_0_2.sst'')" by (simp add: demo_tag_ready)
  moreover have "split_path (merge_path ''h/tags/a'' ''merged_'' three_points) \<in> split_path ` fst ` set ?r"
    by (simp add: demo_tag_merge)
  ultimately show ?thesis
    using compaction_collision_loses [of "''h/tags/a''" 1000 "demo_tag_fs ''merged_0_2.sst''" ?r three_points sort_points]
    by auto
qed

end
