(* ===== verification/Tier_Manager.thy ===== *)
theory Tier_Manager
  imports File_Tree
begin

text \<open>
  The tier manager, \<^verbatim>\<open>src/src/storage/tier_manager.{h,cpp}\<close>: table files older than the hot
  retention move from \<^verbatim>\<open><hot>/tags\<close> to the cold directory, those older than the cold retention
  are archived, when an archive directory is set, and removed. The clock is a parameter in
  milliseconds; \<open>vol\<close> tells whether two paths lie on one volume, across volumes \<^verbatim>\<open>rename\<close> fails.
  The calls of the move callback are recorded in order.
\<close>

section \<open>State and operations\<close>

type_synonym i32 = "32 word"

record tier_manager =
  tm_hot_path :: string
  tm_cold_path :: string
  tm_archive_path :: string
  tm_hot_days :: i32
  tm_cold_days :: i32
  tm_interval :: i32
  tm_running :: bool
  tm_on_move :: bool

definition tm_new :: "string \<Rightarrow> string \<Rightarrow> string \<Rightarrow> i32 \<Rightarrow> i32 \<Rightarrow> tier_manager" where
  "tm_new hot cold archive hot_days cold_days = \<lparr>tm_hot_path = hot, tm_cold_path = cold,
     tm_archive_path = archive, tm_hot_days = hot_days, tm_cold_days = cold_days, tm_interval = 3600,
     tm_running = False, tm_on_move = False\<rparr>"

definition tm_start :: "tier_manager \<Rightarrow> tier_manager" where
  "tm_start t = (if tm_running t then t else t\<lparr>tm_running := True\<rparr>)"

definition tm_stop :: "tier_manager \<Rightarrow> tier_manager" where
  "tm_stop t = (if tm_running t then t\<lparr>tm_running := False\<rparr> else t)"

definition tm_set_interval :: "i32 \<Rightarrow> tier_manager \<Rightarrow> tier_manager" where
  "tm_set_interval seconds t = t\<lparr>tm_interval := (if seconds <s 60 then 60 else seconds)\<rparr>"

definition tm_rename :: "(string \<Rightarrow> string \<Rightarrow> bool) \<Rightarrow> string \<Rightarrow> string \<Rightarrow> fsys \<Rightarrow> bool \<times> fsys" where
  "tm_rename vol a b fs = (if vol a b then fs_rename a b fs else (False, fs))"

definition tm_cutoff :: "int \<Rightarrow> i32 \<Rightarrow> int" where
  "tm_cutoff now days = now - 24 * 3600 * 1000 * sint days"

definition tm_expired :: "int \<Rightarrow> dir_entry \<Rightarrow> fsys \<Rightarrow> bool" where
  "tm_expired cutoff e fs \<longleftrightarrow> is_sst_name (de_name e)
     \<and> 0 \<le> fs_last_write_time_ms (de_path e) fs \<and> fs_last_write_time_ms (de_path e) fs < cutoff"

type_synonym tier_state = "fsys \<times> (string \<times> string) list"

definition tm_move_file :: "(string \<Rightarrow> string \<Rightarrow> bool) \<Rightarrow> tier_manager \<Rightarrow> string \<Rightarrow> dir_entry \<Rightarrow> tier_state \<Rightarrow> tier_state" where
  "tm_move_file vol t tag e st =
     (let cold_tag_dir = tm_cold_path t @ ''/'' @ tag;
          fs = snd (create_directories cold_tag_dir (fst st));
          dest = cold_tag_dir @ ''/'' @ de_name e;
          fs = (case tm_rename vol (de_path e) dest fs of
                  (True, fs) \<Rightarrow> fs
                | (False, fs) \<Rightarrow>
                    (case fs_copy (de_path e) dest fs of
                       (True, fs) \<Rightarrow> snd (fs_remove (de_path e) fs)
                     | (False, fs) \<Rightarrow> fs))
      in (fs, if tm_on_move t then snd st @ [(tag, dest)] else snd st))"

definition tm_move_files :: "(string \<Rightarrow> string \<Rightarrow> bool) \<Rightarrow> int \<Rightarrow> tier_manager \<Rightarrow> string \<Rightarrow> dir_entry list \<Rightarrow> tier_state \<Rightarrow> tier_state" where
  "tm_move_files vol cutoff t tag es st =
     fold (\<lambda>e st. if tm_expired cutoff e (fst st) then tm_move_file vol t tag e st else st) es st"

definition tm_move_tag :: "(string \<Rightarrow> string \<Rightarrow> bool) \<Rightarrow> int \<Rightarrow> tier_manager \<Rightarrow> dir_entry \<Rightarrow> tier_state \<Rightarrow> tier_state" where
  "tm_move_tag vol cutoff t tag_entry st =
     (let st = (case list_directory (de_path tag_entry) (fst st) of
                  None \<Rightarrow> st
                | Some es \<Rightarrow> tm_move_files vol cutoff t (de_name tag_entry) es st)
      in if fs_is_empty (de_path tag_entry) (fst st) then (snd (fs_remove (de_path tag_entry) (fst st)), snd st) else st)"

definition tm_move_expired :: "(string \<Rightarrow> string \<Rightarrow> bool) \<Rightarrow> int \<Rightarrow> tier_manager \<Rightarrow> tier_state \<Rightarrow> tier_state" where
  "tm_move_expired vol now t st =
     (let cutoff = tm_cutoff now (tm_hot_days t); tags = tm_hot_path t @ ''/tags'' in
      if \<not> fs_exists tags (fst st) then st
      else case list_directory tags (fst st) of
        None \<Rightarrow> st
      | Some es \<Rightarrow> fold (\<lambda>e st. if de_is_directory e then tm_move_tag vol cutoff t e st else st) es st)"

text \<open>The directory part of a path, cut at the last slash or backslash.\<close>

definition dir_part :: "string \<Rightarrow> string option" where
  "dir_part s =
     (if CHR ''/'' \<in> set s \<or> CHR 0x5C \<in> set s
      then Some (butlast (rev (dropWhile (\<lambda>c. c \<noteq> CHR ''/'' \<and> c \<noteq> CHR 0x5C) (rev s)))) else None)"

definition tm_archive :: "(string \<Rightarrow> string \<Rightarrow> bool) \<Rightarrow> tier_manager \<Rightarrow> string \<Rightarrow> fsys \<Rightarrow> fsys" where
  "tm_archive vol t path fs =
     (if length path < length (tm_cold_path t) + 1 then fs
      else let archive_file = tm_archive_path t @ ''/'' @ drop (length (tm_cold_path t) + 1) path;
               fs = (case dir_part archive_file of None \<Rightarrow> fs | Some d \<Rightarrow> snd (create_directories d fs))
        in snd (tm_rename vol path archive_file fs))"

definition tm_prune_file :: "(string \<Rightarrow> string \<Rightarrow> bool) \<Rightarrow> int \<Rightarrow> tier_manager \<Rightarrow> dir_entry \<Rightarrow> fsys \<Rightarrow> fsys" where
  "tm_prune_file vol cutoff t e fs =
     (if tm_expired cutoff e fs
      then snd (fs_remove (de_path e) (if tm_archive_path t \<noteq> [] then tm_archive vol t (de_path e) fs else fs))
      else fs)"

definition tm_prune_tag :: "(string \<Rightarrow> string \<Rightarrow> bool) \<Rightarrow> int \<Rightarrow> tier_manager \<Rightarrow> dir_entry \<Rightarrow> fsys \<Rightarrow> fsys" where
  "tm_prune_tag vol cutoff t tag_entry fs =
     (case list_directory (de_path tag_entry) fs of
        None \<Rightarrow> fs | Some es \<Rightarrow> fold (tm_prune_file vol cutoff t) es fs)"

definition tm_prune_expired :: "(string \<Rightarrow> string \<Rightarrow> bool) \<Rightarrow> int \<Rightarrow> tier_manager \<Rightarrow> fsys \<Rightarrow> fsys" where
  "tm_prune_expired vol now t fs =
     (if \<not> fs_exists (tm_cold_path t) fs then fs
      else case list_directory (tm_cold_path t) fs of
        None \<Rightarrow> fs
      | Some es \<Rightarrow> fold (\<lambda>e fs. if de_is_directory e then tm_prune_tag vol (tm_cutoff now (tm_cold_days t)) t e fs else fs) es fs)"

definition tm_run_once :: "(string \<Rightarrow> string \<Rightarrow> bool) \<Rightarrow> int \<Rightarrow> int \<Rightarrow> tier_manager \<Rightarrow> tier_state \<Rightarrow> tier_state" where
  "tm_run_once vol now1 now2 t st =
     (case tm_move_expired vol now1 t st of (fs, calls) \<Rightarrow> (tm_prune_expired vol now2 t fs, calls))"

definition tm_turn :: "(string \<Rightarrow> string \<Rightarrow> bool) \<Rightarrow> int \<Rightarrow> int \<Rightarrow> tier_manager \<Rightarrow> tier_state \<Rightarrow> tier_state" where
  "tm_turn vol now1 now2 t st = (if tm_running t then tm_run_once vol now1 now2 t st else st)"

section \<open>A pass keeps the contents\<close>

text \<open>
  \<open>kept h c fs fs'\<close>: a file below \<open>h\<close> stays or moves to the same place below \<open>c\<close>, a name below \<open>h\<close>
  without a file leaves its place below \<open>c\<close> alone, and files elsewhere stay as they are.
\<close>

definition kept :: "path \<Rightarrow> path \<Rightarrow> fsys \<Rightarrow> fsys \<Rightarrow> bool" where
  "kept h c fs fs' \<longleftrightarrow> (fs_wf fs \<longrightarrow> fs_wf fs')
     \<and> (\<forall>r d. fs_wf fs \<and> file_at fs (h @ r) = Some d \<longrightarrow>
          file_at fs' (h @ r) = Some d \<or> file_at fs' (h @ r) = None \<and> file_at fs' (c @ r) = Some d)
     \<and> (\<forall>r. fs_wf fs \<and> file_at fs (h @ r) = None \<longrightarrow>
          file_at fs' (h @ r) = None \<and> file_at fs' (c @ r) = file_at fs (c @ r))
     \<and> (\<forall>p. fs_wf fs \<and> \<not> prefix h p \<and> \<not> prefix c p \<longrightarrow> file_at fs' p = file_at fs p)"

lemma kept_refl: "kept h c fs fs"
  by (auto simp: kept_def)

lemma kept_trans: "kept h c fs fs' \<Longrightarrow> kept h c fs' fs'' \<Longrightarrow> kept h c fs fs''"
  unfolding kept_def by (smt (verit))

lemma kept_same: "(\<And>p. file_at fs' p = file_at fs p) \<Longrightarrow> (fs_wf fs \<Longrightarrow> fs_wf fs') \<Longrightarrow> kept h c fs fs'"
  by (auto simp: kept_def)

lemma kept_moved:
  assumes "\<not> prefix h c" "\<not> prefix c h" "file_at fs (h @ r) \<noteq> None" "fs_wf fs'"
    and "\<And>p. file_at fs' p = (if p = h @ r then None else if p = c @ r then file_at fs (h @ r) else file_at fs p)"
  shows "kept h c fs fs'"
proof -
  have "h @ x \<noteq> c @ y" "c @ y \<noteq> h @ x" for x y
    using assms(1,2) by (metis prefix_same_cases prefixI)+
  then show ?thesis using assms(3-5) by (auto simp: kept_def)
qed

lemma tm_move_file_kept:
  assumes "\<not> prefix h c" "\<not> prefix c h" "split_path (de_path e) = h @ r"
    and "split_path (tm_cold_path t @ ''/'' @ tag @ ''/'' @ de_name e) = c @ r"
  shows "kept h c (fst st) (fst (tm_move_file vol t tag e st))"
proof (cases "fs_wf (fst st)")
  case True
  let ?dest = "tm_cold_path t @ ''/'' @ tag @ ''/'' @ de_name e" and ?src = "de_path e"
  let ?fs = "snd (create_directories (tm_cold_path t @ ''/'' @ tag) (fst st))"
  have wf: "fs_wf ?fs" using True by (simp add: create_directories_wf)
  have ne: "split_path ?src \<noteq> split_path ?dest"
    using assms by (metis prefix_same_cases prefixI)
  obtain ok fs1 where r: "tm_rename vol ?src ?dest ?fs = (ok, fs1)" by (metis surj_pair)
  have k: "kept h c ?fs (fst (tm_move_file vol t tag e st))"
  proof (cases ok)
    case True
    then have "fs_rename ?src ?dest ?fs = (True, fs1)" using r by (auto simp: tm_rename_def split: if_splits)
    note f = file_at_rename [OF this wf ne]
    have "kept h c ?fs fs1"
      using f ne unfolding assms(3,4) by (intro kept_moved [OF assms(1,2), of _ r]) auto
    then show ?thesis using True r by (simp add: tm_move_file_def Let_def)
  next
    case False
    then have fs1: "fs1 = ?fs" using r fs_rename_False by (auto simp: tm_rename_def split: if_splits)
    obtain cok fs2 where cp: "fs_copy ?src ?dest ?fs = (cok, fs2)" by (metis surj_pair)
    note f = file_at_copy [OF cp wf ne]
    show ?thesis
    proof (cases cok)
      case True
      have "kept h c ?fs (snd (fs_remove ?src fs2))"
        using f True ne unfolding assms(3,4)
        by (intro kept_moved [OF assms(1,2), of _ r]) (auto simp: file_at_remove fs_remove_wf assms(3))
      then show ?thesis using False True r cp fs1 by (simp add: tm_move_file_def Let_def)
    next
      case no: False
      have "kept h c ?fs fs2" using f no by (intro kept_same) auto
      then show ?thesis using False no r cp fs1 by (simp add: tm_move_file_def Let_def)
    qed
  qed
  have "kept h c (fst st) ?fs" by (rule kept_same) (simp_all add: create_directories_wf)
  from kept_trans [OF this k] show ?thesis .
qed (simp add: kept_def)

lemma fold_kept:
  assumes "\<And>x st. x \<in> set xs \<Longrightarrow> P (fst st) \<Longrightarrow> kept h c (fst st) (fst (g x st))"
    and "\<And>fs fs'. P fs \<Longrightarrow> kept h c fs fs' \<Longrightarrow> P fs'" "P (fst st)"
  shows "kept h c (fst st) (fst (fold g xs st))"
  using assms(1,3)
proof (induction xs arbitrary: st)
  case (Cons x xs)
  have k: "kept h c (fst st) (fst (g x st))" using Cons.prems by simp
  have "kept h c (fst (g x st)) (fst (fold g xs (g x st)))"
    using Cons.IH [of "g x st"] Cons.prems assms(2) [OF Cons.prems(2) k] by simp
  from kept_trans [OF k this] show ?case by simp
qed (simp add: kept_refl)

text \<open>Names in a directory are single components, and every path has one entry.\<close>

definition well_named :: "fsys \<Rightarrow> bool" where
  "well_named fs \<longleftrightarrow> distinct (map fst (fs_tree fs)) \<and> list_all (\<lambda>(p, _). list_all plain_component (tl p)) (fs_tree fs)"

lemma list_directory_entry:
  assumes "list_directory d fs = Some es" "e \<in> set es"
  obtains q n where "(q, n) \<in> set (fs_tree fs)" "q \<noteq> []" "butlast q = split_path d" "de_name e = last q"
    "de_path e = d @ ''/'' @ last q" "de_is_directory e = (n = DirNode)"
  using assms by (auto simp: list_directory_def Let_def children_def dir_entry_of_def split: if_splits)

lemma tm_move_files_kept:
  assumes "\<not> prefix (split_path tags) (split_path (tm_cold_path t))" "\<not> prefix (split_path (tm_cold_path t)) (split_path tags)"
    and "tags \<noteq> []" "tm_cold_path t \<noteq> []" "\<And>e. e \<in> set es \<Longrightarrow> de_path e = tags @ ''/'' @ tag @ ''/'' @ de_name e"
  shows "kept (split_path tags) (split_path (tm_cold_path t)) (fst st) (fst (tm_move_files vol cutoff t tag es st))"
  unfolding tm_move_files_def
proof (rule fold_kept [where P = "\<lambda>_. True"])
  fix e st assume e: "e \<in> set es"
  have "split_path (de_path e) = split_path tags @ comps (tag @ ''/'' @ de_name e)"
    "split_path (tm_cold_path t @ ''/'' @ tag @ ''/'' @ de_name e) = split_path (tm_cold_path t) @ comps (tag @ ''/'' @ de_name e)"
    using split_path_comps [OF assms(3), of "tag @ ''/'' @ de_name e"]
      split_path_comps [OF assms(4), of "tag @ ''/'' @ de_name e"] assms(5) [OF e] by simp_all
  from tm_move_file_kept [OF assms(1,2) this]
  show "kept (split_path tags) (split_path (tm_cold_path t)) (fst st)
    (fst (if tm_expired cutoff e (fst st) then tm_move_file vol t tag e st else st))"
    by (simp add: kept_refl)
qed simp_all

lemma tm_move_tag_kept:
  assumes "\<not> prefix (split_path tags) (split_path (tm_cold_path t))" "\<not> prefix (split_path (tm_cold_path t)) (split_path tags)"
    and "tags \<noteq> []" "tm_cold_path t \<noteq> []" "de_path e = tags @ ''/'' @ de_name e" "fs_wf (fst st)"
    and "file_at (fst st) (split_path tags @ comps (de_name e)) = None"
  shows "kept (split_path tags) (split_path (tm_cold_path t)) (fst st) (fst (tm_move_tag vol cutoff t e st))"
proof -
  let ?st = "case list_directory (de_path e) (fst st) of None \<Rightarrow> st
    | Some es \<Rightarrow> tm_move_files vol cutoff t (de_name e) es st"
  let ?h = "split_path tags" and ?c = "split_path (tm_cold_path t)"
  have k: "kept ?h ?c (fst st) (fst ?st)"
  proof (cases "list_directory (de_path e) (fst st)")
    case (Some es)
    have "de_path x = tags @ ''/'' @ de_name e @ ''/'' @ de_name x" if "x \<in> set es" for x
      using list_directory_entry [OF Some that] assms(5) by (metis append.assoc)
    from tm_move_files_kept [OF assms(1-4) this] show ?thesis using Some by simp
  qed (simp add: kept_refl)
  have dir: "split_path (de_path e) = ?h @ comps (de_name e)"
    using split_path_comps [OF assms(3), of "de_name e"] assms(5) by simp
  have "file_at (fst ?st) (split_path (de_path e)) = None"
    using k assms(6,7) unfolding dir kept_def by blast
  then have "kept ?h ?c (fst ?st) (snd (fs_remove (de_path e) (fst ?st)))"
    by (intro kept_same) (auto simp: file_at_remove fs_remove_wf)
  with k show ?thesis by (auto simp: tm_move_tag_def Let_def intro: kept_trans)
qed

lemma tm_move_expired_kept:
  assumes "apart (tm_hot_path t @ ''/tags'') (tm_cold_path t)" "tm_cold_path t \<noteq> []"
    and "fs_wf fs" "well_named fs"
  shows "kept (split_path (tm_hot_path t @ ''/tags'')) (split_path (tm_cold_path t)) fs
    (fst (tm_move_expired vol now t (fs, calls)))"
proof -
  let ?tags = "tm_hot_path t @ ''/tags''" and ?c = "split_path (tm_cold_path t)"
  have ap: "\<not> prefix (split_path ?tags) ?c" "\<not> prefix ?c (split_path ?tags)" using assms(1) by (simp_all add: apart_def)
  have ne: "?tags \<noteq> []" "split_path ?tags \<noteq> []" using ap(1) by auto
  show ?thesis
  proof (cases "list_directory ?tags fs")
    case None
    then show ?thesis by (simp add: tm_move_expired_def Let_def kept_refl)
  next
    case (Some es)
    let ?g = "\<lambda>e st. if de_is_directory e then tm_move_tag vol (tm_cutoff now (tm_hot_days t)) t e st else st"
    define P where "P f \<longleftrightarrow> fs_wf f \<and> (\<forall>e\<in>set es. de_is_directory e \<longrightarrow> file_at f (split_path ?tags @ comps (de_name e)) = None)" for f
    have e: "de_path e = ?tags @ ''/'' @ de_name e"
      "de_is_directory e \<Longrightarrow> file_at fs (split_path ?tags @ comps (de_name e)) = None" if x: "e \<in> set es" for e
    proof -
      obtain q n where q: "(q, n) \<in> set (fs_tree fs)" "q \<noteq> []" "butlast q = split_path ?tags" "de_name e = last q"
        "de_path e = ?tags @ ''/'' @ last q" "de_is_directory e = (n = DirNode)"
        using list_directory_entry [OF Some x] .
      show "de_path e = ?tags @ ''/'' @ de_name e" using q by simp
      assume d: "de_is_directory e"
      have "tl q \<noteq> []" "last q = last (tl q)" using q(2,3) ne(2) by (cases q; simp split: if_splits)+
      then have "plain_component (last q)"
        using q(1) assms(4) by (auto simp: well_named_def list_all_iff)
      moreover have "map_of (fs_tree fs) q = Some DirNode"
        using q(1,6) d assms(4) by (simp add: well_named_def)
      moreover have "q = split_path ?tags @ [last q]" using q(2,3) by (metis append_butlast_last_id)
      ultimately show "file_at fs (split_path ?tags @ comps (de_name e)) = None"
        by (simp add: q(4) comps_plain file_at_def)
    qed
    have "kept (split_path ?tags) ?c (fst (fs, calls)) (fst (fold ?g es (fs, calls)))"
    proof (rule fold_kept [where P = P])
      fix e and st :: tier_state assume "e \<in> set es" "P (fst st)"
      then show "kept (split_path ?tags) ?c (fst st) (fst (?g e st))"
        using tm_move_tag_kept [OF ap ne(1) assms(2) e(1)] by (auto simp: P_def kept_refl)
    next
      fix f f' assume "P f" "kept (split_path ?tags) ?c f f'"
      then show "P f'" unfolding P_def kept_def by blast
    next
      show "P (fst (fs, calls))" using e(2) assms(3) by (simp add: P_def)
    qed
    then show ?thesis using Some list_directory_exists [OF Some] by (simp add: tm_move_expired_def Let_def kept_refl)
  qed
qed

section \<open>One file\<close>

text \<open>An expired file moves, by renaming on one volume and by copying across volumes.\<close>

lemma tm_move_file_moves:
  assumes "fs_wf fs" "file_bytes fs (de_path e) = Some d"
    and "split_path (de_path e) \<noteq> split_path (tm_cold_path t @ ''/'' @ tag @ ''/'' @ de_name e)"
    and "is_dir (snd (create_directories (tm_cold_path t @ ''/'' @ tag) fs))
           (butlast (split_path (tm_cold_path t @ ''/'' @ tag @ ''/'' @ de_name e)))"
    and "\<not> is_dir (snd (create_directories (tm_cold_path t @ ''/'' @ tag) fs))
           (split_path (tm_cold_path t @ ''/'' @ tag @ ''/'' @ de_name e))"
  shows "file_bytes (fst (tm_move_file vol t tag e (fs, calls))) (tm_cold_path t @ ''/'' @ tag @ ''/'' @ de_name e) = Some d
    \<and> file_bytes (fst (tm_move_file vol t tag e (fs, calls))) (de_path e) = None"
proof -
  let ?dest = "tm_cold_path t @ ''/'' @ tag @ ''/'' @ de_name e" and ?src = "de_path e"
  let ?fs = "snd (create_directories (tm_cold_path t @ ''/'' @ tag) fs)"
  have wf: "fs_wf ?fs" using assms(1) by (simp add: create_directories_wf)
  have d: "file_at ?fs (split_path ?src) = Some d" using assms(2) by (simp add: file_at_bytes)
  then obtain i where i: "map_of (fs_tree ?fs) (split_path ?src) = Some (FileNode i)" unfolding file_at_Some by blast
  show ?thesis
  proof (cases "vol ?src ?dest")
    case True
    obtain fs1 where r: "fs_rename ?src ?dest ?fs = (True, fs1)"
      using i assms(3-5) by (simp add: fs_rename_def Let_def)
    from file_at_rename [OF r wf assms(3)] d assms(3) True r show ?thesis
      by (simp add: tm_move_file_def tm_rename_def Let_def file_at_bytes)
  next
    case False
    have "fst (file_open ?dest WRITE f) \<noteq> None" if "f = ?fs" for f
      using that assms(4,5) by (auto simp: file_open_def Let_def is_dir_def split: option.split node.split prod.split)
    then obtain h fs1 where h: "file_open ?dest WRITE ?fs = (Some h, fs1)" by (metis option.exhaust prod.collapse)
    then have wm: "of_mode h = WRITE" using file_open_some(1) [OF h wf] by simp
    have "file_open ?src READ ?fs = (Some \<lparr>of_ino = i, of_pos = 0, of_mode = READ\<rparr>, ?fs)"
      using i by (simp add: file_open_def Let_def)
    moreover have "fst (file_write x (Some h) fs1)" for x using wm by (simp add: file_write_def Let_def)
    ultimately have "fst (fs_copy ?src ?dest ?fs)" using h by (simp add: fs_copy_def split_beta)
    then obtain fs2 where c: "fs_copy ?src ?dest ?fs = (True, fs2)" by (metis (full_types) prod.collapse)
    from file_at_copy [OF c wf assms(3)] d assms(3) False c show ?thesis
      by (simp add: tm_move_file_def tm_rename_def Let_def file_at_bytes file_at_remove)
  qed
qed

text \<open>Archiving on the volume of the cold store keeps the file under the archive name.\<close>

lemma tm_prune_file_archives:
  fixes archive_file :: string
  assumes "fs_wf fs" "file_bytes fs (de_path e) = Some d" "tm_expired cutoff e fs" "tm_archive_path t \<noteq> []"
    and "de_path e = tm_cold_path t @ ''/'' @ r" "archive_file = tm_archive_path t @ ''/'' @ r"
    and "vol (de_path e) archive_file" "split_path (de_path e) \<noteq> split_path archive_file"
    and "dir_part archive_file = Some dir" "is_dir (snd (create_directories dir fs)) (butlast (split_path archive_file))"
    and "\<not> is_dir (snd (create_directories dir fs)) (split_path archive_file)"
  shows "file_bytes (tm_prune_file vol cutoff t e fs) archive_file = Some d"
proof -
  let ?fs = "snd (create_directories dir fs)"
  have wf: "fs_wf ?fs" using assms(1) by (simp add: create_directories_wf)
  have d: "file_at ?fs (split_path (de_path e)) = Some d" using assms(2) by (simp add: file_at_bytes)
  then obtain i where i: "map_of (fs_tree ?fs) (split_path (de_path e)) = Some (FileNode i)" unfolding file_at_Some by blast
  obtain fs1 where r: "fs_rename (de_path e) archive_file ?fs = (True, fs1)"
    using i assms(8,10,11) by (simp add: fs_rename_def Let_def)
  have "tm_prune_file vol cutoff t e fs = snd (fs_remove (de_path e) fs1)"
    using assms(3-7,9) r by (simp add: tm_prune_file_def tm_archive_def tm_rename_def Let_def)
  with file_at_rename(3) [OF r wf assms(8)] d assms(8) show ?thesis
    by (simp add: file_at_bytes file_at_remove)
qed

section \<open>Properties\<close>


definition demo_tiers :: tier_manager where
  "demo_tiers = tm_new ''h'' ''c'' ''x'' 1 1"

definition demo_tier_fs :: fsys where
  "demo_tier_fs = \<lparr>fs_tree = [([''h''], DirNode), ([''h'', ''tags''], DirNode), ([''h'', ''tags'', ''k''], DirNode),
       ([''h'', ''tags'', ''k'', ''a.sst''], FileNode 0), ([''c''], DirNode), ([''c'', ''k''], DirNode),
       ([''c'', ''k'', ''b.sst''], FileNode 1)],
     fs_inodes = (\<lambda>_. \<lparr>in_data = [7], in_mtime = 0\<rparr>), fs_next = 2, fs_clock = 0\<rparr>"

lemma demo_tier_fs_wf: "fs_wf demo_tier_fs" "well_named demo_tier_fs"
  by (auto simp: fs_wf_def demo_tier_fs_def split: if_splits) (simp add: well_named_def plain_component_def)


text \<open>
  Archiving to an external disk loses the data: the archive is reached by a rename only, whose
  failure is ignored. When the archive lies on another volume than the cold store, an expired file is
  removed and no file anywhere receives its bytes.
\<close>

lemma tier_external_archive_loses:
  assumes "tm_expired cutoff e fs" "tm_archive_path t \<noteq> []" "de_path e = tm_cold_path t @ ''/'' @ r"
    and "\<not> vol (de_path e) (tm_archive_path t @ ''/'' @ r)"
  shows "file_bytes (tm_prune_file vol cutoff t e fs) f =
    (if split_path f = split_path (de_path e) then None else file_bytes fs f)"
  using assms by (simp add: tm_prune_file_def tm_archive_def tm_rename_def Let_def file_at_bytes file_at_remove split: option.split)

lemma tier_external_archive_loses_witness:
  "file_bytes demo_tier_fs ''c/k/b.sst'' = Some [7]
   \<and> file_bytes (tm_prune_file (\<lambda>_ _. False) 1000 demo_tiers (dir_entry_of ''c/k'' demo_tier_fs ([''c'', ''k'', ''b.sst''], FileNode 1)) demo_tier_fs)
       ''c/k/b.sst'' = None
   \<and> file_bytes (tm_prune_file (\<lambda>_ _. False) 1000 demo_tiers (dir_entry_of ''c/k'' demo_tier_fs ([''c'', ''k'', ''b.sst''], FileNode 1)) demo_tier_fs)
       ''x/k/b.sst'' = None"
proof -
  let ?e = "dir_entry_of ''c/k'' demo_tier_fs ([''c'', ''k'', ''b.sst''], FileNode 1)"
  have "tm_expired 1000 ?e demo_tier_fs" "tm_archive_path demo_tiers \<noteq> []"
    "de_path ?e = tm_cold_path demo_tiers @ ''/'' @ ''k/b.sst''" "\<not> (\<lambda>_ _. False) (de_path ?e) (tm_archive_path demo_tiers @ ''/'' @ ''k/b.sst'')"
    by code_simp+
  note l = tier_external_archive_loses [OF this]
  have "file_bytes demo_tier_fs ''c/k/b.sst'' = Some [7]" "file_bytes demo_tier_fs ''x/k/b.sst'' = None"
    "split_path ''c/k/b.sst'' = split_path (de_path ?e)" by code_simp+
  then show ?thesis using l by simp
qed

end
