(* ===== verification/Log_Sink.thy ===== *)
theory Log_Sink
  imports File_Tree
begin

text \<open>
  The log file, \<^verbatim>\<open>src/src/common/logger.{h,cpp}\<close>: a sink that appends formatted messages, renames the
  file when it has reached its size and compresses the archive. The clock, \<^verbatim>\<open>zlib\<close> and
  \<^verbatim>\<open>std::sort\<close> are arguments, the format of a message is the library's. Messages of level
  debug are compiled out (\<^verbatim>\<open>SPDLOG_ACTIVE_LEVEL\<close> is left at its default).
\<close>

section \<open>The sink\<close>

record log_env =
  lv_gzip :: "byte list \<Rightarrow> byte list"
  lv_sort :: "(string \<Rightarrow> int) \<Rightarrow> string list \<Rightarrow> string list"

record log_sink =
  ls_base_filename :: string
  ls_max_size :: u64
  ls_max_files :: nat
  ls_compress :: bool
  ls_file :: os_file
  ls_current_size :: u64

text \<open>What is before and behind the last slash or backslash.\<close>

definition is_sep :: "char \<Rightarrow> bool" where
  "is_sep c \<longleftrightarrow> c = CHR ''/'' \<or> c = CHR 0x5C"

definition before_sep :: "string \<Rightarrow> string option" where
  "before_sep s =
     (if list_ex is_sep s then Some (rev (tl (dropWhile (\<lambda>c. \<not> is_sep c) (rev s)))) else None)"

definition after_sep :: "string \<Rightarrow> string" where
  "after_sep s = rev (takeWhile (\<lambda>c. \<not> is_sep c) (rev s))"

text \<open>\<open>None\<close> is an exception of the constructor.\<close>

definition log_new :: "string \<Rightarrow> u64 \<Rightarrow> nat \<Rightarrow> bool \<Rightarrow> fsys \<Rightarrow> log_sink option \<times> fsys" where
  "log_new base max_size max_files compress fs =
     (let fs = (case before_sep base of Some d \<Rightarrow> snd (create_directories d fs) | None \<Rightarrow> fs) in
      case file_open base APPEND fs of
        (None, fs) \<Rightarrow> (None, fs)
      | (f, fs) \<Rightarrow>
          (Some \<lparr>ls_base_filename = base, ls_max_size = max_size, ls_max_files = max_files, ls_compress = compress,
             ls_file = f, ls_current_size = word_of_int (file_size f fs)\<rparr>, fs))"

lemma file_read_progress:
  "file_read n f fs = (Some chunk, g) \<Longrightarrow> chunk \<noteq> [] \<Longrightarrow>
   (case g of None \<Rightarrow> 0 | Some h \<Rightarrow> length (ino_data fs (of_ino h)) - of_pos h)
     < (case f of None \<Rightarrow> 0 | Some h \<Rightarrow> length (ino_data fs (of_ino h)) - of_pos h)"
  by (auto simp: file_read_def Let_def split: option.splits if_splits)

text \<open>The bytes that the loop hands to \<^verbatim>\<open>gzwrite\<close>, 8192 at a time.\<close>

function gz_input :: "os_file \<Rightarrow> fsys \<Rightarrow> byte list" where
  "gz_input f fs =
     (case file_read 8192 f fs of
        (None, _) \<Rightarrow> []
      | (Some chunk, f) \<Rightarrow> if chunk = [] then [] else chunk @ gz_input f fs)"
  by pat_completeness auto

termination
proof (relation "measure (\<lambda>(f, fs). case f of None \<Rightarrow> 0 | Some h \<Rightarrow> length (ino_data fs (of_ino h)) - of_pos h)")
  fix f g :: os_file and fs x y z
  assume "(x, y) = file_read 8192 f fs" "x = Some z" "z \<noteq> []"
  then show "((y, fs), f, fs) \<in> measure (\<lambda>(f, fs). case f of None \<Rightarrow> 0 | Some h \<Rightarrow> length (ino_data fs (of_ino h)) - of_pos h)"
    using file_read_progress [of 8192 f fs z y] by simp
qed simp

declare gz_input.simps [simp del]

text \<open>
  Compressing an archive. When the target cannot be opened, the sink logs a warning to the logger it
  belongs to while it holds its mutexes; \<open>None\<close> says that this never returns.
\<close>

definition log_compress :: "(byte list \<Rightarrow> byte list) \<Rightarrow> string \<Rightarrow> fsys \<Rightarrow> fsys option" where
  "log_compress gzip archived fs =
     (case file_open (archived @ ''.gz'') WRITE fs of
        (None, _) \<Rightarrow> None
      | (gz, fs) \<Rightarrow>
          let content = (case file_open archived READ fs of (None, _) \<Rightarrow> [] | (f, _) \<Rightarrow> gz_input f fs);
              fs = snd (snd (file_write (gzip content) gz fs))
          in Some (snd (fs_remove archived fs)))"

function remove_oldest :: "nat \<Rightarrow> string list \<Rightarrow> fsys \<Rightarrow> fsys" where
  "remove_oldest n files fs =
     (if n < length files then remove_oldest n (butlast files) (snd (fs_remove (last files) fs)) else fs)"
  by pat_completeness auto
termination by (relation "measure (\<lambda>(n, files, fs). length files)") auto

declare remove_oldest.simps [simp del]

definition log_archives :: "log_sink \<Rightarrow> fsys \<Rightarrow> string list" where
  "log_archives l fs =
     (let base = ls_base_filename l;
          dir = (case before_sep base of Some d \<Rightarrow> d | None \<Rightarrow> ''.'')
      in case list_directory dir fs of
           None \<Rightarrow> []
         | Some entries \<Rightarrow>
             map de_path (filter (\<lambda>e. prefix (base @ ''.'') (de_name e) \<and> de_name e \<noteq> after_sep base) entries))"

text \<open>The sort puts the file with the latest time first.\<close>

definition log_cleanup :: "log_env \<Rightarrow> log_sink \<Rightarrow> fsys \<Rightarrow> fsys" where
  "log_cleanup lv l fs =
     remove_oldest (ls_max_files l) (lv_sort lv (\<lambda>s. - fs_last_write_time_ms s fs) (log_archives l fs)) fs"

datatype log_outcome = Logged | Open_failed | Deadlocked

definition archive_name :: "string \<Rightarrow> int \<Rightarrow> string" where
  "archive_name base now = base @ ''.'' @ to_string now"

definition log_rotate :: "log_env \<Rightarrow> int \<Rightarrow> log_sink \<Rightarrow> fsys \<Rightarrow> log_outcome \<times> log_sink \<times> fsys" where
  "log_rotate lv now l fs =
     (let l = l\<lparr>ls_file := file_close (ls_file l)\<rparr>;
          base = ls_base_filename l;
          archived = archive_name base now;
          fs = snd (fs_rename base archived fs)
      in case (if ls_compress l then log_compress (lv_gzip lv) archived fs else Some fs) of
           None \<Rightarrow> (Deadlocked, l, fs)
         | Some fs \<Rightarrow>
             (case file_open base WRITE (log_cleanup lv l fs) of
                (None, fs) \<Rightarrow> (Open_failed, l, fs)
              | (f, fs) \<Rightarrow> (Logged, l\<lparr>ls_file := f, ls_current_size := 0\<rparr>, fs)))"

definition log_sink_it :: "log_env \<Rightarrow> int \<Rightarrow> byte list \<Rightarrow> log_sink \<times> fsys \<Rightarrow> log_outcome \<times> log_sink \<times> fsys" where
  "log_sink_it lv now formatted s =
     (case s of (l, fs) \<Rightarrow>
        let size = ls_current_size l + word_of_nat (length formatted) in
        (case file_write formatted (ls_file l) fs of
           (_, f, fs) \<Rightarrow>
             let l = l\<lparr>ls_file := f, ls_current_size := size\<rparr> in
             if ls_max_size l \<le> size then log_rotate lv now l fs else (Logged, l, fs)))"

text \<open>The sink that \<^verbatim>\<open>LogInit\<close> installs; \<open>env_dir\<close> is the variable \<^verbatim>\<open>MINITSDB_LOG_DIR\<close>.\<close>

definition log_init :: "string option \<Rightarrow> fsys \<Rightarrow> log_sink option \<times> fsys" where
  "log_init env_dir fs =
     (let log_dir = (case env_dir of Some d \<Rightarrow> d | None \<Rightarrow> ''./logs'')
      in log_new (log_dir @ ''/minitsdb.log'') (25 * 1024 * 1024) 1000 True fs)"

section \<open>Compressing and rotating\<close>

lemma gz_input_all: "gz_input (rd_handle i p) fs = drop p (ino_data fs i)"
proof (induction "length (ino_data fs i) - p" arbitrary: p rule: less_induct)
  case less
  let ?d = "drop p (ino_data fs i)"
  have e: "gz_input (rd_handle i p) fs =
      (if take 8192 ?d = [] then [] else take 8192 ?d @ gz_input (rd_handle i (p + length (take 8192 ?d))) fs)"
    by (subst gz_input.simps) (simp add: file_read_some Let_def)
  show ?case
  proof (cases "?d = []")
    case True
    with e show ?thesis by simp
  next
    case False
    then have "length (ino_data fs i) - (p + length (take 8192 ?d)) < length (ino_data fs i) - p" by simp
    from less [OF this] e False show ?thesis
      by (simp add: drop_drop [symmetric] add.commute [of p] del: drop_drop length_take length_drop)
         (metis append_take_drop_id append_eq_conv_conj length_take min.commute drop_drop add.commute)
  qed
qed

lemma log_compress_ok:
  assumes "fs_wf fs" "file_at fs (split_path a) = Some d" "split_path (a @ ''.gz'') \<noteq> split_path a"
    and "\<not> is_root (split_path (a @ ''.gz''))" "is_dir fs (butlast (split_path (a @ ''.gz'')))"
    and "map_of (fs_tree fs) (split_path (a @ ''.gz'')) \<noteq> Some DirNode"
  shows "\<exists>fs'. log_compress gzip a fs = Some fs' \<and> touches {split_path a, split_path (a @ ''.gz'')} fs fs'
    \<and> file_at fs' (split_path (a @ ''.gz'')) = Some (gzip d)"
proof -
  let ?p = "split_path a" and ?g = "split_path (a @ ''.gz'')"
  obtain h fs1 where o: "file_open (a @ ''.gz'') WRITE fs = (Some h, fs1)" "of_mode h = WRITE" "of_pos h = 0"
    "map_of (fs_tree fs1) ?g = Some (FileNode (of_ino h))" "ino_data fs1 (of_ino h) = []" "touches {?g} fs fs1"
    using open_write [OF assms(1,4-6)] by blast
  have "file_at fs1 ?p = Some d" using touches_file [OF o(6)] assms(2,3) by simp
  then have "file_bytes fs1 a = Some d" by (simp add: file_at_bytes)
  then obtain i where i: "file_open a READ fs1 = (rd_handle i 0, fs1)" "ino_data fs1 i = d"
    by (rule file_bytes_open_read)
  have "of_mode h = APPEND \<or> of_mode h = WRITE \<and> of_pos h = length (ino_data fs1 (of_ino h))" using o by simp
  from file_write_whole [OF touches_wf [OF o(6)] o(4) this, of "gzip d"] o(5)
  obtain h' fs2 where w: "file_write (gzip d) (Some h) fs1 = (True, Some h', fs2)" "ino_data fs2 (of_ino h) = gzip d"
    "touches {?g} fs1 fs2" "map_of (fs_tree fs2) ?g = Some (FileNode (of_ino h))"
  proof -
    assume *: "\<And>h' fs2. file_write (gzip d) (Some h) fs1 = (True, Some h', fs2) \<Longrightarrow> ino_data fs2 (of_ino h) = gzip d
        \<Longrightarrow> touches {?g} fs1 fs2 \<Longrightarrow> map_of (fs_tree fs2) ?g = Some (FileNode (of_ino h)) \<Longrightarrow> thesis"
    have "fs_tree (snd (snd (file_write (gzip d) (Some h) fs1))) = fs_tree fs1"
      by (simp add: file_write_def Let_def os_facts)
    with * \<open>\<exists>h' fs'. _\<close> o(4,5) show thesis by fastforce
  qed
  let ?fs = "snd (fs_remove a fs2)"
  have t: "touches {?p} fs2 ?fs" using touches_remove touches_wf [OF w(3)] by blast
  have "log_compress gzip a fs = Some ?fs" by (simp add: log_compress_def o(1) i w(1) gz_input_all)
  moreover have "file_at ?fs ?g = Some (gzip d)"
    using touches_file [OF t] assms(3) w(2,4) by (simp add: file_at_def)
  moreover have "touches {?p, ?g} fs ?fs"
    using o(6) w(3) t by (meson touches_mono touches_trans insert_subset subset_insertI empty_subsetI insertI1)
  ultimately show ?thesis by blast
qed

section \<open>Names of archives\<close>

lemma to_string_no_dot: "CHR ''.'' \<notin> set (to_string t)"
proof
  assume "CHR ''.'' \<in> set (to_string t)"
  then have "CHR ''.'' \<in> set (digits 10 (nat \<bar>t\<bar>))" by (auto simp: to_string_def split: if_splits)
  from digits10_is_digit [OF this] show False by (simp add: is_digit_def)
qed

lemma to_string_inj: "to_string t = to_string u \<longleftrightarrow> t = u"
proof -
  have m: "CHR ''-'' \<notin> set (digits 10 n)" for n
    using digits10_is_digit [of "CHR ''-''" n] by (auto simp: is_digit_def)
  have "digits 10 n \<noteq> CHR ''-'' # x" for n x using m [of n] by auto
  then show ?thesis
    using digits_inj [of 10] by (auto simp: to_string_def eq_nat_nat_iff split: if_splits) metis+
qed

lemma archive_name_simps [simp]:
  "archive_name n t \<noteq> n" "n \<noteq> archive_name n t" "archive_name n t @ ''.gz'' \<noteq> n"
  "n \<noteq> archive_name n t @ ''.gz''"
  "archive_name n t \<noteq> archive_name n u @ ''.gz''" "archive_name n u @ ''.gz'' \<noteq> archive_name n t"
  "archive_name n t = archive_name n u \<longleftrightarrow> t = u"
proof -
  have "to_string t \<noteq> to_string u @ ''.gz''" using to_string_no_dot [of t] by auto
  then show "archive_name n t \<noteq> archive_name n u @ ''.gz''" "archive_name n u @ ''.gz'' \<noteq> archive_name n t"
    by (auto simp: archive_name_def)
qed (auto simp: archive_name_def to_string_inj)

lemma archive_name_join: "archive_name (d @ CHR ''/'' # n) t = d @ CHR ''/'' # archive_name n t"
  by (simp add: archive_name_def)

lemma plain_not_root: "plain_component n \<Longrightarrow> \<not> is_root (p @ [n])"
  by (auto simp: plain_component_def is_root_def)

lemma archive_plain:
  "plain_component n \<Longrightarrow> plain_component (archive_name n t)"
  "plain_component n \<Longrightarrow> plain_component (archive_name n t @ ''.gz'')"
  using to_string_plain [of t] by (auto simp: plain_component_def archive_name_def append_eq_Cons_conv)

text \<open>The names that the cleaning looks for have the directory in them, the names in a directory do not.\<close>

lemma log_archives_none:
  assumes "names_plain fs" "CHR ''/'' \<in> set (ls_base_filename l)"
  shows "log_archives l fs = []"
proof -
  have "\<not> prefix (ls_base_filename l @ ''.'') c" if "q \<in> fst ` set (fs_tree fs)" "c \<in> set q" for q c
  proof
    assume p: "prefix (ls_base_filename l @ ''.'') c"
    then have "CHR ''/'' \<in> set c" using assms(2) set_mono_prefix by fastforce
    then have "c = ''/''" using assms(1) that by (auto simp: names_plain_def)
    with p have "length (ls_base_filename l @ ''.'') \<le> 1" using prefix_length_le by fastforce
    with assms(2) show False by auto
  qed
  then have "\<not> prefix (ls_base_filename l @ ''.'') (last q)" if "(q, n) \<in> set (children fs p)" for q n p
    using that by (force simp: children_def)
  then show ?thesis
    by (auto simp: log_archives_def list_directory_def dir_entry_of_def Let_def filter_empty_conv split: option.split)
qed

lemma log_cleanup_nothing:
  assumes "names_plain fs" "CHR ''/'' \<in> set (ls_base_filename l)" "lv_sort lv (\<lambda>s. - fs_last_write_time_ms s fs) [] = []"
  shows "log_cleanup lv l fs = fs"
  using assms by (simp add: log_cleanup_def log_archives_none remove_oldest.simps)

section \<open>The sink as a list of archives\<close>

text \<open>The contract: archives with their stamps, and what is in the current file.\<close>

type_synonym log_book = "(int \<times> byte list) list \<times> byte list"

fun log_note :: "nat \<Rightarrow> int \<times> byte list \<Rightarrow> log_book \<Rightarrow> log_book" where
  "log_note lim (now, msg) (arch, cur) =
     (if lim \<le> length (cur @ msg) then (arch @ [(now, cur @ msg)], []) else (arch, cur @ msg))"

fun book_bytes :: "log_book \<Rightarrow> byte list" where
  "book_bytes (arch, cur) = concat (map snd arch) @ cur"

lemma book_bytes_note: "book_bytes (log_note lim (now, msg) b) = book_bytes b @ msg"
  by (cases b) simp

lemma book_bytes_notes: "book_bytes (fold (log_note lim) msgs b) = book_bytes b @ concat (map snd msgs)"
  by (induction msgs arbitrary: b) (auto simp: book_bytes_note)

definition log_place :: "string \<Rightarrow> string \<Rightarrow> fsys \<Rightarrow> bool" where
  "log_place dir name fs \<longleftrightarrow> fs_wf fs \<and> names_plain fs \<and> is_dir fs (split_path dir)
     \<and> (\<forall>t. map_of (fs_tree fs) (split_path dir @ [archive_name name t]) \<noteq> Some DirNode
          \<and> map_of (fs_tree fs) (split_path dir @ [archive_name name t @ ''.gz'']) \<noteq> Some DirNode)"

definition log_on :: "path \<Rightarrow> byte list \<Rightarrow> log_sink \<Rightarrow> fsys \<Rightarrow> bool" where
  "log_on p cur l fs \<longleftrightarrow> (\<exists>h. ls_file l = Some h \<and> map_of (fs_tree fs) p = Some (FileNode (of_ino h))
     \<and> ino_data fs (of_ino h) = cur \<and> (of_mode h = APPEND \<or> of_mode h = WRITE \<and> of_pos h = length cur)
     \<and> ls_current_size l = word_of_nat (length cur))"

fun log_sim :: "(byte list \<Rightarrow> byte list) \<Rightarrow> string \<Rightarrow> string \<Rightarrow> nat \<Rightarrow> log_sink \<times> fsys \<Rightarrow> log_book \<Rightarrow> bool" where
  "log_sim gzip dir name lim (l, fs) (arch, cur) \<longleftrightarrow>
     log_place dir name fs \<and> log_on (split_path dir @ [name]) cur l fs
     \<and> ls_base_filename l = dir @ CHR ''/'' # name \<and> ls_compress l \<and> unat (ls_max_size l) = lim
     \<and> (\<forall>(t, d)\<in>set arch. file_at fs (split_path dir @ [archive_name name t @ ''.gz'']) = Some (gzip d))"

lemma log_on_file: "log_on p cur l fs \<Longrightarrow> file_at fs p = Some cur"
  by (auto simp: log_on_def file_at_def)

lemma touches_place:
  assumes "touches P fs fs'" "log_place dir name fs" "split_path dir \<notin> P"
  shows "log_place dir name fs'"
  using assms by (auto simp: log_place_def touches_def is_dir_def)

lemma log_append:
  assumes "log_on p cur l fs" "fs_wf fs"
  shows "\<exists>h fs'. file_write msg (ls_file l) fs = (True, Some h, fs') \<and> touches {p} fs fs'
    \<and> log_on p (cur @ msg) (l\<lparr>ls_file := Some h, ls_current_size := ls_current_size l + word_of_nat (length msg)\<rparr>) fs'"
proof -
  obtain h where h: "ls_file l = Some h" "map_of (fs_tree fs) p = Some (FileNode (of_ino h))" "ino_data fs (of_ino h) = cur"
    "of_mode h = APPEND \<or> of_mode h = WRITE \<and> of_pos h = length cur" "ls_current_size l = word_of_nat (length cur)"
    using assms(1) by (auto simp: log_on_def)
  have "fs_tree (snd (snd (file_write msg (Some h) fs))) = fs_tree fs"
    by (simp add: file_write_def Let_def os_facts)
  moreover have "of_mode h = APPEND \<or> of_mode h = WRITE \<and> of_pos h = length (ino_data fs (of_ino h))" using h by simp
  from file_write_whole [OF assms(2) h(2) this, of msg] obtain h' fs' where
    w: "file_write msg (Some h) fs = (True, Some h', fs')" "of_ino h' = of_ino h" "of_mode h' = of_mode h"
      "of_mode h = WRITE \<longrightarrow> of_pos h' = length (cur @ msg)" "ino_data fs' (of_ino h) = cur @ msg" "touches {p} fs fs'"
    unfolding h(3) by blast
  ultimately show ?thesis using h by (auto simp: log_on_def)
qed

lemma log_rotate_sim:
  assumes "plain_component name" "dir \<noteq> []" "lv_gzip lv = gzip" "\<And>k. lv_sort lv k [] = []"
    and "log_place dir name fs" "log_on (split_path dir @ [name]) cur l fs"
    and "ls_base_filename l = dir @ CHR ''/'' # name" "ls_compress l"
    and "\<forall>(t, d)\<in>set arch. file_at fs (split_path dir @ [archive_name name t @ ''.gz'']) = Some (gzip d)"
    and "now \<notin> fst ` set arch"
  shows "\<exists>l' fs'. log_rotate lv now l fs = (Logged, l', fs')
    \<and> log_sim gzip dir name (unat (ls_max_size l)) (l', fs') (arch @ [(now, cur)], [])"
proof -
  let ?P = "split_path dir" and ?b = "dir @ CHR ''/'' # name" and ?a = "dir @ CHR ''/'' # archive_name name now"
  let ?g = "?a @ ''.gz''" and ?l = "l\<lparr>ls_file := None\<rparr>"
  have paths: "split_path ?b = ?P @ [name]" "split_path ?a = ?P @ [archive_name name now]"
    "split_path ?g = ?P @ [archive_name name now @ ''.gz'']"
    using split_path_join [OF assms(2)] assms(1) archive_plain by (simp_all del: append_assoc add: append_assoc [symmetric]) (metis append_Cons append_assoc archive_plain(2))
  have place: "fs_wf fs" "names_plain fs" "is_dir fs ?P"
    "\<And>t. map_of (fs_tree fs) (?P @ [archive_name name t]) \<noteq> Some DirNode"
    "\<And>t. map_of (fs_tree fs) (?P @ [archive_name name t @ ''.gz'']) \<noteq> Some DirNode"
    using assms(5) by (auto simp: log_place_def)
  have root: "\<not> is_root (?P @ [name])" "\<not> is_root (?P @ [archive_name name t])" "\<not> is_root (?P @ [archive_name name t @ ''.gz''])" for t
    using plain_not_root assms(1) archive_plain [OF assms(1)] by blast+
  obtain i where i: "map_of (fs_tree fs) (?P @ [name]) = Some (FileNode i)" using assms(6) by (auto simp: log_on_def)
  obtain fs1 where r: "fs_rename ?b ?a fs = (True, fs1)"
    using i root(2) place(3,4) paths by (auto simp: fs_rename_def is_dir_def)
  have t1: "touches {?P @ [name], ?P @ [archive_name name now]} fs fs1"
    using touches_rename [OF r place(1)] paths by simp
  have f1: "file_at fs1 (?P @ [archive_name name now]) = Some cur"
    using file_at_rename(3) [OF r place(1)] paths log_on_file [OF assms(6)] by simp
  have p1: "log_place dir name fs1" using touches_place [OF t1 assms(5)] by simp
  then obtain fs2 where c: "log_compress gzip ?a fs1 = Some fs2"
    "touches {?P @ [archive_name name now], ?P @ [archive_name name now @ ''.gz'']} fs1 fs2"
    "file_at fs2 (?P @ [archive_name name now @ ''.gz'']) = Some (gzip cur)"
    using log_compress_ok [of fs1 ?a cur gzip] f1 paths root(3) by (auto simp: log_place_def simp del: append_assoc)
  have p2: "log_place dir name fs2" using touches_place [OF c(2) p1] by simp
  have clean: "log_cleanup lv ?l fs2 = fs2"
    using p2 assms(4,7) by (intro log_cleanup_nothing) (auto simp: log_place_def)
  have b2: "map_of (fs_tree fs2) (?P @ [name]) \<noteq> Some DirNode"
    using t1 c(2) i by (auto simp: touches_def)
  obtain h fs3 where o: "file_open ?b WRITE fs2 = (Some h, fs3)" "of_mode h = WRITE" "of_pos h = 0"
    "map_of (fs_tree fs3) (?P @ [name]) = Some (FileNode (of_ino h))" "ino_data fs3 (of_ino h) = []"
    "touches {?P @ [name]} fs2 fs3"
    using open_write [of fs2 ?b] p2 b2 root(1) paths by (auto simp: log_place_def)
  have p3: "log_place dir name fs3" using touches_place [OF o(6) p2] by simp
  let ?l' = "?l\<lparr>ls_file := Some h, ls_current_size := 0\<rparr>"
  have "log_rotate lv now l fs = (Logged, ?l', fs3)"
    using r c(1) clean o(1) assms(3,7,8) by (simp add: log_rotate_def Let_def file_close_def archive_name_join)
  moreover have "log_on (?P @ [name]) [] ?l' fs3" using o by (simp add: log_on_def)
  moreover have "file_at fs3 (?P @ [archive_name name t @ ''.gz'']) = Some (gzip d)"
    if "(t, d) \<in> set (arch @ [(now, cur)])" for t d
  proof (cases "t = now")
    case True
    with that assms(10) have "d = cur" by (auto simp: rev_image_eqI)
    with True touches_file [OF o(6)] c(3) show ?thesis by simp
  next
    case False
    with that assms(9) have "file_at fs (?P @ [archive_name name t @ ''.gz'']) = Some (gzip d)" by auto
    with False touches_file [OF t1] touches_file [OF c(2)] touches_file [OF o(6)] show ?thesis by simp
  qed
  ultimately show ?thesis using p3 assms(7,8) by auto
qed

lemma log_note_sim:
  assumes "plain_component name" "dir \<noteq> []" "lv_gzip lv = gzip" "\<And>k. lv_sort lv k [] = []"
    and "log_sim gzip dir name lim (l, fs) (arch, cur)" "now \<notin> fst ` set arch"
    and "length cur + length msg < 2 ^ 64"
  shows "\<exists>s. log_sink_it lv now msg (l, fs) = (Logged, s) \<and> log_sim gzip dir name lim s (log_note lim (now, msg) (arch, cur))"
proof -
  let ?p = "split_path dir @ [name]"
  have pl: "log_place dir name fs" "log_on ?p cur l fs" using assms(5) by simp_all
  then have "fs_wf fs" by (simp add: log_place_def)
  from log_append [OF pl(2) this] obtain h fs1 where w: "file_write msg (ls_file l) fs = (True, Some h, fs1)" "touches {?p} fs fs1"
    "log_on ?p (cur @ msg) (l\<lparr>ls_file := Some h, ls_current_size := ls_current_size l + word_of_nat (length msg)\<rparr>) fs1"
    by blast
  let ?l = "l\<lparr>ls_file := Some h, ls_current_size := ls_current_size l + word_of_nat (length msg)\<rparr>"
  have p1: "log_place dir name fs1" using touches_place [OF w(2) pl(1)] by simp
  have arch: "\<forall>(t, d)\<in>set arch. file_at fs1 (split_path dir @ [archive_name name t @ ''.gz'']) = Some (gzip d)"
    using assms(5) touches_file [OF w(2)] by auto
  have "ls_current_size l + word_of_nat (length msg) = word_of_nat (length (cur @ msg))"
    using pl(2) by (auto simp: log_on_def)
  then have "unat (ls_current_size l + word_of_nat (length msg)) = length (cur @ msg)"
    using assms(7) by (simp add: unat_of_nat del: of_nat_add)
  then have full: "ls_max_size l \<le> ls_current_size l + word_of_nat (length msg) \<longleftrightarrow> lim \<le> length (cur @ msg)"
    using assms(5) by (simp add: word_le_nat_alt)
  have base: "ls_base_filename ?l = dir @ CHR ''/'' # name" "ls_compress ?l" "unat (ls_max_size ?l) = lim"
    using assms(5) by simp_all
  show ?thesis
  proof (cases "lim \<le> length (cur @ msg)")
    case True
    from log_rotate_sim [OF assms(1-4) p1 w(3) base(1,2) arch assms(6)] base(3)
    obtain l' fs' where "log_rotate lv now ?l fs1 = (Logged, l', fs')" "log_sim gzip dir name lim (l', fs') (arch @ [(now, cur @ msg)], [])"
      by auto
    with True full w(1) show ?thesis by (simp add: log_sink_it_def Let_def)
  next
    case False
    with full w p1 arch base show ?thesis by (simp add: log_sink_it_def Let_def)
  qed
qed

fun log_run :: "log_env \<Rightarrow> (int \<times> byte list) list \<Rightarrow> log_sink \<times> fsys \<Rightarrow> log_outcome \<times> log_sink \<times> fsys" where
  "log_run lv [] s = (Logged, s)"
| "log_run lv ((now, msg) # msgs) s =
     (case log_sink_it lv now msg s of (Logged, s) \<Rightarrow> log_run lv msgs s | r \<Rightarrow> r)"

lemma log_note_stamps: "fst ` set (fst (log_note lim (now, msg) b)) \<subseteq> insert now (fst ` set (fst b))"
  by (cases b) auto

lemma log_run_sim:
  assumes "plain_component name" "dir \<noteq> []" "lv_gzip lv = gzip" "\<And>k. lv_sort lv k [] = []"
    and "log_sim gzip dir name lim s b" "fst ` set (fst b) \<inter> fst ` set msgs = {}" "distinct (map fst msgs)"
    and "length (snd b) + length (concat (map snd msgs)) < 2 ^ 64"
  shows "\<exists>s'. log_run lv msgs s = (Logged, s') \<and> log_sim gzip dir name lim s' (fold (log_note lim) msgs b)"
  using assms(5-)
proof (induction msgs arbitrary: s b)
  case (Cons x msgs)
  obtain now msg where x: "x = (now, msg)" by (cases x)
  obtain l fs where s: "s = (l, fs)" by (cases s)
  obtain arch cur where b: "b = (arch, cur)" by (cases b)
  have "\<exists>s1. log_sink_it lv now msg (l, fs) = (Logged, s1) \<and> log_sim gzip dir name lim s1 (log_note lim (now, msg) (arch, cur))"
    using Cons.prems by (intro log_note_sim assms(1-4)) (auto simp: x s b)
  then obtain s1 where s1: "log_sink_it lv now msg (l, fs) = (Logged, s1)"
    "log_sim gzip dir name lim s1 (log_note lim (now, msg) (arch, cur))" by blast
  have "fst ` set (fst (log_note lim (now, msg) (arch, cur))) \<inter> fst ` set msgs = {}"
    using log_note_stamps [of lim now msg "(arch, cur)"] Cons.prems(2,3) by (auto simp: x b image_iff)
  moreover have "length (snd (log_note lim (now, msg) (arch, cur))) + length (concat (map snd msgs)) < 2 ^ 64"
    using Cons.prems(4) by (simp add: x b)
  ultimately have "\<exists>s'. log_run lv msgs s1 = (Logged, s')
      \<and> log_sim gzip dir name lim s' (fold (log_note lim) msgs (log_note lim (now, msg) (arch, cur)))"
    using Cons.IH [OF s1(2)] Cons.prems(3) by (simp add: x)
  with s1(1) show ?case by (simp add: x s b)
qed simp

section \<open>Properties\<close>

text \<open>
  C39. No logged byte is lost, and no archive is ever removed: after any sequence of messages with
  different stamps, the current file and the compressed archives are those of a sink that starts a new
  file whenever the old one has reached its size, however many archives there are already; the limit on
  their number has no effect.
\<close>

theorem log_keeps_every_archive:
  assumes "dir \<noteq> []" "plain_component name" "\<And>k. lv_sort lv k [] = []"
    and "log_new (dir @ ''/'' @ name) lim n True fs0 = (Some l, fs)" "log_place dir name fs"
    and "file_bytes fs (dir @ ''/'' @ name) = Some old"
    and "distinct (map fst msgs)" "length old + length (concat (map snd msgs)) < 2 ^ 64"
  shows "\<exists>l' fs'. log_run lv msgs (l, fs) = (Logged, l', fs')
    \<and> (let (arch, cur) = fold (log_note (unat lim)) msgs ([], old) in
        concat (map snd arch) @ cur = old @ concat (map snd msgs)
        \<and> file_bytes fs' (dir @ ''/'' @ name) = Some cur
        \<and> (\<forall>(t, d)\<in>set arch. file_bytes fs' (dir @ ''/'' @ archive_name name t @ ''.gz'') = Some (lv_gzip lv d)))"
proof -
  let ?b = "dir @ CHR ''/'' # name"
  have path: "split_path ?b = split_path dir @ [name]" by (rule split_path_join [OF assms(1,2)])
  have arch: "split_path (dir @ CHR ''/'' # archive_name name t @ ''.gz'') = split_path dir @ [archive_name name t @ ''.gz'']" for t
    by (rule split_path_join [OF assms(1) archive_plain(2) [OF assms(2)]])
  obtain fs1 h where o: "file_open ?b APPEND fs1 = (Some h, fs)"
    "l = \<lparr>ls_base_filename = ?b, ls_max_size = lim, ls_max_files = n, ls_compress = True, ls_file = Some h,
       ls_current_size = word_of_int (file_size (Some h) fs)\<rparr>"
    using assms(4) by (auto simp: log_new_def Let_def split: option.splits prod.splits)
  have h: "of_mode h = APPEND" "map_of (fs_tree fs) (split_path ?b) = Some (FileNode (of_ino h))"
    using o(1) by (auto simp: file_open_def Let_def create_file_def os_facts split: option.splits node.splits if_splits)
  then have "ino_data fs (of_ino h) = old" using assms(6) by (simp add: file_bytes_def)
  with h o(2) path have "log_sim (lv_gzip lv) dir name (unat lim) (l, fs) ([], old)"
    using assms(5) by (simp add: log_on_def file_size_def)
  from log_run_sim [OF assms(2,1) refl assms(3) this _ assms(7)] assms(8) obtain l' fs' where
    r: "log_run lv msgs (l, fs) = (Logged, l', fs')"
      "log_sim (lv_gzip lv) dir name (unat lim) (l', fs') (fold (log_note (unat lim)) msgs ([], old))" by auto
  obtain arch cur where b: "fold (log_note (unat lim)) msgs ([], old) = (arch, cur)" by fastforce
  have "concat (map snd arch) @ cur = old @ concat (map snd msgs)"
    using book_bytes_notes [of "unat lim" msgs "([], old)"] b by simp
  moreover have "file_at fs' (split_path dir @ [name]) = Some cur"
    using r(2) b by (auto intro: log_on_file)
  ultimately show ?thesis using r b by (simp add: file_at_bytes path arch)
qed

definition demo_log_env :: log_env where
  "demo_log_env = \<lparr>lv_gzip = (\<lambda>d. 0x1F # d), lv_sort = sort_key\<rparr>"

theorem log_keeps_every_archive_witness:
  "\<exists>l fs l' fs'. log_new ''d/l'' 3 0 True demo_fs = (Some l, fs)
    \<and> log_run demo_log_env [(1, [1, 2, 3]), (2, [4])] (l, fs) = (Logged, l', fs')
    \<and> file_bytes fs' ''d/l'' = Some [4] \<and> file_bytes fs' ''d/l.1.gz'' = Some [0x1F, 1, 2, 3]"
proof -
  have path: "split_path ''d'' = [''d'']" "split_path ''d/l'' = [''d'', ''l'']" by (simp_all add: split_path_def)
  obtain l fs where n: "log_new ''d/l'' 3 0 True demo_fs = (Some l, fs)" "fs_tree fs = [([''d''], DirNode), ([''d'', ''l''], FileNode 0)]"
      "fs_next fs = 1" "ino_data fs 0 = []"
    by (simp add: log_new_def before_sep_def is_sep_def create_directories_def mkdir_def path demo_fs_def
        path_exists_def is_dir_def is_root_def bind_node_def file_open_def create_file_def set_inode_def ino_data_def Let_def)
  have "log_place ''d'' ''l'' fs"
    by (simp add: log_place_def n fs_wf_def names_plain_def path is_dir_def)
  moreover have "file_bytes fs ''d/l'' = Some []" by (simp add: file_bytes_def n path)
  moreover have "archive_name ''l'' 1 = ''l.1''" by code_simp
  ultimately show ?thesis
    using log_keeps_every_archive [of "''d''" "''l''" demo_log_env 3 0 demo_fs l fs "[]" "[(1, [1, 2, 3]), (2, [4])]"] n(1)
    by (auto simp: plain_component_def demo_log_env_def simp del: log_run.simps)
qed

end
