(* ===== verification/Float_Arith.thy ===== *)
theory Float_Arith
  imports Float64 Number_Text
begin

text \<open>
  The arithmetic on doubles that aggregation and formatting use: sum, product, quotient, square root
  and \<^verbatim>\<open>std::to_string\<close>. Every finite result is the exact one rounded to nearest even; a result
  that is no number is the default quiet NaN, where the bits are the machine's choice.
\<close>

section \<open>Operations\<close>

definition f64_is_inf :: "f64 \<Rightarrow> bool" where
  "f64_is_inf w \<longleftrightarrow> f64_exp w = 2047 \<and> f64_frac w = 0"

definition f64_nan :: f64 where
  "f64_nan = f64_with_sign True nan_bits"

definition f64_inf :: "bool \<Rightarrow> f64" where
  "f64_inf s = f64_with_sign s f64_inf_bits"

definition f64_zero :: f64 where
  "f64_zero = 0"

definition f64_mag :: "f64 \<Rightarrow> nat" where
  "f64_mag w = nat \<bar>f64_scaled w\<bar>"

definition f64_add :: "f64 \<Rightarrow> f64 \<Rightarrow> f64" where
  "f64_add a b =
     (if f64_is_nan a \<or> f64_is_nan b then f64_nan
      else if f64_is_inf a then (if f64_is_inf b \<and> f64_sign a \<noteq> f64_sign b then f64_nan else a)
      else if f64_is_inf b then b
      else let s = f64_scaled a + f64_scaled b in
        f64_with_sign (if s = 0 then f64_sign a \<and> f64_sign b else s < 0) (f64_round (nat \<bar>s\<bar>) 1))"

definition f64_neg :: "f64 \<Rightarrow> f64" where
  "f64_neg w = w XOR push_bit 63 1"

definition f64_sub :: "f64 \<Rightarrow> f64 \<Rightarrow> f64" where
  "f64_sub a b = f64_add a (f64_neg b)"

definition f64_mul :: "f64 \<Rightarrow> f64 \<Rightarrow> f64" where
  "f64_mul a b =
     (let s = (f64_sign a \<noteq> f64_sign b) in
      if f64_is_nan a \<or> f64_is_nan b then f64_nan
      else if f64_is_inf a \<or> f64_is_inf b then (if f64_mag a = 0 \<or> f64_mag b = 0 then f64_nan else f64_inf s)
      else f64_with_sign s (f64_round (f64_mag a * f64_mag b) (2 ^ 1074)))"

definition f64_div :: "f64 \<Rightarrow> f64 \<Rightarrow> f64" where
  "f64_div a b =
     (let s = (f64_sign a \<noteq> f64_sign b) in
      if f64_is_nan a \<or> f64_is_nan b then f64_nan
      else if f64_is_inf a then (if f64_is_inf b then f64_nan else f64_inf s)
      else if f64_is_inf b then f64_with_sign s 0
      else if f64_mag b = 0 then (if f64_mag a = 0 then f64_nan else f64_inf s)
      else f64_with_sign s (f64_round (f64_mag a * 2 ^ 1074) (f64_mag b)))"

text \<open>The integer square root, one bit after the other.\<close>

fun isqrt_bits :: "nat \<Rightarrow> nat \<Rightarrow> nat \<Rightarrow> nat" where
  "isqrt_bits 0 n r = r"
| "isqrt_bits (Suc k) n r = isqrt_bits k n (if (r + 2 ^ k) ^ 2 \<le> n then r + 2 ^ k else r)"

definition isqrt :: "nat \<Rightarrow> nat" where
  "isqrt n = isqrt_bits (bit_len n div 2 + 1) n 0"

text \<open>
  The root has at most half the bits of its radicand, so 108 more bits and a bit that tells whether
  the root was cut off round to the same double as the exact root.
\<close>

definition f64_sqrt :: "f64 \<Rightarrow> f64" where
  "f64_sqrt a =
     (if f64_is_nan a then f64_nan
      else if f64_mag a = 0 then a
      else if f64_sign a then f64_nan
      else if f64_is_inf a then a
      else let n = f64_mag a * 2 ^ 1074 * 2 ^ 216; r = isqrt n
        in f64_with_sign False (f64_round (2 * r + (if r ^ 2 = n then 0 else 1)) (2 * 2 ^ 108)))"

text \<open>\<^verbatim>\<open>std::to_string(double)\<close> is \<^verbatim>\<open>%f\<close>: six digits behind the point, rounded from the exact value.\<close>

definition f64_to_string :: "f64 \<Rightarrow> string" where
  "f64_to_string a =
     (let sign = (if f64_sign a then ''-'' else '''') in
      if f64_is_nan a then sign @ ''nan''
      else if f64_is_inf a then sign @ ''inf''
      else let q = round_half_even (f64_mag a * 10 ^ 6) (2 ^ 1074)
        in sign @ digits 10 (q div 10 ^ 6) @ ''.'' @ pad_left 6 (CHR ''0'') (digits 10 (q mod 10 ^ 6)))"

section \<open>Facts\<close>

lemma isqrt_bits_invariant:
  "r ^ 2 \<le> n \<Longrightarrow> n < (r + 2 ^ k) ^ 2 \<Longrightarrow> (isqrt_bits k n r) ^ 2 \<le> n \<and> n < (isqrt_bits k n r + 1) ^ 2"
proof (induction k arbitrary: r)
  case (Suc k)
  have e: "r + 2 ^ Suc k = r + 2 ^ k + 2 ^ k" by simp
  show ?case
  proof (cases "(r + 2 ^ k) ^ 2 \<le> n")
    case True
    from Suc.IH [OF this] Suc.prems(2) True show ?thesis unfolding e by simp
  next
    case False
    with Suc.IH [OF Suc.prems(1)] show ?thesis by simp
  qed
qed simp

lemma isqrt: "(isqrt n) ^ 2 \<le> n \<and> n < (isqrt n + 1) ^ 2"
proof -
  have "n < 2 ^ bit_len n" by (rule bit_len_less)
  also have "(2 :: nat) ^ bit_len n \<le> 2 ^ (2 * (bit_len n div 2 + 1))" by (intro power_increasing) auto
  also have "\<dots> = (0 + 2 ^ (bit_len n div 2 + 1)) ^ 2" by (simp add: power_mult [symmetric] mult.commute)
  finally show ?thesis unfolding isqrt_def by (intro isqrt_bits_invariant) simp_all
qed

text \<open>Sums of integers below \<open>2 ^ 53\<close> are exact.\<close>

lemma f64_round_bound: "f64_round a b \<le> f64_inf_bits"
  by (simp add: f64_round_def Let_def)

lemma f64_of_int_sign: "f64_sign (f64_of_int i) = (i < 0)"
proof -
  have "f64_round (nat \<bar>i\<bar> * 2 ^ 1074) 1 < 2 ^ 63"
    using f64_round_bound [of "nat \<bar>i\<bar> * 2 ^ 1074" 1] by (simp add: f64_inf_bits_def)
  from f64_fields(1) [OF this] show ?thesis by (simp add: f64_of_int_def)
qed

lemma f64_of_int_finite:
  assumes "\<bar>i\<bar> < 2 ^ 53"
  shows "f64_exp (f64_of_int i) < 2047"
proof (cases "i = 0")
  case True
  have "f64_exp (f64_with_sign False 0) = 0" using f64_fields [of 0 False] by simp
  with True show ?thesis by (simp add: f64_of_int_def f64_round_def round_half_even_def bit_len.simps [of 0])
next
  case False
  define n where "n = nat \<bar>i\<bar>"
  have n: "n \<noteq> 0" "n < 2 ^ 53" using False assms by (simp_all add: n_def nat_less_iff)
  note r = f64_round_int [OF n]
  define m where "m = n * 2 ^ (53 - bit_len n)"
  define k where "k = bit_len n + 1021"
  have m: "m < 2 ^ 53" "k < 2046" using r(4,5) by (simp_all add: m_def k_def)
  have lt: "k * 2 ^ 52 + m < 2047 * 2 ^ 52" using m by simp
  then have "f64_exp (f64_with_sign (i < 0) (k * 2 ^ 52 + m)) = (k * 2 ^ 52 + m) div 2 ^ 52"
    by (intro f64_fields(2)) simp
  also have "\<dots> < 2047" using lt by (simp add: less_mult_imp_div_less)
  finally show ?thesis using r(1) by (simp add: f64_of_int_def n_def m_def k_def)
qed

lemma f64_add_int:
  assumes "\<bar>i\<bar> < 2 ^ 53" "\<bar>j\<bar> < 2 ^ 53"
  shows "f64_add (f64_of_int i) (f64_of_int j) = f64_of_int (i + j)"
proof -
  have fin: "\<not> f64_is_nan (f64_of_int k) \<and> \<not> f64_is_inf (f64_of_int k)" if "\<bar>k\<bar> < 2 ^ 53" for k
    using f64_of_int_finite [OF that] by (simp add: f64_is_nan_def f64_is_inf_def)
  let ?s = "f64_scaled (f64_of_int i) + f64_scaled (f64_of_int j)"
  have s: "?s = (i + j) * 2 ^ 1074"
    using f64_of_int_exact_lemma [OF assms(1)] f64_of_int_exact_lemma [OF assms(2)] by (simp add: distrib_right)
  have "k * K = 0 \<longleftrightarrow> k = 0" "k * K < 0 \<longleftrightarrow> k < 0" if "0 < K" for k K :: int
    using that by (simp_all add: mult_less_0_iff)
  from this [of "2 ^ 1074" "i + j"] have z: "?s = 0 \<longleftrightarrow> i + j = 0" "?s < 0 \<longleftrightarrow> i + j < 0"
    unfolding s by simp_all
  have "nat \<bar>k * int K\<bar> = nat \<bar>k\<bar> * K" for k K by (simp add: abs_mult nat_mult_distrib)
  from this [of "i + j" "2 ^ 1074"] have "nat \<bar>?s\<bar> = nat \<bar>i + j\<bar> * 2 ^ 1074"
    unfolding s by (simp only: of_nat_power of_nat_numeral)
  moreover have "(if ?s = 0 then f64_sign (f64_of_int i) \<and> f64_sign (f64_of_int j) else ?s < 0) \<longleftrightarrow> i + j < 0"
    using z by (auto simp: f64_of_int_sign)
  ultimately show ?thesis
    using fin [OF assms(1)] fin [OF assms(2)] unfolding f64_add_def Let_def by (simp only: if_False simp_thms f64_of_int_def)
qed

end
