(* ===== verification/Aggregate.thy ===== *)
theory Aggregate
  imports Engine Float_Arith "HOL-Library.Signed_Division" "HOL-Library.Multiset"
begin

text \<open>
  Aggregated reads and tag metadata, the rest of \<^verbatim>\<open>src/src/storage/engine.cpp\<close>: the raw points of a
  range grouped into buckets of time, with count, sum, extremes, first, last and sum of squares of
  each. A division by a bucket width of zero (or one that overflows) has no value: \<open>None\<close>.
\<close>

section \<open>Tag metadata\<close>

datatype tag_type = ANALOG | DIGITAL | STRING_TAG | ACCUMULATOR

record tag_meta =
  tm_name :: string
  tm_type :: tag_type
  tm_description :: string
  tm_unit :: string
  tm_precision :: int
  tm_min_value :: f64
  tm_max_value :: f64
  tm_collect_interval_ms :: int

definition default_meta :: tag_meta where
  "default_meta = \<lparr>tm_name = [], tm_type = ANALOG, tm_description = [], tm_unit = [], tm_precision = 1,
     tm_min_value = 0, tm_max_value = 0x4097700000000000, tm_collect_interval_ms = 1000\<rparr>"

definition eng_register_tag :: "tag_meta \<Rightarrow> engine \<Rightarrow> bool" where
  "eng_register_tag meta e = eg_initialized e"

definition eng_get_tag_meta :: "string \<Rightarrow> tag_meta" where
  "eng_get_tag_meta tag = default_meta\<lparr>tm_name := tag, tm_description := [], tm_unit := []\<rparr>"

section \<open>ReadAggregated\<close>

datatype agg_type =
    AGG_NONE | AGG_AVG | AGG_MAX | AGG_MIN | AGG_SUM | AGG_COUNT | AGG_FIRST | AGG_LAST | AGG_STDDEV

record agg_result =
  ag_bucket_ts :: timestamp
  ag_avg :: f64
  ag_max :: f64
  ag_min :: f64
  ag_sum :: f64
  ag_count :: int
  ag_first_ts :: timestamp
  ag_first_val :: f64
  ag_last_ts :: timestamp
  ag_last_val :: f64
  ag_sum_sq :: f64

text \<open>The aggregate that \<^verbatim>\<open>buckets[bucket_ts]\<close> inserts; its uninitialised time is set at once.\<close>

definition new_agg :: agg_result where
  "new_agg = \<lparr>ag_bucket_ts = 0, ag_avg = 0, ag_max = 0, ag_min = 0, ag_sum = 0, ag_count = 0, ag_first_ts = 0,
     ag_first_val = 0, ag_last_ts = 0, ag_last_val = 0, ag_sum_sq = 0\<rparr>"

definition number_value :: "data_point \<Rightarrow> f64" where
  "number_value p = (case dp_value p of VDouble d \<Rightarrow> d | _ \<Rightarrow> 0)"

definition agg_bucket :: "64 word \<Rightarrow> data_point \<Rightarrow> timestamp" where
  "agg_bucket bucket p = word_of_int ((sint (dp_ts p) sdiv sint bucket) * sint bucket)"

definition agg_defined :: "64 word \<Rightarrow> data_point \<Rightarrow> bool" where
  "agg_defined bucket p \<longleftrightarrow> bucket \<noteq> 0 \<and> \<not> (bucket = - 1 \<and> dp_ts p = 0x8000000000000000)"

definition agg_add :: "timestamp \<Rightarrow> data_point \<Rightarrow> agg_result \<Rightarrow> agg_result" where
  "agg_add bucket_ts p b =
     (let v = number_value p;
          b = (if ag_count b = 0 then b\<lparr>ag_bucket_ts := bucket_ts, ag_first_ts := dp_ts p, ag_first_val := v\<rparr> else b);
          b = b\<lparr>ag_count := ag_count b + 1, ag_sum := f64_add (ag_sum b) v,
                ag_sum_sq := f64_add (ag_sum_sq b) (f64_mul v v), ag_last_ts := dp_ts p, ag_last_val := v\<rparr>;
          b = (if ag_count b = 1 \<or> f64_lt (ag_max b) v then b\<lparr>ag_max := v\<rparr> else b)
      in if ag_count b = 1 \<or> f64_lt v (ag_min b) then b\<lparr>ag_min := v\<rparr> else b)"

definition agg_insert :: "64 word \<Rightarrow> data_point \<Rightarrow> (timestamp \<times> agg_result) list \<Rightarrow> (timestamp \<times> agg_result) list" where
  "agg_insert bucket p buckets =
     (let k = agg_bucket bucket p;
          b = (case map_of buckets k of Some b \<Rightarrow> b | None \<Rightarrow> new_agg)
      in AList.update k (agg_add k p b) buckets)"

definition agg_finish :: "agg_result \<Rightarrow> agg_result" where
  "agg_finish b = b\<lparr>ag_avg := f64_div (ag_sum b) (f64_of_int (ag_count b))\<rparr>"

definition eng_read_aggregated :: "env \<Rightarrow> string \<Rightarrow> time_range \<Rightarrow> 64 word \<Rightarrow> agg_type \<Rightarrow> engine \<times> fsys \<Rightarrow> agg_result list option" where
  "eng_read_aggregated env tag rng bucket agg s =
     (let raw = eng_read_raw env tag rng s in
      if raw = [] then Some []
      else if \<not> list_all (agg_defined bucket) raw then None
      else Some (sort_key (\<lambda>b. sint (ag_bucket_ts b)) (map (\<lambda>(ts, b). agg_finish b) (fold (agg_insert bucket) raw []))))"

definition eng_read_aggregated3 :: "env \<Rightarrow> string \<Rightarrow> string \<Rightarrow> string \<Rightarrow> time_range \<Rightarrow> 64 word \<Rightarrow> agg_type \<Rightarrow> engine \<times> fsys \<Rightarrow> agg_result list option" where
  "eng_read_aggregated3 env db tab tag rng bucket agg s =
     eng_read_aggregated env (db @ '':'' @ tab @ '':'' @ tag) rng bucket agg s"

section \<open>What a bucket holds\<close>

text \<open>The aggregate of a non-empty group of points, by its columns.\<close>

definition group_agg :: "timestamp \<Rightarrow> data_point list \<Rightarrow> agg_result" where
  "group_agg k ps =
     (let vs = map number_value ps; total = foldl f64_add 0 vs in
      \<lparr>ag_bucket_ts = k, ag_avg = f64_div total (f64_of_int (int (length ps))),
       ag_max = foldl (\<lambda>m v. if f64_lt m v then v else m) (hd vs) (tl vs),
       ag_min = foldl (\<lambda>m v. if f64_lt v m then v else m) (hd vs) (tl vs),
       ag_sum = total, ag_count = int (length ps), ag_first_ts = dp_ts (hd ps), ag_first_val = hd vs,
       ag_last_ts = dp_ts (last ps), ag_last_val = last vs, ag_sum_sq = foldl f64_add 0 (map (\<lambda>v. f64_mul v v) vs)\<rparr>)"

lemma agg_add_later:
  "0 < ag_count b \<Longrightarrow> agg_add k q b =
     b\<lparr>ag_max := (if f64_lt (ag_max b) (number_value q) then number_value q else ag_max b),
       ag_min := (if f64_lt (number_value q) (ag_min b) then number_value q else ag_min b),
       ag_sum := f64_add (ag_sum b) (number_value q), ag_count := ag_count b + 1,
       ag_last_ts := dp_ts q, ag_last_val := number_value q,
       ag_sum_sq := f64_add (ag_sum_sq b) (f64_mul (number_value q) (number_value q))\<rparr>"
  by (cases b) (simp add: agg_add_def Let_def)

lemma group_agg_snoc:
  "ps \<noteq> [] \<Longrightarrow> agg_add k q ((group_agg k ps)\<lparr>ag_avg := 0\<rparr>) = (group_agg k (ps @ [q]))\<lparr>ag_avg := 0\<rparr>"
  by (subst agg_add_later) (simp_all add: group_agg_def Let_def comp_def)

lemma agg_add_group: "ps \<noteq> [] \<Longrightarrow> fold (agg_add k) ps new_agg = (group_agg k ps)\<lparr>ag_avg := 0\<rparr>"
proof (induction ps rule: rev_induct)
  case (snoc q ps)
  show ?case
  proof (cases "ps = []")
    case True
    then show ?thesis by (simp add: agg_add_def new_agg_def group_agg_def Let_def)
  next
    case False
    with snoc.IH show ?thesis by (simp add: group_agg_snoc)
  qed
qed simp

lemma agg_finish_group: "ps \<noteq> [] \<Longrightarrow> agg_finish (fold (agg_add k) ps new_agg) = group_agg k ps"
  by (simp add: agg_add_group) (simp add: agg_finish_def group_agg_def Let_def)

lemma agg_insert_map:
  "map_of (agg_insert bucket p m) = (map_of m)(agg_bucket bucket p \<mapsto>
     agg_add (agg_bucket bucket p) p (case map_of m (agg_bucket bucket p) of Some b \<Rightarrow> b | None \<Rightarrow> new_agg))"
  by (simp add: agg_insert_def Let_def update_conv')

lemma agg_buckets:
  "map_of (fold (agg_insert bucket) ps []) k =
     (let g = filter (\<lambda>p. agg_bucket bucket p = k) ps in if g = [] then None else Some (fold (agg_add k) g new_agg))"
proof (induction ps rule: rev_induct)
  case (snoc p ps)
  then show ?case by (auto simp: agg_insert_map Let_def)
qed simp

lemma agg_keys:
  "distinct (map fst (fold (agg_insert bucket) ps [])) \<and>
   set (map fst (fold (agg_insert bucket) ps [])) = agg_bucket bucket ` set ps"
proof (induction ps rule: rev_induct)
  case (snoc p ps)
  then show ?case by (auto simp: agg_insert_def Let_def distinct_update dom_update)
qed simp

lemma sort_key_of_map: "sort_key f (map h ks) = map h (sort_key (\<lambda>k. f (h k)) ks)"
proof -
  have "insort_key f (h k) (map h xs) = map h (insort_key (\<lambda>k. f (h k)) k xs)" for k xs
    by (induction xs) simp_all
  then show ?thesis by (induction ks) simp_all
qed

lemma sort_key_same_set:
  assumes "inj f" "distinct xs" "distinct ys" "set xs = set ys"
  shows "sort_key f xs = sort_key f ys"
proof (rule sort_key_inj_key_eq)
  show "mset xs = mset (sort_key f ys)" using assms(2-4) by (simp add: set_eq_iff_mset_eq_distinct)
  show "inj_on f (set xs)" using assms(1) by (rule inj_on_subset) simp
qed simp

text \<open>
  C24. Aggregation groups: for every \<^verbatim>\<open>std::sort\<close> and every bucket width for which the division is
  defined, the result has one aggregate for each bucket that a raw point of the range falls into, in
  ascending order, and its columns are those of exactly the raw points in that bucket: their
  number, sum, quotient of the two, extremes, first and last.
\<close>

theorem engine_aggregates_buckets:
  assumes "list_all (agg_defined bucket) (eng_read_raw env tag rng s)"
  shows "eng_read_aggregated env tag rng bucket agg s =
    Some (map (\<lambda>k. group_agg k (filter (\<lambda>p. agg_bucket bucket p = k) (eng_read_raw env tag rng s)))
      (sort_key sint (remdups (map (agg_bucket bucket) (eng_read_raw env tag rng s)))))"
proof -
  let ?raw = "eng_read_raw env tag rng s"
  let ?m = "fold (agg_insert bucket) ?raw []"
  let ?h = "\<lambda>k. group_agg k (filter (\<lambda>p. agg_bucket bucket p = k) ?raw)"
  have keys: "distinct (map fst ?m)" "set (map fst ?m) = agg_bucket bucket ` set ?raw"
    using agg_keys by blast+
  have e: "agg_finish b = ?h k" if "(k, b) \<in> set ?m" for k b
  proof -
    have "map_of ?m k = Some b" using that keys(1) by (simp add: map_of_eq_Some_iff)
    then have "filter (\<lambda>p. agg_bucket bucket p = k) ?raw \<noteq> []"
      "b = fold (agg_add k) (filter (\<lambda>p. agg_bucket bucket p = k) ?raw) new_agg"
      using agg_buckets [of bucket ?raw k] by (auto simp: Let_def split: if_splits)
    then show ?thesis by (simp add: agg_finish_group)
  qed
  then have m: "map (\<lambda>(ts, b). agg_finish b) ?m = map ?h (map fst ?m)" by (auto simp: e)
  have s: "sort_key (\<lambda>b. sint (ag_bucket_ts b)) (map ?h ks) = map ?h (sort_key sint ks)" for ks
    by (simp add: sort_key_of_map) (simp add: group_agg_def Let_def)
  have k: "sort_key sint (map fst ?m) = sort_key sint (remdups (map (agg_bucket bucket) ?raw))"
    using keys inj_sint by (intro sort_key_same_set) simp_all
  show ?thesis
  proof (cases "?raw = []")
    case False
    then show ?thesis using assms unfolding eng_read_aggregated_def Let_def m s k by simp
  qed (simp add: eng_read_aggregated_def)
qed

text \<open>A cached point is enough to see a bucket: one point at time 7 in buckets of 5.\<close>

definition demo_cached :: engine where
  "demo_cached = (eng_new demo_config)\<lparr>eg_latest_cache := Some (lc_update ''a'' \<lparr>dp_ts = 7, dp_value = VDouble 0x3FF0000000000000\<rparr> [])\<rparr>"

theorem engine_aggregates_buckets_witness:
  "map_option (map (\<lambda>b. (ag_bucket_ts b, ag_count b, ag_first_ts b, ag_last_val b)))
     (eng_read_aggregated demo_env ''a'' \<lparr>tr_start = 0, tr_end = 9\<rparr> 5 AGG_AVG (demo_cached, demo_fs))
   = Some [(5, 1, 7, 0x3FF0000000000000)]"
proof -
  let ?p = "\<lparr>dp_ts = 7, dp_value = VDouble 0x3FF0000000000000\<rparr>"
  have "\<not> fs_exists (tag_dir demo_config ''a'') demo_fs"
    by (simp add: fs_exists_def path_exists_def tag_dir_def demo_config_def demo_fs_def is_root_def)
      (simp add: split_path_def)
  then have raw: "eng_read_raw demo_env ''a'' \<lparr>tr_start = 0, tr_end = 9\<rparr> (demo_cached, demo_fs) = [?p]"
    by (simp add: eng_read_raw_def demo_cached_def eng_new_def lc_update_def lc_get_def contains_def Let_def)
  have b: "agg_bucket 5 ?p = 5" by (simp add: agg_bucket_def signed_divide_int_def)
  have "list_all (agg_defined 5) (eng_read_raw demo_env ''a'' \<lparr>tr_start = 0, tr_end = 9\<rparr> (demo_cached, demo_fs))"
    unfolding raw by (simp add: agg_defined_def)
  from engine_aggregates_buckets [OF this, of AGG_AVG] show ?thesis
    unfolding raw by (simp add: b) (simp add: group_agg_def Let_def number_value_def)
qed

text \<open>The maximum of a bucket without NaN is one of its values and below none of them.\<close>

lemma group_max:
  assumes "ps \<noteq> []" "\<And>p. p \<in> set ps \<Longrightarrow> \<not> f64_is_nan (number_value p)"
  shows "ag_max (group_agg k ps) \<in> number_value ` set ps"
    "p \<in> set ps \<Longrightarrow> \<not> f64_lt (ag_max (group_agg k ps)) (number_value p)"
proof -
  let ?f = "foldl (\<lambda>m v. if f64_lt m v then v else m)"
  have g: "?f m vs \<in> insert m (set vs) \<and> (\<forall>v\<in>insert m (set vs). \<not> f64_lt (?f m vs) v)"
    if "\<forall>v\<in>insert m (set vs). \<not> f64_is_nan v" for m vs
    using that
  proof (induction vs arbitrary: m)
    case (Cons v vs)
    define w where "w = (if f64_lt m v then v else m)"
    have w: "\<not> f64_lt w m" "\<not> f64_lt w v" "w \<in> {m, v}" by (auto simp: w_def f64_lt_def)
    then have ih: "?f w vs \<in> insert w (set vs)" "\<forall>x\<in>insert w (set vs). \<not> f64_lt (?f w vs) x"
      using Cons.IH [of w] Cons.prems by auto
    have "\<not> f64_lt (?f w vs) x" if "x \<in> {m, v}" for x
    proof -
      have "\<not> f64_lt w x" using w that by auto
      moreover have "\<not> f64_is_nan w" "\<not> f64_is_nan x" "\<not> f64_is_nan (?f w vs)" using w that Cons.prems ih(1) by auto
      ultimately show ?thesis using ih(2) by (auto simp: f64_lt_def)
    qed
    with ih w(3) show ?case by (auto simp flip: w_def)
  qed (simp add: f64_lt_def)
  obtain q qs where ps: "ps = q # qs" using assms(1) by (cases ps) auto
  have "\<forall>v\<in>insert (number_value q) (set (map number_value qs)). \<not> f64_is_nan v" using assms(2) ps by auto
  from g [OF this] have "ag_max (group_agg k ps) \<in> number_value ` set ps
      \<and> (\<forall>p\<in>set ps. \<not> f64_lt (ag_max (group_agg k ps)) (number_value p))"
    by (simp add: ps group_agg_def Let_def)
  then show "ag_max (group_agg k ps) \<in> number_value ` set ps"
    "p \<in> set ps \<Longrightarrow> \<not> f64_lt (ag_max (group_agg k ps)) (number_value p)" by blast+
qed

text \<open>The bucket at zero is twice as wide as the others: the division truncates towards zero.\<close>

lemma zero_bucket_wide:
  assumes "0 < sint bucket" "\<bar>sint (dp_ts p)\<bar> < sint bucket"
  shows "agg_bucket bucket p = 0"
  using assms by (simp add: agg_bucket_def signed_divide_int_def)

end
