(* ===== verification/Sql_Ast.thy ===== *)
theory Sql_Ast
  imports Aggregate
begin

text \<open>
  The statements of \<^verbatim>\<open>src/src/sql/ast.h\<close>. The variant \<^verbatim>\<open>SQLStmt\<close> is the datatype
  \<open>sql_stmt\<close>; a \<^verbatim>\<open>ParseResult\<close> is an error message or a statement. \<^verbatim>\<open>QueryPlan\<close> is used nowhere.
\<close>

record insert_stmt =
  is_table :: string
  is_columns :: "string list"
  is_rows :: "string list list"

record select_expr =
  se_expr :: string
  se_alias :: string
  se_is_aggregate :: bool
  se_agg_type :: agg_type

record where_clause =
  wc_tag_filter :: string
  wc_tag_pattern :: string
  wc_time_range :: time_range

record select_stmt =
  ss_columns :: "select_expr list"
  ss_table :: string
  ss_where :: where_clause
  ss_latest :: bool
  ss_order_by :: string
  ss_order_asc :: bool
  ss_limit :: int
  ss_group_by :: "string option"

record create_tag_stmt =
  ct_tag :: string
  ct_properties :: "(string \<times> string) list"

record create_alarm_stmt =
  ca_alarm :: string
  ca_tag :: string
  ca_condition :: string
  ca_actions :: "string list"

record create_user_stmt =
  cu_username :: string
  cu_password :: string
  cu_role :: string

record create_table_stmt =
  cb_table :: string
  cb_properties :: "(string \<times> string) list"

record create_tags_stmt =
  cs_table :: string
  cs_tags :: "(string \<times> (string \<times> string) list) list"

record alter_tag_stmt =
  at_table :: string
  at_tag :: string
  at_property :: string
  at_value :: string

record delete_stmt =
  ds_table :: string
  ds_tag_filter :: string
  ds_time_range :: time_range

record update_stmt =
  us_table :: string
  us_tag_filter :: string
  us_exact_time :: timestamp
  us_new_value :: f64

datatype show_type = DATABASES | TABLES | TAGS | USERS | ALARMS

record show_stmt =
  sh_type :: show_type
  sh_filter_db :: string
  sh_filter_table :: string
  sh_pattern :: string

text \<open>Statements with one or two names keep them as arguments, in the order of their fields.\<close>

datatype sql_stmt =
    InsertStmt insert_stmt
  | SelectStmt select_stmt
  | CreateTagStmt create_tag_stmt
  | CreateAlarmStmt create_alarm_stmt
  | CreateUserStmt create_user_stmt
  | AlterSystemStmt string string
  | DropTagStmt string string
  | DropAlarmStmt string
  | DropUserStmt string
  | DropTableStmt string
  | DropDatabaseStmt string
  | CreateDatabaseStmt string
  | UseStmt string
  | CreateTableStmt create_table_stmt
  | CreateTagsStmt create_tags_stmt
  | AlterTagStmt alter_tag_stmt
  | AlterAlarmStmt string string string
  | AlterUserStmt string string string
  | DeleteStmt delete_stmt
  | UpdateStmt update_stmt
  | ShowStmt show_stmt

type_synonym parse_result = "string + sql_stmt"

definition zero_range :: time_range where
  "zero_range = \<lparr>tr_start = 0, tr_end = 0\<rparr>"

definition new_where :: where_clause where
  "new_where = \<lparr>wc_tag_filter = [], wc_tag_pattern = [], wc_time_range = zero_range\<rparr>"

definition new_select :: select_stmt where
  "new_select = \<lparr>ss_columns = [], ss_table = [], ss_where = new_where, ss_latest = False, ss_order_by = [],
     ss_order_asc = True, ss_limit = - 1, ss_group_by = None\<rparr>"

end
