(* ===== verification/Sql_Scan.thy ===== *)
theory Sql_Scan
  imports Text_Util "HOL-Library.Sublist"
begin

text \<open>
  The scanning functions at the head of \<^verbatim>\<open>src/src/sql/parser.cpp\<close>: positions in the text are
  natural numbers, and a search that finds nothing (\<^verbatim>\<open>npos\<close>) is \<open>None\<close>.
\<close>

section \<open>Functions\<close>

definition sql_trim :: "string \<Rightarrow> string" where
  "sql_trim s = trim_set line_blanks s"

definition substr :: "string \<Rightarrow> nat \<Rightarrow> nat \<Rightarrow> string" where
  "substr s pos n = take n (drop pos s)"

text \<open>\<^verbatim>\<open>s[pos]\<close>, which is the terminating zero at the end.\<close>

definition char_at :: "string \<Rightarrow> nat \<Rightarrow> char" where
  "char_at s pos = (if pos < length s then s ! pos else CHR 0x00)"

definition find_keyword :: "string \<Rightarrow> string \<Rightarrow> nat \<Rightarrow> nat option" where
  "find_keyword sql kw pos = find_from (upper_string kw) (upper_string sql) pos"

definition starts_keyword :: "string \<Rightarrow> string \<Rightarrow> bool" where
  "starts_keyword sql kw = prefix kw (upper_string sql)"

text \<open>The end of a keyword found from the start; a position that was not found wraps around.\<close>

definition after_keyword :: "string \<Rightarrow> string \<Rightarrow> nat" where
  "after_keyword sql kw = (case find_keyword sql kw 0 of Some p \<Rightarrow> p + length kw | None \<Rightarrow> length kw - 1)"

definition skip_while :: "(char \<Rightarrow> bool) \<Rightarrow> string \<Rightarrow> nat \<Rightarrow> nat" where
  "skip_while P sql pos = pos + length (takeWhile P (drop pos sql))"

definition is_gap :: "char \<Rightarrow> bool" where
  "is_gap c \<longleftrightarrow> c \<in> {CHR '' '', CHR 0x09, CHR 0x0A, CHR 0x0D, CHR '',''}"

definition skip_whitespace :: "string \<Rightarrow> nat \<Rightarrow> nat" where
  "skip_whitespace sql pos = skip_while is_gap sql pos"

definition is_quote :: "char \<Rightarrow> bool" where
  "is_quote c \<longleftrightarrow> c = CHR 0x27 \<or> c = CHR 0x22"

text \<open>The text up to the closing quote, a doubled quote standing for one, and the number of characters read.\<close>

fun quoted_body :: "char \<Rightarrow> string \<Rightarrow> string \<times> nat" where
  "quoted_body q [] = ([], 0)"
| "quoted_body q [c] = (if c = q then ([], 1) else ([c], 1))"
| "quoted_body q (c # d # cs) =
     (if c = q then
        (if d = q then (case quoted_body q cs of (r, n) \<Rightarrow> (q # r, n + 2)) else ([], 1))
      else (case quoted_body q (d # cs) of (r, n) \<Rightarrow> (c # r, n + 1)))"

definition extract_quoted :: "string \<Rightarrow> nat \<Rightarrow> string \<times> nat" where
  "extract_quoted sql pos =
     (if length sql \<le> pos \<or> \<not> is_quote (sql ! pos) then ([], pos)
      else case quoted_body (sql ! pos) (drop (pos + 1) sql) of (r, n) \<Rightarrow> (r, pos + 1 + n))"

definition unquoted :: "string \<Rightarrow> string" where
  "unquoted v = (if v \<noteq> [] \<and> is_quote (hd v) then fst (extract_quoted v 0) else v)"

section \<open>Progress\<close>

lemma skip_while_ge [simp, intro]: "pos \<le> skip_while P sql pos"
  by (simp add: skip_while_def)

lemma skip_whitespace_ge [simp, intro]: "pos \<le> skip_whitespace sql pos"
  by (simp add: skip_whitespace_def)

lemma skip_whitespace_less: "pos < p \<Longrightarrow> pos < skip_whitespace sql p"
  by (erule less_le_trans) simp

lemma skip_while_step: "pos < length sql \<Longrightarrow> P (sql ! pos) \<Longrightarrow> pos < skip_while P sql pos"
  by (simp add: skip_while_def Cons_nth_drop_Suc [symmetric])

lemma skip_while_stays: "pos < length sql \<Longrightarrow> \<not> P (sql ! pos) \<Longrightarrow> skip_while P sql pos = pos"
  by (simp add: skip_while_def Cons_nth_drop_Suc [symmetric])

lemma skip_while_le: "pos \<le> length sql \<Longrightarrow> skip_while P sql pos \<le> length sql"
  using length_takeWhile_le [of P "drop pos sql"] by (simp add: skip_while_def)

lemma skip_while_end: "length sql \<le> pos \<Longrightarrow> skip_while P sql pos = pos"
  by (simp add: skip_while_def)

lemma skip_while_stops:
  assumes "skip_while P sql pos < length sql"
  shows "\<not> P (sql ! skip_while P sql pos)"
proof -
  have "length (takeWhile P (drop pos sql)) < length (drop pos sql)" using assms by (simp add: skip_while_def)
  from nth_length_takeWhile [OF this] show ?thesis using assms by (simp add: skip_while_def)
qed

lemma extract_quoted_ge [simp, intro]: "pos \<le> snd (extract_quoted sql pos)"
  by (simp add: extract_quoted_def split: prod.split)

lemma extract_quoted_step: "pos < length sql \<Longrightarrow> is_quote (sql ! pos) \<Longrightarrow> pos < snd (extract_quoted sql pos)"
  by (simp add: extract_quoted_def split: prod.split)

section \<open>Quoting\<close>

text \<open>How a literal is written: in quotes, every quote in it doubled.\<close>

definition quote_literal :: "char \<Rightarrow> string \<Rightarrow> string" where
  "quote_literal q s = q # concat (map (\<lambda>c. if c = q then [q, q] else [c]) s) @ [q]"

lemma quoted_body_literal:
  "rest = [] \<or> hd rest \<noteq> q \<Longrightarrow>
   quoted_body q (concat (map (\<lambda>c. if c = q then [q, q] else [c]) s) @ q # rest)
     = (s, Suc (length (concat (map (\<lambda>c. if c = q then [q, q] else [c]) s))))"
proof (induction s)
  case Nil
  then show ?case by (cases rest) simp_all
next
  case (Cons c s)
  show ?case
  proof (cases "c = q")
    case True
    with Cons show ?thesis by simp
  next
    case False
    obtain d ds where "concat (map (\<lambda>c. if c = q then [q, q] else [c]) s) @ q # rest = d # ds"
      by (cases "concat (map (\<lambda>c. if c = q then [q, q] else [c]) s) @ q # rest") auto
    with Cons False show ?thesis by simp
  qed
qed

lemma extract_quoted_literal:
  assumes "is_quote q" "rest = [] \<or> hd rest \<noteq> q"
  shows "extract_quoted (pre @ quote_literal q s @ rest) (length pre) = (s, length (pre @ quote_literal q s))"
  using quoted_body_literal [OF assms(2), of s] assms(1)
  by (simp add: extract_quoted_def quote_literal_def nth_append)

section \<open>Searching\<close>

lemma find_string_sublist: "find_string needle s \<noteq> None \<longleftrightarrow> sublist needle s"
proof (induction s)
  case (Cons c cs)
  then show ?case by (auto simp: sublist_Cons_right)
qed simp

lemma find_string_first:
  "needle \<noteq> [] \<Longrightarrow> find_string needle s = Some i \<Longrightarrow> \<not> sublist needle (take i s)"
proof (induction s arbitrary: i)
  case (Cons c cs)
  show ?case
  proof (cases "prefix needle (c # cs)")
    case False
    with Cons.prems obtain j where j: "i = Suc j" "find_string needle cs = Some j" by auto
    have "\<not> prefix needle (c # take j cs)" 
    proof
      assume "prefix needle (c # take j cs)"
      moreover have "prefix (c # take j cs) (c # cs)" by (simp add: take_is_prefix)
      ultimately show False using False prefix_order.trans by blast
    qed
    with Cons.IH [OF Cons.prems(1) j(2)] j show ?thesis by (simp add: sublist_Cons_right)
  qed (use Cons.prems in \<open>simp add: sublist_Nil_right\<close>)
qed simp

lemma sublist_trim: "sublist (sql_trim s) s"
proof -
  have "suffix (dropWhile P s) s" for P by (rule suffix_dropWhile)
  moreover have "prefix (rev (dropWhile P (rev t))) t" for P t
    by (metis suffix_dropWhile suffix_to_prefix rev_rev_ident)
  ultimately show ?thesis unfolding sql_trim_def trim_set_def
    by (meson prefix_imp_sublist suffix_imp_sublist sublist_order.order.trans)
qed

lemma sublist_upper: "sublist s t \<Longrightarrow> sublist (upper_string s) (upper_string t)"
  unfolding upper_string_def by (rule map_mono_sublist)

lemma find_keyword_none: "\<not> sublist (upper_string kw) (upper_string sql) \<Longrightarrow> find_keyword sql kw pos = None"
proof -
  assume n: "\<not> sublist (upper_string kw) (upper_string sql)"
  have "sublist (drop pos (upper_string sql)) (upper_string sql)" by simp
  with n have "\<not> sublist (upper_string kw) (drop pos (upper_string sql))" using sublist_order.order.trans by blast
  then have "find_string (upper_string kw) (drop pos (upper_string sql)) = None"
    using find_string_sublist [of "upper_string kw" "drop pos (upper_string sql)"] by blast
  then show ?thesis by (simp add: find_keyword_def find_from_def)
qed

lemma find_keyword_bounds:
  "find_keyword sql kw pos = Some i \<Longrightarrow> pos \<le> i \<and> i + length kw \<le> length sql"
  using find_from_some [of "upper_string kw" "upper_string sql" pos i] by (simp add: find_keyword_def upper_string_def)

text \<open>A piece of text before the first occurrence of a keyword does not contain it.\<close>

lemma no_keyword_before:
  assumes "find_keyword sql kw pos = Some i" "kw \<noteq> []"
  shows "\<not> sublist (upper_string kw) (upper_string (sql_trim (substr sql pos (i - pos))))"
proof
  assume s: "sublist (upper_string kw) (upper_string (sql_trim (substr sql pos (i - pos))))"
  have "sublist (upper_string (sql_trim (substr sql pos (i - pos)))) (upper_string (substr sql pos (i - pos)))"
    by (intro sublist_upper sublist_trim)
  with s have "sublist (upper_string kw) (take (i - pos) (drop pos (upper_string sql)))"
    using sublist_order.order.trans by (fastforce simp: substr_def upper_string_def take_map drop_map)
  moreover have "find_string (upper_string kw) (drop pos (upper_string sql)) = Some (i - pos)"
    using assms(1) by (auto simp: find_keyword_def find_from_def split: if_splits)
  moreover have "upper_string kw \<noteq> []" using assms(2) by (simp add: upper_string_def)
  ultimately show False using find_string_first by blast
qed

end
