(* ===== verification/Civil_Time.thy ===== *)
theory Civil_Time
  imports Number_Read
begin

text \<open>
  Broken-down time: \<^verbatim>\<open>std::tm\<close>, the reading of a date with \<^verbatim>\<open>std::get_time\<close> and
  \<^verbatim>\<open>"%Y-%m-%d"\<close>, \<^verbatim>\<open>mktime\<close> and \<^verbatim>\<open>gmtime\<close> in the proleptic Gregorian calendar. The parser
  takes \<^verbatim>\<open>mktime\<close> as a parameter, since it depends on the time zone; \<open>utc_mktime\<close> is its value for UTC.
\<close>

record civil =
  tm_year :: int
  tm_mon :: int
  tm_mday :: int
  tm_hour :: int
  tm_min :: int
  tm_sec :: int

definition zero_civil :: civil where
  "zero_civil = \<lparr>tm_year = 0, tm_mon = 0, tm_mday = 0, tm_hour = 0, tm_min = 0, tm_sec = 0\<rparr>"

section \<open>Days of the calendar\<close>

text \<open>
  Days since 1970-01-01 of the day \<open>d\<close> of the month \<open>m\<close> (0 is March) of the year \<open>y\<close> that starts in
  March: leap days come at the end of such a year.
\<close>

definition march_days :: "int \<Rightarrow> int \<Rightarrow> int \<Rightarrow> int" where
  "march_days y m d = 365 * y + y div 4 - y div 100 + y div 400 + (153 * m + 2) div 5 + d - 719469"

text \<open>Month 0 is January and may lie outside the year, as \<^verbatim>\<open>mktime\<close> allows.\<close>

definition civil_days :: "int \<Rightarrow> int \<Rightarrow> int \<Rightarrow> int" where
  "civil_days y m d = (let k = 12 * y + m - 2 in march_days (k div 12) (k mod 12) d)"

definition utc_mktime :: "civil \<Rightarrow> int" where
  "utc_mktime t = civil_days (tm_year t + 1900) (tm_mon t) (tm_mday t) * 86400
     + tm_hour t * 3600 + tm_min t * 60 + tm_sec t"

text \<open>The other direction: the year, month and day of a day number, era by era of 400 years.\<close>

definition days_civil :: "int \<Rightarrow> int \<times> int \<times> int" where
  "days_civil n =
     (let z = n + 719468; era = z div 146097; doe = z mod 146097;
          yoe = (doe - doe div 1460 + doe div 36524 - doe div 146096) div 365;
          doy = doe - (365 * yoe + yoe div 4 - yoe div 100);
          mp = (5 * doy + 2) div 153;
          d = doy - (153 * mp + 2) div 5 + 1;
          k = 12 * (yoe + era * 400) + mp + 2
      in (k div 12, k mod 12, d))"

definition gmtime :: "int \<Rightarrow> civil" where
  "gmtime t =
     (case days_civil (t div 86400) of (y, m, d) \<Rightarrow>
        let s = t mod 86400 in
        \<lparr>tm_year = y - 1900, tm_mon = m, tm_mday = d, tm_hour = s div 3600, tm_min = s mod 3600 div 60, tm_sec = s mod 60\<rparr>)"

section \<open>Reading a date\<close>

text \<open>At most \<open>n\<close> digits in a range, as a conversion of \<^verbatim>\<open>strptime\<close> reads them.\<close>

definition read_field :: "nat \<Rightarrow> int \<Rightarrow> int \<Rightarrow> string \<Rightarrow> (int \<times> string) option" where
  "read_field n lo hi s =
     (let ds = takeWhile is_digit (take n s); v = int (number_of 10 ds)
      in if ds = [] \<or> v < lo \<or> hi < v then None else Some (v, drop (length ds) s))"

definition read_literal :: "char \<Rightarrow> string \<Rightarrow> string option" where
  "read_literal c s = (case s of x # xs \<Rightarrow> if x = c then Some xs else None | [] \<Rightarrow> None)"

text \<open>The fields read before a failure stay set; the result tells whether the stream is still good.\<close>

definition get_date :: "string \<Rightarrow> civil \<Rightarrow> civil \<times> string option" where
  "get_date s t =
     (case read_field 4 0 9999 (dropWhile is_space s) of
        None \<Rightarrow> (t, None)
      | Some (y, s) \<Rightarrow>
          let t = t\<lparr>tm_year := y - 1900\<rparr> in
          case Option.bind (read_literal (CHR ''-'') s) (read_field 2 1 12) of
            None \<Rightarrow> (t, None)
          | Some (m, s) \<Rightarrow>
              let t = t\<lparr>tm_mon := m - 1\<rparr> in
              case Option.bind (read_literal (CHR ''-'') s) (read_field 2 1 31) of
                None \<Rightarrow> (t, None)
              | Some (d, s) \<Rightarrow> (t\<lparr>tm_mday := d\<rparr>, Some s))"

text \<open>
  \<^verbatim>\<open>iss >> int\<close> and \<^verbatim>\<open>iss >> char\<close>: a stream at its end leaves the variable, a text without a number
  sets it to 0, a number that does not fit to the nearest bound; each of these fails the stream.
\<close>

definition stream_int :: "int \<Rightarrow> string option \<Rightarrow> int \<times> string option" where
  "stream_int old s =
     (case map_option (dropWhile is_space) s of
        None \<Rightarrow> (old, None)
      | Some [] \<Rightarrow> (old, None)
      | Some cs \<Rightarrow>
          (case read_sign cs of (neg, ds) \<Rightarrow>
             if takeWhile is_digit ds = [] then (0, None)
             else let n = int (number_of 10 (takeWhile is_digit ds)); v = (if neg then - n else n)
               in if v < - (2 ^ 31) then (- (2 ^ 31), None)
                  else if 2 ^ 31 \<le> v then (2 ^ 31 - 1, None)
                  else (v, Some (dropWhile is_digit ds))))"

definition stream_char :: "string option \<Rightarrow> string option" where
  "stream_char s = (case map_option (dropWhile is_space) s of Some (c # cs) \<Rightarrow> Some cs | _ \<Rightarrow> None)"

definition get_clock :: "int \<times> int \<times> int \<Rightarrow> string \<Rightarrow> int \<times> int \<times> int" where
  "get_clock unset s =
     (case unset of (h0, m0, s0) \<Rightarrow>
      case stream_int h0 (Some s) of (h, s) \<Rightarrow>
      case stream_int m0 (stream_char s) of (m, s) \<Rightarrow>
      case stream_int s0 (stream_char s) of (sec, s) \<Rightarrow> (h, m, sec))"

end
