(* ===== verification/Sql_Parser.thy ===== *)
theory Sql_Parser
  imports Sql_Ast Sql_Scan Civil_Time
begin

text \<open>
  The SQL parser, \<^verbatim>\<open>src/src/sql/parser.{h,cpp}\<close>, function by function. A parse is an error message or a
  statement; only the list of actions of \<^verbatim>\<open>CREATE ALARM\<close> may be scanned forever, so \<open>sql_parse\<close> returns
  an option, where \<open>None\<close> means that the call does not return. \<^verbatim>\<open>mktime\<close> and the values of the
  variables that \<^verbatim>\<open>ParseTimeString\<close> leaves uninitialised are parameters.
\<close>

section \<open>Times\<close>

record time_env =
  te_mktime :: "civil \<Rightarrow> int"
  te_unset :: "int \<times> int \<times> int"

definition parse_clock :: "time_env \<Rightarrow> string \<Rightarrow> civil \<times> string option \<Rightarrow> civil" where
  "parse_clock te s date =
     (case date of
        (t, None) \<Rightarrow> t
      | (t, Some r) \<Rightarrow>
          let sep = (if CHR ''T'' \<in> set s then CHR ''T'' else CHR '' '');
              r = (if r \<noteq> [] \<and> hd r = sep then tl r else r)
          in case get_clock (te_unset te) r of (h, m, sec) \<Rightarrow> t\<lparr>tm_hour := h, tm_min := m, tm_sec := sec\<rparr>)"

definition parse_time_string :: "time_env \<Rightarrow> string \<Rightarrow> timestamp" where
  "parse_time_string te s =
     (if s = [] then 0
      else
        let date = get_date s zero_civil;
            t = (if CHR ''T'' \<in> set s \<or> CHR '' '' \<in> set s then parse_clock te s date else fst date);
            t = t\<lparr>tm_year := tm_year t - 1900, tm_mon := tm_mon t - 1\<rparr>;
            epoch = te_mktime te t
        in if epoch = - 1 then 0 else word_of_int (epoch * 1000))"

section \<open>INSERT\<close>

definition at_end_or :: "char \<Rightarrow> string \<Rightarrow> nat \<Rightarrow> bool" where
  "at_end_or c sql pos \<longleftrightarrow> length sql \<le> pos \<or> sql ! pos = c"

definition item_end :: "string \<Rightarrow> nat \<Rightarrow> nat" where
  "item_end sql pos = skip_while (\<lambda>c. c \<noteq> CHR '','' \<and> c \<noteq> CHR '')'') sql pos"

lemma item_end_ge [simp, intro]: "pos \<le> item_end sql pos"
  by (simp add: item_end_def)

text \<open>An item of a list is never empty of characters: gap, quoted text or a bare word moves on.\<close>

lemma item_progress:
  assumes "\<not> at_end_or (CHR '')'') sql pos"
  shows "pos < skip_whitespace sql (item_end sql (skip_whitespace sql pos))"
    "is_quote (char_at sql (skip_whitespace sql pos)) \<Longrightarrow>
     pos < skip_whitespace sql (snd (extract_quoted sql (skip_whitespace sql pos)))"
proof -
  let ?p = "skip_whitespace sql pos"
  have pos: "pos < length sql" "sql ! pos \<noteq> CHR '')''" using assms by (auto simp: at_end_or_def)
  show "pos < skip_whitespace sql (item_end sql ?p)"
  proof (cases "is_gap (sql ! pos)")
    case True
    then have "pos < ?p" using pos(1) by (simp add: skip_whitespace_def skip_while_step)
    then show ?thesis using skip_whitespace_ge [of "item_end sql ?p" sql] item_end_ge [of ?p sql] by linarith
  next
    case False
    then have p: "?p = pos" using pos(1) by (simp add: skip_whitespace_def skip_while_stays)
    have "sql ! pos \<noteq> CHR '',''" using False by (auto simp: is_gap_def)
    then have "pos < item_end sql pos" using pos by (simp add: item_end_def skip_while_step)
    then show ?thesis using skip_whitespace_ge [of "item_end sql pos" sql] unfolding p by linarith
  qed
  assume "is_quote (char_at sql ?p)"
  then have "?p < length sql" "is_quote (sql ! ?p)" by (auto simp: char_at_def is_quote_def split: if_splits)
  from extract_quoted_step [OF this]
  show "pos < skip_whitespace sql (snd (extract_quoted sql ?p))"
    using skip_whitespace_ge [of pos sql] skip_whitespace_ge [of "snd (extract_quoted sql ?p)" sql] by linarith
qed

function insert_columns :: "string \<Rightarrow> nat \<Rightarrow> string list \<times> nat" where
  "insert_columns sql pos =
     (if at_end_or (CHR '')'') sql pos then ([], pos)
      else
        let p = skip_whitespace sql pos; e = item_end sql p
        in case insert_columns sql (skip_whitespace sql e) of
             (cols, q) \<Rightarrow> (sql_trim (substr sql p (e - p)) # cols, q))"
  by pat_completeness auto
termination
proof (relation "measure (\<lambda>(sql, pos). length sql - pos)")
  fix sql pos p e assume a: "\<not> at_end_or (CHR '')'') sql pos" "p = skip_whitespace sql pos" "e = item_end sql p"
  then show "((sql, skip_whitespace sql e), sql, pos) \<in> measure (\<lambda>(sql, pos). length sql - pos)"
    using item_progress(1) [OF a(1)] by (auto simp: at_end_or_def)
qed simp

declare insert_columns.simps [simp del]

definition row_value :: "string \<Rightarrow> nat \<Rightarrow> string \<times> nat" where
  "row_value sql p =
     (if is_quote (char_at sql p) then extract_quoted sql p
      else let e = item_end sql p in (sql_trim (substr sql p (e - p)), e))"

lemma row_value_progress:
  "\<not> at_end_or (CHR '')'') sql pos \<Longrightarrow> pos < skip_whitespace sql (snd (row_value sql (skip_whitespace sql pos)))"
  using item_progress [of sql pos] by (simp add: row_value_def Let_def)

function insert_row :: "string \<Rightarrow> nat \<Rightarrow> string list \<times> nat" where
  "insert_row sql pos =
     (if at_end_or (CHR '')'') sql pos then ([], pos)
      else case row_value sql (skip_whitespace sql pos) of
        (v, e) \<Rightarrow> (case insert_row sql (skip_whitespace sql e) of (vs, q) \<Rightarrow> (v # vs, q)))"
  by pat_completeness auto
termination
proof (relation "measure (\<lambda>(sql, pos). length sql - pos)")
  fix sql pos v e assume a: "\<not> at_end_or (CHR '')'') sql pos" "(v, e) = row_value sql (skip_whitespace sql pos)"
  then have "pos < skip_whitespace sql e" using row_value_progress [OF a(1)] by (metis snd_conv)
  then show "((sql, skip_whitespace sql e), sql, pos) \<in> measure (\<lambda>(sql, pos). length sql - pos)"
    using a(1) by (auto simp: at_end_or_def)
qed simp

declare insert_row.simps [simp del]

lemma insert_row_ge: "pos \<le> snd (insert_row sql pos)"
proof (induction sql pos rule: insert_row.induct)
  case (1 sql pos)
  show ?case
  proof (cases "at_end_or (CHR '')'') sql pos")
    case True
    then show ?thesis by (subst insert_row.simps) simp
  next
    case False
    obtain v e where v: "row_value sql (skip_whitespace sql pos) = (v, e)" by (metis surj_pair)
    have "pos < skip_whitespace sql e" using row_value_progress [OF False] v by simp
    with 1 [OF False v [symmetric]] False v show ?thesis
      by (subst insert_row.simps) (auto split: prod.split)
  qed
qed

function insert_rows :: "string \<Rightarrow> nat \<Rightarrow> string list list" where
  "insert_rows sql pos =
     (if length sql \<le> pos \<or> sql ! pos \<noteq> CHR ''('' then []
      else case insert_row sql (pos + 1) of
        (row, p) \<Rightarrow> row # insert_rows sql (skip_whitespace sql (if p < length sql then p + 1 else p)))"
  by pat_completeness auto
termination
proof (relation "measure (\<lambda>(sql, pos). length sql - pos)")
  fix sql :: string and pos row p
  assume a: "\<not> (length sql \<le> pos \<or> sql ! pos \<noteq> CHR ''('')" "(row, p) = insert_row sql (pos + 1)"
  have "pos < p" using insert_row_ge [of "pos + 1" sql] a(2) by (metis Suc_eq_plus1 less_eq_Suc_le snd_conv)
  then have "pos < skip_whitespace sql (if p < length sql then p + 1 else p)"
    by (intro skip_whitespace_less) simp
  then show "((sql, skip_whitespace sql (if p < length sql then p + 1 else p)), sql, pos)
      \<in> measure (\<lambda>(sql, pos). length sql - pos)"
    using a(1) by (simp add: diff_less_mono2 del: if_split)
qed simp

declare insert_rows.simps [simp del]

definition parse_insert :: "string \<Rightarrow> parse_result" where
  "parse_insert sql =
     (case find_keyword sql ''INSERT INTO'' 0 of
        None \<Rightarrow> Inl ''Expected INSERT INTO''
      | Some p \<Rightarrow>
          let start = skip_whitespace sql (p + 11);
              name_end = skip_while (\<lambda>c. c \<noteq> CHR ''('' \<and> c \<noteq> CHR '' '') sql start;
              table = substr sql start (name_end - start);
              pos = skip_whitespace sql name_end;
              (columns, pos) =
                (if pos < length sql \<and> sql ! pos = CHR ''('' then
                   (case insert_columns sql (pos + 1) of (cs, e) \<Rightarrow> (cs, if e < length sql then e + 1 else e))
                 else ([], pos))
          in (case find_keyword sql ''VALUES'' pos of
               None \<Rightarrow> Inl ''Expected VALUES''
             | Some v \<Rightarrow>
                 let rows = insert_rows sql (skip_whitespace sql (v + 6))
                 in if rows = [] then Inl ''No values provided''
                    else Inr (InsertStmt \<lparr>is_table = table, is_columns = columns, is_rows = rows\<rparr>)))"

section \<open>SELECT\<close>

definition agg_names :: "(string \<times> agg_type) list" where
  "agg_names = [(''AVG'', AGG_AVG), (''MAX'', AGG_MAX), (''MIN'', AGG_MIN), (''SUM'', AGG_SUM), (''COUNT'', AGG_COUNT),
     (''FIRST'', AGG_FIRST), (''LAST'', AGG_LAST), (''STDDEV'', AGG_STDDEV)]"

definition column_agg :: "string \<Rightarrow> agg_type option" where
  "column_agg col = map_option snd (List.find (\<lambda>(name, _). find_keyword col name 0 \<noteq> None) agg_names)"

definition parse_column :: "string \<Rightarrow> select_expr" where
  "parse_column col =
     (let e = \<lparr>se_expr = [], se_alias = [], se_is_aggregate = False, se_agg_type = AGG_NONE\<rparr>;
          e = (if find_keyword col ''TIME_BUCKET'' 0 = None then e
               else e\<lparr>se_is_aggregate := True,
                      se_alias := (case (find_from ''('' col 0, find_keyword col ''AS'' 0) of
                                     (Some _, Some a) \<Rightarrow> sql_trim (drop (a + 2) col) | _ \<Rightarrow> [])\<rparr>);
          e = (case column_agg col of
                 Some a \<Rightarrow> e\<lparr>se_is_aggregate := True, se_expr := col, se_agg_type := a\<rparr> | None \<Rightarrow> e)
      in if se_is_aggregate e then e else e\<lparr>se_expr := col\<rparr>)"

function parse_columns :: "string \<Rightarrow> nat \<Rightarrow> select_expr list" where
  "parse_columns cols pos =
     (let p = skip_whitespace cols pos in
      if length cols \<le> pos \<or> length cols \<le> p then []
      else case find_from '','' cols p of
        None \<Rightarrow> [parse_column (sql_trim (drop p cols))]
      | Some c \<Rightarrow> parse_column (sql_trim (substr cols p (c - p))) # parse_columns cols (c + 1))"
  by pat_completeness auto
termination
proof (relation "measure (\<lambda>(cols, pos). length cols - pos)")
  fix cols :: string and pos p c
  assume a: "p = skip_whitespace cols pos" "\<not> (length cols \<le> pos \<or> length cols \<le> p)" "find_from '','' cols p = Some c"
  have "p \<le> c" using find_from_some [OF a(3)] by simp
  then have "pos < c + 1" using skip_whitespace_ge [of pos cols] unfolding a(1) by linarith
  then show "((cols, c + 1), cols, pos) \<in> measure (\<lambda>(cols, pos). length cols - pos)" using a(2) by auto
qed simp

declare parse_columns.simps [simp del]

definition where_between :: "time_env \<Rightarrow> string \<Rightarrow> where_clause \<Rightarrow> where_clause" where
  "where_between te clause w =
     (case find_keyword clause ''BETWEEN'' 0 of
        None \<Rightarrow> w
      | Some b \<Rightarrow>
          let p = skip_while (\<lambda>c. \<not> is_quote c) clause (skip_whitespace clause (b + 7));
              (ts_start, p) = (if p < length clause then extract_quoted clause p else ([], p));
              ts_end = (case find_keyword clause ''AND'' p of
                          None \<Rightarrow> []
                        | Some a \<Rightarrow>
                            let q = skip_whitespace clause (a + 3)
                            in if q < length clause then fst (extract_quoted clause q) else [])
          in w\<lparr>wc_time_range := \<lparr>tr_start = parse_time_string te ts_start, tr_end = parse_time_string te ts_end\<rparr>\<rparr>)"

definition where_condition :: "time_env \<Rightarrow> string \<Rightarrow> where_clause \<Rightarrow> where_clause" where
  "where_condition te clause w =
     (let w = where_between te clause w in
      case find_from ''='' clause 0 of
        Some eq \<Rightarrow>
          if upper_string (sql_trim (take eq clause)) = ''TAG''
          then w\<lparr>wc_tag_filter := unquoted (sql_trim (drop (eq + 1) clause))\<rparr> else w
      | None \<Rightarrow>
          (case find_keyword clause ''LIKE'' 0 of
             Some l \<Rightarrow>
               if upper_string (sql_trim (take l clause)) = ''TAG''
               then w\<lparr>wc_tag_pattern := unquoted (sql_trim (drop (l + 4) clause))\<rparr> else w
           | None \<Rightarrow> w))"

function where_conditions :: "time_env \<Rightarrow> string \<Rightarrow> nat \<Rightarrow> where_clause \<Rightarrow> where_clause" where
  "where_conditions te s pos w =
     (if length s \<le> pos then w
      else case find_keyword s ''AND'' pos of
        None \<Rightarrow> where_condition te (sql_trim (drop pos s)) w
      | Some n \<Rightarrow> where_conditions te s (n + 3) (where_condition te (sql_trim (substr s pos (n - pos))) w))"
  by pat_completeness auto
termination
proof (relation "measure (\<lambda>(te, s, pos, w). length s - pos)")
  fix te :: time_env and s :: string and pos w n
  assume "\<not> length s \<le> pos" "find_keyword s ''AND'' pos = Some n"
  then show "((te, s, n + 3, where_condition te (sql_trim (substr s pos (n - pos))) w), te, s, pos, w)
      \<in> measure (\<lambda>(te, s, pos, w). length s - pos)"
    using find_keyword_bounds [of s "''AND''" pos n] by auto
qed simp

declare where_conditions.simps [simp del]

definition min_pos :: "nat option \<Rightarrow> nat \<Rightarrow> nat" where
  "min_pos p n = (case p of Some k \<Rightarrow> min n k | None \<Rightarrow> n)"

text \<open>\<^verbatim>\<open>substr(pos, end - pos)\<close>: a negative length wraps around and takes the rest.\<close>

definition between_pos :: "string \<Rightarrow> nat \<Rightarrow> nat \<Rightarrow> string" where
  "between_pos s pos e = (if e < pos then drop pos s else substr s pos (e - pos))"

definition parse_where :: "time_env \<Rightarrow> string \<Rightarrow> nat \<Rightarrow> nat \<Rightarrow> where_clause \<Rightarrow> where_clause" where
  "parse_where te sql where_pos where_end w =
     where_conditions te (sql_trim (between_pos sql (skip_whitespace sql (where_pos + 5)) where_end)) 0 w"

definition parse_group_by :: "string \<Rightarrow> nat \<Rightarrow> string" where
  "parse_group_by sql group_pos =
     (case find_from ''('' sql (skip_whitespace sql (group_pos + 8)) of
        None \<Rightarrow> [] | Some p \<Rightarrow> fst (extract_quoted sql (p + 1)))"

definition parse_select :: "time_env \<Rightarrow> string \<Rightarrow> parse_result" where
  "parse_select te sql =
     (let start = skip_whitespace sql (after_keyword sql ''SELECT'') in
      case find_keyword sql ''FROM'' start of
        None \<Rightarrow> Inl ''Expected FROM''
      | Some from_pos \<Rightarrow>
          let stmt = new_select\<lparr>ss_columns := parse_columns (substr sql start (from_pos - start)) 0\<rparr>;
              pos = skip_whitespace sql (from_pos + 4);
              where_pos = find_keyword sql ''WHERE'' pos;
              latest_pos = find_keyword sql ''LATEST'' pos;
              group_pos = find_keyword sql ''GROUP BY'' pos;
              order_pos = find_keyword sql ''ORDER BY'' pos;
              limit_pos = find_keyword sql ''LIMIT'' pos
          in if where_pos = None \<and> latest_pos = None
             then Inr (SelectStmt (stmt\<lparr>ss_table := sql_trim (drop pos sql)\<rparr>))
             else
               let table_end = (case where_pos of Some k \<Rightarrow> k | None \<Rightarrow> the latest_pos);
                   table = sql_trim (substr sql pos (table_end - pos));
                   stmt = stmt\<lparr>ss_table := table, ss_latest := (upper_string table = ''SNAPSHOT'')\<rparr>;
                   where_end = min_pos limit_pos (min_pos order_pos (min_pos group_pos (min_pos latest_pos (length sql))));
                   stmt = (case where_pos of
                             None \<Rightarrow> stmt
                           | Some k \<Rightarrow> stmt\<lparr>ss_where := parse_where te sql k where_end (ss_where stmt)\<rparr>);
                   stmt = (if latest_pos = None then stmt else stmt\<lparr>ss_latest := True\<rparr>)
               in Inr (SelectStmt (stmt\<lparr>ss_group_by := map_option (parse_group_by sql) group_pos\<rparr>)))"

section \<open>CREATE\<close>

text \<open>
  The lists \<^verbatim>\<open>(key=value, ...)\<close> of \<^verbatim>\<open>CREATE TAG\<close>, \<^verbatim>\<open>CREATE TABLE\<close> and \<^verbatim>\<open>CREATE TAGS\<close> are read
  by three copies of one loop, which differ in the quotes they know and in whether a closing
  parenthesis before the next equals sign ends the list.
\<close>

definition list_end :: "bool \<Rightarrow> string \<Rightarrow> nat \<Rightarrow> nat \<Rightarrow> bool" where
  "list_end check_paren sql p eq \<longleftrightarrow> check_paren \<and> (case find_from '')'' sql p of Some e \<Rightarrow> e < eq | None \<Rightarrow> False)"

definition prop_value :: "(char \<Rightarrow> bool) \<Rightarrow> string \<Rightarrow> nat \<Rightarrow> string \<times> nat" where
  "prop_value quote sql q =
     (if quote (char_at sql q) then extract_quoted sql q
      else let e = item_end sql q in (sql_trim (substr sql q (e - q)), e))"

lemma prop_value_ge: "q \<le> snd (prop_value quote sql q)"
  by (simp add: prop_value_def Let_def)

function prop_loop :: "(char \<Rightarrow> bool) \<Rightarrow> bool \<Rightarrow> string \<Rightarrow> nat \<Rightarrow> (string \<times> string) list \<times> nat" where
  "prop_loop quote check_paren sql pos =
     (if at_end_or (CHR '')'') sql pos then ([], pos)
      else
        let p = skip_whitespace sql pos in
        case find_from ''='' sql p of
          None \<Rightarrow> ([], p)
        | Some eq \<Rightarrow>
            if list_end check_paren sql p eq then ([], p)
            else case prop_value quote sql (skip_whitespace sql (eq + 1)) of
              (v, e) \<Rightarrow> (case prop_loop quote check_paren sql (skip_whitespace sql e) of
                 (ps, q) \<Rightarrow> ((sql_trim (substr sql p (eq - p)), v) # ps, q)))"
  by pat_completeness auto
termination
proof (relation "measure (\<lambda>(quote, check_paren, sql, pos). length sql - pos)")
  fix quote :: "char \<Rightarrow> bool" and check_paren sql pos p eq v e
  assume a: "\<not> at_end_or (CHR '')'') sql pos" "p = skip_whitespace sql pos" "find_from ''='' sql p = Some eq"
    "(v, e) = prop_value quote sql (skip_whitespace sql (eq + 1))"
  have "p \<le> eq" using find_from_some [OF a(3)] by simp
  moreover have "eq + 1 \<le> e"
    using prop_value_ge [of "skip_whitespace sql (eq + 1)" quote sql] skip_whitespace_ge [of "eq + 1" sql] a(4)
    by (metis le_trans snd_conv)
  ultimately have "pos < e" using skip_whitespace_ge [of pos sql] unfolding a(2) by linarith
  then have "pos < skip_whitespace sql e" by (rule skip_whitespace_less)
  then show "((quote, check_paren, sql, skip_whitespace sql e), quote, check_paren, sql, pos)
      \<in> measure (\<lambda>(quote, check_paren, sql, pos). length sql - pos)"
    using a(1) by (auto simp: at_end_or_def)
qed simp

declare prop_loop.simps [simp del]

lemma prop_loop_ge: "pos \<le> snd (prop_loop quote check_paren sql pos)"
proof (induction quote check_paren sql pos rule: prop_loop.induct)
  case (1 quote check_paren sql pos)
  let ?p = "skip_whitespace sql pos"
  have p: "pos \<le> ?p" by simp
  show ?case
  proof (cases "at_end_or (CHR '')'') sql pos \<or> find_from ''='' sql ?p = None")
    case True
    with p show ?thesis by (subst prop_loop.simps) (auto simp: Let_def)
  next
    case False
    then obtain eq where eq: "find_from ''='' sql ?p = Some eq" by blast
    obtain v e where v: "prop_value quote sql (skip_whitespace sql (eq + 1)) = (v, e)" by (metis surj_pair)
    have "?p \<le> eq" using find_from_some [OF eq] by simp
    moreover have "eq + 1 \<le> e"
      using prop_value_ge [of "skip_whitespace sql (eq + 1)" quote sql] skip_whitespace_ge [of "eq + 1" sql] v
      by (metis le_trans snd_conv)
    ultimately have "pos \<le> skip_whitespace sql e" using p skip_whitespace_ge [of e sql] by linarith
    then show ?thesis using 1 [OF _ refl eq _ v [symmetric]] False p
      by (subst prop_loop.simps) (auto simp: Let_def eq v [simplified] split: prod.split)
  qed
qed

definition tag_props :: "string \<Rightarrow> nat \<Rightarrow> (string \<times> string) list" where
  "tag_props sql pos = fst (prop_loop is_quote False sql pos)"

definition parse_create_tag :: "string \<Rightarrow> parse_result" where
  "parse_create_tag sql =
     (let start = skip_whitespace sql (after_keyword sql ''CREATE TAG'');
          name_end = skip_while (\<lambda>c. c \<noteq> CHR '' '' \<and> c \<noteq> CHR ''('') sql start;
          pos = skip_whitespace sql name_end
      in Inr (CreateTagStmt \<lparr>ct_tag = substr sql start (name_end - start),
           ct_properties = (if pos < length sql \<and> sql ! pos = CHR ''('' then tag_props sql (pos + 1) else [])\<rparr>))"

text \<open>
  The actions of an alarm. An action that is not quoted is not read, and the loop stays where it is.
\<close>

partial_function (option) alarm_actions :: "string \<Rightarrow> nat \<Rightarrow> string list option" where
  "alarm_actions sql pos =
     (if at_end_or (CHR '')'') sql pos then Some []
      else case extract_quoted sql (skip_whitespace sql pos) of
        (action, p) \<Rightarrow>
          Option.bind (alarm_actions sql (skip_whitespace sql p))
            (\<lambda>actions. Some (if action = [] then actions else action # actions)))"

declare alarm_actions.simps [code]

definition until_space :: "string \<Rightarrow> nat \<Rightarrow> nat" where
  "until_space sql pos = skip_while (\<lambda>c. c \<noteq> CHR '' '') sql pos"

definition parse_alarm_actions :: "string \<Rightarrow> nat \<Rightarrow> string list option" where
  "parse_alarm_actions sql then_pos =
     (case find_keyword sql ''ACTION'' then_pos of
        None \<Rightarrow> Some []
      | Some p \<Rightarrow> (case find_from ''('' sql p of None \<Rightarrow> Some [] | Some q \<Rightarrow> alarm_actions sql (q + 1)))"

definition parse_create_alarm :: "string \<Rightarrow> parse_result option" where
  "parse_create_alarm sql =
     (let start = skip_whitespace sql (after_keyword sql ''CREATE ALARM'');
          name_end = until_space sql start;
          name = substr sql start (name_end - start)
      in (case find_keyword sql ''ON'' (skip_whitespace sql name_end) of
           None \<Rightarrow> Some (Inl ''Expected ON'')
         | Some on_pos \<Rightarrow>
             let pos = skip_whitespace sql (on_pos + 2);
                 tag = substr sql pos (until_space sql pos - pos)
             in (case find_keyword sql ''WHEN'' pos of
                  None \<Rightarrow> Some (Inl ''Expected WHEN'')
                | Some when_pos \<Rightarrow>
                    let pos = skip_whitespace sql (when_pos + 4) in
                    (case find_keyword sql ''THEN'' pos of
                      None \<Rightarrow> Some (Inl ''Expected THEN'')
                    | Some then_pos \<Rightarrow>
                        Option.bind (parse_alarm_actions sql then_pos) (\<lambda>actions.
                          Some (Inr (CreateAlarmStmt \<lparr>ca_alarm = name, ca_tag = tag,
                            ca_condition = sql_trim (substr sql pos (then_pos - pos)), ca_actions = actions\<rparr>)))))))"

definition parse_password :: "string \<Rightarrow> nat \<Rightarrow> string \<times> nat" where
  "parse_password sql pos =
     (case find_keyword sql ''PASSWORD'' pos of
        None \<Rightarrow> ([], pos)
      | Some k \<Rightarrow>
          let p = skip_whitespace sql (k + 8)
          in if is_quote (char_at sql p) then extract_quoted sql p else ([], p))"

definition parse_role :: "string \<Rightarrow> nat \<Rightarrow> string" where
  "parse_role sql pos =
     (case find_keyword sql ''ROLE'' pos of
        None \<Rightarrow> []
      | Some k \<Rightarrow>
          let p = skip_whitespace sql (k + 4)
          in if is_quote (char_at sql p) then fst (extract_quoted sql p)
             else substr sql p (until_space sql p - p))"

definition parse_create_user :: "string \<Rightarrow> parse_result" where
  "parse_create_user sql =
     (let start = skip_whitespace sql (after_keyword sql ''CREATE USER'');
          name_end = until_space sql start;
          (password, pos) = parse_password sql (skip_whitespace sql name_end);
          role = parse_role sql pos
      in Inr (CreateUserStmt \<lparr>cu_username = substr sql start (name_end - start),
           cu_password = (if password = [] then ''default123'' else password),
           cu_role = (if role = [] then ''viewer'' else role)\<rparr>))"

definition rest_name :: "string \<Rightarrow> string \<Rightarrow> string" where
  "rest_name sql kw = sql_trim (drop (skip_whitespace sql (after_keyword sql kw)) sql)"

definition parse_create_database :: "string \<Rightarrow> parse_result" where
  "parse_create_database sql = Inr (CreateDatabaseStmt (rest_name sql ''CREATE DATABASE''))"

definition table_props :: "string \<Rightarrow> nat \<Rightarrow> (string \<times> string) list" where
  "table_props sql pos = fst (prop_loop (\<lambda>c. c = CHR 0x27) True sql pos)"

definition parse_create_table :: "string \<Rightarrow> parse_result" where
  "parse_create_table sql =
     (let start = skip_whitespace sql (after_keyword sql ''CREATE TABLE'');
          name_end = skip_while (\<lambda>c. c \<noteq> CHR '' '' \<and> c \<noteq> CHR ''('') sql start;
          pos = skip_whitespace sql name_end
      in Inr (CreateTableStmt \<lparr>cb_table = sql_trim (substr sql start (name_end - start)),
           cb_properties = (if pos < length sql \<and> sql ! pos = CHR ''('' then table_props sql (pos + 1) else [])\<rparr>))"

definition tag_def_props :: "string \<Rightarrow> nat \<Rightarrow> (string \<times> string) list \<times> nat" where
  "tag_def_props sql q =
     (if q < length sql \<and> sql ! q = CHR ''('' then
        (case prop_loop (\<lambda>c. c = CHR 0x27) False sql (q + 1) of (ps, r) \<Rightarrow> (ps, if r < length sql then r + 1 else r))
      else ([], q))"

definition tag_def :: "string \<Rightarrow> nat \<Rightarrow> (string \<times> (string \<times> string) list) \<times> nat" where
  "tag_def sql pos =
     (let p = skip_whitespace sql pos;
          e = skip_while (\<lambda>c. c \<noteq> CHR ''('' \<and> c \<noteq> CHR '','' \<and> c \<noteq> CHR '')'') sql p
      in case tag_def_props sql (skip_whitespace sql e) of
           (props, r) \<Rightarrow>
             let r = skip_whitespace sql r
             in ((sql_trim (substr sql p (e - p)), props), if r < length sql \<and> sql ! r = CHR '','' then r + 1 else r))"

lemma tag_def_progress:
  assumes "\<not> at_end_or (CHR '')'') sql pos" "tag_def sql pos = (d, r)"
  shows "pos < r"
proof -
  define p where "p = skip_whitespace sql pos"
  define e where "e = skip_while (\<lambda>c. c \<noteq> CHR ''('' \<and> c \<noteq> CHR '','' \<and> c \<noteq> CHR '')'') sql p"
  define q where "q = skip_whitespace sql e"
  obtain props r1 where r1: "tag_def_props sql q = (props, r1)" by (metis surj_pair)
  have le: "pos \<le> p" "p \<le> e" "e \<le> q" by (simp_all add: p_def e_def q_def)
  have q1: "q \<le> r1" using r1 prop_loop_ge [of "q + 1" "\<lambda>c. c = CHR 0x27" False sql]
    by (auto simp: tag_def_props_def split: if_splits prod.splits)
  have r: "skip_whitespace sql r1 \<le> r"
    using assms(2) r1 by (auto simp: tag_def_def Let_def p_def e_def q_def split: if_splits)
  have "pos < r1"
  proof (cases "pos < e")
    case True
    then show ?thesis using le q1 by linarith
  next
    case False
    then have eq: "p = pos" "e = pos" using le by linarith+
    have pos: "pos < length sql" "sql ! pos \<noteq> CHR '')''" using assms(1) by (auto simp: at_end_or_def)
    have ng: "\<not> is_gap (sql ! pos)"
    proof
      assume "is_gap (sql ! pos)"
      then have "pos < p" unfolding p_def skip_whitespace_def using pos(1) by (intro skip_while_step)
      with eq show False by simp
    qed
    have "sql ! pos \<in> {CHR ''('', CHR '','', CHR '')''}"
    proof (rule ccontr)
      assume "\<not> ?thesis"
      then have "pos < e" unfolding e_def eq(1) using pos(1) by (intro skip_while_step) auto
      with eq show False by simp
    qed
    then have "sql ! pos = CHR ''(''" using pos(2) ng by (auto simp: is_gap_def)
    moreover have "q = pos" using ng pos(1) by (simp add: q_def eq skip_whitespace_def skip_while_stays)
    ultimately show ?thesis using r1 pos(1) prop_loop_ge [of "q + 1" "\<lambda>c. c = CHR 0x27" False sql]
      by (auto simp: tag_def_props_def split: if_splits prod.splits)
  qed
  then have "pos < skip_whitespace sql r1" by (rule skip_whitespace_less)
  with r show ?thesis by linarith
qed

function tag_defs :: "string \<Rightarrow> nat \<Rightarrow> (string \<times> (string \<times> string) list) list" where
  "tag_defs sql pos =
     (if at_end_or (CHR '')'') sql pos then []
      else case tag_def sql pos of (d, r) \<Rightarrow> d # tag_defs sql r)"
  by pat_completeness auto
termination
proof (relation "measure (\<lambda>(sql, pos). length sql - pos)")
  fix sql pos d r assume a: "\<not> at_end_or (CHR '')'') sql pos" "(d, r) = tag_def sql pos"
  from tag_def_progress [OF a(1) a(2) [symmetric]] a(1)
  show "((sql, r), sql, pos) \<in> measure (\<lambda>(sql, pos). length sql - pos)" by (auto simp: at_end_or_def)
qed simp

declare tag_defs.simps [simp del]

definition parse_create_tags :: "string \<Rightarrow> parse_result" where
  "parse_create_tags sql =
     (case find_keyword sql ''IN TABLE'' (skip_whitespace sql (after_keyword sql ''CREATE TAGS'')) of
        None \<Rightarrow> Inl ''CREATE TAGS requires IN TABLE''
      | Some k \<Rightarrow>
          let pos = skip_whitespace sql (k + 8) in
          (case find_from ''('' sql pos of
            None \<Rightarrow> Inl ''CREATE TAGS needs tag list''
          | Some e \<Rightarrow> Inr (CreateTagsStmt \<lparr>cs_table = sql_trim (substr sql pos (e - pos)), cs_tags = tag_defs sql (e + 1)\<rparr>)))"

section \<open>ALTER, DROP, USE\<close>

definition set_keyword :: string where
  "set_keyword = '' SET ''"

definition parse_alter_system :: "string \<Rightarrow> parse_result" where
  "parse_alter_system sql =
     (case find_keyword sql ''SET'' 0 of
        None \<Rightarrow> Inl ''Expected SET''
      | Some k \<Rightarrow>
          let pos = skip_whitespace sql (k + 3) in
          (case find_from ''='' sql pos of
            None \<Rightarrow> Inl ''Expected key=value''
          | Some eq \<Rightarrow> Inr (AlterSystemStmt (sql_trim (substr sql pos (eq - pos))) (unquoted (sql_trim (drop (eq + 1) sql))))))"

text \<open>A table and a tag around the first point; without a point the table stays empty.\<close>

definition parse_drop_tag :: "string \<Rightarrow> parse_result" where
  "parse_drop_tag sql =
     (let rest = rest_name sql ''DROP TAG'' in
      (case find_from ''.'' rest 0 of
        Some d \<Rightarrow> Inr (DropTagStmt (sql_trim (take d rest)) (sql_trim (drop (d + 1) rest)))
      | None \<Rightarrow> Inr (DropTagStmt [] rest)))"

definition parse_drop_alarm :: "string \<Rightarrow> parse_result" where
  "parse_drop_alarm sql = Inr (DropAlarmStmt (rest_name sql ''DROP ALARM''))"

definition parse_drop_user :: "string \<Rightarrow> parse_result" where
  "parse_drop_user sql = Inr (DropUserStmt (rest_name sql ''DROP USER''))"

definition parse_drop_table :: "string \<Rightarrow> parse_result" where
  "parse_drop_table sql = Inr (DropTableStmt (rest_name sql ''DROP TABLE''))"

definition parse_drop_database :: "string \<Rightarrow> parse_result" where
  "parse_drop_database sql = Inr (DropDatabaseStmt (rest_name sql ''DROP DATABASE''))"

definition parse_use :: "string \<Rightarrow> parse_result" where
  "parse_use sql = Inr (UseStmt (rest_name sql ''USE''))"

definition parse_alter_user :: "string \<Rightarrow> parse_result" where
  "parse_alter_user sql =
     (let start = skip_whitespace sql (after_keyword sql ''ALTER USER'') in
      (case find_from set_keyword sql start of
        None \<Rightarrow> Inl ''Invalid ALTER USER syntax''
      | Some name_end \<Rightarrow>
          let username = sql_trim (substr sql start (name_end - start));
              pos = skip_whitespace sql (name_end + 5)
          in (case find_from [CHR 0x27] sql pos of
               None \<Rightarrow>
                 let property = sql_trim (drop pos sql) in
                 (case find_from '' '' property 0 of
                    Some k \<Rightarrow> Inr (AlterUserStmt username (sql_trim (take k property)) (sql_trim (drop (k + 1) property)))
                  | None \<Rightarrow> Inr (AlterUserStmt username property []))
             | Some v \<Rightarrow> Inr (AlterUserStmt username (sql_trim (substr sql pos (v - pos))) (fst (extract_quoted sql v))))))"

definition alter_alarm_spaced :: "string \<Rightarrow> string \<Rightarrow> nat \<Rightarrow> parse_result" where
  "alter_alarm_spaced sql name pos =
     (case find_from '' '' sql pos of
        None \<Rightarrow> Inr (AlterAlarmStmt name [] [])
      | Some sp \<Rightarrow>
          (case find_from [CHR 0x27] sql sp of
             None \<Rightarrow> Inl ''Invalid ALTER ALARM value''
           | Some q \<Rightarrow> Inr (AlterAlarmStmt name (sql_trim (substr sql pos (sp - pos))) (fst (extract_quoted sql q)))))"

definition parse_alter_alarm :: "string \<Rightarrow> parse_result" where
  "parse_alter_alarm sql =
     (let start = skip_whitespace sql (after_keyword sql ''ALTER ALARM'') in
      (case find_from set_keyword sql start of
        None \<Rightarrow> Inl ''Invalid ALTER ALARM syntax''
      | Some k \<Rightarrow>
          let name = sql_trim (substr sql start (k - start)); pos = skip_whitespace sql (k + 5) in
          (case find_from ''='' sql pos of
            None \<Rightarrow> alter_alarm_spaced sql name pos
          | Some eq \<Rightarrow>
              let p = skip_whitespace sql (eq + 1);
                  e = skip_while (\<lambda>c. c \<noteq> CHR '' '' \<and> c \<noteq> CHR 0x09) sql p;
                  value = (if char_at sql p = CHR 0x27 then fst (extract_quoted sql p) else sql_trim (substr sql p (e - p)))
              in Inr (AlterAlarmStmt name (sql_trim (substr sql pos (eq - pos))) value))))"

text \<open>A value that starts with a quote loses its first and last character.\<close>

definition strip_quotes :: "string \<Rightarrow> string" where
  "strip_quotes v = take (length v - 2) (drop 1 v)"

definition parse_alter_tag :: "string \<Rightarrow> parse_result" where
  "parse_alter_tag sql =
     (let rest = rest_name sql ''ALTER TAG'' in
      (case find_from ''.'' rest 0 of
        None \<Rightarrow> Inl ''ALTER TAG requires <table>.<tag>''
      | Some d \<Rightarrow>
          let after = sql_trim (drop (d + 1) rest) in
          (case find_from set_keyword after 0 of
            None \<Rightarrow> Inl ''Invalid ALTER TAG syntax''
          | Some k \<Rightarrow>
              let prop_part = sql_trim (drop (k + 5) after) in
              (case find_from ''='' prop_part 0 of
                None \<Rightarrow> Inl ''Invalid ALTER TAG property''
              | Some eq \<Rightarrow>
                  let v = sql_trim (drop (eq + 1) prop_part) in
                  Inr (AlterTagStmt \<lparr>at_table = sql_trim (take d rest), at_tag = sql_trim (take k after),
                    at_property = sql_trim (take eq prop_part),
                    at_value = (if v \<noteq> [] \<and> hd v = CHR 0x27 then strip_quotes v else v)\<rparr>)))))"

section \<open>DELETE, UPDATE, SHOW\<close>

definition tag_equals :: "string \<Rightarrow> nat \<Rightarrow> string" where
  "tag_equals sql pos =
     (case find_from ''tag='' sql pos of
        None \<Rightarrow> []
      | Some k \<Rightarrow>
          let p = skip_whitespace sql (k + 4)
          in if char_at sql p = CHR 0x27 then fst (extract_quoted sql p) else [])"

definition clean_quotes :: "string \<Rightarrow> string" where
  "clean_quotes v = (if 2 \<le> length v \<and> hd v = CHR 0x27 then strip_quotes v else v)"

definition delete_range :: "time_env \<Rightarrow> string \<Rightarrow> nat \<Rightarrow> time_range" where
  "delete_range te sql pos =
     (case find_keyword sql ''BETWEEN'' pos of
        None \<Rightarrow> zero_range
      | Some b \<Rightarrow>
          (case find_keyword sql ''AND'' (b + 7) of
             None \<Rightarrow> zero_range
           | Some a \<Rightarrow>
               \<lparr>tr_start = parse_time_string te (clean_quotes (sql_trim (substr sql (b + 7) (a - b - 7)))),
                tr_end = parse_time_string te (clean_quotes (sql_trim (drop (a + 3) sql)))\<rparr>))"

definition parse_delete :: "time_env \<Rightarrow> string \<Rightarrow> parse_result" where
  "parse_delete te sql =
     (case find_keyword sql ''FROM'' (skip_whitespace sql (after_keyword sql ''DELETE'')) of
        None \<Rightarrow> Inl ''DELETE requires FROM''
      | Some k \<Rightarrow>
          let pos = skip_whitespace sql (k + 4) in
          (case find_keyword sql ''WHERE'' pos of
            None \<Rightarrow> Inl ''DELETE requires WHERE''
          | Some w \<Rightarrow> Inr (DeleteStmt \<lparr>ds_table = sql_trim (substr sql pos (w - pos)),
              ds_tag_filter = tag_equals sql (w + 5), ds_time_range = delete_range te sql (w + 5)\<rparr>)))"

definition timestamp_equals :: "time_env \<Rightarrow> string \<Rightarrow> nat \<Rightarrow> timestamp" where
  "timestamp_equals te sql pos =
     (case (case find_from ''timestamp='' sql pos of Some k \<Rightarrow> Some k | None \<Rightarrow> find_from ''timestamp ='' sql pos) of
        None \<Rightarrow> 0
      | Some k \<Rightarrow>
          let p = skip_whitespace sql (case find_from ''='' sql k of Some e \<Rightarrow> e + 1 | None \<Rightarrow> 0)
          in if char_at sql p = CHR 0x27 then parse_time_string te (fst (extract_quoted sql p)) else 0)"

definition update_value :: "string \<Rightarrow> nat \<Rightarrow> nat \<Rightarrow> f64" where
  "update_value sql pos where_pos =
     (case find_from ''='' sql pos of
        None \<Rightarrow> 0
      | Some eq \<Rightarrow>
          if where_pos \<le> eq then 0
          else (case stod (sql_trim (substr sql (eq + 1) (where_pos - eq - 1))) of Inr (v, _) \<Rightarrow> v | Inl _ \<Rightarrow> 0))"

definition parse_update :: "time_env \<Rightarrow> string \<Rightarrow> parse_result" where
  "parse_update te sql =
     (let start = skip_whitespace sql (after_keyword sql ''UPDATE'') in
      (case find_keyword sql ''SET'' start of
        None \<Rightarrow> Inl ''UPDATE requires SET''
      | Some k \<Rightarrow>
          let pos = skip_whitespace sql (k + 3) in
          (case find_keyword sql ''WHERE'' pos of
            None \<Rightarrow> Inl ''UPDATE requires WHERE''
          | Some w \<Rightarrow> Inr (UpdateStmt \<lparr>us_table = sql_trim (substr sql start (k - start)),
              us_tag_filter = tag_equals sql (w + 5), us_exact_time = timestamp_equals te sql (w + 5),
              us_new_value = update_value sql pos w\<rparr>))))"

definition show_of :: "show_type \<Rightarrow> show_stmt" where
  "show_of t = \<lparr>sh_type = t, sh_filter_db = [], sh_filter_table = [], sh_pattern = []\<rparr>"

definition show_tags_from :: "string \<Rightarrow> show_stmt" where
  "show_tags_from sql =
     (let pos = after_keyword sql ''FROM'' in
      case find_keyword sql ''LIKE'' pos of
        Some l \<Rightarrow> (show_of TAGS)\<lparr>sh_filter_table := sql_trim (substr sql pos (l - pos)),
                                sh_pattern := clean_quotes (sql_trim (drop (l + 4) sql))\<rparr>
      | None \<Rightarrow> (show_of TAGS)\<lparr>sh_filter_table := sql_trim (drop pos sql)\<rparr>)"

definition parse_show :: "string \<Rightarrow> parse_result" where
  "parse_show sql =
     (if starts_keyword sql ''SHOW DATABASES'' then Inr (ShowStmt (show_of DATABASES))
      else if starts_keyword sql ''SHOW TABLES FROM'' then
        Inr (ShowStmt ((show_of TABLES)\<lparr>sh_filter_db := sql_trim (drop (after_keyword sql ''FROM'') sql)\<rparr>))
      else if starts_keyword sql ''SHOW TABLES'' then Inr (ShowStmt (show_of TABLES))
      else if starts_keyword sql ''SHOW TAGS FROM'' then Inr (ShowStmt (show_tags_from sql))
      else if starts_keyword sql ''SHOW TAGS'' then Inr (ShowStmt (show_of TAGS))
      else if starts_keyword sql ''SHOW USERS'' then Inr (ShowStmt (show_of USERS))
      else if starts_keyword sql ''SHOW ALARMS'' then Inr (ShowStmt (show_of ALARMS))
      else Inl ''Unknown SHOW type'')"

section \<open>Parse\<close>

definition statement_is :: "string \<Rightarrow> string \<Rightarrow> bool" where
  "statement_is kw sql = starts_keyword (sql_trim sql) kw"

definition sql_parse :: "time_env \<Rightarrow> string \<Rightarrow> parse_result option" where
  "sql_parse te text =
     (let sql = sql_trim text in
      if sql = [] then Some (Inl ''Empty SQL statement'')
      else if starts_keyword sql ''SELECT'' then Some (parse_select te sql)
      else if starts_keyword sql ''CREATE DATABASE'' then Some (parse_create_database sql)
      else if starts_keyword sql ''CREATE TABLE'' then Some (parse_create_table sql)
      else if starts_keyword sql ''CREATE TAGS'' then Some (parse_create_tags sql)
      else if starts_keyword sql ''CREATE TAG'' then Some (parse_create_tag sql)
      else if starts_keyword sql ''CREATE ALARM'' then parse_create_alarm sql
      else if starts_keyword sql ''CREATE USER'' then Some (parse_create_user sql)
      else if starts_keyword sql ''DROP TABLE'' then Some (parse_drop_table sql)
      else if starts_keyword sql ''DROP TAG'' then Some (parse_drop_tag sql)
      else if starts_keyword sql ''DROP ALARM'' then Some (parse_drop_alarm sql)
      else if starts_keyword sql ''DROP USER'' then Some (parse_drop_user sql)
      else if starts_keyword sql ''DROP DATABASE'' then Some (parse_drop_database sql)
      else if starts_keyword sql ''ALTER TAG'' then Some (parse_alter_tag sql)
      else if starts_keyword sql ''ALTER ALARM'' then Some (parse_alter_alarm sql)
      else if starts_keyword sql ''ALTER USER'' then Some (parse_alter_user sql)
      else if starts_keyword sql ''ALTER SYSTEM'' then Some (parse_alter_system sql)
      else if starts_keyword sql ''ALTER'' then Some (Inl ''Unknown ALTER type'')
      else if starts_keyword sql ''INSERT'' then Some (parse_insert sql)
      else if starts_keyword sql ''DELETE'' then Some (parse_delete te sql)
      else if starts_keyword sql ''UPDATE'' then Some (parse_update te sql)
      else if starts_keyword sql ''USE '' \<or> upper_string sql = ''USE'' then Some (parse_use sql)
      else if starts_keyword sql ''SHOW'' then Some (parse_show sql)
      else Some (Inl (''Unknown statement type: '' @ take 30 sql)))"

end
