(* ===== verification/Sha256.thy ===== *)
theory Sha256
  imports Checksum Number_Text
begin

unbundle bit_operations_syntax

text \<open>
  The SHA-256 of \<^verbatim>\<open>src/src/auth/auth_manager.cpp\<close> (the class \<^verbatim>\<open>SHA256\<close>): bytes are
  collected in a 64-byte buffer that is compressed whenever it is full. \<open>fips_sha256\<close> is the
  standard's one-shot description (pad, cut into blocks, expand by the recursion of the schedule,
  64 rounds with rotations); the properties say that the code computes it.
\<close>

section \<open>The code\<close>

record sha256 =
  sh_h :: "u32 list"
  sh_data :: "byte list"
  sh_count :: nat
  sh_message_bytes :: u64

definition sha_k :: "u32 list" where
  "sha_k = concat [
     [0x428a2f98, 0x71374491, 0xb5c0fbcf, 0xe9b5dba5],
     [0x3956c25b, 0x59f111f1, 0x923f82a4, 0xab1c5ed5],
     [0xd807aa98, 0x12835b01, 0x243185be, 0x550c7dc3],
     [0x72be5d74, 0x80deb1fe, 0x9bdc06a7, 0xc19bf174],
     [0xe49b69c1, 0xefbe4786, 0x0fc19dc6, 0x240ca1cc],
     [0x2de92c6f, 0x4a7484aa, 0x5cb0a9dc, 0x76f988da],
     [0x983e5152, 0xa831c66d, 0xb00327c8, 0xbf597fc7],
     [0xc6e00bf3, 0xd5a79147, 0x06ca6351, 0x14292967],
     [0x27b70a85, 0x2e1b2138, 0x4d2c6dfc, 0x53380d13],
     [0x650a7354, 0x766a0abb, 0x81c2c92e, 0x92722c85],
     [0xa2bfe8a1, 0xa81a664b, 0xc24b8b70, 0xc76c51a3],
     [0xd192e819, 0xd6990624, 0xf40e3585, 0x106aa070],
     [0x19a4c116, 0x1e376c08, 0x2748774c, 0x34b0bcb5],
     [0x391c0cb3, 0x4ed8aa4a, 0x5b9cca4f, 0x682e6ff3],
     [0x748f82ee, 0x78a5636f, 0x84c87814, 0x8cc70208],
     [0x90befffa, 0xa4506ceb, 0xbef9a3f7, 0xc67178f2]]"

text \<open>The buffer is uninitialised in C++; its bytes are written before they are read.\<close>

definition sha_init :: sha256 where
  "sha_init = \<lparr>sh_h = [0x6a09e667, 0xbb67ae85, 0x3c6ef372, 0xa54ff53a, 0x510e527f, 0x9b05688c, 0x1f83d9ab, 0x5be0cd19],
     sh_data = replicate 64 0, sh_count = 0, sh_message_bytes = 0\<rparr>"

definition sha_rotr :: "u32 \<Rightarrow> nat \<Rightarrow> u32" where
  "sha_rotr x n = drop_bit n x OR push_bit (32 - n) x"

definition sha_word :: "byte list \<Rightarrow> nat \<Rightarrow> u32" where
  "sha_word data i = push_bit 24 (ucast (data ! (i * 4))) OR push_bit 16 (ucast (data ! (i * 4 + 1)))
     OR push_bit 8 (ucast (data ! (i * 4 + 2))) OR ucast (data ! (i * 4 + 3))"

definition sha_expand :: "nat \<Rightarrow> u32 list \<Rightarrow> u32 list" where
  "sha_expand i w =
     (let s0 = sha_rotr (w ! (i - 15)) 7 XOR sha_rotr (w ! (i - 15)) 18 XOR drop_bit 3 (w ! (i - 15));
          s1 = sha_rotr (w ! (i - 2)) 17 XOR sha_rotr (w ! (i - 2)) 19 XOR drop_bit 10 (w ! (i - 2))
      in w @ [w ! (i - 16) + s0 + w ! (i - 7) + s1])"

definition sha_schedule :: "byte list \<Rightarrow> u32 list" where
  "sha_schedule data = fold sha_expand [16..<64] (map (sha_word data) [0..<16])"

type_synonym sha_vars = "u32 \<times> u32 \<times> u32 \<times> u32 \<times> u32 \<times> u32 \<times> u32 \<times> u32"

definition sha_round :: "u32 list \<Rightarrow> nat \<Rightarrow> sha_vars \<Rightarrow> sha_vars" where
  "sha_round w i v =
     (case v of (a, b, c, d, e, f, g, h) \<Rightarrow>
        let S1 = sha_rotr e 6 XOR sha_rotr e 11 XOR sha_rotr e 25;
            ch = (e AND f) XOR (NOT e AND g);
            temp1 = h + S1 + ch + sha_k ! i + w ! i;
            S0 = sha_rotr a 2 XOR sha_rotr a 13 XOR sha_rotr a 22;
            maj = (a AND b) XOR (a AND c) XOR (b AND c);
            temp2 = S0 + maj
        in (temp1 + temp2, a, b, c, d + temp1, e, f, g))"

definition sha_compress :: "byte list \<Rightarrow> u32 list \<Rightarrow> u32 list" where
  "sha_compress data hs =
     (case fold (sha_round (sha_schedule data)) [0..<64]
             (hs ! 0, hs ! 1, hs ! 2, hs ! 3, hs ! 4, hs ! 5, hs ! 6, hs ! 7) of
        (a, b, c, d, e, f, g, h) \<Rightarrow>
          [hs ! 0 + a, hs ! 1 + b, hs ! 2 + c, hs ! 3 + d, hs ! 4 + e, hs ! 5 + f, hs ! 6 + g, hs ! 7 + h])"

definition sha_process_block :: "sha256 \<Rightarrow> sha256" where
  "sha_process_block s = s\<lparr>sh_h := sha_compress (sh_data s) (sh_h s)\<rparr>"

definition sha_put :: "byte \<Rightarrow> sha256 \<Rightarrow> sha256" where
  "sha_put b s = s\<lparr>sh_data := (sh_data s)[sh_count s := b], sh_count := sh_count s + 1\<rparr>"

definition sha_feed :: "byte \<Rightarrow> sha256 \<Rightarrow> sha256" where
  "sha_feed b s =
     (let s = sha_put b s in if sh_count s = 64 then (sha_process_block s)\<lparr>sh_count := 0\<rparr> else s)"

definition sha_update :: "byte list \<Rightarrow> sha256 \<Rightarrow> sha256" where
  "sha_update data s = (fold sha_feed data s)\<lparr>sh_message_bytes := sh_message_bytes s + of_nat (length data)\<rparr>"

text \<open>
  The padding loop; a count above 64 is impossible (the buffer has 64 bytes), the recursion stops
  there to be total.
\<close>

function sha_pad_loop :: "sha256 \<Rightarrow> sha256" where
  "sha_pad_loop s =
     (if sh_count s = 56 \<or> 64 < sh_count s then s
      else sha_pad_loop (sha_put 0 (if sh_count s = 64 then (sha_process_block s)\<lparr>sh_count := 0\<rparr> else s)))"
  by pat_completeness auto
termination
  by (relation "measure (\<lambda>s. if sh_count s \<le> 56 then 56 - sh_count s else 130 - sh_count s)")
    (auto simp: sha_put_def)

declare sha_pad_loop.simps [simp del]

definition sha_put_length :: "u64 \<Rightarrow> sha256 \<Rightarrow> sha256" where
  "sha_put_length bits s = fold (\<lambda>i. sha_put (ucast (drop_bit (i * 8) bits AND 0xFF))) (rev [0..<8]) s"

definition sha_hex :: "u32 list \<Rightarrow> string" where
  "sha_hex hs = concat (map (\<lambda>i. pad_left 8 (CHR ''0'') (hex_string (unat (hs ! i)))) [0..<8])"

definition sha_digest :: "sha256 \<Rightarrow> string" where
  "sha_digest s =
     (let bits = sh_message_bytes s * 8;
          s = sha_pad_loop (sha_put 0x80 s);
          s = sha_process_block (sha_put_length bits s)
      in sha_hex (sh_h s))"

definition sha256_hex :: "string \<Rightarrow> string" where
  "sha256_hex input = sha_digest (sha_update (string_bytes input) sha_init)"

definition hash_password :: "string \<Rightarrow> string \<Rightarrow> string" where
  "hash_password password salt =
     sha_digest (sha_update (string_bytes password) (sha_update (string_bytes salt) sha_init))"

section \<open>The standard\<close>

fun be_bytes :: "nat \<Rightarrow> 'a::len word \<Rightarrow> byte list" where
  "be_bytes 0 w = []"
| "be_bytes (Suc n) w = ucast (drop_bit (8 * n) w) # be_bytes n w"

definition fips_pad :: "byte list \<Rightarrow> byte list" where
  "fips_pad m = m @ [0x80] @ replicate ((119 - length m mod 64) mod 64) 0
     @ be_bytes 8 (of_nat (8 * length m) :: u64)"

definition fips_blocks :: "byte list \<Rightarrow> byte list list" where
  "fips_blocks m = map (\<lambda>i. take 64 (drop (64 * i) m)) [0..<length m div 64]"

function fips_w :: "byte list \<Rightarrow> nat \<Rightarrow> u32" where
  "fips_w m t =
     (if t < 16 then word_rcat (take 4 (drop (4 * t) m))
      else (let x = fips_w m (t - 2) in word_rotr 17 x XOR word_rotr 19 x XOR drop_bit 10 x) + fips_w m (t - 7)
         + (let x = fips_w m (t - 15) in word_rotr 7 x XOR word_rotr 18 x XOR drop_bit 3 x) + fips_w m (t - 16))"
  by pat_completeness auto
termination by (relation "measure snd") auto

declare fips_w.simps [simp del]

definition fips_ch :: "u32 \<Rightarrow> u32 \<Rightarrow> u32 \<Rightarrow> u32" where
  "fips_ch x y z = (x AND y) XOR (NOT x AND z)"

definition fips_maj :: "u32 \<Rightarrow> u32 \<Rightarrow> u32 \<Rightarrow> u32" where
  "fips_maj x y z = (x AND y) XOR (x AND z) XOR (y AND z)"

fun fips_rounds :: "byte list \<Rightarrow> nat \<Rightarrow> sha_vars \<Rightarrow> sha_vars" where
  "fips_rounds m 0 v = v"
| "fips_rounds m (Suc t) v =
     (case fips_rounds m t v of (a, b, c, d, e, f, g, h) \<Rightarrow>
        let t1 = h + (word_rotr 6 e XOR word_rotr 11 e XOR word_rotr 25 e) + fips_ch e f g + sha_k ! t + fips_w m t;
            t2 = (word_rotr 2 a XOR word_rotr 13 a XOR word_rotr 22 a) + fips_maj a b c
        in (t1 + t2, a, b, c, d + t1, e, f, g))"

definition fips_compress :: "u32 list \<Rightarrow> byte list \<Rightarrow> u32 list" where
  "fips_compress hs m =
     (case fips_rounds m 64 (hs ! 0, hs ! 1, hs ! 2, hs ! 3, hs ! 4, hs ! 5, hs ! 6, hs ! 7) of
        (a, b, c, d, e, f, g, h) \<Rightarrow> map2 (+) hs [a, b, c, d, e, f, g, h])"

definition fips_sha256 :: "byte list \<Rightarrow> string" where
  "fips_sha256 m = concat (map (\<lambda>w. pad_left 8 (CHR ''0'') (hex_string (unat w)))
     (foldl fips_compress (sh_h sha_init) (fips_blocks (fips_pad m))))"

section \<open>Compression\<close>

lemma sha_rotr_word_rotr:
  assumes "0 < n" "n < 32"
  shows "sha_rotr x n = word_rotr n x"
proof (rule bit_word_eqI)
  fix i assume "i < LENGTH(32)"
  then have i: "i < 32" by simp
  have b: "bit (sha_rotr x n) i \<longleftrightarrow> bit x (n + i) \<or> 32 - n \<le> i \<and> bit x (i - (32 - n))"
    using i by (simp add: sha_rotr_def bit_or_iff bit_drop_bit_eq bit_push_bit_iff)
  show "bit (sha_rotr x n) i = bit (word_rotr n x) i"
  proof (cases "i + n < 32")
    case True
    then have "\<not> 32 - n \<le> i" by linarith
    with b True i show ?thesis by (simp add: bit_word_rotr_iff add.commute)
  next
    case False
    then have "(i + n) mod 32 = i - (32 - n)" using i assms by (simp add: mod_if)
    moreover have "\<not> bit x (n + i)" using False bit_imp_le_length [of x "n + i"] by auto
    moreover have "32 - n \<le> i" using False by linarith
    ultimately show ?thesis using b i by (simp add: bit_word_rotr_iff)
  qed
qed

lemma word_rcat_4:
  "(word_rcat [a, b, c, d :: byte] :: u32) =
     push_bit 24 (ucast a) OR push_bit 16 (ucast b) OR push_bit 8 (ucast c) OR ucast d"
proof (rule bit_word_eqI)
  fix n assume "n < LENGTH(32)"
  then have n: "n < 32" by simp
  have k: "k < 8 \<or> \<not> bit w k" for w :: byte and k using bit_imp_le_length [of w k] by auto
  have "n div 8 = 0 \<and> n mod 8 = n \<and> n < 8 \<or> n div 8 = 1 \<and> n mod 8 = n - 8 \<and> 8 \<le> n \<and> n < 16
      \<or> n div 8 = 2 \<and> n mod 8 = n - 16 \<and> 16 \<le> n \<and> n < 24 \<or> n div 8 = 3 \<and> n mod 8 = n - 24 \<and> 24 \<le> n"
  proof -
    define q r where "q = n div 8" and "r = n mod 8"
    then have "n = 8 * q + r" "r < 8" by simp_all
    moreover from this n have "q = 0 \<or> q = 1 \<or> q = 2 \<or> q = 3" by arith
    ultimately show ?thesis unfolding q_def [symmetric] r_def [symmetric] by auto
  qed
  moreover have "bit (word_rcat [a, b, c, d] :: u32) n \<longleftrightarrow> bit ([d, c, b, a] ! (n div 8)) (n mod 8)"
  proof -
    have "bit (word_rcat [a, b, c, d] :: u32) n \<longleftrightarrow>
        n < LENGTH(32) \<and> n div LENGTH(8) < length [d, c, b, a] \<and> bit ([d, c, b, a] ! (n div LENGTH(8))) (n mod LENGTH(8))"
      by (simp only: word_rcat_def comp_apply bit_word_of_int_iff bit_horner_sum_uint_exp_iff rev.simps append.simps)
    then show ?thesis using n less_mult_imp_div_less [of n 4 8] by simp
  qed
  ultimately show "bit (word_rcat [a, b, c, d] :: u32) n =
      bit (push_bit 24 (ucast a) OR push_bit 16 (ucast b) OR push_bit 8 (ucast c) OR ucast d :: u32) n"
    using n k [of n d] k [of "n - 8" c] k [of "n - 16" b]
    by (elim disjE) (auto simp: bit_or_iff bit_push_bit_iff bit_ucast_iff)
qed

lemma sha_word_rcat:
  assumes "4 * i + 4 \<le> length data"
  shows "sha_word data i = word_rcat (take 4 (drop (4 * i) data))"
proof -
  have "take 4 (drop (4 * i) data) = [data ! (4 * i), data ! (4 * i + 1), data ! (4 * i + 2), data ! (4 * i + 3)]"
    using assms by (simp add: take_Suc_conv_app_nth eval_nat_numeral)
  then show ?thesis by (simp add: word_rcat_4 sha_word_def mult.commute)
qed

lemma sha_schedule_prefix:
  assumes "length m = 64"
  shows "16 + n \<le> 64 \<Longrightarrow>
    fold sha_expand [16..<16 + n] (map (sha_word m) [0..<16]) = map (fips_w m) [0..<16 + n]"
proof (induction n)
  case 0
  have "sha_word m i = fips_w m i" if "i < 16" for i
    using that assms by (subst fips_w.simps) (simp add: sha_word_rcat)
  then show ?case by simp
next
  case (Suc n)
  have "fips_w m (16 + n) =
      (let x = fips_w m (14 + n) in word_rotr 17 x XOR word_rotr 19 x XOR drop_bit 10 x) + fips_w m (9 + n)
       + (let x = fips_w m (1 + n) in word_rotr 7 x XOR word_rotr 18 x XOR drop_bit 3 x) + fips_w m n"
    by (subst fips_w.simps) simp
  then have "sha_expand (16 + n) (map (fips_w m) [0..<16 + n]) = map (fips_w m) [0..<16 + n] @ [fips_w m (16 + n)]"
    by (simp add: sha_expand_def sha_rotr_word_rotr Let_def nth_append del: upt_Suc)
  moreover have u: "[16..<16 + Suc n] = [16..<16 + n] @ [16 + n]" "[0..<16 + Suc n] = [0..<16 + n] @ [16 + n]"
    by (simp_all only: add_Suc_right upt_Suc le_add1 if_True zero_le)
  ultimately show ?case using Suc unfolding u by simp
qed

lemma sha_schedule_fips: "length m = 64 \<Longrightarrow> sha_schedule m = map (fips_w m) [0..<64]"
  using sha_schedule_prefix [of m 48] by (simp add: sha_schedule_def)

lemma sha_rounds_fips:
  assumes "length m = 64"
  shows "n \<le> 64 \<Longrightarrow> fold (sha_round (map (fips_w m) [0..<64])) [0..<n] v = fips_rounds m n v"
  by (induction n) (auto simp: sha_round_def Let_def sha_rotr_word_rotr fips_ch_def fips_maj_def split: prod.split)

lemma sha_compress_fips:
  assumes "length m = 64" "length hs = 8"
  shows "sha_compress m hs = fips_compress hs m"
proof -
  obtain a b c d e f g h where "hs = [a, b, c, d, e, f, g, h]"
    using assms(2) by (auto simp: length_Suc_conv eval_nat_numeral)
  then show ?thesis
    by (simp add: sha_compress_def fips_compress_def sha_schedule_fips [OF assms(1)]
        sha_rounds_fips [OF assms(1)] split: prod.split)
qed

lemma length_fips_compress: "length hs = 8 \<Longrightarrow> length (fips_compress hs m) = 8"
  by (simp add: fips_compress_def split: prod.split)

section \<open>Buffering\<close>

text \<open>The state after the message \<open>m\<close>, with the buffer compressed at the latest before the next byte.\<close>

definition absorbed :: "byte list \<Rightarrow> u32 list" where
  "absorbed m = foldl fips_compress (sh_h sha_init) (fips_blocks m)"

definition sha_holds :: "byte list \<Rightarrow> sha256 \<Rightarrow> bool" where
  "sha_holds m s \<longleftrightarrow> (\<exists>full part. m = full @ part \<and> 64 dvd length full \<and> length part = sh_count s \<and> sh_count s \<le> 64
     \<and> take (sh_count s) (sh_data s) = part \<and> length (sh_data s) = 64 \<and> sh_h s = absorbed full)"

lemma fips_blocks_append:
  assumes "64 dvd length full" "length b = 64"
  shows "fips_blocks (full @ b) = fips_blocks full @ [b]"
proof -
  obtain k where k: "length full = 64 * k" using assms(1) by (auto elim: dvdE)
  show ?thesis using assms(2) by (auto simp: fips_blocks_def k intro!: map_cong)
qed

lemma absorbed_append:
  "64 dvd length full \<Longrightarrow> length b = 64 \<Longrightarrow> absorbed (full @ b) = fips_compress (absorbed full) b"
  by (simp add: absorbed_def fips_blocks_append)

lemma length_absorbed [simp]: "length (absorbed m) = 8"
proof -
  have "length hs = 8 \<Longrightarrow> length (foldl fips_compress hs bs) = 8" for hs bs
    by (induction bs arbitrary: hs) (simp_all add: length_fips_compress)
  then show ?thesis by (simp add: absorbed_def sha_init_def)
qed

lemma sha_holds_init: "sha_holds [] sha_init"
  unfolding sha_holds_def by (rule exI [of _ "[]"]) (simp add: sha_init_def absorbed_def fips_blocks_def)

lemma sha_holds_put:
  assumes "sha_holds m s" "sh_count s < 64"
  shows "sha_holds (m @ [b]) (sha_put b s)"
proof -
  obtain full part where "m = full @ part" "64 dvd length full" "length part = sh_count s"
    "take (sh_count s) (sh_data s) = part" "length (sh_data s) = 64" "sh_h s = absorbed full"
    using assms(1) unfolding sha_holds_def by blast
  then show ?thesis
    unfolding sha_holds_def using assms(2)
    by (intro exI [of _ full] exI [of _ "part @ [b]"]) (simp add: sha_put_def take_Suc_conv_app_nth)
qed

lemma sha_holds_process:
  assumes "sha_holds m s" "sh_count s = 64"
  shows "sha_holds m ((sha_process_block s)\<lparr>sh_count := 0\<rparr>) \<and> sh_h (sha_process_block s) = absorbed m"
proof -
  obtain full where "m = full @ sh_data s" "64 dvd length full" "length (sh_data s) = 64" "sh_h s = absorbed full"
    using assms by (auto simp: sha_holds_def)
  then show ?thesis
    unfolding sha_holds_def
    by (auto simp: sha_process_block_def sha_compress_fips absorbed_append intro!: exI [of _ m])
qed

lemma sha_holds_feed:
  assumes "sha_holds m s" "sh_count s < 64"
  shows "sha_holds (m @ [b]) (sha_feed b s) \<and> sh_count (sha_feed b s) < 64"
  using sha_holds_put [OF assms, of b] sha_holds_process [OF sha_holds_put [OF assms, of b]] assms(2)
  by (auto simp: sha_feed_def Let_def sha_put_def)

lemma sha_holds_update:
  assumes "sha_holds m s" "sh_count s < 64" "sh_message_bytes s = of_nat (length m)"
  shows "sha_holds (m @ data) (sha_update data s) \<and> sh_count (sha_update data s) < 64
    \<and> sh_message_bytes (sha_update data s) = of_nat (length (m @ data))"
proof -
  have "sha_holds (m @ data) (fold sha_feed data s) \<and> sh_count (fold sha_feed data s) < 64"
    using assms(1,2)
  proof (induction data arbitrary: m s)
    case (Cons b data)
    with Cons.IH [of "m @ [b]" "sha_feed b s"] sha_holds_feed [of m s b] show ?case by simp
  qed simp
  with assms(3) show ?thesis by (auto simp: sha_update_def sha_holds_def)
qed

lemma sha_holds_pad:
  "sha_holds m s \<Longrightarrow> \<exists>k<65. sha_holds (m @ replicate k 0) (sha_pad_loop s) \<and> sh_count (sha_pad_loop s) = 56
     \<and> k = (if sh_count s \<le> 56 then 56 - sh_count s else 120 - sh_count s)"
proof (induction s arbitrary: m rule: sha_pad_loop.induct)
  case (1 s)
  have le: "sh_count s \<le> 64" using 1(2) by (auto simp: sha_holds_def)
  show ?case
  proof (cases "sh_count s = 56")
    case True
    with 1(2) show ?thesis by (auto simp: sha_pad_loop.simps)
  next
    case False
    let ?s = "if sh_count s = 64 then (sha_process_block s)\<lparr>sh_count := 0\<rparr> else s"
    have s: "sha_holds m ?s" "sh_count ?s < 64"
      using 1(2) sha_holds_process [OF 1(2)] le by auto
    from 1(1) [OF _ sha_holds_put [OF s, of 0]] False le
    obtain k where k: "sha_holds ((m @ [0]) @ replicate k 0) (sha_pad_loop (sha_put 0 ?s))"
      "sh_count (sha_pad_loop (sha_put 0 ?s)) = 56"
      "k = (if sh_count (sha_put 0 ?s) \<le> 56 then 56 - sh_count (sha_put 0 ?s) else 120 - sh_count (sha_put 0 ?s))"
      by auto
    have loop: "sha_pad_loop s = sha_pad_loop (sha_put 0 ?s)"
      using False le by (subst sha_pad_loop.simps) auto
    have "Suc k = (if sh_count s \<le> 56 then 56 - sh_count s else 120 - sh_count s)"
      using k(3) False le by (auto simp: sha_put_def split: if_splits)
    moreover have "(m @ [0]) @ replicate k 0 = m @ replicate (Suc k) 0" by simp
    ultimately show ?thesis
      using k(1,2) le unfolding loop by (intro exI [of _ "Suc k"]) (auto split: if_splits simp del: replicate_Suc)
  qed
qed

lemma sha_holds_length:
  assumes "sha_holds m s" "sh_count s = 56"
  shows "sha_holds (m @ be_bytes 8 bits) (sha_put_length bits s) \<and> sh_count (sha_put_length bits s) = 64"
proof -
  have b: "ucast (drop_bit n bits AND 0xFF) = (ucast (drop_bit n bits) :: byte)" for n
  proof -
    have "drop_bit n bits AND 0xFF = take_bit 8 (drop_bit n bits)" by (simp add: take_bit_eq_mask mask_eq_exp_minus_1)
    then show ?thesis by (simp only:) (intro bit_word_eqI, auto simp: bit_simps)
  qed
  have put: "sha_holds m s \<Longrightarrow> sh_count s + length bs \<le> 64 \<Longrightarrow>
      sha_holds (m @ bs) (fold sha_put bs s) \<and> sh_count (fold sha_put bs s) = sh_count s + length bs" for bs m s
  proof (induction bs arbitrary: m s)
    case (Cons x bs)
    from Cons.IH [of "m @ [x]" "sha_put x s"] Cons.prems sha_holds_put [of m s x]
    show ?case by (simp add: sha_put_def)
  qed simp
  have "rev [0..<8] = [7, 6, 5, 4, 3, 2, 1, 0 :: nat]" by code_simp
  then have "sha_put_length bits s = fold sha_put (be_bytes 8 bits) s"
    by (simp add: sha_put_length_def b eval_nat_numeral)
  moreover have "length (be_bytes n bits) = n" for n by (induction n) auto
  ultimately show ?thesis using put [OF assms(1), of "be_bytes 8 bits"] assms(2) by simp
qed

lemma sha_hex_words:
  assumes "length hs = 8"
  shows "sha_hex hs = concat (map (\<lambda>w. pad_left 8 (CHR ''0'') (hex_string (unat w))) hs)"
proof -
  have "map (\<lambda>i. f (hs ! i)) [0..<8] = map f hs" for f :: "u32 \<Rightarrow> string"
    using map_nth [of hs] assms by (metis map_map comp_def map_cong)
  from this [of "\<lambda>w. pad_left 8 (CHR ''0'') (hex_string (unat w))"] show ?thesis by (simp add: sha_hex_def)
qed

text \<open>The digest of a streamed message is the standard's.\<close>

lemma sha_digest_fips:
  assumes "sha_holds m s" "sh_count s < 64" "sh_message_bytes s = of_nat (length m)"
  shows "sha_digest s = fips_sha256 m"
proof -
  let ?s1 = "sha_put 0x80 s"
  have c: "sh_count s = length m mod 64"
  proof -
    obtain full part where "m = full @ part" "64 dvd length full" "length part = sh_count s"
      using assms(1) unfolding sha_holds_def by blast
    with assms(2) show ?thesis by (auto elim!: dvdE)
  qed
  have k: "(119 - length m mod 64) mod 64 = (if sh_count ?s1 \<le> 56 then 56 - sh_count ?s1 else 120 - sh_count ?s1)"
  proof (cases "sh_count s \<le> 55")
    case True
    then have "119 - sh_count s = 64 + (55 - sh_count s)" by simp
    then have "(119 - sh_count s) mod 64 = 55 - sh_count s" by (simp only: mod_add_self1) simp
    with True show ?thesis unfolding c [symmetric] by (simp add: sha_put_def)
  next
    case False
    then have "(119 - sh_count s) mod 64 = 119 - sh_count s" by (intro mod_less) simp
    with False show ?thesis unfolding c [symmetric] by (simp add: sha_put_def)
  qed
  have bits: "of_nat (length m) * 8 = (of_nat (8 * length m) :: u64)" by (simp add: mult.commute)
  obtain z where "sha_holds ((m @ [0x80]) @ replicate z 0) (sha_pad_loop ?s1)" "sh_count (sha_pad_loop ?s1) = 56"
    and "z = (119 - length m mod 64) mod 64"
    using sha_holds_pad [OF sha_holds_put [OF assms(1,2), where b = "0x80"]] unfolding k by blast
  from sha_holds_length [OF this(1,2), of "of_nat (length m) * 8"] this(3)
  have "sha_holds (fips_pad m) (sha_put_length (of_nat (length m) * 8) (sha_pad_loop ?s1))"
    "sh_count (sha_put_length (of_nat (length m) * 8) (sha_pad_loop ?s1)) = 64"
    by (simp_all only: fips_pad_def append_assoc bits)
  from sha_holds_process [OF this] show ?thesis
    using length_absorbed [of "fips_pad m"]
    by (simp add: sha_digest_def assms(3) Let_def sha_hex_words fips_sha256_def absorbed_def [symmetric])
qed

lemma sha_update_fips:
  "sha_digest (sha_update ys (sha_update xs sha_init)) = fips_sha256 (xs @ ys)"
proof -
  have 1: "sh_count sha_init < 64" "sh_message_bytes sha_init = of_nat (length ([] :: byte list))"
    by (simp_all add: sha_init_def)
  from sha_holds_update [OF sha_holds_init this, of xs]
  have "sha_holds xs (sha_update xs sha_init)" "sh_count (sha_update xs sha_init) < 64"
    "sh_message_bytes (sha_update xs sha_init) = of_nat (length xs)" by simp_all
  from sha_holds_update [OF this, of ys] show ?thesis by (intro sha_digest_fips) blast+
qed

lemma sha_feed_message_bytes:
  "fold sha_feed xs (s\<lparr>sh_message_bytes := n\<rparr>) = (fold sha_feed xs s)\<lparr>sh_message_bytes := n\<rparr>
   \<and> sh_message_bytes (fold sha_feed xs s) = sh_message_bytes s"
proof (induction xs arbitrary: s)
  case (Cons x xs)
  have "sha_feed x (s\<lparr>sh_message_bytes := n\<rparr>) = (sha_feed x s)\<lparr>sh_message_bytes := n\<rparr>"
    "sh_message_bytes (sha_feed x s) = sh_message_bytes s"
    by (simp_all add: sha_feed_def sha_put_def sha_process_block_def Let_def)
  with Cons show ?case by simp
qed simp

text \<open>Updates can be cut anywhere: the interface of the checksums holds for this digest too.\<close>

interpretation sha: streaming_digest sha_update
  by unfold_locales (simp_all add: sha_update_def sha_feed_message_bytes add.assoc)

lemma hash_password_length: "length (hash_password p s) = 64"
proof -
  have "length hs = 8 \<Longrightarrow> length (concat (map (\<lambda>w. pad_left 8 (CHR ''0'') (hex_string (unat w))) hs)) = 64" for hs :: "u32 list"
  proof -
    have "unat w < 16 ^ 8" for w :: u32 using unsigned_less [of w] by simp
    then have "length (pad_left 8 (CHR ''0'') (hex_string (unat w))) = 8" for w :: u32
      using length_digits [of "unat w" 16 8] by (simp add: hex_string_def)
    then show "length hs = 8 \<Longrightarrow> ?thesis" by (simp add: length_concat comp_def sum_list_triv)
  qed
  from this [OF length_absorbed] show ?thesis
    by (simp add: hash_password_def sha_update_fips fips_sha256_def absorbed_def)
qed

section \<open>Properties\<close>

text \<open>
  C19. The digest is SHA-256: whatever the lengths of the two parts, hashing a salt and a password
  through the 64-byte buffer gives the standard's digest of their concatenation.
\<close>

theorem hash_password_is_sha256:
  "hash_password password salt = fips_sha256 (string_bytes (salt @ password))
    \<and> sha256_hex input = fips_sha256 (string_bytes input)"
  using sha_update_fips [of "string_bytes password" "string_bytes salt"] sha_update_fips [of "[]" "string_bytes input"]
  by (simp add: hash_password_def sha256_hex_def string_bytes_append sha.upd_Nil)

end
