(* ===== verification/Auth.thy ===== *)
theory Auth
  imports Sha256 Durable
begin

text \<open>
  \<^verbatim>\<open>AuthManager\<close> of \<^verbatim>\<open>src/src/auth/auth_manager.{h,cpp}\<close>: users with salted password hashes,
  session tokens that expire, role checks, and the file \<^verbatim>\<open>meta/users.db\<close>. The clock (\<open>now\<close>, in
  seconds, read once per call) and the four draws of the random generator are arguments. \<open>junk\<close>
  stands for the bytes the code reads without having set them: uninitialised locals after a short
  read, and the memory behind a salt shorter than 32 characters. The \<^verbatim>\<open>unordered_map\<close>s are
  association lists walked in insertion order.
\<close>

section \<open>Users and sessions\<close>

type_synonym user_role = byte

definition ADMIN :: user_role where "ADMIN = 0"

definition OPERATOR :: user_role where "OPERATOR = 1"

definition VIEWER :: user_role where "VIEWER = 2"

record user =
  us_name :: string
  us_password_hash :: string
  us_salt :: string
  us_role :: user_role
  us_created_at :: timestamp
  us_active :: bool

record session_token =
  st_token :: string
  st_username :: string
  st_role :: user_role
  st_expires_at :: timestamp

record auth_manager =
  au_data_path :: string
  au_users :: "(string \<times> user) list"
  au_tokens :: "(string \<times> session_token) list"
  au_token_expiry_sec :: timestamp

type_synonym draws = "u64 \<times> u64 \<times> u64 \<times> u64"

definition draw_list :: "draws \<Rightarrow> u64 list" where
  "draw_list r = (case r of (r0, r1, r2, r3) \<Rightarrow> [r0, r1, r2, r3])"

definition generate_salt :: "draws \<Rightarrow> string" where
  "generate_salt r =
     take 32 (concat (map (\<lambda>d. pad_left 16 (CHR ''0'') (hex_string (unat d))) (draw_list r)))"

definition generate_token :: "draws \<Rightarrow> string" where
  "generate_token r = concat (map (\<lambda>d. hex_string (unat d)) (draw_list r))"

definition new_user :: "string \<Rightarrow> string \<Rightarrow> user_role \<Rightarrow> timestamp \<Rightarrow> draws \<Rightarrow> user" where
  "new_user name password role now r =
     \<lparr>us_name = name, us_password_hash = hash_password password (generate_salt r), us_salt = generate_salt r,
      us_role = role, us_created_at = now, us_active = True\<rparr>"

definition auth_new :: "timestamp \<Rightarrow> draws \<Rightarrow> auth_manager" where
  "auth_new now r =
     \<lparr>au_data_path = [], au_users = [(''admin'', new_user ''admin'' ''admin123'' ADMIN now r)], au_tokens = [],
      au_token_expiry_sec = 28800\<rparr>"

definition set_token_expiry :: "timestamp \<Rightarrow> auth_manager \<Rightarrow> auth_manager" where
  "set_token_expiry seconds a = a\<lparr>au_token_expiry_sec := seconds\<rparr>"

definition cleanup_expired_tokens :: "timestamp \<Rightarrow> auth_manager \<Rightarrow> auth_manager" where
  "cleanup_expired_tokens now a =
     a\<lparr>au_tokens := filter (\<lambda>(_, t). \<not> sint (st_expires_at t) < sint now) (au_tokens a)\<rparr>"

definition open_session :: "string \<Rightarrow> user_role \<Rightarrow> timestamp \<Rightarrow> draws \<Rightarrow> auth_manager \<Rightarrow> string \<times> auth_manager" where
  "open_session username role now r a =
     (let a = cleanup_expired_tokens now a; token = generate_token r in
      (token, a\<lparr>au_tokens := AList.update token
         \<lparr>st_token = token, st_username = username, st_role = role, st_expires_at = now + au_token_expiry_sec a\<rparr>
         (au_tokens a)\<rparr>))"

definition auth_login :: "string \<Rightarrow> string \<Rightarrow> timestamp \<Rightarrow> draws \<Rightarrow> auth_manager \<Rightarrow> string \<times> auth_manager" where
  "auth_login username password now r a =
     (case map_of (au_users a) username of
        None \<Rightarrow> ([], a)
      | Some u \<Rightarrow>
          if \<not> us_active u then ([], a)
          else if us_password_hash u \<noteq> hash_password password (us_salt u) then ([], a)
          else open_session username (us_role u) now r a)"

definition admin_login :: "timestamp \<Rightarrow> draws \<Rightarrow> auth_manager \<Rightarrow> string \<times> auth_manager" where
  "admin_login now r a =
     (case map_of (au_users a) ''admin'' of
        None \<Rightarrow> ([], a)
      | Some u \<Rightarrow> if \<not> us_active u then ([], a) else open_session ''admin'' ADMIN now r a)"

definition validate_token :: "string \<Rightarrow> timestamp \<Rightarrow> auth_manager \<Rightarrow> user option \<times> auth_manager" where
  "validate_token token now a =
     (let a = cleanup_expired_tokens now a in
      case map_of (au_tokens a) token of
        None \<Rightarrow> (None, a)
      | Some t \<Rightarrow>
          if sint (st_expires_at t) < sint now then (None, a\<lparr>au_tokens := AList.delete token (au_tokens a)\<rparr>)
          else (map_of (au_users a) (st_username t), a))"

definition check_permission :: "string \<Rightarrow> string \<Rightarrow> timestamp \<Rightarrow> auth_manager \<Rightarrow> bool \<times> auth_manager" where
  "check_permission token operation now a =
     (case validate_token token now a of
        (None, a) \<Rightarrow> (False, a)
      | (Some u, a) \<Rightarrow>
          (if us_role u = ADMIN then True
           else if us_role u = OPERATOR
                then \<not> (prefix ''CREATE TAG'' operation \<or> prefix ''CREATE USER'' operation
                       \<or> prefix ''ALTER SYSTEM'' operation)
           else prefix ''SELECT'' operation, a))"

definition get_users :: "string \<Rightarrow> timestamp \<Rightarrow> auth_manager \<Rightarrow> user list \<times> auth_manager" where
  "get_users token now a =
     (case validate_token token now a of
        (None, a) \<Rightarrow> ([], a)
      | (Some u, a) \<Rightarrow> if us_role u \<noteq> ADMIN then ([], a) else (map snd (au_users a), a))"

section \<open>The users file\<close>

definition user_image :: "byte list \<Rightarrow> string \<times> user \<Rightarrow> byte list list" where
  "user_image junk nu =
     (case nu of (name, u) \<Rightarrow>
        let name_len = of_nat (length name) :: u16; hash_len = of_nat (length (us_password_hash u)) :: u16 in
        [le_bytes 2 name_len, take (unat name_len) (string_bytes name),
         le_bytes 2 hash_len, take (unat hash_len) (string_bytes (us_password_hash u)),
         take 32 (string_bytes (us_salt u) @ junk),
         [us_role u], le_bytes 8 (us_created_at u), [if us_active u then 1 else 0]])"

definition users_path :: "auth_manager \<Rightarrow> string" where
  "users_path a = au_data_path a @ ''/meta/users.db''"

definition auth_save :: "byte list \<Rightarrow> auth_manager \<Rightarrow> fsys \<Rightarrow> bool \<times> fsys" where
  "auth_save junk a fs =
     (let fs = snd (create_directories (au_data_path a @ ''/meta'') fs) in
      case file_open (users_path a) WRITE fs of
        (None, fs) \<Rightarrow> (False, fs)
      | (f, fs) \<Rightarrow>
          (True, snd (file_writes
             ([string_bytes ''USRDB'', [2], le_bytes 4 (of_nat (length (au_users a)) :: u32)]
              @ concat (map (user_image junk) (au_users a))) f fs)))"

text \<open>\<^verbatim>\<open>Read(&x, n, &br)\<close> into an uninitialised local: what was not read is \<open>junk\<close>.\<close>

definition read_local :: "byte list \<Rightarrow> nat \<Rightarrow> os_file \<Rightarrow> fsys \<Rightarrow> byte list \<times> os_file" where
  "read_local junk n f fs =
     (case file_read n f fs of
        (Some d, f) \<Rightarrow> (d @ drop (length d) (take n junk), f)
      | (None, f) \<Rightarrow> (take n junk, f))"

definition load_user :: "byte list \<Rightarrow> bool \<Rightarrow> os_file \<Rightarrow> fsys \<Rightarrow> user \<times> os_file" where
  "load_user junk has_salt f fs =
     (let (name_len, f) = read_local junk 2 f fs;
          (name, f) = read_zeroed (unat (le_word name_len :: u16)) f fs;
          (hash_len, f) = read_local junk 2 f fs;
          (hash, f) = read_zeroed (unat (le_word hash_len :: u16)) f fs;
          (salt, f) = (if has_salt then read_zeroed 32 f fs else ([], f));
          (role, f) = read_local junk 1 f fs;
          (created_at, f) = read_zeroed 8 f fs;
          (active, f) = read_local junk 1 f fs
      in (\<lparr>us_name = bytes_string name, us_password_hash = bytes_string hash, us_salt = bytes_string salt,
           us_role = le_word role, us_created_at = le_word created_at,
           us_active = ((le_word active :: byte) \<noteq> 0)\<rparr>, f))"

fun load_users :: "byte list \<Rightarrow> bool \<Rightarrow> nat \<Rightarrow> os_file \<Rightarrow> fsys \<Rightarrow> (string \<times> user) list \<Rightarrow> (string \<times> user) list" where
  "load_users junk has_salt 0 f fs us = us"
| "load_users junk has_salt (Suc n) f fs us =
     (case load_user junk has_salt f fs of
        (u, f) \<Rightarrow> load_users junk has_salt n f fs (AList.update (us_name u) u us))"

definition auth_load :: "byte list \<Rightarrow> auth_manager \<Rightarrow> fsys \<Rightarrow> bool \<times> auth_manager" where
  "auth_load junk a fs =
     (case file_open (users_path a) READ fs of
        (None, _) \<Rightarrow> (False, a)
      | (f0, _) \<Rightarrow>
          (case file_read 5 f0 fs of (magic, f) \<Rightarrow>
           let (has_salt, count, f) =
             (if magic = Some (string_bytes ''USRDB'')
              then let (version, f) = read_local junk 1 f fs; (count, f) = read_local junk 4 f fs
                   in (2 \<le> (le_word version :: byte), le_word count :: u32, f)
              else let f = snd (file_seek 0 SEEK_SET f fs); (count, f) = read_local junk 4 f fs
                   in (False, le_word count, f))
           in if 1000 < count then (False, a)
              else (True, a\<lparr>au_users := load_users junk has_salt (unat count) f fs []\<rparr>)))"

definition auth_init :: "byte list \<Rightarrow> string \<Rightarrow> auth_manager \<Rightarrow> fsys \<Rightarrow> bool \<times> auth_manager \<times> fsys" where
  "auth_init junk data_path a fs =
     (let a = a\<lparr>au_data_path := data_path\<rparr> in
      case auth_load junk a fs of
        (False, a) \<Rightarrow> (case auth_save junk a fs of (ok, fs) \<Rightarrow> (ok, a, fs))
      | (True, a) \<Rightarrow> (True, a, fs))"

section \<open>Administration\<close>

definition create_user :: "byte list \<Rightarrow> string \<Rightarrow> string \<Rightarrow> string \<Rightarrow> user_role \<Rightarrow> timestamp \<Rightarrow> draws
    \<Rightarrow> auth_manager \<times> fsys \<Rightarrow> bool \<times> auth_manager \<times> fsys" where
  "create_user junk requester username password role now r s =
     (case s of (a, fs) \<Rightarrow>
        case validate_token requester now a of
          (None, a) \<Rightarrow> (False, a, fs)
        | (Some q, a) \<Rightarrow>
            if us_role q \<noteq> ADMIN then (False, a, fs)
            else if map_of (au_users a) username \<noteq> None then (False, a, fs)
            else let a = a\<lparr>au_users := AList.update username (new_user username password role now r) (au_users a)\<rparr>
                 in (case auth_save junk a fs of (ok, fs) \<Rightarrow> (ok, a, fs)))"

definition drop_user :: "byte list \<Rightarrow> string \<Rightarrow> string \<Rightarrow> timestamp
    \<Rightarrow> auth_manager \<times> fsys \<Rightarrow> bool \<times> auth_manager \<times> fsys" where
  "drop_user junk requester username now s =
     (case s of (a, fs) \<Rightarrow>
        case validate_token requester now a of
          (None, a) \<Rightarrow> (False, a, fs)
        | (Some q, a) \<Rightarrow>
            if us_role q \<noteq> ADMIN then (False, a, fs)
            else if us_name q = username then (False, a, fs)
            else (case map_of (au_users a) username of
                None \<Rightarrow> (True, a, fs)
              | Some u \<Rightarrow>
                  if us_role u = ADMIN \<and> length (filter (\<lambda>(_, u). us_role u = ADMIN) (au_users a)) \<le> 1
                  then (False, a, fs)
                  else let a = a\<lparr>au_users := AList.delete username (au_users a)\<rparr>
                       in (True, a, snd (auth_save junk a fs))))"

definition role_of_name :: "string \<Rightarrow> user_role option" where
  "role_of_name value =
     (if value = ''admin'' then Some ADMIN
      else if value = ''operator'' then Some OPERATOR
      else if value = ''viewer'' then Some VIEWER
      else None)"

definition alter_user :: "byte list \<Rightarrow> string \<Rightarrow> string \<Rightarrow> string \<Rightarrow> string \<Rightarrow> timestamp \<Rightarrow> draws
    \<Rightarrow> auth_manager \<times> fsys \<Rightarrow> bool \<times> auth_manager \<times> fsys" where
  "alter_user junk requester username property value now r s =
     (case s of (a, fs) \<Rightarrow>
        case validate_token requester now a of
          (None, a) \<Rightarrow> (False, a, fs)
        | (Some q, a) \<Rightarrow>
            if us_role q \<noteq> ADMIN then (False, a, fs)
            else (case map_of (au_users a) username of
                None \<Rightarrow> (False, a, fs)
              | Some u \<Rightarrow>
                  let store = (\<lambda>u. let a = a\<lparr>au_users := AList.update username u (au_users a)\<rparr>
                                   in (True, a, snd (auth_save junk a fs)))
                  in if property = ''password''
                     then store (u\<lparr>us_salt := generate_salt r, us_password_hash := hash_password value (generate_salt r)\<rparr>)
                     else if property = ''role''
                     then (case role_of_name value of None \<Rightarrow> (False, a, fs) | Some role \<Rightarrow> store (u\<lparr>us_role := role\<rparr>))
                     else (False, a, fs)))"

section \<open>Well-formed managers\<close>

definition auth_ok :: "auth_manager \<Rightarrow> bool" where
  "auth_ok a \<longleftrightarrow> distinct (map fst (au_users a)) \<and> list_all (\<lambda>(n, u). us_name u = n) (au_users a)
     \<and> distinct (map fst (au_tokens a)) \<and> list_all (\<lambda>(k, t). st_token t = k) (au_tokens a)"

definition same_users :: "auth_manager \<Rightarrow> auth_manager \<Rightarrow> bool" where
  "same_users a b \<longleftrightarrow> au_users b = au_users a \<and> au_data_path b = au_data_path a
     \<and> au_token_expiry_sec b = au_token_expiry_sec a"

lemma validate_token_same: "validate_token t now a = (r, b) \<Longrightarrow> same_users a b"
  by (auto simp: validate_token_def cleanup_expired_tokens_def same_users_def Let_def split: option.splits if_splits)

lemma distinct_filter_keys: "distinct (map fst xs) \<Longrightarrow> distinct (map fst (filter P xs))"
  by (simp add: distinct_map_filter)

lemma list_all_update: "list_all P xs \<Longrightarrow> P (k, v) \<Longrightarrow> list_all P (AList.update k v xs)"
  using set_update_subset [of k v xs] by (auto simp: list_all_iff)

lemma list_all_delete: "list_all P xs \<Longrightarrow> list_all P (AList.delete k xs)"
  by (auto simp: list_all_iff AList.delete_eq)

lemma cleanup_ok: "auth_ok a \<Longrightarrow> auth_ok (cleanup_expired_tokens now a)"
  by (auto simp: auth_ok_def cleanup_expired_tokens_def distinct_filter_keys list_all_iff)

lemma validate_token_ok: "auth_ok a \<Longrightarrow> validate_token t now a = (r, b) \<Longrightarrow> auth_ok b"
  using cleanup_ok [of a now]
  by (auto simp: validate_token_def Let_def auth_ok_def list_all_delete distinct_delete split: option.splits if_splits)

lemma open_session_ok: "auth_ok a \<Longrightarrow> auth_ok (snd (open_session n role now r a))"
  using cleanup_ok [of a now] by (simp add: open_session_def Let_def auth_ok_def list_all_update distinct_update)

lemma map_of_filter_distinct:
  "distinct (map fst xs) \<Longrightarrow>
   map_of (filter (\<lambda>(k, v). P v) xs) k = (case map_of xs k of Some v \<Rightarrow> if P v then Some v else None | None \<Rightarrow> None)"
  by (induction xs) (auto split: option.splits dest: map_of_SomeD simp: map_of_eq_None_iff image_iff)

lemma generate_token_nonempty [simp]: "generate_token r \<noteq> []"
  by (cases r) (simp add: generate_token_def draw_list_def hex_string_def)

section \<open>Users as file contents\<close>

definition user_storable :: "string \<times> user \<Rightarrow> bool" where
  "user_storable nu \<longleftrightarrow> (case nu of (n, u) \<Rightarrow> us_name u = n \<and> length n < 2 ^ 16
     \<and> length (us_password_hash u) < 2 ^ 16 \<and> length (us_salt u) = 32)"

definition users_image :: "byte list \<Rightarrow> (string \<times> user) list \<Rightarrow> byte list" where
  "users_image junk us = string_bytes ''USRDB'' @ [2] @ le_bytes 4 (of_nat (length us) :: u32)
     @ concat (map (\<lambda>u. concat (user_image junk u)) us)"

lemma concat_concat_map: "concat (concat (map f xs)) = concat (map (\<lambda>x. concat (f x)) xs)"
  by (induction xs) simp_all

lemma auth_save_image:
  assumes "auth_save junk a fs = (True, fs')"
  shows "file_bytes fs' (users_path a) = Some (users_image junk (au_users a))"
proof -
  obtain h fs0 where o: "file_open (users_path a) WRITE (snd (create_directories (au_data_path a @ ''/meta'') fs)) = (Some h, fs0)"
    using assms by (auto simp: auth_save_def Let_def split: prod.splits option.splits)
  from written_file [OF this] assms o show ?thesis
    by (auto simp: auth_save_def Let_def users_image_def concat_concat_map simp del: file_writes.simps)
qed

lemma read_local_rest:
  assumes "drop p (ino_data fs i) = xs @ ys" "length xs = n"
  shows "read_local junk n (rd_handle i p) fs = (xs, rd_handle i (p + n))"
  using assms by (simp add: read_local_def file_read_some Let_def)

lemma load_user_image:
  assumes "user_storable (n, u)" "drop p (ino_data fs i) = concat (user_image junk (n, u)) @ rest"
  shows "load_user junk' True (rd_handle i p) fs = (u, rd_handle i (p + length (concat (user_image junk (n, u)))))
    \<and> drop (p + length (concat (user_image junk (n, u)))) (ino_data fs i) = rest"
proof -
  let ?d = "ino_data fs i" and ?n = "length n" and ?h = "length (us_password_hash u)"
  have u: "us_name u = n" "?n < 2 ^ 16" "?h < 2 ^ 16" "length (us_salt u) = 32"
    using assms(1) by (simp_all add: user_storable_def)
  have n16: "unat (of_nat ?n :: u16) = ?n" "unat (of_nat ?h :: u16) = ?h"
    using u(2,3) by (simp_all add: unat_of_nat)
  have 1: "drop p ?d = le_bytes 2 (of_nat ?n :: u16) @ string_bytes n @ le_bytes 2 (of_nat ?h :: u16)
      @ string_bytes (us_password_hash u) @ string_bytes (us_salt u) @ [us_role u] @ le_bytes 8 (us_created_at u)
      @ [if us_active u then 1 else 0] @ rest" (is "_ = ?A @ ?B @ ?C @ ?D @ ?E @ ?F @ ?G @ ?H @ rest")
    using assms(2) u n16 by (simp add: user_image_def)
  note 2 = drop_rest [OF 1 refl]
  note 3 = drop_rest [OF 2 refl]
  note 4 = drop_rest [OF 3 refl]
  note 5 = drop_rest [OF 4 refl]
  note 6 = drop_rest [OF 5 refl]
  note 7 = drop_rest [OF 6 refl]
  note 8 = drop_rest [OF 7 refl]
  note 9 = drop_rest [OF 8 refl]
  have len: "p + length (concat (user_image junk (n, u))) = 46 + (p + (?n + ?h))"
    using u n16 by (simp add: user_image_def)
  have c: "(le_word (le_bytes 8 (us_created_at u)) :: timestamp) = us_created_at u"
    "(le_word (le_bytes 2 (of_nat ?n :: u16)) :: u16) = of_nat ?n" "(le_word (le_bytes 2 (of_nat ?h :: u16)) :: u16) = of_nat ?h"
    by (simp_all add: byte_facts)
  show ?thesis
    unfolding len
    using read_local_rest [OF 1 refl, of junk'] read_rest(2) [OF 2 refl] read_local_rest [OF 3 refl, of junk']
      read_rest(2) [OF 4 refl] read_rest(2) [OF 5 refl] read_local_rest [OF 6 refl, of junk']
      read_rest(2) [OF 7 refl] read_local_rest [OF 8 refl, of junk'] 9
    by (simp add: load_user_def c u n16 byte_facts)
qed

lemma update_new_key: "k \<notin> fst ` set xs \<Longrightarrow> AList.update k v xs = xs @ [(k, v)]"
  by (induction xs) auto

lemma load_users_image:
  assumes "list_all user_storable us" "distinct (map fst (us0 @ us))"
    and "drop p (ino_data fs i) = concat (map (\<lambda>u. concat (user_image junk u)) us) @ rest"
  shows "load_users junk' True (length us) (rd_handle i p) fs us0 = us0 @ us"
  using assms
proof (induction us arbitrary: us0 p)
  case (Cons nu us)
  obtain n u where nu: "nu = (n, u)" by (cases nu)
  have n: "us_name u = n" using Cons.prems(1) by (simp add: nu user_storable_def)
  have new: "AList.update n u us0 = us0 @ [(n, u)]"
    using Cons.prems(2) by (simp add: nu update_new_key)
  show ?case
    using load_user_image [of n u p fs i junk "concat (map (\<lambda>u. concat (user_image junk u)) us) @ rest" junk']
      Cons.IH [of "us0 @ [(n, u)]" "p + length (concat (user_image junk (n, u)))"] Cons.prems
    by (simp add: nu n new)
qed simp

lemma auth_load_image:
  assumes "file_bytes fs (users_path a) = Some (users_image junk us)" "length us < 2 ^ 32"
  obtains i where "drop 10 (ino_data fs i) = concat (map (\<lambda>u. concat (user_image junk u)) us) @ []"
    "auth_load junk' a fs = (if 1000 < length us then (False, a)
       else (True, a\<lparr>au_users := load_users junk' True (length us) (rd_handle i 10) fs []\<rparr>))"
proof -
  obtain i where o: "file_open (users_path a) READ fs = (rd_handle i 0, fs)" "ino_data fs i = users_image junk us"
    by (rule file_bytes_open_read [OF assms(1)])
  let ?c = "of_nat (length us) :: u32"
  have c: "unat ?c = length us" using assms(2) by (simp add: unat_of_nat)
  have 1: "drop 0 (ino_data fs i) = string_bytes ''USRDB'' @ [2] @ le_bytes 4 ?c
      @ concat (map (\<lambda>u. concat (user_image junk u)) us) @ []"
    using o(2) by (simp add: users_image_def)
  note 2 = drop_rest [OF 1 refl]
  note 3 = drop_rest [OF 2 refl]
  note 4 = drop_rest [OF 3 refl]
  have r: "file_read 5 (rd_handle i 0) fs = (Some (string_bytes ''USRDB''), rd_handle i 5)"
    using 1 by (simp add: file_read_some Let_def)
  have r1: "read_local junk' 1 (rd_handle i 5) fs = ([2], rd_handle i 6)"
    and r2: "read_local junk' 4 (rd_handle i 6) fs = (le_bytes 4 ?c, rd_handle i 10)"
    using read_local_rest [OF 2 refl, of junk'] read_local_rest [OF 3 refl, of junk'] by (simp_all add: eval_nat_numeral)
  have gt: "1000 < ?c \<longleftrightarrow> 1000 < length us" by (simp add: word_less_nat_alt c)
  have le: "(le_word (le_bytes 4 ?c) :: u32) = ?c" by (simp add: byte_facts)
  show thesis
  proof (rule that)
    show "drop 10 (ino_data fs i) = concat (map (\<lambda>u. concat (user_image junk u)) us) @ []" using 4 by simp
    show "auth_load junk' a fs = (if 1000 < length us then (False, a)
       else (True, a\<lparr>au_users := load_users junk' True (length us) (rd_handle i 10) fs []\<rparr>))"
      using r1 r2 by (simp add: auth_load_def o(1) r le gt c)
  qed
qed

definition users_storable :: "(string \<times> user) list \<Rightarrow> bool" where
  "users_storable us \<longleftrightarrow> list_all user_storable us \<and> distinct (map fst us) \<and> length us \<le> 1000"

lemma auth_load_save:
  assumes "users_storable (au_users a)" "auth_save junk a fs = (True, fs')" "au_data_path b = au_data_path a"
  shows "auth_load junk' b fs' = (True, b\<lparr>au_users := au_users a\<rparr>)"
proof -
  have b: "file_bytes fs' (users_path b) = Some (users_image junk (au_users a))"
    using auth_save_image [OF assms(2)] assms(3) by (simp add: users_path_def)
  have n: "length (au_users a) < 2 ^ 32" using assms(1) by (simp add: users_storable_def)
  obtain i where i: "drop 10 (ino_data fs' i) = concat (map (\<lambda>u. concat (user_image junk u)) (au_users a)) @ []"
    "auth_load junk' b fs' = (if 1000 < length (au_users a) then (False, b)
       else (True, b\<lparr>au_users := load_users junk' True (length (au_users a)) (rd_handle i 10) fs' []\<rparr>))"
    by (rule auth_load_image [OF b n])
  with assms(1) load_users_image [of "au_users a" "[]" 10 fs' i junk "[]" junk'] show ?thesis
    by (simp add: users_storable_def)
qed

text \<open>The users file is a durable store.\<close>

definition save_users :: "byte list \<Rightarrow> string \<Rightarrow> (string \<times> user) list \<Rightarrow> fsys \<Rightarrow> bool \<times> fsys" where
  "save_users junk path us =
     auth_save junk \<lparr>au_data_path = path, au_users = us, au_tokens = [], au_token_expiry_sec = 0\<rparr>"

definition reload_users :: "byte list \<Rightarrow> string \<Rightarrow> fsys \<Rightarrow> (string \<times> user) list option" where
  "reload_users junk path fs =
     (case auth_load junk \<lparr>au_data_path = path, au_users = [], au_tokens = [], au_token_expiry_sec = 0\<rparr> fs of
        (True, a) \<Rightarrow> Some (au_users a) | (False, _) \<Rightarrow> None)"

interpretation udb: durable "save_users junk path" "reload_users junk' path" users_storable for junk junk' path
proof unfold_locales
  fix us fs fs' assume "users_storable us" "save_users junk path us fs = (True, fs')"
  then show "reload_users junk' path fs' = Some us"
    using auth_load_save [of "\<lparr>au_data_path = path, au_users = us, au_tokens = [], au_token_expiry_sec = 0\<rparr>" junk fs fs'
        "\<lparr>au_data_path = path, au_users = [], au_tokens = [], au_token_expiry_sec = 0\<rparr>" junk']
    by (simp add: save_users_def reload_users_def)
qed

lemma auth_init_overwrites:
  assumes "auth_save junk a fs = (True, fs')" "1000 < length (au_users a)" "length (au_users a) < 2 ^ 32"
    and "path = au_data_path a"
  shows "\<exists>fs''. auth_init junk path b fs' = (True, b\<lparr>au_data_path := path\<rparr>, fs'')
    \<and> file_bytes fs'' (users_path a) = Some (users_image junk (au_users b))"
proof -
  let ?b = "b\<lparr>au_data_path := path\<rparr>"
  have p: "users_path ?b = users_path a" by (simp add: users_path_def assms(4))
  have bytes: "file_bytes fs' (users_path ?b) = Some (users_image junk (au_users a))"
    using auth_save_image [OF assms(1)] p by simp
  obtain i where "auth_load junk ?b fs' = (if 1000 < length (au_users a) then (False, ?b)
       else (True, ?b\<lparr>au_users := load_users junk True (length (au_users a)) (rd_handle i 10) fs' []\<rparr>))"
    by (rule auth_load_image [OF bytes assms(3)])
  then have l: "auth_load junk ?b fs' = (False, ?b)" using assms(2) by simp
  let ?fs = "snd (create_directories (path @ ''/meta'') fs')"
  obtain i where "map_of (fs_tree fs') (split_path (users_path ?b)) = Some (FileNode i)"
    using bytes by (auto simp: file_bytes_def split: option.splits node.splits)
  from create_directories_keeps [OF this] have "file_bytes ?fs (users_path ?b) = Some (ino_data ?fs i)"
    by (rule file_bytes_ino)
  from file_open_existing [OF this] obtain h fs1 where "file_open (users_path ?b) WRITE ?fs = (Some h, fs1)" by blast
  then obtain fs2 where s: "auth_save junk ?b fs' = (True, fs2)"
    by (simp add: auth_save_def Let_def)
  have "auth_init junk path b fs' = (True, ?b, fs2)" by (simp add: auth_init_def l s)
  moreover have "file_bytes fs2 (users_path a) = Some (users_image junk (au_users b))"
    using auth_save_image [OF s] p by simp
  ultimately show ?thesis by blast
qed

section \<open>Command sequences\<close>

datatype auth_command =
  Do_Login string string
| Do_Admin_Login
| Do_Validate string
| Do_Check string string
| Do_Create string string string user_role
| Do_Drop string string
| Do_Alter string string string string
| Do_Set_Expiry timestamp

fun auth_apply :: "byte list \<Rightarrow> timestamp \<times> draws \<times> auth_command \<Rightarrow> auth_manager \<times> fsys \<Rightarrow> auth_manager \<times> fsys" where
  "auth_apply junk (now, r, Do_Login n p) s = (snd (auth_login n p now r (fst s)), snd s)"
| "auth_apply junk (now, r, Do_Admin_Login) s = (snd (admin_login now r (fst s)), snd s)"
| "auth_apply junk (now, r, Do_Validate t) s = (snd (validate_token t now (fst s)), snd s)"
| "auth_apply junk (now, r, Do_Check t oper) s = (snd (check_permission t oper now (fst s)), snd s)"
| "auth_apply junk (now, r, Do_Create q n p role) s = snd (create_user junk q n p role now r s)"
| "auth_apply junk (now, r, Do_Drop q n) s = snd (drop_user junk q n now s)"
| "auth_apply junk (now, r, Do_Alter q n prop v) s = snd (alter_user junk q n prop v now r s)"
| "auth_apply junk (now, r, Do_Set_Expiry sec) s = (set_token_expiry sec (fst s), snd s)"

lemma auth_ok_users:
  assumes "auth_ok a" "distinct (map fst us)" "list_all (\<lambda>(n, u). us_name u = n) us"
  shows "auth_ok (a\<lparr>au_users := us\<rparr>)"
  using assms by (simp add: auth_ok_def)

lemma auth_ok_update: "auth_ok a \<Longrightarrow> us_name u = n \<Longrightarrow> auth_ok (a\<lparr>au_users := AList.update n u (au_users a)\<rparr>)"
  by (rule auth_ok_users) (simp_all add: auth_ok_def list_all_update distinct_update)

lemma auth_ok_delete: "auth_ok a \<Longrightarrow> auth_ok (a\<lparr>au_users := AList.delete n (au_users a)\<rparr>)"
  by (rule auth_ok_users) (simp_all add: auth_ok_def list_all_delete distinct_delete)

lemma auth_ok_name: "auth_ok a \<Longrightarrow> map_of (au_users a) n = Some u \<Longrightarrow> us_name u = n"
  by (auto simp: auth_ok_def list_all_iff dest!: map_of_SomeD)

lemma create_user_ok: "auth_ok (fst s) \<Longrightarrow> auth_ok (fst (snd (create_user junk q n p role now r s)))"
  using validate_token_ok [of "fst s" q now]
  by (auto simp: create_user_def Let_def new_user_def auth_ok_update split: prod.splits option.splits)

lemma drop_user_ok: "auth_ok (fst s) \<Longrightarrow> auth_ok (fst (snd (drop_user junk q n now s)))"
  using validate_token_ok [of "fst s" q now]
  by (auto simp: drop_user_def Let_def auth_ok_delete split: prod.splits option.splits)

lemma alter_user_ok: "auth_ok (fst s) \<Longrightarrow> auth_ok (fst (snd (alter_user junk q n prop v now r s)))"
  using validate_token_ok [of "fst s" q now]
  by (auto simp: alter_user_def Let_def auth_ok_update auth_ok_name split: prod.splits option.splits)

lemma set_token_expiry_ok: "auth_ok (set_token_expiry sec a) = auth_ok a"
  by (simp add: set_token_expiry_def auth_ok_def)

lemma auth_apply_ok:
  assumes "auth_ok (fst s)"
  shows "auth_ok (fst (auth_apply junk c s))"
proof -
  obtain now r x where c: "c = (now, r, x)" by (cases c)
  have v: "auth_ok (snd (validate_token t now (fst s)))" for t
    using validate_token_ok [OF assms] by (metis prod.collapse)
  show ?thesis
  proof (cases x)
    case (Do_Check t oper)
    have "snd (check_permission t oper now (fst s)) = snd (validate_token t now (fst s))"
      by (auto simp: check_permission_def split: prod.splits option.splits)
    with v c Do_Check show ?thesis by simp
  qed (use assms v c in \<open>simp_all add: auth_login_def admin_login_def open_session_ok create_user_ok drop_user_ok
      alter_user_ok set_token_expiry_ok split: option.split\<close>)
qed

lemma auth_run_ok: "auth_ok (fst s) \<Longrightarrow> auth_ok (fst (fold (auth_apply junk) cs s))"
  by (induction cs arbitrary: s) (simp_all add: auth_apply_ok)

lemma auth_new_ok: "auth_ok (auth_new t r)"
  by (simp add: auth_ok_def auth_new_def new_user_def)

lemma validate_opened:
  assumes "auth_ok a" "open_session n role now r a = (token, b)"
  shows "fst (validate_token token later b) =
    (if sint (now + au_token_expiry_sec a) < sint later then None else map_of (au_users a) n)"
proof -
  have "auth_ok b" using open_session_ok [OF assms(1)] assms(2) by (metis snd_conv)
  then have "map_of (filter (\<lambda>(_, t). \<not> sint (st_expires_at t) < sint later) (au_tokens b)) token =
      (case map_of (au_tokens b) token of Some v \<Rightarrow> if \<not> sint (st_expires_at v) < sint later then Some v else None
       | None \<Rightarrow> None)"
    by (intro map_of_filter_distinct) (simp add: auth_ok_def)
  with assms(2) show ?thesis
    by (auto simp: open_session_def Let_def cleanup_expired_tokens_def validate_token_def update_conv')
qed

definition has_admin :: "auth_manager \<Rightarrow> bool" where
  "has_admin a \<longleftrightarrow> list_ex (\<lambda>(_, u). us_role u = ADMIN) (au_users a)"

lemma two_admins:
  assumes "distinct (map fst us)" "1 < length (filter P us)"
  obtains n u where "(n, u) \<in> set us" "P (n, u)" "n \<noteq> k"
proof (rule ccontr)
  assume "\<not> thesis"
  with that have "n = k" if "(n, u) \<in> set us" "P (n, u)" for n u using that by blast
  then have "fst ` set (filter P us) \<subseteq> {k}" by auto
  then have "card (set (map fst (filter P us))) \<le> 1" by (metis card_mono card.empty card_insert_le finite.emptyI finite_insert is_singletonI is_singleton_altdef set_map)
  then have "length (filter P us) \<le> 1"
    using distinct_card [OF distinct_filter_keys [OF assms(1), of P]] by simp
  with assms(2) show False by simp
qed

lemma drop_user_keeps_admin:
  assumes "auth_ok a" "has_admin a"
  shows "has_admin (fst (snd (drop_user junk q n now (a, fs))))"
proof -
  obtain v a' where v: "validate_token q now a = (v, a')" by fastforce
  have a': "auth_ok a'" "au_users a' = au_users a"
    using validate_token_ok [OF assms(1) v] validate_token_same [OF v] by (auto simp: same_users_def)
  have keep: "has_admin (a'\<lparr>au_users := AList.delete n (au_users a')\<rparr>)"
    if found: "map_of (au_users a') n = Some u"
      and guard: "\<not> (us_role u = ADMIN \<and> length (filter (\<lambda>(_, u). us_role u = ADMIN) (au_users a')) \<le> 1)" for u
  proof (cases "us_role u = ADMIN")
    case True
    obtain m w where "(m, w) \<in> set (au_users a')" "us_role w = ADMIN" "m \<noteq> n"
      using two_admins [where us = "au_users a'" and P = "\<lambda>(_, u). us_role u = ADMIN" and k = n] a'(1) guard True
      by (auto simp: auth_ok_def)
    then show ?thesis by (force simp: has_admin_def list_ex_iff AList.delete_eq)
  next
    case False
    obtain m w where w: "(m, w) \<in> set (au_users a')" "us_role w = ADMIN"
      using assms(2) a'(2) by (auto simp: has_admin_def list_ex_iff)
    then have "m \<noteq> n" using False found a'(1) by (auto simp: auth_ok_def dest: eq_key_imp_eq_value)
    with w show ?thesis by (force simp: has_admin_def list_ex_iff AList.delete_eq)
  qed
  show ?thesis
    using keep a'(2) assms(2) v
    by (auto simp: drop_user_def Let_def has_admin_def split: option.splits)
qed

lemma create_user_keeps_admin:
  assumes "has_admin a"
  shows "has_admin (fst (snd (create_user junk q n p role now r (a, fs))))"
proof -
  obtain v a' where v: "validate_token q now a = (v, a')" by fastforce
  have a': "au_users a' = au_users a" using validate_token_same [OF v] by (simp add: same_users_def)
  have "list_ex P us \<Longrightarrow> map_of us n = None \<Longrightarrow> list_ex P (AList.update n u us)" for P us and u :: user
    by (simp add: update_new_key map_of_eq_None_iff)
  with v a' assms show ?thesis
    by (auto simp: create_user_def Let_def has_admin_def split: option.splits prod.splits)
qed

section \<open>Properties\<close>



text \<open>
  C21. Only administrators administer: whatever a call of \<^verbatim>\<open>CreateUser\<close>, \<^verbatim>\<open>DropUser\<close> or
  \<^verbatim>\<open>AlterUser\<close> changes of the users or of any file, its requester's token stood for a user with the
  role of an administrator.
\<close>

theorem auth_only_admin_changes:
  assumes "oper \<in> {create_user junk q n p role now r, drop_user junk q n now, alter_user junk q n attr v now r}"
    and "oper (a, fs) = (res, b, fs')" "au_users b \<noteq> au_users a \<or> fs' \<noteq> fs"
  shows "\<exists>u. fst (validate_token q now a) = Some u \<and> us_role u = ADMIN"
proof -
  obtain w a' where v: "validate_token q now a = (w, a')" by fastforce
  show ?thesis
    using assms validate_token_same [OF v] v
    by (auto simp: create_user_def drop_user_def alter_user_def same_users_def split: option.splits if_splits)
qed

definition demo_auth :: auth_manager where
  "demo_auth = snd (admin_login 0 (1, 2, 3, 4) (auth_new 0 (5, 6, 7, 8)))"

definition demo_token :: string where
  "demo_token = generate_token (1, 2, 3, 4)"

lemma demo_validate:
  "validate_token demo_token 0 demo_auth = (Some (new_user ''admin'' ''admin123'' ADMIN 0 (5, 6, 7, 8)), demo_auth)"
proof -
  have "us_active (new_user ''admin'' ''admin123'' ADMIN 0 (5, 6, 7, 8))" by (simp add: new_user_def)
  then show ?thesis
    by (simp add: demo_token_def demo_auth_def admin_login_def auth_new_def open_session_def cleanup_expired_tokens_def
        validate_token_def Let_def)
qed

theorem auth_only_admin_changes_witness:
  "\<exists>u. fst (validate_token demo_token 0 demo_auth) = Some u \<and> us_role u = ADMIN"
proof -
  have u: "au_users demo_auth = [(''admin'', new_user ''admin'' ''admin123'' ADMIN 0 (5, 6, 7, 8))]"
    by (simp add: demo_auth_def admin_login_def auth_new_def open_session_def cleanup_expired_tokens_def Let_def
        split: option.split)
  obtain res b fs' where c: "create_user [] demo_token ''bob'' ''x'' VIEWER 0 (1, 1, 1, 1) (demo_auth, demo_fs) = (res, b, fs')"
    by (metis prod_cases3)
  then have d: "au_users b \<noteq> au_users demo_auth"
    using u by (auto simp: create_user_def demo_validate Let_def new_user_def split: prod.splits)
  show ?thesis
    by (rule auth_only_admin_changes [OF insertI1 c disjI1 [OF d]])
qed

text \<open>
  C22. An administrator remains: creating and dropping users never leaves a manager without one. Altering
  can: \<^verbatim>\<open>AlterUser\<close> lets the only administrator take the role away from himself, after which no
  call of the three changes anything again.
\<close>

theorem auth_keeps_an_admin:
  assumes "auth_ok a" "has_admin a" "oper \<in> {create_user junk q n p role now r, drop_user junk q n now}"
  shows "has_admin (fst (snd (oper (a, fs))))
    \<and> \<not> has_admin (fst (snd (alter_user junk demo_token ''admin'' ''role'' ''viewer'' 0 r (demo_auth, fs))))"
proof -
  have u: "au_users demo_auth = [(''admin'', new_user ''admin'' ''admin123'' ADMIN 0 (5, 6, 7, 8))]"
    by (simp add: demo_auth_def admin_login_def auth_new_def open_session_def cleanup_expired_tokens_def Let_def
        split: option.split)
  have "\<not> has_admin (fst (snd (alter_user junk demo_token ''admin'' ''role'' ''viewer'' 0 r (demo_auth, fs))))"
    using u by (simp add: alter_user_def demo_validate Let_def new_user_def role_of_name_def has_admin_def
        ADMIN_def VIEWER_def)
  then show ?thesis
    using assms(3) by (elim insertE emptyE)
      (simp_all only: drop_user_keeps_admin [OF assms(1,2)] create_user_keeps_admin [OF assms(2)] simp_thms)
qed

theorem auth_keeps_an_admin_witness:
  "has_admin (fst (snd (drop_user [] demo_token ''admin'' 0 (demo_auth, demo_fs))))"
proof -
  have "has_admin demo_auth"
    by (simp add: has_admin_def demo_auth_def admin_login_def auth_new_def open_session_def cleanup_expired_tokens_def
        Let_def new_user_def split: option.split)
  moreover have "auth_ok demo_auth"
    unfolding demo_auth_def using auth_apply_ok [of "(auth_new 0 (5, 6, 7, 8), demo_fs)" "[]" "(0, (1, 2, 3, 4), Do_Admin_Login)"]
      auth_new_ok by simp
  ultimately show ?thesis
    using auth_keeps_an_admin [of demo_auth "drop_user [] demo_token ''admin'' 0" "[]" demo_token "''admin''" "[]" VIEWER 0
        "(1, 1, 1, 1)" demo_fs] by simp
qed


definition demo_users :: "(string \<times> user) list" where
  "demo_users = [(''eve'', \<lparr>us_name = ''eve'', us_password_hash = ''ab'', us_salt = replicate 32 (CHR ''0''),
     us_role = VIEWER, us_created_at = 7, us_active = False\<rparr>)]"


text \<open>
  The limit of 1000 users is enforced only when loading: a manager with more saves its file without
  complaint, and the next start of the server rejects that file and replaces it by one that holds
  only the fresh default users.
\<close>

lemma auth_restart_loses_users:
  assumes "auth_save junk a fs = (True, fs')" "1000 < length (au_users a)" "length (au_users a) < 2 ^ 32"
  shows "\<exists>fs''. auth_init junk (au_data_path a) (auth_new now r) fs' =
      (True, (auth_new now r)\<lparr>au_data_path := au_data_path a\<rparr>, fs'')
    \<and> file_bytes fs'' (users_path a) = Some (users_image junk [(''admin'', new_user ''admin'' ''admin123'' ADMIN now r)])"
  using auth_init_overwrites [OF assms refl, of "auth_new now r"] by (simp add: auth_new_def)

lemma auth_restart_loses_users_witness:
  "\<exists>fs'. file_bytes fs' ''d/meta/users.db'' =
     Some (users_image [] [(''admin'', new_user ''admin'' ''admin123'' ADMIN 0 (5, 6, 7, 8))])"
proof -
  let ?a = "\<lparr>au_data_path = ''d'', au_users = replicate 1001 (hd demo_users), au_tokens = [], au_token_expiry_sec = 0\<rparr>"
  have "fst (file_open ''d/meta/users.db'' WRITE (snd (create_directories ''d/meta'' demo_fs))) \<noteq> None" by code_simp
  then have "fst (auth_save [] ?a demo_fs)"
    by (auto simp: auth_save_def Let_def users_path_def simp del: file_writes.simps split: prod.splits)
  then obtain fs' where "auth_save [] ?a demo_fs = (True, fs')" by (cases "auth_save [] ?a demo_fs") simp
  from auth_restart_loses_users [OF this, of 0 "(5, 6, 7, 8)"] show ?thesis by (auto simp: users_path_def)
qed

end
