(* ===== verification/Executor.thy ===== *)
theory Executor
  imports Sql_Parser Auth
begin

text \<open>
  The SQL executor, \<^verbatim>\<open>src/src/sql/executor.{h,cpp}\<close>: one definition for each statement and the
  dispatch with its permission check. The engine, the cache and the authentication may be absent, as
  the pointers of the code may be null; the cache is a cache of its own, beside the one of the engine.
  What a statement takes from outside is the record \<open>exec_env\<close>: the clocks, the random draws, the
  environment of every write and the time zone of the parser. An outcome is an exception that leaves
  the executor (\<open>Uncaught\<close>), undefined behaviour, or a result.
\<close>

section \<open>State and results\<close>

record query_result =
  qr_ok :: bool
  qr_error_msg :: string
  qr_columns :: "string list"
  qr_rows :: "string list list"
  qr_affected :: int

definition ok_result :: "string list \<Rightarrow> string list list \<Rightarrow> int \<Rightarrow> query_result" where
  "ok_result columns rows affected =
     \<lparr>qr_ok = True, qr_error_msg = [], qr_columns = columns, qr_rows = rows, qr_affected = affected\<rparr>"

definition fail_result :: "string \<Rightarrow> query_result" where
  "fail_result msg = \<lparr>qr_ok = False, qr_error_msg = msg, qr_columns = [], qr_rows = [], qr_affected = 0\<rparr>"

record executor =
  xe_engine :: "engine option"
  xe_cache :: "latest_cache option"
  xe_auth :: "auth_manager option"
  xe_current_db :: string
  xe_token :: string

definition executor_new :: "engine option \<Rightarrow> latest_cache option \<Rightarrow> auth_manager option \<Rightarrow> executor" where
  "executor_new e c a = \<lparr>xe_engine = e, xe_cache = c, xe_auth = a, xe_current_db = [], xe_token = []\<rparr>"

definition set_current_db :: "string \<Rightarrow> executor \<Rightarrow> executor" where
  "set_current_db db x = x\<lparr>xe_current_db := db\<rparr>"

definition set_token :: "string \<Rightarrow> executor \<Rightarrow> executor" where
  "set_token t x = x\<lparr>xe_token := t\<rparr>"

record exec_env =
  xv_env :: "nat \<Rightarrow> env"
  xv_clock :: "nat \<Rightarrow> timestamp"
  xv_check_time :: timestamp
  xv_auth_time :: timestamp
  xv_login_draws :: draws
  xv_draws :: draws
  xv_junk :: "byte list"
  xv_time :: time_env

datatype exec_error = Uncaught cpp_error | Undefined

type_synonym exec_state = "executor \<times> fsys"
type_synonym exec_result = "(exec_error + query_result) \<times> executor \<times> fsys"

section \<open>Formatting\<close>

definition format_value :: "data_point \<Rightarrow> string" where
  "format_value p =
     (case dp_value p of VDouble d \<Rightarrow> f64_to_string d | VInt i \<Rightarrow> to_string (sint i) | VString s \<Rightarrow> s)"

definition two_digits :: "int \<Rightarrow> string" where
  "two_digits n = pad_left 2 (CHR ''0'') (to_string n)"

definition format_timestamp :: "timestamp \<Rightarrow> string" where
  "format_timestamp ts =
     (if ts = 0 then ''0''
      else let t = gmtime (sint ts sdiv 1000000)
        in to_string (tm_year t + 1900) @ ''-'' @ two_digits (tm_mon t + 1) @ ''-'' @ two_digits (tm_mday t) @ '' ''
           @ two_digits (tm_hour t) @ '':'' @ two_digits (tm_min t) @ '':'' @ two_digits (tm_sec t)
           @ ''.'' @ pad_left 6 (CHR ''0'') (to_string (sint ts smod 1000000)))"

section \<open>Permissions\<close>

fun operation_name :: "sql_stmt \<Rightarrow> string" where
  "operation_name (InsertStmt _) = ''INSERT''"
| "operation_name (SelectStmt _) = ''SELECT''"
| "operation_name (CreateTagStmt _) = ''CREATE TAG''"
| "operation_name (CreateAlarmStmt _) = ''CREATE ALARM''"
| "operation_name (CreateUserStmt _) = ''CREATE USER''"
| "operation_name (AlterSystemStmt _ _) = ''ALTER SYSTEM''"
| "operation_name (DropTagStmt _ _) = ''DROP TAG''"
| "operation_name (DropAlarmStmt _) = ''DROP ALARM''"
| "operation_name (DropUserStmt _) = ''DROP USER''"
| "operation_name (DropTableStmt _) = ''DROP TABLE''"
| "operation_name (DropDatabaseStmt _) = ''DROP DATABASE''"
| "operation_name (CreateDatabaseStmt _) = ''CREATE DATABASE''"
| "operation_name (UseStmt _) = []"
| "operation_name (CreateTableStmt _) = ''CREATE TABLE''"
| "operation_name (CreateTagsStmt _) = ''CREATE TAGS''"
| "operation_name (AlterTagStmt _) = ''ALTER TAG''"
| "operation_name (AlterAlarmStmt _ _ _) = ''ALTER ALARM''"
| "operation_name (AlterUserStmt _ _ _) = ''ALTER USER''"
| "operation_name (DeleteStmt _) = ''DELETE''"
| "operation_name (UpdateStmt _) = ''UPDATE''"
| "operation_name (ShowStmt _) = ''SHOW''"

text \<open>The check of \<^verbatim>\<open>Execute\<close>; looking a token up removes it when it has expired.\<close>

definition exec_permitted :: "exec_env \<Rightarrow> sql_stmt \<Rightarrow> executor \<Rightarrow> bool \<times> executor" where
  "exec_permitted xv stmt x =
     (case xe_auth x of
        Some a \<Rightarrow>
          if xe_token x \<noteq> [] \<and> operation_name stmt \<noteq> [] then
            (case check_permission (xe_token x) (operation_name stmt) (xv_check_time xv) a of
               (ok, a) \<Rightarrow> (ok, x\<lparr>xe_auth := Some a\<rparr>))
          else (True, x)
      | None \<Rightarrow> (True, x))"

definition exec_check_permission :: "exec_env \<Rightarrow> string \<Rightarrow> executor \<Rightarrow> bool \<times> executor" where
  "exec_check_permission xv operation x =
     (case xe_auth x of
        None \<Rightarrow> (True, x)
      | Some a \<Rightarrow>
          if xe_token x = [] then (True, x)
          else case check_permission (xe_token x) operation (xv_check_time xv) a of
            (ok, a) \<Rightarrow> (ok, x\<lparr>xe_auth := Some a\<rparr>))"

section \<open>INSERT\<close>

record insert_cell =
  ic_tag :: string
  ic_point :: data_point
  ic_has_tag :: bool
  ic_has_value :: bool

definition cell_value :: "string \<Rightarrow> val" where
  "cell_value v = (case stod v of Inr (d, _) \<Rightarrow> VDouble d | Inl _ \<Rightarrow> VString v)"

definition cell_ts :: "string \<Rightarrow> timestamp \<Rightarrow> timestamp" where
  "cell_ts v old = (case stoll v of Inr (i, _) \<Rightarrow> word_of_int i | Inl _ \<Rightarrow> old)"

text \<open>The columns of a row in order; the tag of a row must be known, or the whole statement stops.\<close>

fun insert_cells :: "(string \<Rightarrow> bool) \<Rightarrow> (string \<times> string) list \<Rightarrow> insert_cell \<Rightarrow> string + insert_cell" where
  "insert_cells known [] c = Inr c"
| "insert_cells known ((col, v) # cells) c =
     (let col = lower_string col in
      if col = ''tag'' then
        (if \<not> known v then Inl v else insert_cells known cells (c\<lparr>ic_tag := v, ic_has_tag := True\<rparr>))
      else if col = ''value'' then
        insert_cells known cells (c\<lparr>ic_point := (ic_point c)\<lparr>dp_value := cell_value v\<rparr>, ic_has_value := True\<rparr>)
      else if col = ''ts'' then
        insert_cells known cells (c\<lparr>ic_point := (ic_point c)\<lparr>dp_ts := cell_ts v (dp_ts (ic_point c))\<rparr>\<rparr>)
      else insert_cells known cells c)"

definition known_tag :: "string \<Rightarrow> exec_state \<Rightarrow> string \<Rightarrow> bool" where
  "known_tag tab s tag =
     (case xe_engine (fst s) of
        None \<Rightarrow> True
      | Some e \<Rightarrow> eng_tag_exists (xe_current_db (fst s)) tab tag (e, snd s))"

definition tag_missing :: "string \<Rightarrow> string \<Rightarrow> query_result" where
  "tag_missing tag tab = fail_result (''Tag not found: '' @ tag @ '' in table '' @ tab @ ''. Use CREATE TAGS first.'')"

text \<open>A complete row is written to the engine and to the cache under the bare tag.\<close>

definition store_point :: "env \<Rightarrow> string \<Rightarrow> data_point \<Rightarrow> exec_state \<Rightarrow> exec_error option \<times> executor \<times> fsys" where
  "store_point env tag p s =
     (case s of (x, fs) \<Rightarrow>
        (case xe_engine x of
           None \<Rightarrow> (None, x\<lparr>xe_cache := map_option (lc_update tag p) (xe_cache x)\<rparr>, fs)
         | Some e \<Rightarrow>
             (case eng_write env tag p (e, fs) of
                (Inl err, e, fs) \<Rightarrow> (Some (Uncaught err), x\<lparr>xe_engine := Some e\<rparr>, fs)
              | (Inr _, e, fs) \<Rightarrow>
                  (None, x\<lparr>xe_engine := Some e, xe_cache := map_option (lc_update tag p) (xe_cache x)\<rparr>, fs))))"

fun exec_insert_rows :: "exec_env \<Rightarrow> insert_stmt \<Rightarrow> nat \<Rightarrow> string list list \<Rightarrow> int \<Rightarrow> exec_state \<Rightarrow> exec_result" where
  "exec_insert_rows xv stmt i [] n s = (Inr (ok_result [] [] n), s)"
| "exec_insert_rows xv stmt i (row # rows) n s =
     (case insert_cells (known_tag (is_table stmt) s) (zip (is_columns stmt) row)
             \<lparr>ic_tag = [], ic_point = default_point\<lparr>dp_ts := xv_clock xv i\<rparr>, ic_has_tag = False, ic_has_value = False\<rparr> of
        Inl tag \<Rightarrow> (Inr (tag_missing tag (is_table stmt)), s)
      | Inr c \<Rightarrow>
          if \<not> ic_has_tag c \<or> \<not> ic_has_value c then exec_insert_rows xv stmt (i + 1) rows n s
          else case store_point (xv_env xv i) (ic_tag c) (ic_point c) s of
            (Some err, s) \<Rightarrow> (Inl err, s)
          | (None, s) \<Rightarrow> exec_insert_rows xv stmt (i + 1) rows (n + 1) s)"

definition known_table :: "string \<Rightarrow> exec_state \<Rightarrow> bool" where
  "known_table tab s =
     (case xe_engine (fst s) of
        None \<Rightarrow> True
      | Some e \<Rightarrow> eng_table_exists (xe_current_db (fst s)) tab (e, snd s))"

definition exec_insert :: "exec_env \<Rightarrow> insert_stmt \<Rightarrow> exec_state \<Rightarrow> exec_result" where
  "exec_insert xv stmt s =
     (if is_rows stmt = [] then (Inr (fail_result ''No values to insert''), s)
      else if \<not> known_table (is_table stmt) s then
        (Inr (fail_result (''Table not found: '' @ is_table stmt @ ''. Use CREATE TABLE first.'')), s)
      else exec_insert_rows xv stmt 0 (is_rows stmt) 0 s)"

section \<open>SELECT\<close>

definition exec_select_latest :: "select_stmt \<Rightarrow> executor \<Rightarrow> query_result" where
  "exec_select_latest stmt x =
     (let w = ss_where stmt;
          data = (case xe_cache x of
             None \<Rightarrow> []
           | Some c \<Rightarrow>
               if wc_tag_filter w \<noteq> [] then
                 (case lc_get (wc_tag_filter w) c of Some p \<Rightarrow> [(wc_tag_filter w, p)] | None \<Rightarrow> [])
               else if wc_tag_pattern w \<noteq> [] then lc_get_by_pattern (wc_tag_pattern w) c
               else lc_get_all c)
      in ok_result [''tag'', ''value'', ''ts'']
           (map (\<lambda>(tag, p). [tag, format_value p, format_timestamp (dp_ts p)]) data) 0)"

text \<open>The points of a raw read have different times, so every sorting algorithm gives the same order.\<close>

definition order_points :: "select_stmt \<Rightarrow> data_point list \<Rightarrow> data_point list" where
  "order_points stmt points =
     (if ss_order_by stmt = ''timestamp'' \<or> ss_order_by stmt = ''ts''
      then let sorted = sort_key (\<lambda>p. sint (dp_ts p)) points in if ss_order_asc stmt then sorted else rev sorted
      else points)"

definition limit_points :: "select_stmt \<Rightarrow> data_point list \<Rightarrow> data_point list" where
  "limit_points stmt points = (if 0 < ss_limit stmt then take (nat (ss_limit stmt)) points else points)"

definition raw_row :: "data_point \<Rightarrow> string list" where
  "raw_row p = [format_timestamp (dp_ts p), format_value p]"

definition exec_select_raw :: "exec_env \<Rightarrow> select_stmt \<Rightarrow> exec_state \<Rightarrow> query_result" where
  "exec_select_raw xv stmt s =
     (case xe_engine (fst s) of
        None \<Rightarrow> ok_result [''ts'', ''value''] [] 0
      | Some e \<Rightarrow>
          let points = eng_read_raw (xv_env xv 0) (wc_tag_filter (ss_where stmt)) (wc_time_range (ss_where stmt)) (e, snd s)
          in ok_result [''ts'', ''value''] (map raw_row (limit_points stmt (order_points stmt points))) 0)"

definition is_alpha :: "char \<Rightarrow> bool" where
  "is_alpha c \<longleftrightarrow> is_upper c \<or> is_lower c"

definition unit_factor :: "char \<Rightarrow> 64 word" where
  "unit_factor u =
     (if u = CHR ''s'' then 1000 else if u = CHR ''m'' then 60000 else if u = CHR ''h'' then 3600000
      else if u = CHR ''d'' then 86400000 else 1)"

definition bucket_width :: "string \<Rightarrow> 64 word" where
  "bucket_width b =
     (let w = (if b \<noteq> [] \<and> is_alpha (last b) \<and> filter is_digit b \<noteq> [] then
                 (case stoll (filter is_digit b) of
                    Inr (v, _) \<Rightarrow> word_of_int v * unit_factor (last b) | Inl _ \<Rightarrow> 300000)
               else 300000)
      in if sint w \<le> 0 then 300000 else w)"

definition select_agg :: "select_stmt \<Rightarrow> agg_type" where
  "select_agg stmt =
     (case List.find (\<lambda>c. se_is_aggregate c \<and> se_agg_type c \<noteq> AGG_NONE) (ss_columns stmt) of
        Some c \<Rightarrow> se_agg_type c | None \<Rightarrow> AGG_AVG)"

definition std_dev :: "agg_result \<Rightarrow> string" where
  "std_dev r =
     (if 1 < ag_count r then
        let n = f64_of_int (ag_count r);
            variance = f64_div (f64_sub (ag_sum_sq r) (f64_div (f64_mul (ag_sum r) (ag_sum r)) n)) n
        in f64_to_string (f64_sqrt (if f64_lt 0 variance then variance else 0))
      else ''0'')"

definition agg_cell :: "agg_type \<Rightarrow> agg_result \<Rightarrow> string" where
  "agg_cell t r =
     (case t of
        AGG_MAX \<Rightarrow> f64_to_string (ag_max r)
      | AGG_MIN \<Rightarrow> f64_to_string (ag_min r)
      | AGG_SUM \<Rightarrow> f64_to_string (ag_sum r)
      | AGG_COUNT \<Rightarrow> to_string (ag_count r)
      | AGG_FIRST \<Rightarrow> f64_to_string (ag_first_val r)
      | AGG_LAST \<Rightarrow> f64_to_string (ag_last_val r)
      | AGG_STDDEV \<Rightarrow> std_dev r
      | _ \<Rightarrow> f64_to_string (ag_avg r))"

definition exec_select_aggregate :: "exec_env \<Rightarrow> select_stmt \<Rightarrow> exec_state \<Rightarrow> exec_error + query_result" where
  "exec_select_aggregate xv stmt s =
     (case (xe_engine (fst s), ss_group_by stmt) of
        (Some e, Some bucket) \<Rightarrow>
          let w = ss_where stmt; t = select_agg stmt in
          (case eng_read_aggregated (xv_env xv 0) (wc_tag_filter w) (wc_time_range w) (bucket_width bucket) t (e, snd s) of
             None \<Rightarrow> Inl Undefined
           | Some rs \<Rightarrow>
               Inr (ok_result [''bucket'', ''value''] (map (\<lambda>r. [format_timestamp (ag_bucket_ts r), agg_cell t r]) rs) 0))
      | _ \<Rightarrow> Inr (ok_result [''bucket'', ''value''] [] 0))"

definition has_count :: "string \<Rightarrow> bool" where
  "has_count u \<longleftrightarrow> find_string ''COUNT'' u \<noteq> None"

definition snapshot_row :: "bool \<Rightarrow> bool \<Rightarrow> bool \<Rightarrow> cached_snapshot \<Rightarrow> string list" where
  "snapshot_row tag value ts c =
     (if tag then [cs_tag c] else [])
     @ (if value then [if cs_valid c then f64_to_string (cs_value c) else ''null''] else [])
     @ (if ts then [to_string (sint (cs_timestamp c))] else [])"

definition snapshot_columns :: "bool \<Rightarrow> bool \<Rightarrow> bool \<Rightarrow> string list" where
  "snapshot_columns tag value ts =
     (if tag then [''tag''] else []) @ (if value then [''value''] else []) @ (if ts then [''ts''] else [])"

definition exec_snapshot :: "select_stmt \<Rightarrow> executor \<Rightarrow> query_result" where
  "exec_snapshot stmt x =
     (case xe_engine x of
        None \<Rightarrow> fail_result ''Storage engine not available''
      | Some e \<Rightarrow>
          (case eg_snapshot e of
             None \<Rightarrow> fail_result ''Snapshot store not available''
           | Some snap \<Rightarrow>
               let cols = map (\<lambda>c. upper_string (se_expr c)) (ss_columns stmt); w = ss_where stmt;
                   every = list_ex (\<lambda>u. u = ''*'' \<or> has_count u) cols;
                   tag = (every \<or> ''TAG'' \<in> set cols);
                   value = (every \<or> ''VALUE'' \<in> set cols);
                   ts = (every \<or> ''TS'' \<in> set cols \<or> ''TIMESTAMP'' \<in> set cols);
                   rows = (\<lambda>entries. ok_result (snapshot_columns tag value ts) (map (snapshot_row tag value ts) entries) 0)
               in if wc_tag_pattern w \<noteq> [] then rows (ss_get_by_pattern (wc_tag_pattern w) snap)
                  else if wc_tag_filter w \<noteq> [] then
                    rows (case ss_get (wc_tag_filter w) snap of Some c \<Rightarrow> [c] | None \<Rightarrow> [])
                  else if list_ex has_count cols then ok_result [''count''] [[to_string (int (ss_count snap))]] 0
                  else rows (ss_get_all snap)))"

definition exec_select :: "exec_env \<Rightarrow> select_stmt \<Rightarrow> exec_state \<Rightarrow> exec_error + query_result" where
  "exec_select xv stmt s =
     (if upper_string (ss_table stmt) = ''SNAPSHOT'' then Inr (exec_snapshot stmt (fst s))
      else if ss_latest stmt then Inr (exec_select_latest stmt (fst s))
      else if ss_group_by stmt \<noteq> None then exec_select_aggregate xv stmt s
      else Inr (exec_select_raw xv stmt s))"

section \<open>CREATE\<close>

definition tag_type_of :: "string \<Rightarrow> tag_type \<Rightarrow> tag_type" where
  "tag_type_of v old =
     (if v = ''analog'' then ANALOG else if v = ''digital'' then DIGITAL else if v = ''string'' then STRING_TAG
      else if v = ''accumulator'' then ACCUMULATOR else old)"

definition set_property :: "string \<times> string \<Rightarrow> tag_meta \<Rightarrow> tag_meta" where
  "set_property kv m =
     (case kv of (k, v) \<Rightarrow>
        if k = ''type'' then m\<lparr>tm_type := tag_type_of v (tm_type m)\<rparr>
        else if k = ''unit'' then m\<lparr>tm_unit := v\<rparr>
        else if k = ''description'' then m\<lparr>tm_description := v\<rparr>
        else if k = ''precision'' then m\<lparr>tm_precision := (case stoi v of Inr (i, _) \<Rightarrow> i | Inl _ \<Rightarrow> tm_precision m)\<rparr>
        else m)"

definition statement_meta :: "create_tag_stmt \<Rightarrow> tag_meta" where
  "statement_meta stmt = fold set_property (ct_properties stmt) (default_meta\<lparr>tm_name := ct_tag stmt\<rparr>)"

text \<open>\<^verbatim>\<open>RegisterTag\<close> keeps nothing, and its result is not looked at.\<close>

definition exec_create_tag :: "create_tag_stmt \<Rightarrow> executor \<Rightarrow> query_result" where
  "exec_create_tag stmt x =
     (let registered = map_option (eng_register_tag (statement_meta stmt)) (xe_engine x) in ok_result [] [] 1)"

text \<open>Operations on the alarm engine of the storage engine.\<close>

definition with_alarm :: "string \<Rightarrow> (alarm_engine \<Rightarrow> query_result \<times> alarm_engine) \<Rightarrow> exec_state \<Rightarrow> exec_result" where
  "with_alarm no_engine f s =
     (case s of (x, fs) \<Rightarrow>
        (case xe_engine x of
           None \<Rightarrow> (Inr (fail_result no_engine), x, fs)
         | Some e \<Rightarrow>
             (case eg_alarm e of
                None \<Rightarrow> (Inr (fail_result ''Alarm engine not available''), x, fs)
              | Some a \<Rightarrow> (case f a of (r, a) \<Rightarrow> (Inr r, x\<lparr>xe_engine := Some (e\<lparr>eg_alarm := Some a\<rparr>)\<rparr>, fs)))))"

definition statement_rule :: "create_alarm_stmt \<Rightarrow> alarm_rule" where
  "statement_rule stmt =
     \<lparr>ar_name = ca_alarm stmt, ar_tag_name = ca_tag stmt, ar_condition = ca_condition stmt, ar_threshold = 0,
      ar_op = [], ar_actions = ca_actions stmt\<rparr>"

definition exec_create_alarm :: "create_alarm_stmt \<Rightarrow> exec_state \<Rightarrow> exec_result" where
  "exec_create_alarm stmt =
     with_alarm ''Storage engine not available'' (\<lambda>a. case ae_add_rule (statement_rule stmt) a of
       (ok, a) \<Rightarrow> (if ok then ok_result [] [] 1 else fail_result ''Failed to add alarm rule (may duplicate name)'', a))"

definition exec_alter_system :: "string \<Rightarrow> string \<Rightarrow> query_result" where
  "exec_alter_system key value = ok_result [] [] 1"

definition with_auth :: "string \<Rightarrow> (auth_manager \<times> fsys \<Rightarrow> query_result \<times> auth_manager \<times> fsys) \<Rightarrow> exec_state \<Rightarrow> exec_result" where
  "with_auth no_auth f s =
     (case s of (x, fs) \<Rightarrow>
        (case xe_auth x of
           None \<Rightarrow> (Inr (fail_result no_auth), x, fs)
         | Some a \<Rightarrow> (case f (a, fs) of (r, a, fs) \<Rightarrow> (Inr r, x\<lparr>xe_auth := Some a\<rparr>, fs))))"

definition statement_role :: "string \<Rightarrow> user_role" where
  "statement_role r =
     (let r = lower_string r in if r = ''admin'' then ADMIN else if r = ''operator'' then OPERATOR else VIEWER)"

text \<open>The user is created on behalf of an administrator session that is opened for the purpose.\<close>

definition exec_create_user :: "exec_env \<Rightarrow> create_user_stmt \<Rightarrow> exec_state \<Rightarrow> exec_result" where
  "exec_create_user xv stmt =
     with_auth ''Authentication not enabled'' (\<lambda>(a, fs).
       case admin_login (xv_auth_time xv) (xv_login_draws xv) a of
         (token, a) \<Rightarrow>
           (case create_user (xv_junk xv) token (cu_username stmt) (cu_password stmt) (statement_role (cu_role stmt))
                   (xv_auth_time xv) (xv_draws xv) (a, fs) of
              (ok, a, fs) \<Rightarrow>
                (if ok then ok_result [] [] 1 else fail_result ''Failed to create user (may already exist)'', a, fs)))"

definition is_alnum :: "char \<Rightarrow> bool" where
  "is_alnum c \<longleftrightarrow> is_alpha c \<or> is_digit c"

definition is_valid_name :: "string \<Rightarrow> nat \<Rightarrow> bool" where
  "is_valid_name name max_len \<longleftrightarrow>
     name \<noteq> [] \<and> length name \<le> max_len \<and> hd name \<noteq> CHR ''-'' \<and> hd name \<noteq> CHR ''_''
     \<and> list_all (\<lambda>c. is_alnum c \<or> c = CHR ''_'' \<or> c = CHR ''-'') name"

definition invalid_name :: "string \<Rightarrow> string \<Rightarrow> string \<Rightarrow> query_result" where
  "invalid_name label name max_len =
     fail_result (''Invalid '' @ label @ '': '' @ name @ '' (max '' @ max_len
       @ '' chars, alphanumeric/_/-, no leading -/_)'')"

text \<open>Directories below the hot path, made or removed for the engine.\<close>

definition with_engine :: "(storage_config \<Rightarrow> query_result \<times> (fsys \<Rightarrow> fsys)) \<Rightarrow> exec_state \<Rightarrow> exec_result" where
  "with_engine f s =
     (case xe_engine (fst s) of
        None \<Rightarrow> (Inr (fail_result ''Engine not available''), s)
      | Some e \<Rightarrow> (case f (eg_config e) of (r, g) \<Rightarrow> (Inr r, fst s, g (snd s))))"

definition make_dirs :: "string \<Rightarrow> fsys \<Rightarrow> fsys" where
  "make_dirs path fs = snd (create_directories path fs)"

definition exec_create_database :: "string \<Rightarrow> exec_state \<Rightarrow> exec_result" where
  "exec_create_database db =
     with_engine (\<lambda>cfg.
       if \<not> is_valid_name db 64 then (invalid_name ''database name'' db ''64'', id)
       else (ok_result [] [] 1, make_dirs (eng_tag_path cfg db [] [])))"

definition exec_create_table :: "create_table_stmt \<Rightarrow> exec_state \<Rightarrow> exec_result" where
  "exec_create_table stmt s =
     with_engine (\<lambda>cfg.
       if \<not> is_valid_name (cb_table stmt) 64 then (invalid_name ''table name'' (cb_table stmt) ''64'', id)
       else (ok_result [] [] 1, make_dirs (eng_table_path cfg (xe_current_db (fst s)) (cb_table stmt)))) s"

text \<open>The tags before an invalid one have been made.\<close>

fun make_tags :: "(string \<Rightarrow> string) \<Rightarrow> string list \<Rightarrow> fsys \<Rightarrow> string option \<times> fsys" where
  "make_tags path [] fs = (None, fs)"
| "make_tags path (t # ts) fs =
     (if \<not> is_valid_name t 128 then (Some t, fs) else make_tags path ts (make_dirs (path t) fs))"

definition exec_create_tags :: "create_tags_stmt \<Rightarrow> exec_state \<Rightarrow> exec_result" where
  "exec_create_tags stmt s =
     (case s of (x, fs) \<Rightarrow>
        (case xe_engine x of
           None \<Rightarrow> (Inr (fail_result ''Engine not available''), x, fs)
         | Some e \<Rightarrow>
             (case make_tags (eng_tag_path (eg_config e) (xe_current_db x) (cs_table stmt)) (map fst (cs_tags stmt)) fs of
                (Some t, fs) \<Rightarrow> (Inr (invalid_name ''tag name'' t ''128''), x, fs)
              | (None, fs) \<Rightarrow> (Inr (ok_result [] [] (int (length (cs_tags stmt)))), x, fs))))"

section \<open>DROP, ALTER, USE\<close>

definition exec_drop_tag :: "string \<Rightarrow> string \<Rightarrow> exec_state \<Rightarrow> exec_result" where
  "exec_drop_tag tab tag s =
     (case s of (x, fs) \<Rightarrow>
        (case xe_engine x of
           None \<Rightarrow> (Inr (fail_result ''Engine not available''), x, fs)
         | Some e \<Rightarrow>
             (case eng_drop_tag (xe_current_db x) tab tag (e, fs) of
                (_, e, fs) \<Rightarrow> (Inr (ok_result [] [] 1), x\<lparr>xe_engine := Some e\<rparr>, fs))))"

definition exec_drop_alarm :: "string \<Rightarrow> exec_state \<Rightarrow> exec_result" where
  "exec_drop_alarm name =
     with_alarm ''Engine not available'' (\<lambda>a. (ok_result [] [] 1, snd (ae_remove_rule name a)))"

definition exec_drop_user :: "exec_env \<Rightarrow> string \<Rightarrow> exec_state \<Rightarrow> exec_result" where
  "exec_drop_user xv name s =
     with_auth ''Auth not available'' (\<lambda>afs.
       case drop_user (xv_junk xv) (xe_token (fst s)) name (xv_auth_time xv) afs of
         (ok, a, fs) \<Rightarrow>
           (if ok then ok_result [] [] 1 else fail_result ''Failed to drop user (admin only / last admin / not found)'', a, fs)) s"

definition exec_drop_table :: "string \<Rightarrow> exec_state \<Rightarrow> exec_result" where
  "exec_drop_table tab s =
     (case s of (x, fs) \<Rightarrow>
        (case xe_engine x of
           None \<Rightarrow> (Inr (fail_result ''Engine not available''), x, fs)
         | Some e \<Rightarrow>
             (case eng_drop_table (xe_current_db x) tab (e, fs) of
                (_, e, fs) \<Rightarrow> (Inr (ok_result [] [] 1), x\<lparr>xe_engine := Some e\<rparr>, fs))))"

text \<open>The part of the path before the name of the database and \<^verbatim>\<open>/tables/\<close>.\<close>

definition database_dir :: "storage_config \<Rightarrow> string \<Rightarrow> string" where
  "database_dir cfg db =
     (let path = eng_tag_path cfg db [] [] in
      (case find_string (db @ ''/tables/'') path of Some k \<Rightarrow> take k path | None \<Rightarrow> path) @ db)"

definition exec_drop_database :: "string \<Rightarrow> exec_state \<Rightarrow> exec_result" where
  "exec_drop_database db s =
     (case s of (x, fs) \<Rightarrow>
        (case xe_engine x of
           None \<Rightarrow> (Inr (fail_result ''Engine not available''), x, fs)
         | Some e \<Rightarrow>
             (case eng_drop_table (xe_current_db x) [] (e, fs) of
                (_, e, fs) \<Rightarrow>
                  (Inr (ok_result [] [] 1), x\<lparr>xe_engine := Some e\<rparr>, snd (remove_all (database_dir (eg_config e) db) fs)))))"

definition exec_use :: "string \<Rightarrow> exec_state \<Rightarrow> exec_result" where
  "exec_use db s = (Inr (ok_result [''message''] [[''OK'']] 1), set_current_db db (fst s), snd s)"

definition exec_alter_tag :: "alter_tag_stmt \<Rightarrow> query_result" where
  "exec_alter_tag stmt =
     (if at_property stmt = ''type'' then fail_result ''Cannot alter tag type. Data type is immutable after creation.''
      else ok_result [''message''] [[''OK'']] 1)"

definition exec_alter_alarm :: "string \<Rightarrow> string \<Rightarrow> string \<Rightarrow> exec_state \<Rightarrow> exec_result" where
  "exec_alter_alarm name property value =
     with_alarm ''Engine not available'' (\<lambda>a. case ae_alter_rule name property value a of
       (ok, a) \<Rightarrow> (if ok then ok_result [] [] 1 else fail_result ''Failed to alter alarm'', a))"

definition exec_alter_user :: "exec_env \<Rightarrow> string \<Rightarrow> string \<Rightarrow> string \<Rightarrow> exec_state \<Rightarrow> exec_result" where
  "exec_alter_user xv name property value s =
     with_auth ''Auth not available'' (\<lambda>afs.
       case alter_user (xv_junk xv) (xe_token (fst s)) name property value (xv_auth_time xv) (xv_draws xv) afs of
         (ok, a, fs) \<Rightarrow>
           (if ok then ok_result [] [] 1 else fail_result ''Failed to alter user (admin only / not found)'', a, fs)) s"

section \<open>DELETE, UPDATE, SHOW\<close>

definition exec_delete :: "delete_stmt \<Rightarrow> exec_state \<Rightarrow> exec_result" where
  "exec_delete stmt s = exec_drop_tag (ds_table stmt) (ds_tag_filter stmt) s"

definition exec_update :: "exec_env \<Rightarrow> update_stmt \<Rightarrow> exec_state \<Rightarrow> exec_result" where
  "exec_update xv stmt s =
     (case s of (x, fs) \<Rightarrow>
        (case xe_engine x of
           None \<Rightarrow> (Inr (fail_result ''Engine not available''), x, fs)
         | Some e \<Rightarrow>
             (case eng_drop_tag (xe_current_db x) (us_table stmt) (us_tag_filter stmt) (e, fs) of
                (_, e, fs) \<Rightarrow>
                  (case eng_write (xv_env xv 0) (xe_current_db x @ '':'' @ us_table stmt @ '':'' @ us_tag_filter stmt)
                          \<lparr>dp_ts = us_exact_time stmt, dp_value = VDouble (us_new_value stmt)\<rparr> (e, fs) of
                     (Inl err, e, fs) \<Rightarrow> (Inl (Uncaught err), x\<lparr>xe_engine := Some e\<rparr>, fs)
                   | (Inr _, e, fs) \<Rightarrow> (Inr (ok_result [] [] 1), x\<lparr>xe_engine := Some e\<rparr>, fs)))))"

definition directory_rows :: "string \<Rightarrow> fsys \<Rightarrow> string list list" where
  "directory_rows dir fs =
     (case list_directory dir fs of
        None \<Rightarrow> [] | Some es \<Rightarrow> map (\<lambda>e. [de_name e]) (filter de_is_directory es))"

definition strip_slash :: "string \<Rightarrow> string" where
  "strip_slash s = (if s \<noteq> [] \<and> last s = CHR ''/'' then butlast s else s)"

definition role_name :: "user_role \<Rightarrow> string" where
  "role_name r = (if r = ADMIN then ''admin'' else if r = OPERATOR then ''operator'' else ''viewer'')"

fun join_commas :: "string list \<Rightarrow> string" where
  "join_commas [] = []"
| "join_commas [x] = x"
| "join_commas (x # y # ys) = x @ CHR '','' # join_commas (y # ys)"

text \<open>\<^verbatim>\<open>SHOW TABLES\<close> and \<^verbatim>\<open>SHOW TAGS\<close> use the engine without asking whether it is there.\<close>

definition exec_show :: "exec_env \<Rightarrow> show_stmt \<Rightarrow> exec_state \<Rightarrow> exec_result" where
  "exec_show xv stmt s =
     (case s of (x, fs) \<Rightarrow>
      case sh_type stmt of
        DATABASES \<Rightarrow>
          let rows = directory_rows ''./data/hot'' fs
          in (Inr (ok_result [''Database''] (if rows = [] then [[''default'']] else rows) 0), s)
      | TABLES \<Rightarrow>
          (case xe_engine x of
             None \<Rightarrow> (Inl Undefined, s)
           | Some e \<Rightarrow>
               let db = (if sh_filter_db stmt = [] then xe_current_db x else sh_filter_db stmt)
               in (Inr (ok_result [''Table''] (directory_rows (strip_slash (eng_table_path (eg_config e) db [])) fs) 0), s))
      | TAGS \<Rightarrow>
          if sh_filter_table stmt = [] then (Inr (fail_result ''SHOW TAGS requires FROM <table>''), s)
          else (case xe_engine x of
             None \<Rightarrow> (Inl Undefined, s)
           | Some e \<Rightarrow>
               (Inr (ok_result [''Tag'']
                  (directory_rows (eng_tag_path (eg_config e) (xe_current_db x) (sh_filter_table stmt) []) fs) 0), s))
      | USERS \<Rightarrow>
          with_auth ''Auth not available'' (\<lambda>(a, fs).
            case get_users (xe_token x) (xv_auth_time xv) a of
              (us, a) \<Rightarrow> (ok_result [''username'', ''role''] (map (\<lambda>u. [us_name u, role_name (us_role u)]) us) 0, a, fs)) s
      | ALARMS \<Rightarrow>
          with_alarm ''Engine not available'' (\<lambda>a.
            (ok_result [''name'', ''tag'', ''condition'', ''actions'']
               (map (\<lambda>r. [ar_name r, ar_tag_name r, ar_condition r, join_commas (ar_actions r)]) (ae_get_rules a)) 0, a)) s)"

section \<open>Execute\<close>

definition exec_statement :: "exec_env \<Rightarrow> sql_stmt \<Rightarrow> exec_state \<Rightarrow> exec_result" where
  "exec_statement xv stmt s =
     (case stmt of
        InsertStmt t \<Rightarrow> exec_insert xv t s
      | SelectStmt t \<Rightarrow> (exec_select xv t s, s)
      | CreateTagStmt t \<Rightarrow> (Inr (exec_create_tag t (fst s)), s)
      | CreateAlarmStmt t \<Rightarrow> exec_create_alarm t s
      | CreateUserStmt t \<Rightarrow> exec_create_user xv t s
      | AlterSystemStmt k v \<Rightarrow> (Inr (exec_alter_system k v), s)
      | DropTagStmt tab tag \<Rightarrow> exec_drop_tag tab tag s
      | DropAlarmStmt name \<Rightarrow> exec_drop_alarm name s
      | DropUserStmt name \<Rightarrow> exec_drop_user xv name s
      | DropTableStmt tab \<Rightarrow> exec_drop_table tab s
      | DropDatabaseStmt db \<Rightarrow> exec_drop_database db s
      | CreateDatabaseStmt db \<Rightarrow> exec_create_database db s
      | UseStmt db \<Rightarrow> exec_use db s
      | CreateTableStmt t \<Rightarrow> exec_create_table t s
      | CreateTagsStmt t \<Rightarrow> exec_create_tags t s
      | AlterTagStmt t \<Rightarrow> (Inr (exec_alter_tag t), s)
      | AlterAlarmStmt name property value \<Rightarrow> exec_alter_alarm name property value s
      | AlterUserStmt name property value \<Rightarrow> exec_alter_user xv name property value s
      | DeleteStmt t \<Rightarrow> exec_delete t s
      | UpdateStmt t \<Rightarrow> exec_update xv t s
      | ShowStmt t \<Rightarrow> exec_show xv t s)"

definition execute :: "exec_env \<Rightarrow> sql_stmt \<Rightarrow> exec_state \<Rightarrow> exec_result" where
  "execute xv stmt s =
     (case exec_permitted xv stmt (fst s) of
        (ok, x) \<Rightarrow>
          if \<not> ok then (Inr (fail_result (''Permission denied: '' @ operation_name stmt)), x, snd s)
          else exec_statement xv stmt (x, snd s))"

text \<open>\<open>None\<close>: the parser does not return.\<close>

definition execute_sql :: "exec_env \<Rightarrow> string \<Rightarrow> exec_state \<Rightarrow> exec_result option" where
  "execute_sql xv sql s =
     (case sql_parse (xv_time xv) sql of
        None \<Rightarrow> None
      | Some (Inl msg) \<Rightarrow> Some (Inr (fail_result msg), s)
      | Some (Inr stmt) \<Rightarrow> Some (execute xv stmt s))"

end
