(* ===== verification/Grpc_Server.thy ===== *)
theory Grpc_Server
  imports Executor
begin

text \<open>
  The handlers of the gRPC service and the life cycle of the server,
  \<^verbatim>\<open>src/src/server/grpc_server.{h,cpp}\<close>. A handler takes the fields of its request and gives the
  fields of its response, or an exception of the engine. The transport is a library: whether it can
  build and start a server is an argument of \<open>gs_start\<close>.
\<close>

section \<open>State\<close>

record service =
  sv_engine :: "engine option"
  sv_cache :: "latest_cache option"
  sv_auth :: "auth_manager option"

type_synonym service_state = "service \<times> fsys"

text \<open>An executor for one request: no token, no current database; it shares the components.\<close>

definition sv_executor :: "service \<Rightarrow> executor" where
  "sv_executor v = executor_new (sv_engine v) (sv_cache v) (sv_auth v)"

definition sv_after :: "executor \<Rightarrow> service" where
  "sv_after x = \<lparr>sv_engine = xe_engine x, sv_cache = xe_cache x, sv_auth = xe_auth x\<rparr>"

definition sv_permitted :: "exec_env \<Rightarrow> string \<Rightarrow> string \<Rightarrow> service \<Rightarrow> bool \<times> service" where
  "sv_permitted xv token operation v =
     (case sv_auth v of
        None \<Rightarrow> (True, v)
      | Some a \<Rightarrow>
          (case check_permission token operation (xv_check_time xv) a of (ok, a) \<Rightarrow> (ok, v\<lparr>sv_auth := Some a\<rparr>)))"

section \<open>Query and Admin\<close>

record query_response =
  rp_ok :: bool
  rp_error :: string
  rp_columns :: "string list"
  rp_rows :: "string list list"

definition query_failed :: "string \<Rightarrow> query_response" where
  "query_failed msg = \<lparr>rp_ok = False, rp_error = msg, rp_columns = [], rp_rows = []\<rparr>"

definition query_response_of :: "query_result \<Rightarrow> query_response" where
  "query_response_of r =
     (if \<not> qr_ok r then query_failed (qr_error_msg r)
      else \<lparr>rp_ok = True, rp_error = [], rp_columns = qr_columns r, rp_rows = qr_rows r\<rparr>)"

text \<open>The text of the statement is what the permission is checked for.\<close>

definition sv_query :: "exec_env \<Rightarrow> string \<Rightarrow> string \<Rightarrow> service_state \<Rightarrow> ((exec_error + query_response) \<times> service_state) option" where
  "sv_query xv token sql s =
     (case sv_permitted xv token sql (fst s) of
        (ok, v) \<Rightarrow>
          if \<not> ok then Some (Inr (query_failed ''Permission denied''), v, snd s)
          else map_option (\<lambda>(r, x, fs). (map_sum id query_response_of r, sv_after x, fs))
                 (execute_sql xv sql (sv_executor v, snd s)))"

record admin_response =
  ap_ok :: bool
  ap_error :: string
  ap_result :: string

definition admin_response_of :: "query_result \<Rightarrow> admin_response" where
  "admin_response_of r =
     (if \<not> qr_ok r then \<lparr>ap_ok = False, ap_error = qr_error_msg r, ap_result = []\<rparr>
      else \<lparr>ap_ok = True, ap_error = [], ap_result = to_string (qr_affected r) @ '' rows affected''\<rparr>)"

definition sv_admin :: "exec_env \<Rightarrow> string \<Rightarrow> string \<Rightarrow> service_state \<Rightarrow> ((exec_error + admin_response) \<times> service_state) option" where
  "sv_admin xv token command s =
     (case sv_permitted xv token ''CREATE TAG'' (fst s) of
        (ok, v) \<Rightarrow>
          if \<not> ok then Some (Inr \<lparr>ap_ok = False, ap_error = ''Permission denied'', ap_result = []\<rparr>, v, snd s)
          else map_option (\<lambda>(r, x, fs). (map_sum id admin_response_of r, sv_after x, fs))
                 (execute_sql xv command (sv_executor v, snd s)))"

section \<open>Insert\<close>

record insert_response =
  ip_ok :: bool
  ip_error :: string
  ip_count :: int

text \<open>A point without a positive time gets the clock's milliseconds.\<close>

definition request_point :: "timestamp \<Rightarrow> timestamp \<Rightarrow> f64 \<Rightarrow> data_point" where
  "request_point clock ts v = \<lparr>dp_ts = (if 0 < sint ts then ts else clock), dp_value = VDouble v\<rparr>"

fun sv_insert_points :: "exec_env \<Rightarrow> nat \<Rightarrow> (string \<times> timestamp \<times> f64) list \<Rightarrow> int \<Rightarrow> exec_state
    \<Rightarrow> (exec_error + int) \<times> exec_state" where
  "sv_insert_points xv i [] n s = (Inr n, s)"
| "sv_insert_points xv i ((tag, ts, v) # ps) n s =
     (case store_point (xv_env xv i) tag (request_point (xv_clock xv i) ts v) s of
        (Some err, s) \<Rightarrow> (Inl err, s)
      | (None, s) \<Rightarrow> sv_insert_points xv (i + 1) ps (n + 1) s)"

definition sv_insert :: "exec_env \<Rightarrow> string \<Rightarrow> (string \<times> timestamp \<times> f64) list \<Rightarrow> service_state
    \<Rightarrow> (exec_error + insert_response) \<times> service_state" where
  "sv_insert xv token points s =
     (case sv_permitted xv token ''INSERT'' (fst s) of
        (ok, v) \<Rightarrow>
          if \<not> ok then (Inr \<lparr>ip_ok = False, ip_error = ''Permission denied'', ip_count = 0\<rparr>, v, snd s)
          else (case sv_insert_points xv 0 points 0 (sv_executor v, snd s) of
                  (r, x, fs) \<Rightarrow>
                    (map_sum id (\<lambda>n. \<lparr>ip_ok = True, ip_error = [], ip_count = n\<rparr>) r, sv_after x, fs)))"

section \<open>Auth\<close>

record auth_response =
  hp_ok :: bool
  hp_token :: string
  hp_role :: string
  hp_error :: string

definition response_role :: "user_role \<Rightarrow> string" where
  "response_role r =
     (if r = ADMIN then ''admin'' else if r = OPERATOR then ''operator'' else if r = VIEWER then ''viewer'' else [])"

definition sv_authenticate :: "exec_env \<Rightarrow> string \<Rightarrow> string \<Rightarrow> service \<Rightarrow> auth_response \<times> service" where
  "sv_authenticate xv username password v =
     (case sv_auth v of
        None \<Rightarrow> (\<lparr>hp_ok = True, hp_token = ''no-auth-token'', hp_role = ''admin'', hp_error = []\<rparr>, v)
      | Some a \<Rightarrow>
          (case auth_login username password (xv_auth_time xv) (xv_draws xv) a of
             (token, a) \<Rightarrow>
               if token = [] then
                 (\<lparr>hp_ok = False, hp_token = [], hp_role = [], hp_error = ''Invalid credentials''\<rparr>, v\<lparr>sv_auth := Some a\<rparr>)
               else (case validate_token token (xv_check_time xv) a of
                 (u, a) \<Rightarrow>
                   (\<lparr>hp_ok = True, hp_token = token,
                     hp_role = (case u of Some u \<Rightarrow> response_role (us_role u) | None \<Rightarrow> []), hp_error = []\<rparr>,
                    v\<lparr>sv_auth := Some a\<rparr>))))"

section \<open>Snapshot\<close>

text \<open>A protobuf enumeration may carry a number that has no name.\<close>

datatype snapshot_query = SNAP_GET | SNAP_GET_MANY | SNAP_GET_ALL | SNAP_COUNT | SNAP_UNKNOWN

record snapshot_response =
  np_ok :: bool
  np_error :: string
  np_entries :: "cached_snapshot list"
  np_count :: int

definition snapshot_failed :: "string \<Rightarrow> snapshot_response" where
  "snapshot_failed msg = \<lparr>np_ok = False, np_error = msg, np_entries = [], np_count = 0\<rparr>"

definition snapshot_found :: "cached_snapshot list \<Rightarrow> int \<Rightarrow> snapshot_response" where
  "snapshot_found entries n = \<lparr>np_ok = True, np_error = [], np_entries = entries, np_count = n\<rparr>"

definition sv_snapshot_answer :: "snapshot_query \<Rightarrow> string \<Rightarrow> string \<Rightarrow> snapshot_store \<Rightarrow> snapshot_response" where
  "sv_snapshot_answer q tag pattern snap =
     (case q of
        SNAP_GET \<Rightarrow> snapshot_found (case ss_get tag snap of Some c \<Rightarrow> [c] | None \<Rightarrow> []) 0
      | SNAP_GET_MANY \<Rightarrow> snapshot_found (ss_get_by_pattern pattern snap) 0
      | SNAP_GET_ALL \<Rightarrow> snapshot_found (ss_get_all snap) 0
      | SNAP_COUNT \<Rightarrow> snapshot_found [] (int (ss_count snap))
      | SNAP_UNKNOWN \<Rightarrow> snapshot_found [] 0)"

definition sv_snapshot :: "exec_env \<Rightarrow> string \<Rightarrow> snapshot_query \<Rightarrow> string \<Rightarrow> string \<Rightarrow> service
    \<Rightarrow> (exec_error + snapshot_response) \<times> service" where
  "sv_snapshot xv token q tag pattern v =
     (let (known, v) = (case sv_auth v of
             None \<Rightarrow> (True, v)
           | Some a \<Rightarrow>
               (case validate_token token (xv_check_time xv) a of (u, a) \<Rightarrow> (u \<noteq> None, v\<lparr>sv_auth := Some a\<rparr>)))
      in if \<not> known then (Inr (snapshot_failed ''Unauthorized''), v)
         else (case sv_engine v of
           None \<Rightarrow> (Inl Undefined, v)
         | Some e \<Rightarrow>
             (case eg_snapshot e of
                None \<Rightarrow> (Inr (snapshot_failed ''Snapshot not available''), v)
              | Some snap \<Rightarrow> (Inr (sv_snapshot_answer q tag pattern snap), v))))"

section \<open>The server\<close>

record grpc_server =
  gs_listen_addr :: string
  gs_port :: int
  gs_service :: service
  gs_running :: bool
  gs_server :: bool

definition gs_new :: "string \<Rightarrow> int \<Rightarrow> service \<Rightarrow> grpc_server" where
  "gs_new addr port v = \<lparr>gs_listen_addr = addr, gs_port = port, gs_service = v, gs_running = False, gs_server = False\<rparr>"

definition gs_address :: "grpc_server \<Rightarrow> string" where
  "gs_address g = gs_listen_addr g @ '':'' @ to_string (gs_port g)"

text \<open>\<open>built\<close> tells whether a server could be built on the address.\<close>

definition gs_start :: "(string \<Rightarrow> bool) \<Rightarrow> grpc_server \<Rightarrow> bool \<times> grpc_server" where
  "gs_start built g = (if \<not> built (gs_address g) then (False, g) else (True, g\<lparr>gs_server := True, gs_running := True\<rparr>))"

definition gs_stop :: "grpc_server \<Rightarrow> grpc_server" where
  "gs_stop g = (if gs_running g then g\<lparr>gs_running := False, gs_server := False\<rparr> else g)"

definition gs_is_running :: "grpc_server \<Rightarrow> bool" where
  "gs_is_running g = gs_running g"

end
