(* ===== verification/Sql_Facts.thy ===== *)
theory Sql_Facts
  imports Sql_Parser
begin

text \<open>
  What the parser gets right and wrong: an \<^verbatim>\<open>INSERT\<close> that is written out is read back, the end of
  a \<^verbatim>\<open>BETWEEN\<close> is lost in every \<^verbatim>\<open>SELECT\<close>, dates are shifted, and an unquoted action of an alarm
  is never left.
\<close>

section \<open>Writing and reading INSERT\<close>

fun comma_list :: "string list \<Rightarrow> string" where
  "comma_list [] = []"
| "comma_list [x] = x"
| "comma_list (x # y # ys) = x @ '', '' @ comma_list (y # ys)"

definition literal :: "string \<Rightarrow> string" where
  "literal v = quote_literal (CHR 0x27) v"

definition row_text :: "string list \<Rightarrow> string" where
  "row_text vs = ''('' @ comma_list (map literal vs) @ '')''"

definition insert_text :: "insert_stmt \<Rightarrow> string" where
  "insert_text s = ''INSERT INTO '' @ is_table s @ '' ('' @ comma_list (is_columns s) @ '') VALUES ''
     @ comma_list (map row_text (is_rows s))"

definition plain_column :: "string \<Rightarrow> bool" where
  "plain_column c \<longleftrightarrow> trimmed line_blanks c \<and> CHR '','' \<notin> set c \<and> CHR '')'' \<notin> set c"

definition insert_ok :: "insert_stmt \<Rightarrow> bool" where
  "insert_ok s \<longleftrightarrow> is_table s \<noteq> [] \<and> list_all (\<lambda>c. \<not> is_gap c \<and> c \<noteq> CHR ''('') (is_table s) \<and> list_all plain_column (is_columns s)
     \<and> is_rows s \<noteq> []"

lemma skip_while_over:
  assumes "list_all P xs" "rest = [] \<or> \<not> P (hd rest)"
  shows "skip_while P (pre @ xs @ rest) (length pre) = length pre + length xs"
proof -
  have "takeWhile P (xs @ rest) = xs"
    using assms by (induction xs) (auto simp: takeWhile_eq_Nil_iff)
  then show ?thesis by (simp add: skip_while_def)
qed

lemma skip_whitespace_over:
  assumes "list_all is_gap xs" "rest = [] \<or> \<not> is_gap (hd rest)"
  shows "skip_whitespace (pre @ xs @ rest) (length pre) = length pre + length xs"
  using skip_while_over [OF assms] by (simp add: skip_whitespace_def)

lemma skip_whitespace_none: "rest = [] \<or> \<not> is_gap (hd rest) \<Longrightarrow> skip_whitespace (pre @ rest) (length pre) = length pre"
  using skip_whitespace_over [of "[]" rest pre] by simp

lemma item_end_over:
  assumes "CHR '','' \<notin> set xs" "CHR '')'' \<notin> set xs" "rest = [] \<or> hd rest \<in> {CHR '','', CHR '')''}"
  shows "item_end (pre @ xs @ rest) (length pre) = length pre + length xs"
  using assms skip_while_over [of "\<lambda>c. c \<noteq> CHR '','' \<and> c \<noteq> CHR '')''" xs rest pre]
  by (auto simp: item_end_def list_all_iff)

lemma plain_column_hd:
  assumes "plain_column c"
  shows "c \<noteq> []" "\<not> is_gap (hd c)" "hd c \<noteq> CHR '')''" "sql_trim c = c"
proof -
  have t: "trimmed line_blanks c" using assms by (simp add: plain_column_def)
  then show c: "c \<noteq> []" by (simp add: trimmed_def)
  then have "hd c \<in> set c" by simp
  then have "hd c \<noteq> CHR '',''" "hd c \<noteq> CHR '')''" using assms unfolding plain_column_def by metis+
  then show "\<not> is_gap (hd c)" "hd c \<noteq> CHR '')''" using t by (auto simp: trimmed_def is_gap_def line_blanks_def)
  show "sql_trim c = c" using trim_set_id [OF t] by (simp add: sql_trim_def)
qed

lemma comma_list_hd: "x \<noteq> [] \<Longrightarrow> hd (comma_list (x # xs)) = hd x \<and> comma_list (x # xs) \<noteq> []"
  by (cases xs) simp_all

lemma insert_columns_text:
  assumes "list_all plain_column cols"
  shows "insert_columns (pre @ comma_list cols @ CHR '')'' # rest) (length pre)
    = (cols, length pre + length (comma_list cols))"
  using assms
proof (induction cols arbitrary: pre)
  case Nil
  then show ?case by (subst insert_columns.simps) (simp add: at_end_or_def)
next
  case (Cons c cols)
  define tail where "tail = (case cols of [] \<Rightarrow> [] | _ \<Rightarrow> '', '') @ comma_list cols @ CHR '')'' # rest"
  have parts: "comma_list (c # cols) @ CHR '')'' # rest = c @ tail"
    by (cases cols) (simp_all add: tail_def)
  have c: "c \<noteq> []" "\<not> is_gap (hd c)" "hd c \<noteq> CHR '')''" "sql_trim c = c" "CHR '','' \<notin> set c" "CHR '')'' \<notin> set c"
    using Cons.prems plain_column_hd [of c] by (simp_all add: plain_column_def)
  note IH = Cons.IH and prems = Cons.prems
  have tail: "hd tail \<in> {CHR '','', CHR '')''}" "tail \<noteq> []" by (cases cols; simp add: tail_def)+
  let ?sql = "pre @ c @ tail"
  have start: "\<not> at_end_or (CHR '')'') ?sql (length pre)" using c(1,3) by (simp add: at_end_or_def nth_append hd_conv_nth)
  have p: "skip_whitespace ?sql (length pre) = length pre" using c(1,2) by (intro skip_whitespace_none) simp
  have e: "item_end ?sql (length pre) = length pre + length c" using c(5,6) tail by (intro item_end_over) simp_all
  have nxt: "insert_columns ?sql (skip_whitespace ?sql (length pre + length c))
      = (cols, length pre + length (comma_list (c # cols)))"
  proof (cases cols)
    case Nil
    have "skip_whitespace ((pre @ c) @ tail) (length (pre @ c)) = length (pre @ c)"
      by (rule skip_whitespace_none) (simp add: tail_def Nil is_gap_def)
    moreover have "insert_columns ?sql (length pre + length c) = ([], length pre + length c)"
      by (subst insert_columns.simps) (simp add: at_end_or_def tail_def Nil nth_append)
    ultimately show ?thesis by (simp add: Nil)
  next
    case (Cons d ds)
    have d: "d \<noteq> []" "\<not> is_gap (hd d)" using prems Cons plain_column_hd [of d] by simp_all
    have "skip_whitespace ((pre @ c) @ '', '' @ comma_list cols @ CHR '')'' # rest) (length (pre @ c)) = length (pre @ c) + length '', ''"
      using d comma_list_hd [of d ds] Cons by (intro skip_whitespace_over) (simp_all add: is_gap_def)
    moreover have "insert_columns ((pre @ c @ '', '') @ comma_list cols @ CHR '')'' # rest) (length (pre @ c @ '', ''))
        = (cols, length (pre @ c @ '', '') + length (comma_list cols))"
      using prems IH [of "pre @ c @ '', ''"] by simp
    ultimately show ?thesis by (simp add: tail_def Cons)
  qed
  have "insert_columns ?sql (length pre) = (c # cols, length pre + length (comma_list (c # cols)))"
    using start p e nxt c(4) by (subst insert_columns.simps) (simp add: Let_def substr_def)
  then show ?case by (simp add: parts)
qed

text \<open>The same for the quoted values of a row and for the rows.\<close>

lemma literal_hd: "literal v \<noteq> []" "hd (literal v) = CHR 0x27"
  by (simp_all add: literal_def quote_literal_def)

lemma insert_row_text:
  "insert_row (pre @ comma_list (map literal vs) @ CHR '')'' # rest) (length pre)
    = (vs, length pre + length (comma_list (map literal vs)))"
proof (induction vs arbitrary: pre)
  case Nil
  then show ?case by (subst insert_row.simps) (simp add: at_end_or_def)
next
  case (Cons v vs)
  note IH = Cons.IH
  define tail where "tail = (case vs of [] \<Rightarrow> [] | _ \<Rightarrow> '', '') @ comma_list (map literal vs) @ CHR '')'' # rest"
  have parts: "comma_list (map literal (v # vs)) @ CHR '')'' # rest = literal v @ tail"
    by (cases vs) (simp_all add: tail_def)
  have tail: "hd tail \<noteq> CHR 0x27" "tail \<noteq> []" by (cases vs; simp add: tail_def)+
  let ?sql = "pre @ literal v @ tail"
  have start: "\<not> at_end_or (CHR '')'') ?sql (length pre)"
    using literal_hd [of v] by (simp add: at_end_or_def nth_append hd_conv_nth)
  have p: "skip_whitespace ?sql (length pre) = length pre"
    using literal_hd [of v] by (intro skip_whitespace_none) (simp add: is_gap_def)
  have "char_at ?sql (length pre) = CHR 0x27"
    using literal_hd [of v] by (simp add: char_at_def nth_append hd_conv_nth)
  then have v: "row_value ?sql (length pre) = (v, length pre + length (literal v))"
    using extract_quoted_literal [of "CHR 0x27" tail pre v] tail(1) by (simp add: row_value_def is_quote_def literal_def)
  have nxt: "insert_row ?sql (skip_whitespace ?sql (length pre + length (literal v)))
      = (vs, length pre + length (comma_list (map literal (v # vs))))"
  proof (cases vs)
    case Nil
    have "skip_whitespace ((pre @ literal v) @ tail) (length (pre @ literal v)) = length (pre @ literal v)"
      by (rule skip_whitespace_none) (simp add: tail_def Nil is_gap_def)
    moreover have "insert_row ?sql (length pre + length (literal v)) = ([], length pre + length (literal v))"
      by (subst insert_row.simps) (simp add: at_end_or_def tail_def Nil nth_append)
    ultimately show ?thesis by (simp add: Nil)
  next
    case (Cons d ds)
    have "skip_whitespace ((pre @ literal v) @ '', '' @ comma_list (map literal vs) @ CHR '')'' # rest) (length (pre @ literal v))
        = length (pre @ literal v) + length '', ''"
      using literal_hd [of d] comma_list_hd [of "literal d" "map literal ds"] Cons
      by (intro skip_whitespace_over) (simp_all add: is_gap_def)
    moreover have "insert_row ((pre @ literal v @ '', '') @ comma_list (map literal vs) @ CHR '')'' # rest) (length (pre @ literal v @ '', ''))
        = (vs, length (pre @ literal v @ '', '') + length (comma_list (map literal vs)))"
      using IH [of "pre @ literal v @ '', ''"] by simp
    ultimately show ?thesis by (simp add: tail_def Cons)
  qed
  have "insert_row ?sql (length pre) = (v # vs, length pre + length (comma_list (map literal (v # vs))))"
    using start p v nxt by (subst insert_row.simps) simp
  then show ?case by (simp only: parts)
qed

lemma insert_rows_text:
  "insert_rows (pre @ comma_list (map row_text rows)) (length pre) = rows"
proof (induction rows arbitrary: pre)
  case Nil
  then show ?case by (subst insert_rows.simps) simp
next
  case (Cons vs rows)
  note IH = Cons.IH
  define tail where "tail = (case rows of [] \<Rightarrow> [] | _ \<Rightarrow> '', '') @ comma_list (map row_text rows)"
  have parts: "comma_list (map row_text (vs # rows)) = row_text vs @ tail"
    by (cases rows) (simp_all add: tail_def)
  let ?sql = "pre @ row_text vs @ tail" and ?n = "length (comma_list (map literal vs))"
  have row: "insert_row ?sql (length pre + 1) = (vs, length pre + 1 + ?n)"
    using insert_row_text [of "pre @ ''(''" vs tail] by (simp add: row_text_def)
  have nxt: "insert_rows ?sql (skip_whitespace ?sql (length pre + length (row_text vs))) = rows"
  proof (cases rows)
    case Nil
    have "skip_whitespace ((pre @ row_text vs) @ []) (length (pre @ row_text vs)) = length (pre @ row_text vs)"
      by (rule skip_whitespace_none) simp
    then show ?thesis by (subst insert_rows.simps) (simp add: tail_def Nil)
  next
    case (Cons d ds)
    have "row_text d \<noteq> []" "hd (row_text d) = CHR ''(''" by (simp_all add: row_text_def)
    then have "skip_whitespace ((pre @ row_text vs) @ '', '' @ comma_list (map row_text rows)) (length (pre @ row_text vs))
        = length (pre @ row_text vs) + length '', ''"
      using comma_list_hd [of "row_text d" "map row_text ds"] Cons
      by (intro skip_whitespace_over) (simp_all add: is_gap_def)
    moreover have "insert_rows ((pre @ row_text vs @ '', '') @ comma_list (map row_text rows)) (length (pre @ row_text vs @ '', '')) = rows"
      by (rule IH)
    ultimately show ?thesis by (simp add: tail_def Cons)
  qed
  have "insert_rows ?sql (length pre) = vs # rows"
    using row nxt by (subst insert_rows.simps) (simp add: row_text_def nth_append)
  then show ?case by (simp only: parts)
qed

lemma sql_trim_text:
  assumes "s \<noteq> []" "hd s \<notin> set line_blanks" "last s \<notin> set line_blanks"
  shows "sql_trim s = s"
  using assms by (simp add: sql_trim_def trim_set_id trimmed_def)

lemma find_keyword_here:
  assumes "upper_string (take (length kw) (drop pos sql)) = upper_string kw" "pos + length kw \<le> length sql"
  shows "find_keyword sql kw pos = Some pos"
proof -
  have "prefix (upper_string kw) (drop pos (upper_string sql))"
    using assms(1) by (metis append_take_drop_id drop_map prefixI take_map upper_string_def length_map)
  then have "find_string (upper_string kw) (drop pos (upper_string sql)) = Some 0"
    by (cases "drop pos (upper_string sql)") auto
  then show ?thesis using assms(2) by (simp add: find_keyword_def find_from_def upper_string_def)
qed

lemma drop_upper_append: "length pre = n \<Longrightarrow> drop n (upper_string (pre @ suf)) = upper_string suf"
  by (auto simp: upper_string_def)

lemma parse_insert_text:
  assumes "insert_ok s"
  shows "parse_insert (insert_text s) = Inr (InsertStmt s)"
proof -
  let ?t = "is_table s" and ?cols = "comma_list (is_columns s)" and ?rows = "comma_list (map row_text (is_rows s))"
  let ?sql = "insert_text s"
  have t: "?t \<noteq> []" "list_all (\<lambda>c. \<not> is_gap c \<and> c \<noteq> CHR ''('') ?t" "list_all plain_column (is_columns s)" "is_rows s \<noteq> []"
    using assms by (simp_all add: insert_ok_def)
  have rows: "?rows \<noteq> []" "hd ?rows = CHR ''(''"
    using t(4) comma_list_hd [of "row_text (hd (is_rows s))" "map row_text (tl (is_rows s))"]
    by (cases "is_rows s"; simp add: row_text_def)+
  define n where "n = 15 + length ?t + length ?cols"
  have k: "find_keyword ?sql ''INSERT INTO'' 0 = Some 0"
    by (rule find_keyword_here) (simp_all add: insert_text_def upper_string_def)
  have start: "skip_whitespace ?sql 11 = 12"
  proof -
    have "hd (?t @ '' ('' @ ?cols @ '') VALUES '' @ ?rows) = hd ?t" "\<not> is_gap (hd ?t)" using t(1,2) by (cases ?t; simp)+
    then have "skip_whitespace (''INSERT INTO'' @ '' '' @ ?t @ '' ('' @ ?cols @ '') VALUES '' @ ?rows) (length ''INSERT INTO'')
        = length ''INSERT INTO'' + length '' ''"
      by (intro skip_whitespace_over) (simp_all add: is_gap_def)
    then show ?thesis by (simp add: insert_text_def eval_nat_numeral)
  qed
  have name_end: "skip_while (\<lambda>c. c \<noteq> CHR ''('' \<and> c \<noteq> CHR '' '') ?sql 12 = 12 + length ?t"
    using skip_while_over [of "\<lambda>c. c \<noteq> CHR ''('' \<and> c \<noteq> CHR '' ''" ?t "'' ('' @ ?cols @ '') VALUES '' @ ?rows" "''INSERT INTO ''"] t(2)
    by (simp add: insert_text_def list_all_iff is_gap_def eval_nat_numeral)
  have pos: "skip_whitespace ?sql (12 + length ?t) = 13 + length ?t"
    using skip_whitespace_over [of "'' ''" "''('' @ ?cols @ '') VALUES '' @ ?rows" "''INSERT INTO '' @ ?t"]
    by (simp add: insert_text_def is_gap_def eval_nat_numeral)
  have bracket: "13 + length ?t < length ?sql" "?sql ! (13 + length ?t) = CHR ''(''"
    by (simp_all add: insert_text_def nth_append)
  have cols: "insert_columns ?sql (14 + length ?t) = (is_columns s, 14 + length ?t + length ?cols)"
    using insert_columns_text [OF t(3), of "''INSERT INTO '' @ ?t @ '' (''" "'' VALUES '' @ ?rows"]
    by (simp add: insert_text_def eval_nat_numeral)
  have table: "substr ?sql 12 (length ?t) = ?t" by (simp add: substr_def insert_text_def)
  have p: "?sql = (''INSERT INTO '' @ ?t @ '' ('' @ ?cols @ '')'') @ '' VALUES '' @ ?rows" "length (''INSERT INTO '' @ ?t @ '' ('' @ ?cols @ '')'') = n"
    by (simp_all add: insert_text_def n_def)
  have "drop n (upper_string ?sql) = upper_string ('' VALUES '' @ ?rows)"
    unfolding p(1) by (rule drop_upper_append [OF p(2)])
  moreover have "n \<le> length ?sql" by (simp add: insert_text_def n_def)
  ultimately have v: "find_keyword ?sql ''VALUES'' n = Some (n + 1)"
    by (simp add: find_keyword_def find_from_def upper_string_def to_upper_def is_lower_def)
  have after: "skip_whitespace ?sql (n + 7) = n + 8"
    using skip_whitespace_over [of "'' ''" ?rows "''INSERT INTO '' @ ?t @ '' ('' @ ?cols @ '') VALUES''"] rows
    by (simp add: insert_text_def n_def is_gap_def eval_nat_numeral)
  have r: "insert_rows ?sql (n + 8) = is_rows s"
    using insert_rows_text [of "''INSERT INTO '' @ ?t @ '' ('' @ ?cols @ '') VALUES ''" "is_rows s"]
    by (simp add: insert_text_def n_def eval_nat_numeral)
  have "14 + length ?t + length ?cols < length ?sql" by (simp add: insert_text_def)
  with k start name_end pos bracket cols table v after r t(4) show ?thesis
    by (simp add: parse_insert_def Let_def n_def add.assoc)
qed

section \<open>The end of a BETWEEN is lost\<close>

lemma parse_time_empty [simp]: "parse_time_string te [] = 0"
  by (simp add: parse_time_string_def)

lemma where_condition_end:
  assumes "\<not> sublist ''AND'' (upper_string clause)" "tr_end (wc_time_range w) = 0"
  shows "tr_end (wc_time_range (where_condition te clause w)) = 0"
proof -
  have "upper_string ''AND'' = ''AND''" by (simp add: upper_string_def to_upper_def is_lower_def)
  then have "find_keyword clause ''AND'' p = None" for p
    using find_keyword_none [of "''AND''" clause] assms(1) by simp
  then have "tr_end (wc_time_range (where_between te clause w)) = 0"
    using assms(2) by (simp add: where_between_def Let_def split: option.split prod.split)
  then show ?thesis by (simp add: where_condition_def Let_def split: option.split)
qed

lemma where_conditions_end:
  "tr_end (wc_time_range w) = 0 \<Longrightarrow> tr_end (wc_time_range (where_conditions te s pos w)) = 0"
proof (induction te s pos w rule: where_conditions.induct)
  case (1 te s pos w)
  have up: "upper_string ''AND'' = ''AND''" by (simp add: upper_string_def to_upper_def is_lower_def)
  show ?case
  proof (cases "find_keyword s ''AND'' pos")
    case None
    show ?thesis
    proof (cases "length s \<le> pos")
      case True
      then show ?thesis using 1(2) by (subst where_conditions.simps) simp
    next
      case False
      then have "\<not> sublist ''AND'' (upper_string (drop pos s))"
        using None find_string_sublist [of "''AND''" "drop pos (upper_string s)"]
        by (simp add: find_keyword_def find_from_def up) (simp add: upper_string_def drop_map)
      then have "\<not> sublist ''AND'' (upper_string (sql_trim (drop pos s)))"
        using sublist_upper [OF sublist_trim [of "drop pos s"]] sublist_order.order.trans by blast
      from where_condition_end [OF this 1(2)] False None show ?thesis by (subst where_conditions.simps) simp
    qed
  next
    case (Some n)
    have "\<not> sublist ''AND'' (upper_string (sql_trim (substr s pos (n - pos))))"
      using no_keyword_before [OF Some] by (simp add: up)
    from where_condition_end [OF this 1(2)] 1(1) [OF _ Some] 1(2) Some show ?thesis
      by (subst where_conditions.simps) simp
  qed
qed

lemma parse_select_end:
  assumes "parse_select te sql = Inr (SelectStmt s)"
  shows "tr_end (wc_time_range (ss_where s)) = 0"
proof -
  have "tr_end (wc_time_range (ss_where new_select)) = 0" by (simp add: new_select_def new_where_def zero_range_def)
  then show ?thesis using assms
    by (auto simp: parse_select_def Let_def parse_where_def where_conditions_end split: option.splits if_splits)
qed

lemmas other_parses = parse_create_database_def parse_create_table_def parse_create_tags_def parse_create_tag_def
  parse_create_user_def parse_drop_table_def parse_drop_tag_def parse_drop_alarm_def parse_drop_user_def
  parse_drop_database_def parse_alter_tag_def parse_alter_alarm_def alter_alarm_spaced_def parse_alter_user_def
  parse_alter_system_def parse_insert_def parse_delete_def parse_update_def parse_use_def parse_show_def

lemma other_parses_no_select:
  "parse_create_database sql \<noteq> Inr (SelectStmt s)" "parse_create_table sql \<noteq> Inr (SelectStmt s)"
  "parse_create_tags sql \<noteq> Inr (SelectStmt s)" "parse_create_tag sql \<noteq> Inr (SelectStmt s)"
  "parse_create_user sql \<noteq> Inr (SelectStmt s)" "parse_drop_table sql \<noteq> Inr (SelectStmt s)"
  "parse_drop_tag sql \<noteq> Inr (SelectStmt s)" "parse_drop_alarm sql \<noteq> Inr (SelectStmt s)"
  "parse_drop_user sql \<noteq> Inr (SelectStmt s)" "parse_drop_database sql \<noteq> Inr (SelectStmt s)"
  "parse_alter_tag sql \<noteq> Inr (SelectStmt s)" "parse_alter_alarm sql \<noteq> Inr (SelectStmt s)"
  "parse_alter_user sql \<noteq> Inr (SelectStmt s)" "parse_alter_system sql \<noteq> Inr (SelectStmt s)"
  "parse_insert sql \<noteq> Inr (SelectStmt s)" "parse_delete te sql \<noteq> Inr (SelectStmt s)"
  "parse_update te sql \<noteq> Inr (SelectStmt s)" "parse_use sql \<noteq> Inr (SelectStmt s)"
  "parse_show sql \<noteq> Inr (SelectStmt s)"
  by (auto simp: other_parses Let_def split: option.splits prod.splits)

lemma parse_create_alarm_no_select: "parse_create_alarm sql \<noteq> Some (Inr (SelectStmt s))"
  by (auto simp: parse_create_alarm_def Let_def bind_eq_Some_conv split: option.splits prod.splits)

lemma sql_parse_select:
  "sql_parse te text = Some (Inr (SelectStmt s)) \<Longrightarrow> parse_select te (sql_trim text) = Inr (SelectStmt s)"
  by (simp add: sql_parse_def Let_def other_parses_no_select parse_create_alarm_no_select split: if_splits)

section \<open>Dates are shifted\<close>

text \<open>How a date is written: the digits of the year, the month and the day, padded with zeros.\<close>

definition date_text :: "nat \<Rightarrow> nat \<Rightarrow> nat \<Rightarrow> string" where
  "date_text y m d = pad_left 4 (CHR ''0'') (digits 10 y) @ ''-'' @ pad_left 2 (CHR ''0'') (digits 10 m)
     @ ''-'' @ pad_left 2 (CHR ''0'') (digits 10 d)"

lemma pad_digits:
  "list_all is_digit (pad_left n (CHR ''0'') (digits 10 v))" "number_of 10 (pad_left n (CHR ''0'') (digits 10 v)) = v"
proof -
  show "list_all is_digit (pad_left n (CHR ''0'') (digits 10 v))"
    using digits10_is_digit by (auto simp: pad_left_def list_all_iff is_digit_def)
  have "number_of 10 (replicate k (CHR ''0'') @ ds) = number_of 10 ds" for k ds
    by (induction k) (simp_all add: number_of_def digit_value_def is_digit_def)
  then show "number_of 10 (pad_left n (CHR ''0'') (digits 10 v)) = v"
    by (simp add: pad_left_def number_of_digits)
qed

lemma read_field_digits:
  assumes "length s = n" "list_all is_digit s" "number_of 10 s = v" "0 < n" "lo \<le> int v" "int v \<le> hi"
  shows "read_field n lo hi (s @ rest) = Some (int v, rest)"
proof -
  have tw: "takeWhile is_digit s = s" using assms(2) by (simp add: list_all_iff)
  have "s \<noteq> []" using assms(1,4) by auto
  then show ?thesis using assms(1,3,5,6) by (simp add: read_field_def tw)
qed

lemma read_field_text:
  assumes "v < 10 ^ n" "0 < n" "lo \<le> int v" "int v \<le> hi"
  shows "read_field n lo hi (pad_left n (CHR ''0'') (digits 10 v) @ rest) = Some (int v, rest)"
  using length_digits [of v 10 n] assms pad_digits [of n v] by (intro read_field_digits) simp_all

lemma get_date_text:
  assumes "y < 10000" "1 \<le> m" "m \<le> 12" "1 \<le> d" "d \<le> 31"
  shows "get_date (date_text y m d) t = (t\<lparr>tm_year := int y - 1900, tm_mon := int m - 1, tm_mday := int d\<rparr>, Some [])"
proof -
  have "list_all is_digit (pad_left 4 (CHR ''0'') (digits 10 y))" "length (pad_left 4 (CHR ''0'') (digits 10 y)) \<noteq> 0"
    using pad_digits(1) by simp_all
  then have "dropWhile is_space (date_text y m d) = date_text y m d"
    by (cases "pad_left 4 (CHR ''0'') (digits 10 y)") (auto simp: date_text_def is_digit_def is_space_def)
  moreover have "read_field 4 0 9999 (date_text y m d)
      = Some (int y, ''-'' @ pad_left 2 (CHR ''0'') (digits 10 m) @ ''-'' @ pad_left 2 (CHR ''0'') (digits 10 d))"
    unfolding date_text_def using assms by (intro read_field_text) simp_all
  moreover have "read_field 2 1 12 (pad_left 2 (CHR ''0'') (digits 10 m) @ ''-'' @ pad_left 2 (CHR ''0'') (digits 10 d))
      = Some (int m, ''-'' @ pad_left 2 (CHR ''0'') (digits 10 d))"
    using assms by (intro read_field_text) simp_all
  moreover have "read_field 2 1 31 (pad_left 2 (CHR ''0'') (digits 10 d) @ []) = Some (int d, [])"
    using assms by (intro read_field_text) simp_all
  ultimately show ?thesis by (simp add: get_date_def read_literal_def)
qed

lemma date_text_plain: "CHR ''T'' \<notin> set (date_text y m d)" "CHR '' '' \<notin> set (date_text y m d)" "date_text y m d \<noteq> []"
proof -
  have "\<forall>c\<in>set (pad_left n (CHR ''0'') (digits 10 v)). is_digit c" for n v
    using pad_digits(1) by (simp add: list_all_iff)
  then have "\<forall>c\<in>set (date_text y m d). is_digit c \<or> c = CHR ''-''" by (auto simp: date_text_def)
  then show "CHR ''T'' \<notin> set (date_text y m d)" "CHR '' '' \<notin> set (date_text y m d)" by (auto simp: is_digit_def)
  show "date_text y m d \<noteq> []" by (simp add: date_text_def)
qed

lemma parse_time_midnight:
  assumes "get_date s zero_civil = (zero_civil\<lparr>tm_year := y, tm_mon := k, tm_mday := d\<rparr>, r)"
    "s \<noteq> []" "CHR ''T'' \<notin> set s" "CHR '' '' \<notin> set s" "te_mktime te = utc_mktime"
  shows "parse_time_string te s = word_of_int (86400000 * civil_days y (k - 1) d)"
proof -
  have n: "utc_mktime (zero_civil\<lparr>tm_mday := d, tm_year := y - 1900, tm_mon := k - 1\<rparr>) = civil_days y (k - 1) d * 86400"
    by (simp add: utc_mktime_def zero_civil_def)
  define e where "e = civil_days y (k - 1) d"
  have "parse_time_string te s = (if e * 86400 = - 1 then 0 else word_of_int (e * 86400 * 1000))"
    using assms(2-4) by (simp add: parse_time_string_def assms(1,5) n Let_def e_def)
  moreover have "e * 86400 \<noteq> - 1"
  proof
    assume h: "e * 86400 = - 1"
    have "even (e * 86400)" by simp
    then show False unfolding h by simp
  qed
  ultimately show ?thesis by (simp add: e_def [symmetric] mult.assoc mult.commute)
qed

lemma parse_time_date:
  assumes "y < 10000" "1 \<le> m" "m \<le> 12" "1 \<le> d" "d \<le> 31" "te_mktime te = utc_mktime"
  shows "parse_time_string te (date_text y m d) = word_of_int (86400000 * civil_days (int y - 1900) (int m - 1 - 1) (int d))"
  by (rule parse_time_midnight [OF get_date_text [OF assms(1-5)] date_text_plain(3,1,2) assms(6)])

section \<open>Writing and reading CREATE ALARM\<close>

lemma prefix_before_space: "prefix needle (p @ c # r) \<Longrightarrow> c \<notin> set needle \<Longrightarrow> prefix needle p"
proof (induction p arbitrary: needle)
  case Nil
  then show ?case by (cases needle) auto
next
  case (Cons a p)
  then show ?case by (cases needle) auto
qed

lemma find_string_after_space:
  assumes "c \<notin> set needle" "needle \<noteq> []" "\<not> sublist needle mid"
  shows "find_string needle (mid @ c # needle @ rest) = Some (length mid + 1)"
  using assms(3)
proof (induction mid)
  case Nil
  have "\<not> prefix needle (c # needle @ rest)" using assms(1,2) by (cases needle) auto
  moreover have "find_string needle (needle @ rest) = Some 0"
    using assms(2) find_string_at [of needle "hd needle" "tl needle" "[]" rest] by simp
  ultimately show ?case by simp
next
  case (Cons a mid)
  have "\<not> prefix needle ((a # mid) @ c # needle @ rest)"
    using prefix_before_space [OF _ assms(1)] Cons.prems prefix_imp_sublist by blast
  moreover have "\<not> sublist needle mid" using Cons.prems by (simp add: sublist_Cons_right)
  ultimately show ?case using Cons.IH by simp
qed

lemma find_keyword_after_space:
  assumes "CHR '' '' \<notin> set (upper_string kw)" "kw \<noteq> []" "\<not> sublist (upper_string kw) (upper_string mid)" "length pre = n"
  shows "find_keyword (pre @ mid @ CHR '' '' # kw @ rest) kw n = Some (n + length mid + 1)"
proof -
  have "to_upper (CHR '' '') = CHR '' ''" by (simp add: to_upper_def is_lower_def)
  then have "drop n (upper_string (pre @ mid @ CHR '' '' # kw @ rest))
      = upper_string mid @ CHR '' '' # upper_string kw @ upper_string rest"
    using assms(4) by (auto simp: upper_string_def)
  moreover have "find_string (upper_string kw) (upper_string mid @ CHR '' '' # upper_string kw @ upper_string rest)
      = Some (length mid + 1)"
    using find_string_after_space [OF assms(1) _ assms(3)] assms(2) by (simp add: upper_string_def)
  ultimately show ?thesis using assms(4) by (simp add: find_keyword_def find_from_def upper_string_def)
qed

lemma find_keyword_at: "length pre = n \<Longrightarrow> find_keyword (pre @ kw @ rest) kw n = Some n"
  using find_keyword_here [of kw n "pre @ kw @ rest"] by auto

definition bare_word :: "string \<Rightarrow> bool" where
  "bare_word w \<longleftrightarrow> w \<noteq> [] \<and> list_all (\<lambda>c. \<not> is_gap c) w"

definition alarm_head :: "string \<Rightarrow> string \<Rightarrow> string \<Rightarrow> string" where
  "alarm_head name tag cond = ''CREATE ALARM '' @ name @ '' ON '' @ tag @ '' WHEN '' @ cond @ '' THEN ACTION(''"

definition alarm_text :: "create_alarm_stmt \<Rightarrow> string" where
  "alarm_text a = alarm_head (ca_alarm a) (ca_tag a) (ca_condition a) @ comma_list (map literal (ca_actions a)) @ '')''"

definition alarm_parts_ok :: "string \<Rightarrow> string \<Rightarrow> string \<Rightarrow> bool" where
  "alarm_parts_ok name tag cond \<longleftrightarrow> bare_word name \<and> bare_word tag \<and> \<not> sublist ''WHEN'' (upper_string tag)
     \<and> trimmed line_blanks cond \<and> hd cond \<noteq> CHR '','' \<and> \<not> sublist ''THEN'' (upper_string cond)"

definition alarm_ok :: "create_alarm_stmt \<Rightarrow> bool" where
  "alarm_ok a \<longleftrightarrow> alarm_parts_ok (ca_alarm a) (ca_tag a) (ca_condition a) \<and> [] \<notin> set (ca_actions a)"

lemma upper_words:
  "upper_string ''ON'' = ''ON''" "upper_string ''WHEN'' = ''WHEN''" "upper_string ''THEN'' = ''THEN''"
  "upper_string ''ACTION'' = ''ACTION''" "upper_string ''CREATE ALARM'' = ''CREATE ALARM''"
  by (simp_all add: upper_string_def to_upper_def is_lower_def)

text \<open>A word between spaces: the gap before it and the word itself are passed.\<close>

lemma skip_to_word:
  assumes "length pre = n" "bare_word w"
  shows "skip_whitespace (pre @ CHR '' '' # w @ rest) n = n + 1"
    "until_space (pre @ w @ CHR '' '' # rest) n = n + length w"
proof -
  have "\<not> is_gap (hd w)" "w \<noteq> []" using assms(2) by (cases w; simp add: bare_word_def)+
  then show "skip_whitespace (pre @ CHR '' '' # w @ rest) n = n + 1"
    using skip_whitespace_over [of "'' ''" "w @ rest" pre] assms(1) by (simp add: is_gap_def)
  have "list_all (\<lambda>c. c \<noteq> CHR '' '') w" using assms(2) by (auto simp: bare_word_def list_all_iff is_gap_def)
  then show "until_space (pre @ w @ CHR '' '' # rest) n = n + length w"
    using skip_while_over [of "\<lambda>c. c \<noteq> CHR '' ''" w "CHR '' '' # rest" pre] assms(1) by (simp add: until_space_def)
qed

lemma substr_mid: "length pre = n \<Longrightarrow> length w = l \<Longrightarrow> substr (pre @ w @ rest) n l = w"
  by (auto simp: substr_def)

lemma parse_create_alarm_head:
  assumes "alarm_parts_ok name tag cond"
  shows "parse_create_alarm (alarm_head name tag cond @ rest)
    = Option.bind (alarm_actions (alarm_head name tag cond @ rest) (length (alarm_head name tag cond))) (\<lambda>actions.
        Some (Inr (CreateAlarmStmt \<lparr>ca_alarm = name, ca_tag = tag, ca_condition = cond, ca_actions = actions\<rparr>)))"
proof -
  let ?sql = "alarm_head name tag cond @ rest"
  have ok: "bare_word name" "bare_word tag" "\<not> sublist ''WHEN'' (upper_string tag)" "trimmed line_blanks cond"
    "hd cond \<noteq> CHR '',''" "\<not> sublist ''THEN'' (upper_string cond)"
    using assms by (simp_all add: alarm_parts_ok_def)
  define n where "n = 13 + length name"
  define m where "m = n + 4 + length tag"
  define k where "k = m + 6 + length cond"
  have create: "find_keyword ?sql ''CREATE ALARM'' 0 = Some 0"
    by (rule find_keyword_here) (simp_all add: alarm_head_def upper_string_def)
  have start: "skip_whitespace ?sql 12 = 13"
    using skip_to_word(1) [of "''CREATE ALARM''" 12 name "'' ON '' @ tag @ '' WHEN '' @ cond @ '' THEN ACTION('' @ rest"] ok(1)
    by (simp add: alarm_head_def eval_nat_numeral)
  have name_end: "until_space ?sql 13 = n"
    using skip_to_word(2) [of "''CREATE ALARM ''" 13 name "''ON '' @ tag @ '' WHEN '' @ cond @ '' THEN ACTION('' @ rest"] ok(1)
    by (simp add: alarm_head_def n_def eval_nat_numeral)
  have on_start: "skip_whitespace ?sql n = n + 1"
    using skip_to_word(1) [of "''CREATE ALARM '' @ name" n "''ON''" "'' '' @ tag @ '' WHEN '' @ cond @ '' THEN ACTION('' @ rest"]
    by (simp add: alarm_head_def n_def bare_word_def is_gap_def eval_nat_numeral)
  have on: "find_keyword ?sql ''ON'' (n + 1) = Some (n + 1)"
    using find_keyword_at [of "''CREATE ALARM '' @ name @ '' ''" "n + 1" "''ON''" "'' '' @ tag @ '' WHEN '' @ cond @ '' THEN ACTION('' @ rest"]
    by (simp add: alarm_head_def n_def eval_nat_numeral)
  have tag_start: "skip_whitespace ?sql (n + 3) = n + 4"
    using skip_to_word(1) [of "''CREATE ALARM '' @ name @ '' ON''" "n + 3" tag "'' WHEN '' @ cond @ '' THEN ACTION('' @ rest"] ok(2)
    by (simp add: alarm_head_def n_def eval_nat_numeral)
  have tag_end: "until_space ?sql (n + 4) = m"
    using skip_to_word(2) [of "''CREATE ALARM '' @ name @ '' ON ''" "n + 4" tag "''WHEN '' @ cond @ '' THEN ACTION('' @ rest"] ok(2)
    by (simp add: alarm_head_def n_def m_def eval_nat_numeral)
  have "when": "find_keyword ?sql ''WHEN'' (n + 4) = Some (m + 1)"
    using find_keyword_after_space [of "''WHEN''" tag "''CREATE ALARM '' @ name @ '' ON ''" "n + 4" "'' '' @ cond @ '' THEN ACTION('' @ rest"] ok(3)
    by (simp add: alarm_head_def n_def m_def upper_words eval_nat_numeral)
  have c: "cond \<noteq> []" "\<not> is_gap (hd cond)" using ok(4,5) by (auto simp: trimmed_def is_gap_def line_blanks_def)
  have cond_start: "skip_whitespace ?sql (m + 5) = m + 6"
    using skip_whitespace_over [of "'' ''" "cond @ '' THEN ACTION('' @ rest" "''CREATE ALARM '' @ name @ '' ON '' @ tag @ '' WHEN''"] c
    by (simp add: alarm_head_def n_def m_def is_gap_def eval_nat_numeral)
  have "then": "find_keyword ?sql ''THEN'' (m + 6) = Some (k + 1)"
    using find_keyword_after_space [of "''THEN''" cond "''CREATE ALARM '' @ name @ '' ON '' @ tag @ '' WHEN ''" "m + 6" "'' ACTION('' @ rest"] ok(6)
    by (simp add: alarm_head_def n_def m_def k_def upper_words eval_nat_numeral)
  have "\<not> sublist ''ACTION'' ''THEN''" using sublist_length_le [of "''ACTION''" "''THEN''"] by auto
  then have action: "find_keyword ?sql ''ACTION'' (k + 1) = Some (k + 6)"
    using find_keyword_after_space [of "''ACTION''" "''THEN''" "''CREATE ALARM '' @ name @ '' ON '' @ tag @ '' WHEN '' @ cond @ '' ''" "k + 1" "''('' @ rest"]
    by (simp add: alarm_head_def n_def m_def k_def upper_words eval_nat_numeral)
  have open_paren: "find_from ''('' ?sql (k + 6) = Some (k + 12)"
  proof -
    define pre where "pre = ''CREATE ALARM '' @ name @ '' ON '' @ tag @ '' WHEN '' @ cond @ '' THEN ''"
    have "?sql = pre @ ''ACTION('' @ rest" "length pre = k + 6"
      by (simp_all add: pre_def alarm_head_def n_def m_def k_def)
    then show ?thesis by (simp add: find_from_def)
  qed
  have names: "substr ?sql 13 (n - 13) = name" "substr ?sql (n + 4) (m - (n + 4)) = tag"
    "sql_trim (substr ?sql (m + 6) (k + 1 - (m + 6))) = cond"
  proof -
    show "substr ?sql 13 (n - 13) = name"
      using substr_mid [of "''CREATE ALARM ''" 13 name "n - 13"] by (simp add: alarm_head_def n_def eval_nat_numeral)
    show "substr ?sql (n + 4) (m - (n + 4)) = tag"
      using substr_mid [of "''CREATE ALARM '' @ name @ '' ON ''" "n + 4" tag "m - (n + 4)"]
      by (simp add: alarm_head_def n_def m_def eval_nat_numeral)
    have "substr ?sql (m + 6) (k + 1 - (m + 6)) = cond @ '' ''"
      using substr_mid [of "''CREATE ALARM '' @ name @ '' ON '' @ tag @ '' WHEN ''" "m + 6" "cond @ '' ''" "k + 1 - (m + 6)"]
      by (simp add: alarm_head_def n_def m_def k_def eval_nat_numeral)
    then show "sql_trim (substr ?sql (m + 6) (k + 1 - (m + 6))) = cond"
      using trim_set_blank_right [OF ok(4)] by (simp add: sql_trim_def line_blanks_def)
  qed
  have len: "length (alarm_head name tag cond) = k + 12 + 1"
    by (simp add: alarm_head_def n_def m_def k_def)
  have tag_start': "skip_whitespace ?sql (n + 1 + 2) = n + 4" using tag_start by (simp add: eval_nat_numeral)
  have cond_start': "skip_whitespace ?sql (m + 1 + 4) = m + 6" using cond_start by (simp add: eval_nat_numeral)
  have after: "after_keyword ?sql ''CREATE ALARM'' = 12" by (simp add: after_keyword_def create)
  show ?thesis
    unfolding parse_create_alarm_def parse_alarm_actions_def Let_def
    by (simp only: after start name_end on_start on tag_start' tag_end "when" cond_start' "then" action open_paren names len option.case)
qed

lemma alarm_actions_text:
  "[] \<notin> set acts \<Longrightarrow> alarm_actions (pre @ comma_list (map literal acts) @ CHR '')'' # rest) (length pre) = Some acts"
proof (induction acts arbitrary: pre)
  case Nil
  then show ?case by (subst alarm_actions.simps) (simp add: at_end_or_def)
next
  case (Cons v vs)
  note IH = Cons.IH and prems = Cons.prems
  define tail where "tail = (case vs of [] \<Rightarrow> [] | _ \<Rightarrow> '', '') @ comma_list (map literal vs) @ CHR '')'' # rest"
  have parts: "comma_list (map literal (v # vs)) @ CHR '')'' # rest = literal v @ tail"
    by (cases vs) (simp_all add: tail_def)
  have tail: "hd tail \<noteq> CHR 0x27" by (cases vs; simp add: tail_def)+
  let ?sql = "pre @ literal v @ tail"
  have start: "\<not> at_end_or (CHR '')'') ?sql (length pre)"
    using literal_hd [of v] by (simp add: at_end_or_def nth_append hd_conv_nth)
  have p: "skip_whitespace ?sql (length pre) = length pre"
    using literal_hd [of v] by (intro skip_whitespace_none) (simp add: is_gap_def)
  have v: "extract_quoted ?sql (length pre) = (v, length pre + length (literal v))"
    using extract_quoted_literal [of "CHR 0x27" tail pre v] tail by (simp add: is_quote_def literal_def)
  have nxt: "alarm_actions ?sql (skip_whitespace ?sql (length pre + length (literal v))) = Some vs"
  proof (cases vs)
    case Nil
    have "skip_whitespace ((pre @ literal v) @ tail) (length (pre @ literal v)) = length (pre @ literal v)"
      by (rule skip_whitespace_none) (simp add: tail_def Nil is_gap_def)
    moreover have "alarm_actions ?sql (length pre + length (literal v)) = Some []"
      by (subst alarm_actions.simps) (simp add: at_end_or_def tail_def Nil nth_append)
    ultimately show ?thesis by (simp add: Nil)
  next
    case (Cons d ds)
    have "skip_whitespace ((pre @ literal v) @ '', '' @ comma_list (map literal vs) @ CHR '')'' # rest) (length (pre @ literal v))
        = length (pre @ literal v) + length '', ''"
      using literal_hd [of d] comma_list_hd [of "literal d" "map literal ds"] Cons
      by (intro skip_whitespace_over) (simp_all add: is_gap_def)
    moreover have "alarm_actions ((pre @ literal v @ '', '') @ comma_list (map literal vs) @ CHR '')'' # rest) (length (pre @ literal v @ '', ''))
        = Some vs"
      using IH [of "pre @ literal v @ '', ''"] prems by simp
    ultimately show ?thesis by (simp add: tail_def Cons)
  qed
  have "alarm_actions ?sql (length pre) = Some (v # vs)"
    using start p v nxt prems by (subst alarm_actions.simps) auto
  then show ?case by (simp only: parts)
qed

text \<open>In front of a character that is neither a quote nor a closing parenthesis the loop goes on without moving.\<close>

definition stuck :: "string \<Rightarrow> nat \<Rightarrow> bool" where
  "stuck sql pos \<longleftrightarrow> (let p = skip_whitespace sql pos in
     pos < length sql \<and> p < length sql \<and> \<not> is_quote (sql ! p) \<and> sql ! p \<noteq> CHR '')'')"

lemma stuck_stays:
  assumes "stuck sql pos"
  shows "extract_quoted sql (skip_whitespace sql pos) = ([], skip_whitespace sql pos)"
    "stuck sql (skip_whitespace sql (skip_whitespace sql pos))" "\<not> at_end_or (CHR '')'') sql pos"
proof -
  let ?p = "skip_whitespace sql pos"
  have p: "pos < length sql" "?p < length sql" "\<not> is_quote (sql ! ?p)" "sql ! ?p \<noteq> CHR '')''"
    using assms by (simp_all add: stuck_def Let_def)
  show "extract_quoted sql ?p = ([], ?p)" using p by (simp add: extract_quoted_def)
  have gap: "\<not> is_gap (sql ! ?p)" using p(2) skip_while_stops [of is_gap sql pos] by (simp add: skip_whitespace_def)
  then have "skip_whitespace sql ?p = ?p" using p(2) by (simp add: skip_whitespace_def skip_while_stays)
  then show "stuck sql (skip_whitespace sql ?p)" using p by (simp add: stuck_def)
  show "\<not> at_end_or (CHR '')'') sql pos"
  proof
    assume "at_end_or (CHR '')'') sql pos"
    then have c: "sql ! pos = CHR '')''" using p(1) by (simp add: at_end_or_def)
    then have "?p = pos" using p(1) by (simp add: skip_whitespace_def skip_while_stays is_gap_def)
    with c p(4) show False by simp
  qed
qed

lemma alarm_actions_returns:
  assumes "alarm_actions sql pos = Some r"
  shows "\<not> stuck sql pos"
proof (rule alarm_actions.raw_induct [where P = "\<lambda>sql pos r. \<not> stuck sql pos", OF _ assms])
  fix f sql pos r
  assume IH: "\<And>sql pos r. f sql pos = Some r \<Longrightarrow> \<not> stuck sql pos"
    and body: "(if at_end_or (CHR '')'') sql pos then Some []
      else case extract_quoted sql (skip_whitespace sql pos) of
        (action, p) \<Rightarrow> Option.bind (f sql (skip_whitespace sql p))
          (\<lambda>actions. Some (if action = [] then actions else action # actions))) = Some r"
  show "\<not> stuck sql pos"
  proof
    assume s: "stuck sql pos"
    from body stuck_stays(3) [OF s] stuck_stays(1) [OF s]
    have "f sql (skip_whitespace sql (skip_whitespace sql pos)) \<noteq> None" by (auto simp: bind_eq_Some_conv)
    then obtain r' where "f sql (skip_whitespace sql (skip_whitespace sql pos)) = Some r'" by blast
    from IH [OF this] stuck_stays(2) [OF s] show False by contradiction
  qed
qed

lemma alarm_actions_stuck: "stuck sql pos \<Longrightarrow> alarm_actions sql pos = None"
  using alarm_actions_returns [of sql pos] by (cases "alarm_actions sql pos") auto

lemma parse_create_alarm_text:
  assumes "alarm_ok a"
  shows "parse_create_alarm (alarm_text a) = Some (Inr (CreateAlarmStmt a))"
  using assms parse_create_alarm_head [of "ca_alarm a" "ca_tag a" "ca_condition a" "comma_list (map literal (ca_actions a)) @ '')''"]
    alarm_actions_text [of "ca_actions a" "alarm_head (ca_alarm a) (ca_tag a) (ca_condition a)" "[]"]
  by (simp add: alarm_text_def alarm_ok_def)

lemma parse_create_alarm_stuck:
  assumes "alarm_parts_ok name tag cond" "\<not> is_gap c" "\<not> is_quote c" "c \<noteq> CHR '')''"
  shows "parse_create_alarm (alarm_head name tag cond @ c # rest) = None"
proof -
  let ?h = "alarm_head name tag cond"
  have "skip_whitespace (?h @ c # rest) (length ?h) = length ?h" using assms(2) by (intro skip_whitespace_none) simp
  then have "stuck (?h @ c # rest) (length ?h)" using assms(3,4) by (simp add: stuck_def)
  from alarm_actions_stuck [OF this] parse_create_alarm_head [OF assms(1)] show ?thesis by simp
qed

section \<open>Statements\<close>

lemma sql_parse_insert:
  "hd t = CHR ''I'' \<Longrightarrow> sql_trim t = t \<Longrightarrow> starts_keyword t ''INSERT'' \<Longrightarrow> sql_parse te t = Some (parse_insert t)"
  by (cases t) (auto simp: sql_parse_def starts_keyword_def upper_string_def to_upper_def is_lower_def)

lemma sql_parse_create_alarm:
  assumes "sql_trim (''CREATE ALARM'' @ rest) = ''CREATE ALARM'' @ rest"
  shows "sql_parse te (''CREATE ALARM'' @ rest) = parse_create_alarm (''CREATE ALARM'' @ rest)"
  unfolding sql_parse_def assms by (simp add: starts_keyword_def upper_string_def to_upper_def is_lower_def)

lemma insert_text_parses:
  assumes "insert_ok s"
  shows "sql_parse te (insert_text s) = Some (parse_insert (insert_text s))"
proof (rule sql_parse_insert)
  show "hd (insert_text s) = CHR ''I''" by (simp add: insert_text_def)
  show "starts_keyword (insert_text s) ''INSERT''"
    by (simp add: insert_text_def starts_keyword_def upper_string_def to_upper_def is_lower_def)
  obtain vs rows where rows: "is_rows s = rows @ [vs]" using assms by (cases "is_rows s" rule: rev_cases) (auto simp: insert_ok_def)
  have "last (comma_list (xs @ [x])) = last x \<and> comma_list (xs @ [x]) \<noteq> []" if "x \<noteq> []" for x xs
    using that by (induction xs rule: comma_list.induct) simp_all
  then have "last (comma_list (map row_text (is_rows s))) = last (row_text vs)"
    by (simp add: rows row_text_def)
  moreover have "comma_list (map row_text (is_rows s)) \<noteq> []"
    using comma_list_hd [of "row_text (hd (is_rows s))" "map row_text (tl (is_rows s))"] by (cases "is_rows s") (simp_all add: rows row_text_def)
  ultimately have "last (insert_text s) = CHR '')''" by (simp add: insert_text_def row_text_def)
  then show "sql_trim (insert_text s) = insert_text s"
    by (intro sql_trim_text) (simp_all add: insert_text_def line_blanks_def)
qed

lemma alarm_text_trimmed:
  assumes "last (c # rest) \<notin> set line_blanks"
  shows "sql_parse te (alarm_head name tag cond @ c # rest) = parse_create_alarm (alarm_head name tag cond @ c # rest)"
proof -
  let ?t = "'' '' @ name @ '' ON '' @ tag @ '' WHEN '' @ cond @ '' THEN ACTION('' @ c # rest"
  have "sql_trim (''CREATE ALARM'' @ ?t) = ''CREATE ALARM'' @ ?t"
    using assms by (intro sql_trim_text) (auto simp: line_blanks_def)
  from sql_parse_create_alarm [OF this] show ?thesis by (simp add: alarm_head_def)
qed

section \<open>Properties\<close>

text \<open>
  C28. An INSERT statement that is written out, with its values quoted and the quotes in them doubled,
  is parsed back to the same statement: table, columns and every row.
\<close>

theorem sql_insert_reads_back: "insert_ok s \<Longrightarrow> sql_parse te (insert_text s) = Some (Inr (InsertStmt s))"
  using parse_insert_text insert_text_parses by simp

definition utc_env :: time_env where
  "utc_env = \<lparr>te_mktime = utc_mktime, te_unset = (0, 0, 0)\<rparr>"

definition demo_insert :: insert_stmt where
  "demo_insert = \<lparr>is_table = ''plant'', is_columns = [''tag'', ''value''],
     is_rows = [[''it'' @ [CHR 0x27] @ ''s'', ''1.5''], [''b'', []]]\<rparr>"

theorem sql_insert_reads_back_witness: "sql_parse utc_env (insert_text demo_insert) = Some (Inr (InsertStmt demo_insert))"
  by (rule sql_insert_reads_back)
    (simp add: insert_ok_def demo_insert_def plain_column_def trimmed_def line_blanks_def is_gap_def)

text \<open>
  A CREATE ALARM statement that is written out with its actions quoted is parsed back to the same
  alarm: name, tag, condition and actions.
\<close>

lemma sql_alarm_reads_back: "alarm_ok a \<Longrightarrow> sql_parse te (alarm_text a) = Some (Inr (CreateAlarmStmt a))"
proof -
  assume ok: "alarm_ok a"
  obtain c rest where t: "comma_list (map literal (ca_actions a)) @ '')'' = c # rest" by (cases "comma_list (map literal (ca_actions a)) @ '')''") auto
  have "last (c # rest) = CHR '')''" unfolding t [symmetric] by simp
  then have "sql_parse te (alarm_text a) = parse_create_alarm (alarm_text a)"
    using alarm_text_trimmed [of c rest] by (simp add: alarm_text_def t line_blanks_def)
  then show ?thesis using parse_create_alarm_text [OF ok] by simp
qed

definition demo_alarm :: create_alarm_stmt where
  "demo_alarm = \<lparr>ca_alarm = ''hot'', ca_tag = ''PLANT.T1'', ca_condition = ''VALUE > 80'', ca_actions = [''log'', ''mail'']\<rparr>"

lemma sql_alarm_reads_back_witness: "sql_parse utc_env (alarm_text demo_alarm) = Some (Inr (CreateAlarmStmt demo_alarm))"
  by (rule sql_alarm_reads_back)
    (simp add: alarm_ok_def alarm_parts_ok_def bare_word_def demo_alarm_def trimmed_def line_blanks_def is_gap_def
      upper_string_def to_upper_def is_lower_def sublist_Cons_right)

text \<open>
  C29. The same statement with an action that is not in quotes never returns: the loop over the actions
  does not move past the word. This holds whatever follows.
\<close>

theorem sql_unquoted_action_hangs:
  assumes "alarm_parts_ok name tag cond" "\<not> is_gap c" "\<not> is_quote c" "c \<noteq> CHR '')''" "last (c # rest) \<notin> set line_blanks"
  shows "sql_parse te (alarm_head name tag cond @ c # rest) = None"
  using alarm_text_trimmed [OF assms(5)] parse_create_alarm_stuck [OF assms(1-4)] by simp

theorem sql_unquoted_action_hangs_witness:
  "sql_parse utc_env (alarm_head ''hot'' ''T1'' ''VALUE > 80'' @ ''log)'') = None"
  using sql_unquoted_action_hangs [of "''hot''" "''T1''" "''VALUE > 80''" "CHR ''l''" "''og)''" utc_env]
  by (simp add: alarm_parts_ok_def bare_word_def trimmed_def line_blanks_def is_gap_def is_quote_def
      upper_string_def to_upper_def is_lower_def sublist_Cons_right)

text \<open>
  No SELECT has an end of its time range: since the conditions are split at every AND, the end of a
  BETWEEN is never read, and the range of the parsed statement ends at 0.
\<close>

lemma sql_select_range_ends_at_zero:
  "sql_parse te s = Some (Inr (SelectStmt st)) \<Longrightarrow> tr_end (wc_time_range (ss_where st)) = 0"
  by (rule parse_select_end [OF sql_parse_select])

definition demo_query :: string where
  "demo_query = ''SELECT v FROM p WHERE timestamp BETWEEN '' @ literal ''2024-01-01'' @ '' AND '' @ literal ''x''"

definition demo_select :: select_stmt where
  "demo_select = (case sql_parse utc_env demo_query of Some (Inr (SelectStmt st)) \<Rightarrow> st | _ \<Rightarrow> new_select)"

lemma demo_query_parses:
  "sql_parse utc_env demo_query = Some (Inr (SelectStmt demo_select))" "ss_table demo_select = ''p''"
  "tr_start (wc_time_range (ss_where demo_select)) \<noteq> 0" "\<not> ss_latest demo_select" "ss_group_by demo_select = None"
proof -
  have "case sql_parse utc_env demo_query of
      Some (Inr (SelectStmt st)) \<Rightarrow> ss_table st = ''p'' \<and> tr_start (wc_time_range (ss_where st)) \<noteq> 0
        \<and> \<not> ss_latest st \<and> ss_group_by st = None
    | _ \<Rightarrow> False"
    by code_simp
  then show "sql_parse utc_env demo_query = Some (Inr (SelectStmt demo_select))" "ss_table demo_select = ''p''"
    "tr_start (wc_time_range (ss_where demo_select)) \<noteq> 0" "\<not> ss_latest demo_select" "ss_group_by demo_select = None"
    unfolding demo_select_def by (auto split: option.splits sum.splits sql_stmt.splits)
qed

lemma sql_select_range_ends_at_zero_witness:
  "ss_table demo_select = ''p'' \<and> tr_start (wc_time_range (ss_where demo_select)) \<noteq> 0
   \<and> tr_end (wc_time_range (ss_where demo_select)) = 0"
  using sql_select_range_ends_at_zero [OF demo_query_parses(1)] demo_query_parses(2,3) by simp

text \<open>
  A date in a query is read in the wrong century: the year is reduced by 1900 and the month by 1
  although the conversion has already done so. In UTC the date \<^verbatim>\<open>y-m-d\<close> is the midnight of the day
  \<open>d\<close> of the month before, 1900 years earlier, and in milliseconds, where the engine has microseconds.
\<close>

lemma sql_date_shifted:
  "te_mktime te = utc_mktime \<Longrightarrow> y < 10000 \<Longrightarrow> 1 \<le> m \<Longrightarrow> m \<le> 12 \<Longrightarrow> 1 \<le> d \<Longrightarrow> d \<le> 31 \<Longrightarrow>
   parse_time_string te (date_text y m d) = word_of_int (86400000 * civil_days (int y - 1900) (int m - 2) (int d))"
proof -
  assume a: "te_mktime te = utc_mktime" "y < 10000" "1 \<le> m" "m \<le> 12" "1 \<le> d" "d \<le> 31"
  have e: "int m - 1 - 1 = int m - 2" by (rule diff_diff_eq [THEN trans]) simp
  show ?thesis using parse_time_date [OF a(2-6,1)] unfolding e .
qed

lemma sql_date_shifted_witness:
  "parse_time_string utc_env ''2024-01-15'' = word_of_int (86400000 * civil_days 124 (- 1) 15)"
proof -
  have "date_text 2024 1 15 = ''2024-01-15''" by code_simp
  then show ?thesis using sql_date_shifted [of utc_env 2024 1 15] by (simp add: utc_env_def)
qed

end
