(* ===== verification/Exec_Facts.thy ===== *)
theory Exec_Facts
  imports Executor Sql_Facts
begin

text \<open>
  What the executor promises and where it does not keep it: the shape of results, what an INSERT
  stores, what a SELECT can return at all, and what DELETE and DROP DATABASE remove.
\<close>

section \<open>Results\<close>

text \<open>A result is rectangular, and a failure carries no data.\<close>

definition qr_wf :: "query_result \<Rightarrow> bool" where
  "qr_wf r \<longleftrightarrow>
     (if qr_ok r then list_all (\<lambda>row. length row = length (qr_columns r)) (qr_rows r)
      else qr_columns r = [] \<and> qr_rows r = [] \<and> qr_affected r = 0)"

lemma fail_wf [simp]: "qr_wf (fail_result msg)"
  by (simp add: qr_wf_def fail_result_def)

lemma ok_wf: "list_all (\<lambda>row. length row = length cols) rows \<Longrightarrow> qr_wf (ok_result cols rows n)"
  by (simp add: qr_wf_def ok_result_def)

lemma ok_wf_map [simp]: "(\<And>a. a \<in> set xs \<Longrightarrow> length (f a) = length cols) \<Longrightarrow> qr_wf (ok_result cols (map f xs) n)"
  by (rule ok_wf) (simp add: list_all_iff)

lemma ok_wf_Nil [simp]: "qr_wf (ok_result cols [] n)"
  by (rule ok_wf) simp

lemma length_snapshot_row [simp]: "length (snapshot_row tag value ts c) = length (snapshot_columns tag value ts)"
  by (simp add: snapshot_row_def snapshot_columns_def)

lemma exec_insert_rows_wf: "exec_insert_rows xv stmt i rows n s = (Inr r, s') \<Longrightarrow> qr_wf r"
  by (induction rows arbitrary: i n s) (auto simp: tag_missing_def split: sum.splits if_splits prod.splits option.splits)

lemma exec_insert_wf: "exec_insert xv stmt s = (Inr r, s') \<Longrightarrow> qr_wf r"
  using exec_insert_rows_wf by (auto simp: exec_insert_def split: if_splits)

lemma exec_select_wf: "exec_select xv stmt s = Inr r \<Longrightarrow> qr_wf r"
  by (auto simp: exec_select_def exec_snapshot_def exec_select_latest_def exec_select_aggregate_def exec_select_raw_def
      Let_def raw_row_def ok_wf split: if_splits option.splits prod.splits)

lemma directory_rows_wf [simp]: "length c = 1 \<Longrightarrow> qr_wf (ok_result c (directory_rows d fs) n)"
  by (auto simp: directory_rows_def intro!: ok_wf split: option.split)

lemma with_alarm_wf: "(\<And>a. qr_wf (fst (f a))) \<Longrightarrow> with_alarm msg f s = (Inr r, s') \<Longrightarrow> qr_wf r"
  by (auto simp: with_alarm_def split: prod.splits option.splits) (metis fst_conv)

lemma with_auth_wf: "(\<And>a. qr_wf (fst (f a))) \<Longrightarrow> with_auth msg f s = (Inr r, s') \<Longrightarrow> qr_wf r"
  by (auto simp: with_auth_def split: prod.splits option.splits) (metis fst_conv)

lemma with_engine_wf: "(\<And>c. qr_wf (fst (f c))) \<Longrightarrow> with_engine f s = (Inr r, s') \<Longrightarrow> qr_wf r"
  by (auto simp: with_engine_def split: prod.splits option.splits) (metis fst_conv)

lemma exec_show_wf: "exec_show xv stmt s = (Inr r, s') \<Longrightarrow> qr_wf r"
  by (cases "sh_type stmt")
    (auto simp: exec_show_def Let_def ok_wf split: prod.splits option.splits if_splits
      elim!: with_alarm_wf [rotated] with_auth_wf [rotated])

lemma exec_statement_wf: "exec_statement xv stmt s = (Inr r, s') \<Longrightarrow> qr_wf r"
proof (cases stmt)
qed (auto simp: exec_statement_def exec_create_tag_def Let_def exec_alter_system_def exec_use_def exec_alter_tag_def ok_wf
      exec_drop_tag_def exec_drop_table_def exec_drop_database_def exec_delete_def exec_update_def exec_create_tags_def
      exec_create_alarm_def exec_drop_alarm_def exec_alter_alarm_def exec_create_user_def exec_drop_user_def exec_alter_user_def
      exec_create_database_def exec_create_table_def invalid_name_def
      exec_insert_wf exec_select_wf exec_show_wf split: prod.splits option.splits sum.splits if_splits
      elim!: with_alarm_wf [rotated] with_auth_wf [rotated] with_engine_wf [rotated])

section \<open>What INSERT stores\<close>

text \<open>The cells of a row by the loop over its columns, all tags being known.\<close>

definition row_cell :: "exec_env \<Rightarrow> insert_stmt \<Rightarrow> nat \<Rightarrow> string list \<Rightarrow> string + insert_cell" where
  "row_cell xv stmt i row = insert_cells (\<lambda>_. True) (zip (is_columns stmt) row)
     \<lparr>ic_tag = [], ic_point = default_point\<lparr>dp_ts := xv_clock xv i\<rparr>, ic_has_tag = False, ic_has_value = False\<rparr>"

text \<open>The points of the complete rows, with the environment of their writes.\<close>

fun insert_points :: "exec_env \<Rightarrow> insert_stmt \<Rightarrow> nat \<Rightarrow> string list list \<Rightarrow> (env \<times> string \<times> data_point) list" where
  "insert_points xv stmt i [] = []"
| "insert_points xv stmt i (row # rows) =
     (case row_cell xv stmt i row of
        Inr c \<Rightarrow> if ic_has_tag c \<and> ic_has_value c then [(xv_env xv i, ic_tag c, ic_point c)] else []
      | Inl _ \<Rightarrow> []) @ insert_points xv stmt (i + 1) rows"

fun store_all :: "(env \<times> string \<times> data_point) list \<Rightarrow> exec_state \<Rightarrow> exec_state" where
  "store_all [] s = s"
| "store_all ((env, tag, p) # ps) s = store_all ps (snd (store_point env tag p s))"

lemma insert_cells_known: "insert_cells known cells c = Inr c' \<Longrightarrow> insert_cells (\<lambda>_. True) cells c = Inr c'"
  by (induction cells arbitrary: c) (auto simp: Let_def split: if_splits)

lemma insert_cells_fails: "insert_cells known cells c = Inl tag \<Longrightarrow> \<not> known tag"
  by (induction cells arbitrary: c) (auto simp: Let_def split: if_splits)

lemma exec_insert_rows_prefix:
  assumes "exec_insert_rows xv stmt i rows n s = (Inr r, s')"
  shows "\<exists>k\<le>length rows. s' = store_all (insert_points xv stmt i (take k rows)) s
    \<and> (if qr_ok r then k = length rows \<and> r = ok_result [] [] (n + int (length (insert_points xv stmt i rows)))
       else \<exists>tag. \<not> known_tag (is_table stmt) s' tag \<and> r = tag_missing tag (is_table stmt))"
  using assms
proof (induction rows arbitrary: i n s)
  case Nil
  then show ?case by (auto simp: ok_result_def)
next
  case (Cons row rows)
  let ?cells = "insert_cells (known_tag (is_table stmt) s) (zip (is_columns stmt) row)
    \<lparr>ic_tag = [], ic_point = default_point\<lparr>dp_ts := xv_clock xv i\<rparr>, ic_has_tag = False, ic_has_value = False\<rparr>"
  show ?case
  proof (cases ?cells)
    case (Inl tag)
    with Cons.prems insert_cells_fails [OF Inl] show ?thesis
      by (intro exI [of _ 0]) (auto simp: tag_missing_def fail_result_def)
  next
    case (Inr c)
    have cell: "row_cell xv stmt i row = Inr c" using insert_cells_known [OF Inr] by (simp add: row_cell_def)
    show ?thesis
    proof (cases "ic_has_tag c \<and> ic_has_value c")
      case False
      with Cons.prems Inr have "exec_insert_rows xv stmt (i + 1) rows n s = (Inr r, s')" by auto
      from Cons.IH [OF this] obtain k where "k \<le> length rows" "s' = store_all (insert_points xv stmt (i + 1) (take k rows)) s"
        "if qr_ok r then k = length rows \<and> r = ok_result [] [] (n + int (length (insert_points xv stmt (i + 1) rows)))
         else \<exists>tag. \<not> known_tag (is_table stmt) s' tag \<and> r = tag_missing tag (is_table stmt)" by blast
      then show ?thesis using cell False by (intro exI [of _ "Suc k"]) (auto split: if_splits)
    next
      case True
      obtain s1 where s1: "store_point (xv_env xv i) (ic_tag c) (ic_point c) s = (None, s1)"
        and rest: "exec_insert_rows xv stmt (i + 1) rows (n + 1) s1 = (Inr r, s')"
        using Cons.prems Inr True by (auto split: prod.splits option.splits)
      from Cons.IH [OF rest] obtain k where "k \<le> length rows" "s' = store_all (insert_points xv stmt (i + 1) (take k rows)) s1"
        "if qr_ok r then k = length rows \<and> r = ok_result [] [] (n + 1 + int (length (insert_points xv stmt (i + 1) rows)))
         else \<exists>tag. \<not> known_tag (is_table stmt) s' tag \<and> r = tag_missing tag (is_table stmt)" by blast
      then show ?thesis using cell True s1 by (intro exI [of _ "Suc k"]) (auto simp: add.assoc split: if_splits)
    qed
  qed
qed

section \<open>What SELECT can return\<close>

lemma set_order_limit: "set (limit_points stmt (order_points stmt ps)) \<subseteq> set ps"
  using set_take_subset [of "nat (ss_limit stmt)" "order_points stmt ps"]
  by (auto simp: limit_points_def order_points_def Let_def split: if_splits)

lemma raw_select_points:
  assumes "sorts_by_time (ev_sort (xv_env xv 0))"
  obtains ps where "qr_rows (exec_select_raw xv stmt s) = map raw_row ps"
    "\<And>p. p \<in> set ps \<Longrightarrow> contains (wc_time_range (ss_where stmt)) (dp_ts p)"
proof (cases "xe_engine (fst s)")
  case None
  then show ?thesis by (intro that [of "[]"]) (simp_all add: exec_select_raw_def ok_result_def)
next
  case (Some e)
  let ?ps = "eng_read_raw (xv_env xv 0) (wc_tag_filter (ss_where stmt)) (wc_time_range (ss_where stmt)) (e, snd s)"
  show ?thesis
  proof (rule that [of "limit_points stmt (order_points stmt ?ps)"])
    show "qr_rows (exec_select_raw xv stmt s) = map raw_row (limit_points stmt (order_points stmt ?ps))"
      by (simp add: exec_select_raw_def Some ok_result_def)
    fix p assume "p \<in> set (limit_points stmt (order_points stmt ?ps))"
    then have "p \<in> set ?ps" using set_order_limit by blast
    then show "contains (wc_time_range (ss_where stmt)) (dp_ts p)"
      using eng_read_raw_sorted [OF assms, of "wc_tag_filter (ss_where stmt)" "wc_time_range (ss_where stmt)" "(e, snd s)"]
        read_candidates_range by blast
  qed
qed

section \<open>Removing\<close>

text \<open>The directories of tables are apart from those of the points.\<close>

lemma split_table_path:
  "sc_hot_path cfg \<noteq> [] \<Longrightarrow> split_path (eng_table_path cfg db tab) = split_path (sc_hot_path cfg) @ comps db @ ''tables'' # comps tab"
  using split_path_comps [of "sc_hot_path cfg" "db @ ''/tables/'' @ tab"] comps_append [of db "''tables/'' @ tab"]
    comps_append [of "''tables''" tab] comps_plain [of "''tables''"]
  by (simp add: eng_table_path_def plain_component_def)

lemma split_tag_path:
  "sc_hot_path cfg \<noteq> [] \<Longrightarrow> split_path (eng_tag_path cfg db tab tag) = split_path (eng_table_path cfg db tab) @ ''tags'' # comps tag"
  using split_path_comps [of "eng_table_path cfg db tab" "''tags/'' @ tag"] comps_append [of "''tags''" tag] comps_plain [of "''tags''"]
  by (simp add: eng_tag_path_def plain_component_def eng_table_path_def)

lemma split_tag_dir: "sc_hot_path cfg \<noteq> [] \<Longrightarrow> split_path (tag_dir cfg key) = split_path (sc_hot_path cfg) @ ''tags'' # comps key"
  using split_path_comps [of "sc_hot_path cfg" "''tags/'' @ key"] comps_append [of "''tags''" key] comps_plain [of "''tags''"]
  by (simp add: tag_dir_def plain_component_def)

definition data_database :: "string \<Rightarrow> bool" where
  "data_database db \<longleftrightarrow> hd (comps db @ [''tables'']) \<noteq> ''tags''"

lemma apart_from_points:
  assumes "sc_hot_path cfg \<noteq> []" "data_database db"
  shows "apart (eng_table_path cfg db tab) (tag_dir cfg key)" "apart (eng_tag_path cfg db tab tag) (tag_dir cfg key)"
proof -
  have "\<exists>c cs. comps db @ ''tables'' # comps tab = c # cs \<and> c \<noteq> ''tags''"
    using assms(2) by (cases "comps db") (auto simp: data_database_def)
  then obtain c cs where c: "comps db @ ''tables'' # comps tab = c # cs" "c \<noteq> ''tags''" by blast
  show "apart (eng_table_path cfg db tab) (tag_dir cfg key)" "apart (eng_tag_path cfg db tab tag) (tag_dir cfg key)"
    using c(2) by (auto simp: apart_def split_tag_path split_table_path split_tag_dir assms(1) c(1))
qed

lemma cold_apart_from_points:
  assumes "sc_cold_path cfg \<noteq> []" "apart (sc_cold_path cfg) (sc_hot_path cfg @ ''/tags'')"
  shows "apart (sc_cold_path cfg @ ''/'' @ m) (tag_dir cfg key)"
proof -
  have "apart (sc_cold_path cfg) ((sc_hot_path cfg @ ''/tags'') @ CHR ''/'' # key)"
    by (rule apart_below(2) [OF assms(2,1)]) simp
  from apart_below(1) [OF this assms(1), of m] show ?thesis by (simp add: tag_dir_def)
qed

definition stores_apart :: "storage_config \<Rightarrow> bool" where
  "stores_apart cfg \<longleftrightarrow> sc_hot_path cfg \<noteq> [] \<and> sc_cold_path cfg \<noteq> [] \<and> apart (sc_cold_path cfg) (sc_hot_path cfg @ ''/tags'')"

lemma drop_keeps_reads:
  assumes "stores_apart (eg_config e)" "data_database db"
  shows "eng_read_raw env key rng (snd (eng_drop_table db tab (e, fs))) = eng_read_raw env key rng (e, fs)"
    "eng_read_raw env key rng (snd (eng_drop_tag db tab tag (e, fs))) = eng_read_raw env key rng (e, fs)"
  using assms apart_from_points [of "eg_config e" db] cold_apart_from_points [of "eg_config e"]
  by (simp_all add: stores_apart_def eng_drop_table_def eng_drop_tag_def Let_def eng_read_raw_after_remove)

fun is_removal :: "sql_stmt \<Rightarrow> bool" where
  "is_removal (DeleteStmt _) \<longleftrightarrow> True"
| "is_removal (DropTagStmt _ _) \<longleftrightarrow> True"
| "is_removal (DropTableStmt _) \<longleftrightarrow> True"
| "is_removal _ \<longleftrightarrow> False"

lemma exec_permitted_keeps:
  "exec_permitted xv stmt x = (ok, x') \<Longrightarrow>
   xe_engine x' = xe_engine x \<and> xe_cache x' = xe_cache x \<and> xe_current_db x' = xe_current_db x \<and> xe_token x' = xe_token x"
  by (auto simp: exec_permitted_def split: option.splits if_splits prod.splits)

lemma eng_drop_config: "eng_drop_table db tab (e, fs) = (ok, e', fs') \<Longrightarrow> ok \<and> e' = e"
  "eng_drop_tag db tab tag (e, fs) = (ok, e', fs') \<Longrightarrow> ok \<and> e' = e"
  by (simp_all add: eng_drop_table_def eng_drop_tag_def Let_def)

lemma exec_removal_keeps:
  assumes "is_removal stmt" "xe_engine x = Some e" "stores_apart (eg_config e)" "data_database (xe_current_db x)"
    and "exec_statement xv stmt (x, fs) = (r, x', fs')"
  shows "r = Inr (ok_result [] [] 1) \<and> xe_engine x' = Some e \<and> eng_read_raw env key rng (e, fs') = eng_read_raw env key rng (e, fs)"
  using assms drop_keeps_reads [OF assms(3,4), of env key rng] eng_drop_config
  by (cases stmt)
    (auto simp: exec_statement_def exec_delete_def exec_drop_tag_def exec_drop_table_def split: prod.splits, (metis snd_conv)+)

text \<open>The empty name: the search for \<^verbatim>\<open>/tables/\<close> finds the place behind the hot path.\<close>

lemma find_tables:
  assumes "\<not> sublist ''/tables'' pre" "pre \<noteq> []" "last pre = CHR ''/''"
  shows "find_string ''/tables/'' (pre @ ''/tables/'' @ rest) = Some (length pre)"
  using assms
proof (induction pre)
  case (Cons c pre)
  have no: "\<not> prefix ''/tables/'' ((c # pre) @ ''/tables/'' @ rest)"
  proof
    assume p: "prefix ''/tables/'' ((c # pre) @ ''/tables/'' @ rest)"
    show False
    proof (cases "length ''/tables'' \<le> length (c # pre)")
      case True
      have "prefix ''/tables'' ((c # pre) @ ''/tables/'' @ rest)"
        by (rule prefix_order.trans [OF _ p]) simp
      then have "prefix ''/tables'' (c # pre)" using True prefix_length_prefix [of "''/tables''" _ "c # pre"] by (metis prefixI)
      then show False using Cons.prems(1) prefix_imp_sublist by blast
    next
      case False
      then obtain n where n: "length pre = n" "n < 6" by auto
      have nth: "((c # pre) @ ''/tables/'' @ rest) ! k = ''/tables/'' ! k" if "k < 8" for k
      proof -
        obtain zs where "(c # pre) @ ''/tables/'' @ rest = ''/tables/'' @ zs" using p by (rule prefixE)
        moreover have "(''/tables/'' @ zs) ! k = ''/tables/'' ! k" using that by (intro nth_append_left) simp
        ultimately show ?thesis by (simp only:)
      qed
      have "(c # pre) ! n = CHR ''/''" using Cons.prems(3) n(1) last_conv_nth [of "c # pre"] by (simp del: last.simps)
      moreover have "((c # pre) @ ''/tables/'' @ rest) ! n = (c # pre) ! n" using n(1) by (intro nth_append_left) simp
      moreover have "((c # pre) @ ''/tables/'' @ rest) ! n = ''/tables/'' ! n" using n(2) by (intro nth) simp
      ultimately have "''/tables/'' ! n = CHR ''/''" by metis
      then have "n = 0" using n(2) by (auto simp: nth_Cons' split: if_splits)
      then have "((c # pre) @ ''/tables/'' @ rest) ! 1 = CHR ''/''" using n(1) by (simp add: nth_append)
      with nth [of 1] show False by simp
    qed
  qed
  show ?case
  proof (cases "pre = []")
    case True
    with no show ?thesis by simp
  next
    case False
    have "\<not> sublist ''/tables'' pre" using Cons.prems(1) by (simp add: sublist_Cons_right)
    with Cons.IH False Cons.prems(3) no show ?thesis by simp
  qed
qed simp

lemma database_dir_empty:
  assumes "\<not> sublist ''/tables'' (sc_hot_path cfg @ ''/'')"
  shows "database_dir cfg [] = sc_hot_path cfg @ ''/''"
  using find_tables [OF assms, of "''/tags/''"] by (simp add: database_dir_def eng_tag_path_def eng_table_path_def)

lemma exists_after_remove:
  "\<not> prefix (split_path gone) (split_path d) \<Longrightarrow> fs_exists d (remove_existing gone fs) = fs_exists d fs"
  by (simp add: remove_existing_def remove_all_def Let_def fs_exists_def path_exists_def map_of_without_subtree)

definition emptied :: "string \<Rightarrow> fsys \<Rightarrow> bool" where
  "emptied d fs \<longleftrightarrow> list_all (\<lambda>(q, _). \<not> prefix (split_path d) q) (fs_tree fs)"

lemma remove_all_empties: "fs_exists d fs \<Longrightarrow> emptied d (snd (remove_all d fs))"
  by (auto simp: remove_all_def Let_def fs_exists_def emptied_def list_all_iff)

lemma emptied_reads:
  assumes "emptied (sc_hot_path (eg_config e)) fs" "sc_hot_path (eg_config e) \<noteq> []"
  shows "length (eng_read_raw env tag rng (e, fs)) \<le> 1"
proof -
  let ?d = "tag_dir (eg_config e) tag"
  have p: "prefix (split_path (sc_hot_path (eg_config e))) (split_path ?d)" using split_tag_dir [OF assms(2)] by simp
  have "\<not> is_root (split_path ?d)"
    using split_tag_dir [OF assms(2), of tag] by (auto simp: is_root_def append_eq_Cons_conv)
  moreover have "map_of (fs_tree fs) (split_path ?d) = None"
    using assms(1) p by (auto simp: emptied_def list_all_iff map_of_eq_None_iff)
  ultimately have "\<not> fs_exists ?d fs" by (simp add: fs_exists_def path_exists_def)
  then show ?thesis by (simp add: eng_read_raw_def Let_def split: option.split)
qed

lemma drop_database_empties:
  assumes "sc_hot_path (eg_config e) \<noteq> []" "\<not> sublist ''/tables'' (sc_hot_path (eg_config e) @ ''/'')"
    and "fs_exists (sc_hot_path (eg_config e)) fs" "apart (sc_cold_path (eg_config e)) (sc_hot_path (eg_config e))"
    and "sc_cold_path (eg_config e) \<noteq> []" "xe_engine x = Some e"
  shows "\<exists>fs'. exec_drop_database [] (x, fs) = (Inr (ok_result [] [] 1), x, fs') \<and> emptied (sc_hot_path (eg_config e)) fs'"
proof -
  let ?cfg = "eg_config e" let ?h = "sc_hot_path ?cfg" and ?db = "xe_current_db x"
  have root: "split_path (?h @ ''/'') = split_path ?h"
    using split_path_comps [OF assms(1), of "[]"] by (simp add: comps_def)
  have dir: "database_dir ?cfg [] = ?h @ ''/''" by (rule database_dir_empty [OF assms(2)])
  obtain fs1 where d: "eng_drop_table ?db [] (e, fs) = (True, e, fs1)"
      "fs1 = remove_existing (sc_cold_path ?cfg @ ''/'' @ ?db @ ''/tables/'') (remove_existing (eng_table_path ?cfg ?db []) fs)"
    by (simp add: eng_drop_table_def Let_def)
  have "\<not> prefix (split_path (sc_cold_path ?cfg @ ''/'' @ ?db @ ''/tables/'')) (split_path ?h)"
    using split_path_comps [OF assms(5), of "?db @ ''/tables/''"] assms(4) by (auto simp: apart_def dest: append_prefixD)
  moreover have "\<not> prefix (split_path (eng_table_path ?cfg ?db [])) (split_path ?h)"
    by (simp add: split_table_path [OF assms(1)])
  ultimately have "fs_exists ?h fs1" using assms(3) unfolding d(2) by (simp add: exists_after_remove)
  then have "fs_exists (?h @ ''/'') fs1" by (simp add: fs_exists_def root)
  from remove_all_empties [OF this] have "emptied ?h (snd (remove_all (?h @ ''/'') fs1))" by (simp add: emptied_def root)
  moreover have "exec_drop_database [] (x, fs) = (Inr (ok_result [] [] 1), x, snd (remove_all (?h @ ''/'') fs1))"
    using assms(6) by (simp add: exec_drop_database_def d(1) dir)
  ultimately show ?thesis by blast
qed

lemma drop_database_text: "sql_parse te ''DROP DATABASE'' = Some (Inr (DropDatabaseStmt []))"
proof -
  have "sql_trim ''DROP DATABASE'' = ''DROP DATABASE''" "parse_drop_database ''DROP DATABASE'' = Inr (DropDatabaseStmt [])"
    by code_simp+
  then show ?thesis unfolding sql_parse_def
    by (simp add: starts_keyword_def upper_string_def to_upper_def is_lower_def)
qed

section \<open>Properties\<close>

definition demo_xv :: exec_env where
  "demo_xv = \<lparr>xv_env = (\<lambda>_. demo_env), xv_clock = (\<lambda>_. 1000), xv_check_time = 0, xv_auth_time = 0,
     xv_login_draws = (1, 2, 3, 4), xv_draws = (5, 6, 7, 8), xv_junk = [], xv_time = utc_env\<rparr>"

definition demo_executor :: executor where
  "demo_executor = executor_new (Some (eng_new demo_config)) (Some []) None"

text \<open>
  C30. Whatever statement is executed in whatever state: a result that succeeds has as many cells in
  every row as it has columns, and a result that fails has no columns, no rows and no affected rows.
\<close>

theorem exec_results_rectangular:
  assumes "execute xv stmt s = (Inr r, s')"
  shows "if qr_ok r then list_all (\<lambda>row. length row = length (qr_columns r)) (qr_rows r)
    else qr_columns r = [] \<and> qr_rows r = [] \<and> qr_affected r = 0"
proof -
  have "qr_wf r" using assms exec_statement_wf by (auto simp: execute_def split: prod.splits if_splits)
  then show ?thesis by (simp add: qr_wf_def)
qed

theorem exec_results_rectangular_witness:
  "list_all (\<lambda>row. length row = length [''message'']) [[''OK'']]"
proof -
  have "execute demo_xv (UseStmt ''d'') (demo_executor, demo_fs)
      = (Inr (ok_result [''message''] [[''OK'']] 1), set_current_db ''d'' demo_executor, demo_fs)"
    by (simp add: execute_def exec_permitted_def exec_statement_def exec_use_def demo_executor_def executor_new_def)
  from exec_results_rectangular [OF this] show ?thesis by (simp add: ok_result_def)
qed


definition demo_rows :: insert_stmt where
  "demo_rows = \<lparr>is_table = ''p'', is_columns = [''tag'', ''value'', ''TS''], is_rows = [[''a'', ''x'', ''7''], [''b'']]\<rparr>"


text \<open>
  C32. Whatever a SELECT from the text of a query reads from the storage engine, it shows only points at
  or before time 0: the end of every range is 0. A query without a time range shows at most the point
  at time 0 exactly.
\<close>

theorem exec_select_shows_nothing_later:
  assumes "execute_sql xv sql s = Some (Inr r, s')" "sql_parse (xv_time xv) sql = Some (Inr (SelectStmt st))"
    and "upper_string (ss_table st) \<noteq> ''SNAPSHOT''" "\<not> ss_latest st" "ss_group_by st = None"
    and "sorts_by_time (ev_sort (xv_env xv 0))"
  shows "\<exists>ps. qr_rows r = map raw_row ps \<and> list_all (\<lambda>p. sint (dp_ts p) \<le> 0) ps"
proof -
  from assms(1,2) consider "qr_rows r = []" | x where "r = exec_select_raw xv st (x, snd s)"
    by (auto simp: execute_sql_def execute_def exec_statement_def exec_select_def assms(3-5) fail_result_def
        split: prod.splits if_splits)
  then show ?thesis
  proof cases
    case 1
    then show ?thesis by (intro exI [of _ "[]"]) simp
  next
    case 2
    obtain ps where ps: "qr_rows r = map raw_row ps" "\<And>p. p \<in> set ps \<Longrightarrow> contains (wc_time_range (ss_where st)) (dp_ts p)"
      unfolding 2 by (rule raw_select_points [OF assms(6)]) blast
    have "sint (dp_ts p) \<le> 0" if "p \<in> set ps" for p
      using ps(2) [OF that] parse_select_end [OF sql_parse_select [OF assms(2)]] by (simp add: contains_def)
    with ps(1) show ?thesis by (auto simp: list_all_iff)
  qed
qed

theorem exec_select_shows_nothing_later_witness:
  "\<exists>r ps. execute_sql demo_xv demo_query (demo_executor, demo_fs) = Some (Inr r, demo_executor, demo_fs)
    \<and> qr_rows r = map raw_row ps \<and> list_all (\<lambda>p. sint (dp_ts p) \<le> 0) ps"
proof -
  have t: "upper_string (ss_table demo_select) \<noteq> ''SNAPSHOT''"
    by (simp add: demo_query_parses upper_string_def to_upper_def is_lower_def)
  have p: "sql_parse (xv_time demo_xv) demo_query = Some (Inr (SelectStmt demo_select))"
    by (simp add: demo_query_parses demo_xv_def)
  have e: "execute_sql demo_xv demo_query (demo_executor, demo_fs)
      = Some (Inr (exec_select_raw demo_xv demo_select (demo_executor, demo_fs)), demo_executor, demo_fs)"
    using t by (simp add: execute_sql_def p execute_def exec_permitted_def demo_executor_def executor_new_def
        exec_statement_def exec_select_def demo_query_parses)
  have "sorts_by_time (ev_sort (xv_env demo_xv 0))" by (simp add: sorts_by_time_def demo_xv_def demo_env_def)
  from exec_select_shows_nothing_later [OF e p t demo_query_parses(4,5) this] e show ?thesis by blast
qed


definition demo_delete :: sql_stmt where
  "demo_delete = DeleteStmt \<lparr>ds_table = ''p'', ds_tag_filter = ''a'', ds_time_range = zero_range\<rparr>"

lemma demo_executor_engine: "xe_engine demo_executor = Some (eng_new demo_config)" "eg_config (eng_new demo_config) = demo_config"
    "sc_hot_path demo_config = ''h''" "sc_cold_path demo_config = ''c''"
  by (simp_all add: demo_executor_def executor_new_def eng_new_def demo_config_def)


text \<open>
  The text \<^verbatim>\<open>DROP DATABASE\<close> without a name, from a client without a token in its executor (as every
  client of the server is), removes the hot path itself: no file or directory is left at or below it,
  and a raw read finds at most the cached point.
\<close>

lemma exec_drop_database_wipes:
  assumes "xe_engine x = Some e" "xe_token x = []"
    and "sc_hot_path (eg_config e) \<noteq> []" "\<not> sublist ''/tables'' (sc_hot_path (eg_config e) @ ''/'')"
    and "fs_exists (sc_hot_path (eg_config e)) fs"
    and "sc_cold_path (eg_config e) \<noteq> []" "apart (sc_cold_path (eg_config e)) (sc_hot_path (eg_config e))"
  shows "\<exists>fs'. execute_sql xv ''DROP DATABASE'' (x, fs) = Some (Inr (ok_result [] [] 1), x, fs')
    \<and> list_all (\<lambda>(path, _). \<not> prefix (split_path (sc_hot_path (eg_config e))) path) (fs_tree fs')
    \<and> length (eng_read_raw env tag rng (e, fs')) \<le> 1"
proof -
  obtain fs' where fs': "exec_drop_database [] (x, fs) = (Inr (ok_result [] [] 1), x, fs')"
      "emptied (sc_hot_path (eg_config e)) fs'"
    using drop_database_empties [OF assms(3-5,7,6,1)] by blast
  then have "execute_sql xv ''DROP DATABASE'' (x, fs) = Some (Inr (ok_result [] [] 1), x, fs')"
    using assms(2) by (simp add: execute_sql_def drop_database_text execute_def exec_permitted_def exec_statement_def split: option.split)
  with fs'(2) emptied_reads [OF fs'(2) assms(3)] show ?thesis by (auto simp: emptied_def)
qed

definition demo_store_fs :: fsys where
  "demo_store_fs = demo_fs\<lparr>fs_tree := [([''h''], DirNode), ([''h'', ''tags''], DirNode), ([''h'', ''tags'', ''a''], DirNode)]\<rparr>"

lemma exec_drop_database_wipes_witness:
  "\<exists>fs'. execute_sql demo_xv ''DROP DATABASE'' (demo_executor, demo_store_fs) = Some (Inr (ok_result [] [] 1), demo_executor, fs')
    \<and> list_all (\<lambda>(path, _). \<not> prefix [''h''] path) (fs_tree fs')"
proof -
  have "xe_token demo_executor = []" by (simp add: demo_executor_def executor_new_def)
  moreover have "fs_exists ''h'' demo_store_fs" by (simp add: fs_exists_def path_exists_def demo_store_fs_def split_path_def)
  moreover have "\<not> sublist ''/tables'' ''h/''" by (simp add: sublist_Cons_right)
  moreover have "apart ''c'' ''h''" "split_path ''h'' = [''h'']" by (simp_all add: apart_def split_path_def)
  ultimately show ?thesis
    using exec_drop_database_wipes [OF demo_executor_engine(1), of demo_store_fs demo_xv demo_env "''a''" zero_range]
    by (auto simp: demo_executor_engine)
qed

end
