(* ===== verification/Server_Facts.thy ===== *)
theory Server_Facts
  imports Grpc_Server Exec_Facts
begin

text \<open>
  What the checks of the handlers are worth: a viewer can change nothing, an operator can make
  himself an administrator.
\<close>

section \<open>Texts that start with SELECT\<close>

lemma trim_set_prefix:
  assumes "prefix p s" "p \<noteq> []" "hd p \<notin> set cs" "last p \<notin> set cs"
  shows "prefix p (trim_set cs s)"
proof -
  obtain r where s: "s = p @ r" using assms(1) by (rule prefixE)
  have "dropWhile (\<lambda>c. c \<in> set cs) s = s" using assms(2,3) by (cases p) (simp_all add: s)
  moreover have "dropWhile (\<lambda>c. c \<in> set cs) (rev p) = rev p"
    using assms(2,4) by (cases p rule: rev_cases) simp_all
  then have "\<exists>xs. dropWhile (\<lambda>c. c \<in> set cs) (rev s) = xs @ rev p"
    by (cases "dropWhile (\<lambda>c. c \<in> set cs) (rev r) = []") (auto simp: s dropWhile_append)
  then obtain xs where "dropWhile (\<lambda>c. c \<in> set cs) (rev s) = xs @ rev p" by blast
  ultimately show ?thesis by (simp add: trim_set_def)
qed

lemma prefix_upper: "prefix kw s \<Longrightarrow> upper_string kw = kw \<Longrightarrow> starts_keyword s kw"
  by (auto simp: starts_keyword_def upper_string_def prefix_def)

lemma parse_select_text:
  assumes "prefix ''SELECT'' s"
  shows "sql_parse te s = Some (parse_select te (sql_trim s))"
proof -
  have p: "prefix ''SELECT'' (sql_trim s)"
    unfolding sql_trim_def using assms by (intro trim_set_prefix) (simp_all add: line_blanks_def)
  then have "starts_keyword (sql_trim s) ''SELECT''"
    by (intro prefix_upper) (simp_all add: upper_string_def to_upper_def is_lower_def)
  moreover have "sql_trim s \<noteq> []" using p by auto
  ultimately show ?thesis by (simp add: sql_parse_def)
qed

lemma parse_select_cases:
  obtains msg where "parse_select te s = Inl msg" | st where "parse_select te s = Inr (SelectStmt st)"
  by (cases "parse_select te s") (auto simp: parse_select_def Let_def split: option.splits if_splits)

section \<open>Permissions\<close>

definition stands_for :: "exec_env \<Rightarrow> string \<Rightarrow> service \<Rightarrow> user option" where
  "stands_for xv token v =
     Option.bind (sv_auth v) (\<lambda>a. fst (validate_token token (xv_check_time xv) a))"

definition unprivileged :: "exec_env \<Rightarrow> string \<Rightarrow> service \<Rightarrow> bool" where
  "unprivileged xv token v \<longleftrightarrow> sv_auth v \<noteq> None
     \<and> (case stands_for xv token v of None \<Rightarrow> True | Some u \<Rightarrow> us_role u \<noteq> ADMIN \<and> us_role u \<noteq> OPERATOR)"

text \<open>The components are as before, up to sessions that have expired.\<close>

definition unchanged :: "service \<Rightarrow> service \<Rightarrow> bool" where
  "unchanged v v' \<longleftrightarrow> sv_engine v' = sv_engine v \<and> sv_cache v' = sv_cache v
     \<and> (case (sv_auth v, sv_auth v') of (Some a, Some b) \<Rightarrow> same_users a b | (None, None) \<Rightarrow> True | _ \<Rightarrow> False)"

lemma sv_permitted_unchanged: "sv_permitted xv token operation v = (ok, v') \<Longrightarrow> unchanged v v'"
  using validate_token_same
  by (auto simp: sv_permitted_def unchanged_def check_permission_def same_users_def split: option.splits prod.splits)

lemma unprivileged_permitted:
  "unprivileged xv token v \<Longrightarrow> fst (sv_permitted xv token operation v) \<Longrightarrow> prefix ''SELECT'' operation"
  by (auto simp: unprivileged_def stands_for_def sv_permitted_def check_permission_def split: option.splits prod.splits if_splits)

lemma operator_permitted:
  assumes "stands_for xv token v = Some u" "us_role u = OPERATOR"
    and "\<not> prefix ''CREATE TAG'' op" "\<not> prefix ''CREATE USER'' op" "\<not> prefix ''ALTER SYSTEM'' op"
  shows "fst (sv_permitted xv token op v)"
  using assms
  by (auto simp: stands_for_def sv_permitted_def check_permission_def ADMIN_def OPERATOR_def split: option.splits prod.splits bind_splits)

lemma execute_without_token: "execute xv stmt (sv_executor v, fs) = exec_statement xv stmt (sv_executor v, fs)"
  by (simp add: execute_def exec_permitted_def sv_executor_def executor_new_def split: option.split)

lemma sv_after_executor [simp]: "sv_after (sv_executor v) = v"
  by (simp add: sv_after_def sv_executor_def executor_new_def)

lemma query_select_unchanged:
  assumes "prefix ''SELECT'' sql"
  shows "\<exists>r. execute_sql xv sql (sv_executor v, fs) = Some (r, sv_executor v, fs)"
proof -
  note p = parse_select_text [OF assms, of "xv_time xv"]
  show ?thesis
  proof (rule parse_select_cases [of "xv_time xv" "sql_trim sql"])
    fix msg assume "parse_select (xv_time xv) (sql_trim sql) = Inl msg"
    with p show ?thesis by (simp add: execute_sql_def)
  next
    fix st assume "parse_select (xv_time xv) (sql_trim sql) = Inr (SelectStmt st)"
    with p show ?thesis by (simp add: execute_sql_def execute_without_token exec_statement_def)
  qed
qed

section \<open>Creating users\<close>

lemma admin_session:
  assumes "auth_ok a" "map_of (au_users a) ''admin'' = Some adm" "us_active adm" "us_role adm = ADMIN"
    and "\<not> sint (now + au_token_expiry_sec a) < sint now"
    and "admin_login now r a = (token, b)"
  shows "\<exists>c. validate_token token now b = (Some adm, c) \<and> same_users a c"
proof -
  have o: "open_session ''admin'' ADMIN now r a = (token, b)" using assms(2,3,6) by (simp add: admin_login_def)
  have ab: "same_users a b" using o by (auto simp: open_session_def cleanup_expired_tokens_def same_users_def Let_def)
  obtain u c where v: "validate_token token now b = (u, c)" by fastforce
  have "u = Some adm" using validate_opened [OF assms(1) o, of now] v assms(2,5) by simp
  with v ab validate_token_same [OF v] show ?thesis by (auto simp: same_users_def)
qed

lemma exec_create_user_creates:
  assumes "auth_ok a" "map_of (au_users a) ''admin'' = Some adm" "us_active adm" "us_role adm = ADMIN"
    and "\<not> sint (xv_auth_time xv + au_token_expiry_sec a) < sint (xv_auth_time xv)"
    and "xe_auth x = Some a" "map_of (au_users a) (cu_username c) = None"
  shows "\<exists>r x' fs' b. exec_create_user xv c (x, fs) = (r, x', fs') \<and> xe_auth x' = Some b
    \<and> map_of (au_users b) (cu_username c)
      = Some (new_user (cu_username c) (cu_password c) (statement_role (cu_role c)) (xv_auth_time xv) (xv_draws xv))"
proof -
  obtain token b where l: "admin_login (xv_auth_time xv) (xv_login_draws xv) a = (token, b)" by fastforce
  from admin_session [OF assms(1-5) l] obtain c' where v: "validate_token token (xv_auth_time xv) b = (Some adm, c')" "same_users a c'"
    by blast
  then have "map_of (au_users c') (cu_username c) = None" using assms(7) by (simp add: same_users_def)
  with v assms(4,6) l show ?thesis
    by (auto simp: exec_create_user_def with_auth_def create_user_def Let_def update_conv' split: prod.split)
qed

section \<open>Properties\<close>

text \<open>
  C34. A token that stands for nobody or for a viewer changes nothing: whatever text a Query or an Admin
  request carries and whatever points an Insert request, the handler returns and leaves the engine, the
  cache, the files and the users as they are.
\<close>

theorem server_viewer_changes_nothing:
  assumes "unprivileged xv token v"
  shows "(\<exists>r v'. sv_query xv token sql (v, fs) = Some (r, v', fs) \<and> unchanged v v')
    \<and> (\<exists>r v'. sv_admin xv token sql (v, fs) = Some (r, v', fs) \<and> unchanged v v')
    \<and> (\<exists>r v'. sv_insert xv token points (v, fs) = (r, v', fs) \<and> unchanged v v')"
proof (intro conjI)
  have denied: "\<not> fst (sv_permitted xv token ''CREATE TAG'' v)" "\<not> fst (sv_permitted xv token ''INSERT'' v)"
    using unprivileged_permitted [OF assms, of "''CREATE TAG''"] unprivileged_permitted [OF assms, of "''INSERT''"] by auto
  show "\<exists>r v'. sv_admin xv token sql (v, fs) = Some (r, v', fs) \<and> unchanged v v'"
    using denied(1) sv_permitted_unchanged by (auto simp: sv_admin_def split: prod.split)
  show "\<exists>r v'. sv_insert xv token points (v, fs) = (r, v', fs) \<and> unchanged v v'"
    using denied(2) sv_permitted_unchanged by (auto simp: sv_insert_def split: prod.split)
  obtain ok v1 where p: "sv_permitted xv token sql v = (ok, v1)" by fastforce
  show "\<exists>r v'. sv_query xv token sql (v, fs) = Some (r, v', fs) \<and> unchanged v v'"
  proof (cases ok)
    case False
    with p sv_permitted_unchanged [OF p] show ?thesis by (simp add: sv_query_def)
  next
    case True
    then have "prefix ''SELECT'' sql" using unprivileged_permitted [OF assms, of sql] p by simp
    from query_select_unchanged [OF this, of xv v1 fs] True p sv_permitted_unchanged [OF p]
    show ?thesis by (auto simp: sv_query_def)
  qed
qed

text \<open>The users of the witnesses: an administrator and \<open>bob\<close>, whose session is open.\<close>

definition demo_manager :: "user_role \<Rightarrow> auth_manager" where
  "demo_manager role = \<lparr>au_data_path = [],
     au_users = [(''admin'', new_user ''admin'' ''admin123'' ADMIN 0 (5, 6, 7, 8)), (''bob'', new_user ''bob'' ''x'' role 0 (5, 6, 7, 9))],
     au_tokens = [(''t'', \<lparr>st_token = ''t'', st_username = ''bob'', st_role = role, st_expires_at = 100\<rparr>)],
     au_token_expiry_sec = 28800\<rparr>"

definition demo_service :: "user_role \<Rightarrow> service" where
  "demo_service role = \<lparr>sv_engine = Some (eng_new demo_config), sv_cache = Some [], sv_auth = Some (demo_manager role)\<rparr>"

lemma demo_stands_for: "stands_for demo_xv ''t'' (demo_service role) = Some (new_user ''bob'' ''x'' role 0 (5, 6, 7, 9))"
  by (simp add: stands_for_def demo_service_def demo_manager_def demo_xv_def validate_token_def cleanup_expired_tokens_def)

theorem server_viewer_changes_nothing_witness:
  "\<exists>r v'. sv_query demo_xv ''t'' ''DROP DATABASE'' (demo_service VIEWER, demo_fs) = Some (r, v', demo_fs)
    \<and> unchanged (demo_service VIEWER) v'"
proof -
  have "unprivileged demo_xv ''t'' (demo_service VIEWER)"
    by (simp add: unprivileged_def demo_stands_for new_user_def VIEWER_def ADMIN_def OPERATOR_def) (simp add: demo_service_def)
  from server_viewer_changes_nothing [OF this, of "''DROP DATABASE''" demo_fs] show ?thesis by blast
qed

text \<open>
  C35. An operator can create an administrator. The permission of a Query is looked up for the raw text,
  letter by letter, but the parser skips blanks and case, and the user is created on behalf of an
  administrator session that the executor opens by itself: a text that does not start with the
  forbidden words and is parsed as CREATE USER creates the user with the role it asks for.
\<close>

theorem server_operator_escalates:
  assumes "stands_for xv token v = Some u" "us_role u = OPERATOR"
    and "\<not> prefix ''CREATE TAG'' sql" "\<not> prefix ''CREATE USER'' sql" "\<not> prefix ''ALTER SYSTEM'' sql"
    and "sql_parse (xv_time xv) sql = Some (Inr (CreateUserStmt c))"
    and "sv_auth v = Some a" "auth_ok a" "map_of (au_users a) (cu_username c) = None"
    and "map_of (au_users a) ''admin'' = Some adm" "us_active adm" "us_role adm = ADMIN"
    and "\<not> sint (xv_auth_time xv + au_token_expiry_sec a) < sint (xv_auth_time xv)"
  shows "\<exists>r v' fs' b. sv_query xv token sql (v, fs) = Some (r, v', fs') \<and> sv_auth v' = Some b
    \<and> map_of (au_users b) (cu_username c)
      = Some (new_user (cu_username c) (cu_password c) (statement_role (cu_role c)) (xv_auth_time xv) (xv_draws xv))"
proof -
  obtain v1 where p: "sv_permitted xv token sql v = (True, v1)"
    using operator_permitted [OF assms(1-5)] by (metis prod.collapse)
  then obtain a1 where a1: "sv_auth v1 = Some a1" "same_users a a1" "auth_ok a1"
    using sv_permitted_unchanged [OF p] assms(7,8) validate_token_ok
    by (auto simp: unchanged_def sv_permitted_def check_permission_def split: option.splits prod.splits)
  have x: "xe_auth (sv_executor v1) = Some a1" using a1(1) by (simp add: sv_executor_def executor_new_def)
  obtain r x' fs' b where e: "exec_create_user xv c (sv_executor v1, fs) = (r, x', fs')" "xe_auth x' = Some b"
      "map_of (au_users b) (cu_username c)
        = Some (new_user (cu_username c) (cu_password c) (statement_role (cu_role c)) (xv_auth_time xv) (xv_draws xv))"
    using exec_create_user_creates [OF a1(3) _ assms(11,12) _ x, of xv c fs] a1(2) assms(9,10,13)
    by (auto simp: same_users_def)
  then show ?thesis
    using p by (simp add: sv_query_def execute_sql_def assms(6) execute_without_token exec_statement_def sv_after_def)
qed

definition demo_escalation :: string where
  "demo_escalation = '' CREATE USER eve PASSWORD '' @ literal ''pw'' @ '' ROLE admin''"

theorem server_operator_escalates_witness:
  "\<exists>r v' fs' b. sv_query demo_xv ''t'' demo_escalation (demo_service OPERATOR, demo_fs) = Some (r, v', fs')
    \<and> sv_auth v' = Some b \<and> map_option us_role (map_of (au_users b) ''eve'') = Some ADMIN"
proof -
  let ?c = "\<lparr>cu_username = ''eve'', cu_password = ''pw'', cu_role = ''admin''\<rparr>"
  have parse: "sql_parse (xv_time demo_xv) demo_escalation = Some (Inr (CreateUserStmt ?c))" by code_simp
  have role: "statement_role ''admin'' = ADMIN" by code_simp
  have "auth_ok (demo_manager OPERATOR)" by (simp add: auth_ok_def demo_manager_def new_user_def)
  moreover have "\<not> sint (xv_auth_time demo_xv + au_token_expiry_sec (demo_manager OPERATOR)) < sint (xv_auth_time demo_xv)"
    by (simp add: demo_xv_def demo_manager_def)
  moreover have "sv_auth (demo_service OPERATOR) = Some (demo_manager OPERATOR)" by (simp add: demo_service_def)
  moreover have "map_of (au_users (demo_manager OPERATOR)) ''admin'' = Some (new_user ''admin'' ''admin123'' ADMIN 0 (5, 6, 7, 8))"
    "map_of (au_users (demo_manager OPERATOR)) ''eve'' = None" by (simp_all add: demo_manager_def)
  moreover have "us_role (new_user ''bob'' ''x'' OPERATOR 0 (5, 6, 7, 9)) = OPERATOR"
    "us_role (new_user ''admin'' ''admin123'' ADMIN 0 (5, 6, 7, 8)) = ADMIN"
    "us_active (new_user ''admin'' ''admin123'' ADMIN 0 (5, 6, 7, 8))" by (simp_all add: new_user_def)
  ultimately show ?thesis
    using server_operator_escalates [OF demo_stands_for _ _ _ _ parse, of OPERATOR "demo_manager OPERATOR"
        "new_user ''admin'' ''admin123'' ADMIN 0 (5, 6, 7, 8)" demo_fs]
    by (auto simp: demo_escalation_def role new_user_def)
qed

end
