(* ===== verification/Startup.thy ===== *)
theory Startup
  imports Config Compaction Tier_Manager Log_Sink Server_Facts
begin

text \<open>
  The server program, \<^verbatim>\<open>src/src/main.cpp\<close>: arguments, configuration, logging, the construction of the
  components in the order of the code, and their end. What the threads of the server do until the
  signal arrives is the argument \<open>serve\<close>.
\<close>

section \<open>Arguments\<close>

text \<open>\<open>None\<close>: the help was printed and the program ends. A last \<^verbatim>\<open>-c\<close> is ignored.\<close>

fun main_args :: "string list \<Rightarrow> string \<Rightarrow> string option" where
  "main_args [] config_path = Some config_path"
| "main_args [arg] config_path = (if arg = ''-h'' \<or> arg = ''--help'' then None else Some config_path)"
| "main_args (arg # val # args) config_path =
     (if arg = ''-c'' \<or> arg = ''--config'' then main_args args val
      else if arg = ''-h'' \<or> arg = ''--help'' then None
      else main_args (val # args) config_path)"

section \<open>RunServer\<close>

text \<open>The clock, the random numbers and the library of the transport during the start.\<close>

record start_env =
  bv_env :: env
  bv_now :: timestamp
  bv_draws :: draws
  bv_junk :: "byte list"
  bv_built :: "string \<Rightarrow> bool"

record server_parts =
  bp_compaction :: compaction
  bp_interval :: int
  bp_tier :: tier_manager
  bp_server :: grpc_server

definition data_dir_of :: "config \<Rightarrow> string" where
  "data_dir_of cfg = config_get ''storage.data_dir'' ''./data'' cfg"

definition storage_config_of :: "config \<Rightarrow> storage_config" where
  "storage_config_of cfg =
     default_storage_config\<lparr>sc_hot_path := data_dir_of cfg @ ''/hot'', sc_cold_path := data_dir_of cfg @ ''/cold'',
       sc_archive_path := config_get ''storage.archive_path'' [] cfg,
       sc_hot_retention_days := config_get_int ''storage.hot_retention_days'' 90 cfg,
       sc_cold_retention_days := config_get_int ''storage.cold_retention_days'' 730 cfg\<rparr>"

text \<open>
  From the storage engine to the running service. The configured password of the administrator is read
  and compared, with an empty branch. When the service cannot be started, the function returns and the
  destructor of \<^verbatim>\<open>Compaction\<close>, which does not stop the thread, finds it joinable: the program is
  terminated before the engine is closed.
\<close>

datatype start_error = Engine_threw cpp_error | Engine_failed fsys | Terminated fsys

definition server_start :: "start_env \<Rightarrow> config \<Rightarrow> fsys \<Rightarrow> start_error + server_parts \<times> fsys" where
  "server_start bv cfg fs =
     (let sc = storage_config_of cfg in
      case eng_init (bv_env bv) (eng_new sc, fs) of
        Inl err \<Rightarrow> Inl (Engine_threw err)
      | Inr (ok, e, fs) \<Rightarrow>
          if \<not> ok then Inl (Engine_failed fs)
          else
            (case auth_init (bv_junk bv) (sc_hot_path sc) (auth_new (bv_now bv) (bv_draws bv)) fs of
               (_, a, fs) \<Rightarrow>
                 let admin_pw = config_get ''auth.admin_password'' ''admin123'' cfg;
                     a = (if admin_pw \<noteq> ''admin123'' then a else a);
                     c = cp_start (cp_new (sc_hot_path sc));
                     t = tm_start (tm_new (sc_hot_path sc) (sc_cold_path sc) (sc_archive_path sc)
                           (word_of_int (sc_hot_retention_days sc)) (word_of_int (sc_cold_retention_days sc)))
                 in (case gs_start (bv_built bv) (gs_new ''0.0.0.0'' (config_get_int ''server.port'' 8086 cfg)
                             \<lparr>sv_engine = Some e, sv_cache = Some [], sv_auth = Some a\<rparr>) of
                       (False, _) \<Rightarrow> Inl (Terminated fs)
                     | (True, g) \<Rightarrow>
                         Inr (\<lparr>bp_compaction = c, bp_interval = config_get_int ''storage.compact_interval_sec'' 300 cfg,
                                bp_tier = t, bp_server = g\<rparr>, fs))))"

definition server_stop :: "env \<Rightarrow> server_parts \<Rightarrow> fsys \<Rightarrow> server_parts \<times> fsys" where
  "server_stop env p fs =
     (let g = gs_stop (bp_server p); v = gs_service g;
          (e, fs) = (case sv_engine v of
              None \<Rightarrow> (None, fs) | Some e \<Rightarrow> (case eng_close env (e, fs) of (e, fs) \<Rightarrow> (Some e, fs)))
      in (p\<lparr>bp_compaction := cp_stop (bp_compaction p), bp_tier := tm_stop (bp_tier p),
            bp_server := g\<lparr>gs_service := v\<lparr>sv_engine := e\<rparr>\<rparr>\<rparr>, fs))"

definition run_server :: "start_env \<Rightarrow> env \<Rightarrow> (server_parts \<times> fsys \<Rightarrow> server_parts \<times> fsys) \<Rightarrow> config \<Rightarrow> fsys
    \<Rightarrow> start_error + server_parts \<times> fsys" where
  "run_server bv env serve cfg fs =
     (case server_start bv cfg fs of
        Inl err \<Rightarrow> Inl err
      | Inr s \<Rightarrow> (case serve s of (p, fs) \<Rightarrow> Inr (server_stop env p fs)))"

text \<open>
  The program. The sink of the log is opened before the configured directory is put into the
  environment, so it is the environment at the start that counts. A sink that cannot be opened is an
  uncaught exception.
\<close>

datatype main_result = Help fsys | Log_failed fsys | Start_failed start_error | Exited server_parts fsys

definition main_run :: "start_env \<Rightarrow> env \<Rightarrow> (server_parts \<times> fsys \<Rightarrow> server_parts \<times> fsys) \<Rightarrow> string option
    \<Rightarrow> string list \<Rightarrow> fsys \<Rightarrow> main_result" where
  "main_run bv env serve log_dir args fs =
     (case main_args args ''./minitsdb.conf'' of
        None \<Rightarrow> Help fs
      | Some path \<Rightarrow>
          let cfg = snd (config_load path Map.empty fs) in
          (case log_init log_dir fs of
             (None, fs) \<Rightarrow> Log_failed fs
           | (Some l, fs) \<Rightarrow>
               (case run_server bv env serve cfg fs of
                  Inl err \<Rightarrow> Start_failed err
                | Inr (p, fs) \<Rightarrow> Exited p fs)))"

section \<open>Recovery writes table files only\<close>

text \<open>Paths that no flush and no log writes.\<close>

definition no_store_path :: "storage_config \<Rightarrow> string \<Rightarrow> bool" where
  "no_store_path cfg path \<longleftrightarrow> split_path path \<noteq> split_path (wal_path cfg)
     \<and> (\<forall>date tag points. split_path (flush_path cfg date tag points) \<noteq> split_path path)"

lemma users_path_no_store: "no_store_path cfg (sc_hot_path cfg @ ''/meta/users.db'')"
proof -
  obtain y where y: "last (split_path (sc_hot_path cfg @ ''/meta/users.db'')) = y @ ''.db''"
    using last_split_path [of "''.db''" "sc_hot_path cfg @ ''/meta/users''"] by auto
  obtain w where w: "last (split_path (wal_path cfg)) = w @ ''.log''"
    using last_split_path [of "''.log''" "sc_hot_path cfg @ ''/wal/wal''"] by (auto simp: wal_path_def)
  have ends: "y @ ''.db'' \<noteq> w @ ''.log''" "y @ ''.db'' \<noteq> z @ ''.sst''" for z
    by (rule notI, drule arg_cong [where f = rev], simp)+
  have "split_path (flush_path cfg date tag points) \<noteq> split_path (sc_hot_path cfg @ ''/meta/users.db'')" for date tag points
  proof -
    obtain z where "last (split_path (flush_path cfg date tag points)) = z @ ''.sst''"
      using last_split_path [of "''.sst''" "tag_dir cfg tag @ ''/'' @ date @ ''_'' @ to_string (sint (dp_ts (hd points)))"]
      by (auto simp: flush_path_def)
    with y ends(2) [of z] show ?thesis by auto
  qed
  moreover have "split_path (sc_hot_path cfg @ ''/meta/users.db'') \<noteq> split_path (wal_path cfg)" using y w ends(1) by auto
  ultimately show ?thesis by (simp add: no_store_path_def)
qed

lemma flush_no_file:
  "no_store_path cfg path \<Longrightarrow> no_file fs path \<Longrightarrow> no_file (eng_flush_cb cfg date tag points fs) path"
  by (simp add: eng_flush_cb_def Let_def sst_write_blocks_no_file create_directories_no_file no_store_path_def)

lemma replay_entry_no_file:
  assumes "no_store_path cfg path" "no_file (snd s) path"
  shows "no_file (snd (eng_replay_entry (eng_flush_cb cfg date) entry s)) path"
proof -
  have "no_file (snd (fold (mt_add (Some (eng_flush_cb cfg date)) tag) ps s)) path" if "no_file (snd s) path" for tag ps s
    using that
  proof (induction ps arbitrary: s)
    case (Cons p ps)
    have "no_file (snd (mt_add (Some (eng_flush_cb cfg date)) tag p (fst s, snd s))) path"
      by (rule mt_add_holds [of "\<lambda>fs. no_file fs path"]) (use flush_no_file [OF assms(1)] Cons.prems in auto)
    with Cons.IH show ?case by simp
  qed simp
  with assms(2) show ?thesis by (simp add: eng_replay_entry_def)
qed

lemma open_no_file:
  assumes "file_open s mode fs = (f, fs')" "no_file fs path" "split_path path \<noteq> split_path s"
  shows "no_file fs' path"
proof (cases f)
  case None
  with assms(1) have "fs' = fs" by (auto simp: file_open_def Let_def split: option.splits node.splits if_splits prod.splits)
  with assms(2) show ?thesis by simp
next
  case (Some h)
  from file_open_some(3,4) [of s mode fs h fs'] assms Some show ?thesis by (simp add: no_file_def)
qed

lemma eng_init_keeps_absent:
  assumes "eng_init env (eng_new cfg, fs) = Inr (ok, e, fs')" "no_file fs path" "no_store_path cfg path"
  shows "no_file fs' path"
proof -
  let ?fs = "eng_directories cfg fs"
  have 1: "no_file ?fs path" using assms(2) by (simp add: eng_directories_def create_directories_no_file)
  obtain wok w fs1 where w: "wal_open (wal_writer_new (wal_path cfg)) ?fs = (wok, w, fs1)" by (rule prod_cases3)
  then have 2: "no_file fs1 path"
    using open_no_file [of "wal_path cfg" APPEND ?fs _ _ path] 1 assms(3)
    by (auto simp: wal_open_def wal_writer_new_def no_store_path_def split: prod.splits option.splits)
  obtain m fs2 where r: "eng_replay env cfg (mt_new (sc_memtable_size cfg), fs1) = Inr (m, fs2)"
    "fs' = snd (create_directories (sc_hot_path cfg @ ''/snapshot'') fs2)"
    using assms(1) w by (auto simp: eng_init_def Let_def eng_new_def ss_init_def split: sum.splits prod.splits)
  have "no_file (snd (fold (eng_replay_entry (eng_flush_cb cfg date)) entries s)) path" if "no_file (snd s) path" for date entries s
    using that replay_entry_no_file [OF assms(3)] by (induction entries arbitrary: s) auto
  then have "no_file fs2 path"
    using r(1) 2 by (auto simp: eng_replay_def split: if_splits sum.splits option.splits) (metis snd_conv)
  then show ?thesis using r(2) by (simp add: create_directories_no_file)
qed

section \<open>Properties\<close>

lemma start_keeps_default_admin:
  assumes "server_start bv cfg fs = Inr (p, fs')" "no_file fs (sc_hot_path (storage_config_of cfg) @ ''/meta/users.db'')"
  shows "sv_auth (gs_service (bp_server p))
    = Some ((auth_new (bv_now bv) (bv_draws bv))\<lparr>au_data_path := sc_hot_path (storage_config_of cfg)\<rparr>)"
proof -
  let ?sc = "storage_config_of cfg"
  let ?a = "(auth_new (bv_now bv) (bv_draws bv))\<lparr>au_data_path := sc_hot_path ?sc\<rparr>"
  obtain ok e fs1 where i: "eng_init (bv_env bv) (eng_new ?sc, fs) = Inr (ok, e, fs1)"
    using assms(1) by (auto simp: server_start_def Let_def split: sum.splits)
  from eng_init_keeps_absent [OF i assms(2) users_path_no_store]
  have "file_open (users_path ?a) READ fs1 = (None, fs1)"
    by (auto simp: users_path_def no_file_def file_open_def Let_def split: option.split node.split)
  then have "auth_load (bv_junk bv) ?a fs1 = (False, ?a)" by (simp add: auth_load_def)
  then show ?thesis
    using assms(1) i by (auto simp: server_start_def auth_init_def Let_def gs_start_def gs_new_def split: if_splits prod.splits)
qed

text \<open>
  C38. The configured password of the administrator has no effect: the server starts the same whatever
  \<^verbatim>\<open>auth.admin_password\<close> says, and on a data directory without a users file the service
  it starts accepts the built-in password and gives the role of an administrator.
\<close>

theorem start_ignores_admin_password:
  assumes "server_start bv cfg fs = Inr (p, fs')" "no_file fs (sc_hot_path (storage_config_of cfg) @ ''/meta/users.db'')"
    and "xv_check_time xv = xv_auth_time xv" "\<not> sint (xv_auth_time xv + 28800) < sint (xv_auth_time xv)"
  shows "server_start bv (cfg(''auth.admin_password'' \<mapsto> password)) fs = Inr (p, fs')
    \<and> hp_ok (fst (sv_authenticate xv ''admin'' ''admin123'' (gs_service (bp_server p))))
    \<and> hp_role (fst (sv_authenticate xv ''admin'' ''admin123'' (gs_service (bp_server p)))) = ''admin''"
proof -
  let ?a = "(auth_new (bv_now bv) (bv_draws bv))\<lparr>au_data_path := sc_hot_path (storage_config_of cfg)\<rparr>"
  have a: "sv_auth (gs_service (bp_server p)) = Some ?a" by (rule start_keeps_default_admin [OF assms(1,2)])
  let ?cfg = "cfg(''auth.admin_password'' \<mapsto> password)"
  have "storage_config_of ?cfg = storage_config_of cfg" "config_get_int ''server.port'' 8086 ?cfg = config_get_int ''server.port'' 8086 cfg"
    "config_get_int ''storage.compact_interval_sec'' 300 ?cfg = config_get_int ''storage.compact_interval_sec'' 300 cfg"
    by (simp_all add: storage_config_of_def data_dir_of_def config_get_def config_get_int_def)
  then have "server_start bv ?cfg fs = server_start bv cfg fs"
    by (simp only: server_start_def Let_def if_cancel)
  with assms(1) have "server_start bv ?cfg fs = Inr (p, fs')" by simp
  moreover obtain token b where l: "auth_login ''admin'' ''admin123'' (xv_auth_time xv) (xv_draws xv) ?a = (token, b)" by fastforce
  moreover have o: "open_session ''admin'' ADMIN (xv_auth_time xv) (xv_draws xv) ?a = (token, b)" "token \<noteq> []"
    using l by (auto simp: auth_login_def auth_new_def new_user_def open_session_def Let_def)
  moreover have "fst (validate_token token (xv_auth_time xv) b) = map_of (au_users ?a) ''admin''"
    using validate_opened [OF _ o(1), of "xv_auth_time xv"] auth_new_ok assms(4) by (simp add: auth_new_def auth_ok_def)
  ultimately show ?thesis
    using a assms(3) by (auto simp: sv_authenticate_def auth_new_def new_user_def response_role_def split: prod.splits)
qed

definition demo_start :: start_env where
  "demo_start = \<lparr>bv_env = demo_env, bv_now = 0, bv_draws = (5, 6, 7, 8), bv_junk = [], bv_built = (\<lambda>_. True)\<rparr>"

theorem start_ignores_admin_password_witness:
  "\<exists>p fs. server_start demo_start [''auth.admin_password'' \<mapsto> ''s3cret''] demo_fs = Inr (p, fs)
    \<and> hp_ok (fst (sv_authenticate demo_xv ''admin'' ''admin123'' (gs_service (bp_server p))))"
proof -
  let ?sc = "storage_config_of Map.empty"
  have no: "no_file demo_fs q" for q using demo_fs_wf by (simp add: no_file_def demo_fs_def)
  from eng_init_no_file [where cfg = ?sc and env = demo_env, OF no] obtain e fs1 where
    e: "eng_init demo_env (eng_new ?sc, demo_fs) = Inr (True, e, fs1)" by blast
  obtain ok a fs2 where "auth_init [] (sc_hot_path ?sc) (auth_new 0 (5, 6, 7, 8)) fs1 = (ok, a, fs2)" by (rule prod_cases3)
  with e obtain p where p: "server_start demo_start Map.empty demo_fs = Inr (p, fs2)"
    by (simp add: server_start_def demo_start_def gs_start_def Let_def)
  show ?thesis
    using start_ignores_admin_password [OF p no, of demo_xv "''s3cret''"] by (auto simp: demo_xv_def)
qed

end
