(* ===== verification/Sdk.thy ===== *)
theory Sdk
  imports Server_Facts
begin

text \<open>
  The C interface for clients, \<^verbatim>\<open>src/src/sdk/minitsdb_sdk.cpp\<close>: connections, results and their
  accessors. A stub of the generated code is a record of the four calls over a state \<open>'s\<close> of whatever
  is behind it; \<open>served\<close> is the stub whose calls reach the handlers of the service.
\<close>

section \<open>Stubs\<close>

text \<open>A call ends with a status; a query may not end.\<close>

datatype rpc_status = RPC_Ok | RPC_Failed int string

record 's stub =
  sb_auth :: "string \<Rightarrow> string \<Rightarrow> 's \<Rightarrow> rpc_status \<times> auth_response \<times> 's"
  sb_query :: "string \<Rightarrow> string \<Rightarrow> 's \<Rightarrow> (rpc_status \<times> query_response \<times> 's) option"
  sb_insert :: "string \<Rightarrow> (string \<times> timestamp \<times> f64) list \<Rightarrow> 's \<Rightarrow> rpc_status \<times> insert_response \<times> 's"
  sb_snapshot :: "string \<Rightarrow> snapshot_query \<Rightarrow> string \<Rightarrow> string \<Rightarrow> 's \<Rightarrow> rpc_status \<times> snapshot_response \<times> 's"

section \<open>Connections and results\<close>

text \<open>A connection has the stub, which is an argument here, and the token of its session.\<close>

record sdk_conn =
  cn_token :: string

record sdk_result =
  rt_ok :: bool
  rt_error :: string
  rt_columns :: "string list"
  rt_rows :: "string list list"
  rt_affected :: int

definition new_sdk_result :: sdk_result where
  "new_sdk_result = \<lparr>rt_ok = False, rt_error = [], rt_columns = [], rt_rows = [], rt_affected = 0\<rparr>"

text \<open>The host and the port select the stub. \<open>None\<close> is the null pointer.\<close>

definition sdk_connect :: "'s stub \<Rightarrow> string \<Rightarrow> string \<Rightarrow> 's \<Rightarrow> sdk_conn option \<times> 's" where
  "sdk_connect sb user password s =
     (case sb_auth sb user password s of
        (status, res, s) \<Rightarrow>
          if status \<noteq> RPC_Ok \<or> \<not> hp_ok res then (None, s) else (Some \<lparr>cn_token = hp_token res\<rparr>, s))"

definition sdk_query :: "'s stub \<Rightarrow> sdk_conn \<Rightarrow> string \<Rightarrow> 's \<Rightarrow> (sdk_result \<times> 's) option" where
  "sdk_query sb conn sql s =
     map_option
       (\<lambda>(status, pb, s).
          (case status of
             RPC_Failed code _ \<Rightarrow> new_sdk_result\<lparr>rt_error := ''gRPC error: '' @ to_string code\<rparr>
           | RPC_Ok \<Rightarrow>
               if \<not> rp_ok pb then new_sdk_result\<lparr>rt_ok := rp_ok pb, rt_error := rp_error pb\<rparr>
               else new_sdk_result\<lparr>rt_ok := rp_ok pb, rt_columns := rp_columns pb, rt_rows := rp_rows pb\<rparr>,
           s))
       (sb_query sb (cn_token conn) sql s)"

text \<open>\<^verbatim>\<open>static_cast<int>\<close> of a size and of a 64-bit count.\<close>

definition to_c_int :: "int \<Rightarrow> int" where
  "to_c_int n = sint (word_of_int n :: 32 word)"

definition sdk_result_rows :: "sdk_result \<Rightarrow> int" where
  "sdk_result_rows res = to_c_int (int (length (rt_rows res)))"

definition sdk_result_cols :: "sdk_result \<Rightarrow> int" where
  "sdk_result_cols res = to_c_int (int (length (rt_columns res)))"

definition sdk_result_col_name :: "sdk_result \<Rightarrow> int \<Rightarrow> string" where
  "sdk_result_col_name res col =
     (if col < 0 \<or> to_c_int (int (length (rt_columns res))) \<le> col then [] else rt_columns res ! nat col)"

definition sdk_result_value :: "sdk_result \<Rightarrow> int \<Rightarrow> int \<Rightarrow> string" where
  "sdk_result_value res row col =
     (if row < 0 \<or> to_c_int (int (length (rt_rows res))) \<le> row then []
      else if col < 0 \<or> to_c_int (int (length (rt_rows res ! nat row))) \<le> col then []
      else rt_rows res ! nat row ! nat col)"

definition sdk_result_error :: "sdk_result \<Rightarrow> string" where
  "sdk_result_error res = rt_error res"

definition sdk_result_affected :: "sdk_result \<Rightarrow> int" where
  "sdk_result_affected res = rt_affected res"

definition sdk_insert :: "'s stub \<Rightarrow> sdk_conn option \<Rightarrow> string option \<Rightarrow> timestamp \<Rightarrow> f64 \<Rightarrow> 's \<Rightarrow> int \<times> 's" where
  "sdk_insert sb conn tag ts v s =
     (case (conn, tag) of
        (Some conn, Some tag) \<Rightarrow>
          (case sb_insert sb (cn_token conn) [(tag, ts, v)] s of
             (status, pb, s) \<Rightarrow> if status \<noteq> RPC_Ok \<or> \<not> ip_ok pb then (- 1, s) else (to_c_int (ip_count pb), s))
      | _ \<Rightarrow> (- 1, s))"

definition sdk_snapshot_row :: "cached_snapshot \<Rightarrow> string list" where
  "sdk_snapshot_row e = [cs_tag e, f64_to_string (cs_value e), to_string (sint (cs_timestamp e))]"

definition sdk_snapshot :: "'s stub \<Rightarrow> sdk_conn \<Rightarrow> string option \<Rightarrow> string option \<Rightarrow> 's \<Rightarrow> sdk_result \<times> 's" where
  "sdk_snapshot sb conn tag pattern s =
     (let (q, t, p) = (case tag of
              Some t \<Rightarrow> (SNAP_GET, t, [])
            | None \<Rightarrow> (case pattern of Some p \<Rightarrow> (SNAP_GET_MANY, [], p) | None \<Rightarrow> (SNAP_GET_ALL, [], [])))
      in case sb_snapshot sb (cn_token conn) q t p s of
           (status, pb, s) \<Rightarrow>
             (case status of
                RPC_Failed _ msg \<Rightarrow> new_sdk_result\<lparr>rt_error := msg\<rparr>
              | RPC_Ok \<Rightarrow>
                  if \<not> np_ok pb then new_sdk_result\<lparr>rt_error := np_error pb\<rparr>
                  else new_sdk_result\<lparr>rt_ok := True, rt_columns := [''tag'', ''value'', ''ts''],
                         rt_rows := map sdk_snapshot_row (np_entries pb)\<rparr>, s))"

section \<open>The stub of the service\<close>

text \<open>An exception of a handler reaches the client as the status UNKNOWN.\<close>

definition delivered :: "'a \<Rightarrow> exec_error + 'a \<Rightarrow> rpc_status \<times> 'a" where
  "delivered none r =
     (case r of Inl _ \<Rightarrow> (RPC_Failed 2 ''Unexpected error in RPC handling'', none) | Inr x \<Rightarrow> (RPC_Ok, x))"

definition served :: "exec_env \<Rightarrow> service_state stub" where
  "served xv =
     \<lparr>sb_auth = (\<lambda>u p (v, fs). case sv_authenticate xv u p v of (r, v) \<Rightarrow> (RPC_Ok, r, v, fs)),
      sb_query = (\<lambda>token sql s.
        map_option (\<lambda>(r, s). case delivered (query_failed []) r of (st, r) \<Rightarrow> (st, r, s)) (sv_query xv token sql s)),
      sb_insert = (\<lambda>token points s. case sv_insert xv token points s of
        (r, s) \<Rightarrow> case delivered \<lparr>ip_ok = False, ip_error = [], ip_count = 0\<rparr> r of (st, r) \<Rightarrow> (st, r, s)),
      sb_snapshot = (\<lambda>token q tag pattern (v, fs). case sv_snapshot xv token q tag pattern v of
        (r, v) \<Rightarrow> case delivered (snapshot_failed []) r of (st, r) \<Rightarrow> (st, r, v, fs))\<rparr>"

section \<open>What a client sees\<close>

lemma eng_write_double:
  assumes "eg_initialized e" "dp_value p = VDouble x"
  shows "\<exists>e' fs'. eng_write env tag p (e, fs) = (Inr True, e', fs')
    \<and> eg_snapshot e' = map_option (ss_on_write tag p) (eg_snapshot e)"
proof -
  obtain r e1 fs1 where l: "eng_log env tag p (e, fs) = (r, e1, fs1)" by (rule prod_cases3)
  then have 1: "\<exists>b. r = Inr b" "eg_snapshot e1 = eg_snapshot e"
    using assms(2) by (auto simp: eng_log_def wal_append_write_def Let_def split: option.splits prod.splits if_splits)
  obtain e2 fs2 where b: "eng_buffer env tag p (e1, fs1) = (e2, fs2)" by (metis surj_pair)
  then have "eg_snapshot e2 = eg_snapshot e"
    using 1(2) by (auto simp: eng_buffer_def split: option.splits prod.splits)
  with l b 1 assms(1) show ?thesis by (auto simp: eng_write_def eng_notify_def)
qed

lemma sv_insert_one:
  assumes "sv_permitted xv token ''INSERT'' v = (True, v1)" "sv_engine v = Some e" "eg_initialized e"
    and "eg_snapshot e = Some snap" "0 < sint ts"
  shows "\<exists>e' v' fs'. sv_insert xv token [(tag, ts, x)] (v, fs) = (Inr \<lparr>ip_ok = True, ip_error = [], ip_count = 1\<rparr>, v', fs')
    \<and> sv_engine v' = Some e' \<and> eg_snapshot e' = Some (ss_on_write tag \<lparr>dp_ts = ts, dp_value = VDouble x\<rparr> snap)
    \<and> sv_auth v' = sv_auth v1"
proof -
  have v1: "sv_engine v1 = Some e" using assms(1,2) by (auto simp: sv_permitted_def split: option.splits prod.splits)
  obtain e' fs' where "eng_write (xv_env xv 0) tag \<lparr>dp_ts = ts, dp_value = VDouble x\<rparr> (e, fs) = (Inr True, e', fs')"
    "eg_snapshot e' = Some (ss_on_write tag \<lparr>dp_ts = ts, dp_value = VDouble x\<rparr> snap)"
    using eng_write_double [of e "\<lparr>dp_ts = ts, dp_value = VDouble x\<rparr>" x "xv_env xv 0" tag fs] assms(3,4) by auto
  with v1 assms(1,5) show ?thesis
    by (simp add: sv_insert_def sv_executor_def executor_new_def store_point_def request_point_def sv_after_def)
qed

lemma stands_again:
  assumes "sv_auth v' = sv_auth v1" "sv_permitted xv token op v = (ok, v1)" "sv_auth v = Some a"
    and "stands_for xv token v = Some u" "xv_check_time xv' = xv_check_time xv"
  shows "\<exists>b c. sv_auth v' = Some b \<and> validate_token token (xv_check_time xv') b = (Some u, c)"
proof -
  obtain b where b: "validate_token token (xv_check_time xv) a = (Some u, b)" "sv_auth v1 = Some b"
    using assms(2-4) by (auto simp: sv_permitted_def stands_for_def check_permission_def split: prod.splits option.splits)
  then have "fst (validate_token token (xv_check_time xv) b) = Some u"
    by (auto simp: validate_token_def Let_def cleanup_expired_tokens_def split: option.splits if_splits)
  with b assms(1,5) show ?thesis by (metis prod.collapse)
qed

section \<open>Properties\<close>

text \<open>
  C36. What a client inserts is what its next snapshot shows: over the service, an insert of one point with
  a positive time by an operator or administrator returns 1, and a snapshot of the tag with the same
  session then has exactly one row, the tag, the value with six digits and the time.
\<close>

theorem sdk_insert_then_snapshot:
  assumes "sv_auth v = Some a" "stands_for xv (cn_token conn) v = Some u" "us_role u = ADMIN \<or> us_role u = OPERATOR"
    and "sv_engine v = Some e" "eg_initialized e" "eg_snapshot e = Some snap"
    and "0 < sint ts" "xv_check_time xv' = xv_check_time xv"
  shows "\<exists>s s' res. sdk_insert (served xv) (Some conn) (Some tag) ts x (v, fs) = (1, s)
    \<and> sdk_snapshot (served xv') conn (Some tag) None s = (res, s')
    \<and> rt_ok res \<and> sdk_result_rows res = 1 \<and> sdk_result_value res 0 0 = tag
    \<and> sdk_result_value res 0 1 = f64_to_string x \<and> sdk_result_value res 0 2 = to_string (sint ts)"
proof -
  obtain ok v1 where p: "sv_permitted xv (cn_token conn) ''INSERT'' v = (ok, v1)" by fastforce
  have "ok"
    using p assms(1-3) by (auto simp: sv_permitted_def stands_for_def check_permission_def ADMIN_def OPERATOR_def
        split: prod.splits option.splits)
  with p have p: "sv_permitted xv (cn_token conn) ''INSERT'' v = (True, v1)" by simp
  from sv_insert_one [OF this assms(4-7)] obtain e' v' fs' where
    i: "sv_insert xv (cn_token conn) [(tag, ts, x)] (v, fs) = (Inr \<lparr>ip_ok = True, ip_error = [], ip_count = 1\<rparr>, v', fs')"
      "sv_engine v' = Some e'" "eg_snapshot e' = Some (ss_on_write tag \<lparr>dp_ts = ts, dp_value = VDouble x\<rparr> snap)"
      "sv_auth v' = sv_auth v1" by blast
  from stands_again [OF i(4) p assms(1,2,8)] obtain b c where
    t: "sv_auth v' = Some b" "validate_token (cn_token conn) (xv_check_time xv') b = (Some u, c)" by blast
  have "sdk_insert (served xv) (Some conn) (Some tag) ts x (v, fs) = (1, v', fs')"
    using i(1) by (simp add: sdk_insert_def served_def delivered_def to_c_int_def)
  moreover have "sv_snapshot xv' (cn_token conn) SNAP_GET tag [] v'
      = (Inr (snapshot_found [snapshot_entry tag \<lparr>dp_ts = ts, dp_value = VDouble x\<rparr>] 0), v'\<lparr>sv_auth := Some c\<rparr>)"
    using t i(2,3) by (simp add: sv_snapshot_def sv_snapshot_answer_def ss_get_def ss_on_write_def update_conv')
  ultimately show ?thesis
    by (auto simp: sdk_snapshot_def served_def delivered_def snapshot_found_def sdk_result_rows_def sdk_result_value_def
        to_c_int_def sdk_snapshot_row_def snapshot_entry_def)
qed

theorem sdk_insert_then_snapshot_witness:
  "\<exists>v fs s s' res. sv_auth v = Some (demo_manager OPERATOR)
    \<and> sdk_insert (served demo_xv) (Some \<lparr>cn_token = ''t''\<rparr>) (Some ''cpu'') 5 0x4008000000000000 (v, fs) = (1, s)
    \<and> sdk_snapshot (served demo_xv) \<lparr>cn_token = ''t''\<rparr> (Some ''cpu'') None s = (res, s') \<and> sdk_result_value res 0 0 = ''cpu''"
proof -
  obtain e fs where e: "eng_init demo_env (eng_new demo_config, demo_fs) = Inr (True, e, fs)"
    using eng_init_no_file [of demo_fs demo_config demo_env] demo_fs_wf(1) by (auto simp: no_file_def demo_fs_def)
  then obtain snap where snap: "eg_initialized e" "eg_snapshot e = Some snap"
    by (auto simp: eng_init_def Let_def split: sum.splits prod.splits)
  let ?v = "\<lparr>sv_engine = Some e, sv_cache = Some [], sv_auth = Some (demo_manager OPERATOR)\<rparr>"
  have s: "stands_for demo_xv (cn_token \<lparr>cn_token = ''t''\<rparr>) ?v = Some (new_user ''bob'' ''x'' OPERATOR 0 (5, 6, 7, 9))"
    using demo_stands_for [of OPERATOR] by (simp add: stands_for_def demo_service_def)
  have r: "us_role (new_user ''bob'' ''x'' OPERATOR 0 (5, 6, 7, 9)) = ADMIN \<or> us_role (new_user ''bob'' ''x'' OPERATOR 0 (5, 6, 7, 9)) = OPERATOR"
    by (simp add: new_user_def)
  have "sv_auth ?v = Some (demo_manager OPERATOR)" "sv_engine ?v = Some e" "0 < sint (5 :: timestamp)" by simp_all
  from sdk_insert_then_snapshot [OF this(1) s r this(2) snap this(3) refl, of "''cpu''" "0x4008000000000000" fs]
    \<open>sv_auth ?v = _\<close> show ?thesis by blast
qed

end
