(* ===== verification/Cli.thy ===== *)
theory Cli
  imports Sdk
begin

text \<open>
  The command-line client, \<^verbatim>\<open>src/src/cli/main.cpp\<close>: arguments, output formats, scripts, the
  interactive loop and the LATEST command. A printing function gives the text that it prints; a
  command gives its exit code with what it wrote to the standard output and the standard error.
\<close>

section \<open>Arguments\<close>

datatype output_format = TABLE | CSV | JSON

record cli_options =
  co_host :: string
  co_port :: int
  co_user :: string
  co_password :: string
  co_format :: output_format
  co_script_file :: string
  co_exec_sql :: string

definition default_cli_options :: cli_options where
  "default_cli_options = \<lparr>co_host = ''127.0.0.1'', co_port = 8086, co_user = ''admin'', co_password = ''admin123'',
     co_format = TABLE, co_script_file = [], co_exec_sql = []\<rparr>"

definition format_of :: "string \<Rightarrow> output_format" where
  "format_of fmt = (if fmt = ''csv'' then CSV else if fmt = ''json'' then JSON else TABLE)"

text \<open>An option with a value takes the next argument; \<open>None\<close> is an exception of \<^verbatim>\<open>stoi\<close>, which ends the program.\<close>

definition take_option :: "string \<Rightarrow> string \<Rightarrow> cli_options \<Rightarrow> cli_options option option" where
  "take_option arg val opts =
     (if arg = ''--host'' then Some (Some (opts\<lparr>co_host := val\<rparr>))
      else if arg = ''--port'' then Some (case stoi val of Inr (n, _) \<Rightarrow> Some (opts\<lparr>co_port := n\<rparr>) | Inl _ \<Rightarrow> None)
      else if arg = ''--user'' then Some (Some (opts\<lparr>co_user := val\<rparr>))
      else if arg = ''--password'' then Some (Some (opts\<lparr>co_password := val\<rparr>))
      else if arg = ''--format'' then Some (Some (opts\<lparr>co_format := format_of val\<rparr>))
      else if arg = ''-f'' then Some (Some (opts\<lparr>co_script_file := val\<rparr>))
      else if arg = ''-e'' then Some (Some (opts\<lparr>co_exec_sql := val\<rparr>))
      else None)"

datatype args_result = Args cli_options | Args_help | Args_terminated

fun parse_args :: "string list \<Rightarrow> cli_options \<Rightarrow> args_result" where
  "parse_args [] opts = Args opts"
| "parse_args [arg] opts = (if arg = ''-h'' \<or> arg = ''--help'' then Args_help else Args opts)"
| "parse_args (arg # val # args) opts =
     (case take_option arg val opts of
        Some (Some opts) \<Rightarrow> parse_args args opts
      | Some None \<Rightarrow> Args_terminated
      | None \<Rightarrow> if arg = ''-h'' \<or> arg = ''--help'' then Args_help else parse_args (val # args) opts)"

section \<open>Tables\<close>

definition pad_right :: "nat \<Rightarrow> string \<Rightarrow> string" where
  "pad_right n s = s @ replicate (n - length s) (CHR '' '')"

fun separated :: "string \<Rightarrow> string list \<Rightarrow> string" where
  "separated sep [] = []"
| "separated sep [x] = x"
| "separated sep (x # xs) = x @ sep @ separated sep xs"

text \<open>A row widens the columns that it has a value for.\<close>

fun widen :: "nat list \<Rightarrow> string list \<Rightarrow> nat list" where
  "widen (w # ws) (v # vs) = max w (length v) # widen ws vs"
| "widen ws vs = ws"

definition column_widths :: "query_response \<Rightarrow> nat list" where
  "column_widths res = foldl widen (map length (rp_columns res)) (rp_rows res)"

definition newline :: string where
  "newline = [CHR 0x0A]"

definition table_row :: "nat list \<Rightarrow> string list \<Rightarrow> string" where
  "table_row widths cells = ''| '' @ separated '' | '' (map2 pad_right widths cells) @ '' |'' @ newline"

definition table_separator :: "nat list \<Rightarrow> string" where
  "table_separator widths = ''+'' @ concat (map (\<lambda>w. replicate (w + 2) (CHR ''-'') @ ''+'') widths) @ newline"

definition print_table :: "query_response \<Rightarrow> string" where
  "print_table res =
     (if rp_columns res = [] then []
      else
        let widths = column_widths res
        in table_separator widths @ table_row widths (rp_columns res) @ table_separator widths
           @ concat (map (table_row widths) (rp_rows res)) @ table_separator widths
           @ ''('' @ to_string (int (length (rp_rows res))) @ '' rows)'' @ newline)"

section \<open>CSV and JSON\<close>

definition dquote :: char where
  "dquote = CHR 0x22"

definition escape_csv :: "string \<Rightarrow> string" where
  "escape_csv s = concat (map (\<lambda>c. if c = dquote then [dquote, dquote] else [c]) s)"

definition escape_json_char :: "char \<Rightarrow> string" where
  "escape_json_char c =
     (if c = dquote then [CHR 0x5C, dquote]
      else if c = CHR 0x5C then [CHR 0x5C, CHR 0x5C]
      else if c = CHR 0x0A then [CHR 0x5C, CHR ''n'']
      else if c = CHR 0x0D then [CHR 0x5C, CHR ''r'']
      else if c = CHR 0x09 then [CHR 0x5C, CHR ''t'']
      else [c])"

definition escape_json :: "string \<Rightarrow> string" where
  "escape_json s = concat (map escape_json_char s)"

definition csv_line :: "string list \<Rightarrow> string" where
  "csv_line cells = separated '','' (map (\<lambda>c. [dquote] @ escape_csv c @ [dquote]) cells) @ newline"

definition print_csv :: "query_response \<Rightarrow> string" where
  "print_csv res = csv_line (rp_columns res) @ concat (map csv_line (rp_rows res))"

definition json_string :: "string \<Rightarrow> string" where
  "json_string s = [dquote] @ escape_json s @ [dquote]"

text \<open>A row with more values than there are columns reads behind the columns: \<open>None\<close>.\<close>

definition json_row :: "string list \<Rightarrow> string list \<Rightarrow> string option" where
  "json_row columns values =
     (if length columns < length values then None
      else Some (''    {'' @ separated '', '' (map2 (\<lambda>c v. json_string c @ '': '' @ json_string v) columns values) @ ''}''))"

definition print_json :: "query_response \<Rightarrow> string option" where
  "print_json res =
     map_option
       (\<lambda>rows. ''{'' @ newline @ ''  '' @ json_string ''columns'' @ '': ['' @ separated '', '' (map json_string (rp_columns res))
          @ ''],'' @ newline @ ''  '' @ json_string ''rows'' @ '': ['' @ newline @ separated ('','' @ newline) rows
          @ newline @ ''  ]'' @ newline @ ''}'' @ newline)
       (those (map (json_row (rp_columns res)) (rp_rows res)))"

definition print_result :: "output_format \<Rightarrow> query_response \<Rightarrow> string option" where
  "print_result fmt res =
     (case fmt of TABLE \<Rightarrow> Some (print_table res) | CSV \<Rightarrow> Some (print_csv res) | JSON \<Rightarrow> print_json res)"

section \<open>The client\<close>

record cli_client =
  gc_token :: string
  gc_role :: string

definition cli_login :: "'s stub \<Rightarrow> string \<Rightarrow> string \<Rightarrow> cli_client \<Rightarrow> 's \<Rightarrow> bool \<times> cli_client \<times> 's" where
  "cli_login sb user pass cl s =
     (case sb_auth sb user pass s of
        (status, res, s) \<Rightarrow>
          if status = RPC_Ok \<and> hp_ok res then (True, cl\<lparr>gc_token := hp_token res, gc_role := hp_role res\<rparr>, s)
          else (False, cl, s))"

definition cli_query :: "'s stub \<Rightarrow> cli_client \<Rightarrow> string \<Rightarrow> 's \<Rightarrow> (bool \<times> query_response \<times> 's) option" where
  "cli_query sb cl sql s =
     map_option (\<lambda>(status, res, s). (status = RPC_Ok \<and> rp_ok res, res, s)) (sb_query sb (gc_token cl) sql s)"

definition cli_snapshot :: "'s stub \<Rightarrow> cli_client \<Rightarrow> snapshot_query \<Rightarrow> string \<Rightarrow> string \<Rightarrow> 's \<Rightarrow> bool \<times> snapshot_response \<times> 's" where
  "cli_snapshot sb cl q tag pattern s =
     (case sb_snapshot sb (gc_token cl) q tag pattern s of
        (status, res, s) \<Rightarrow> (status = RPC_Ok \<and> np_ok res, res, s))"

text \<open>What was printed on the standard output and on the standard error.\<close>

type_synonym printed = "string \<times> string"

definition also_printed :: "printed \<Rightarrow> printed \<Rightarrow> printed" where
  "also_printed a b = (fst a @ fst b, snd a @ snd b)"

text \<open>\<open>None\<close>: the query does not return or its result cannot be printed.\<close>

definition execute_cli :: "'s stub \<Rightarrow> cli_client \<Rightarrow> output_format \<Rightarrow> string \<Rightarrow> 's \<Rightarrow> (bool \<times> printed \<times> 's) option" where
  "execute_cli sb cl fmt sql s =
     (case cli_query sb cl sql s of
        None \<Rightarrow> None
      | Some (sent, res, s) \<Rightarrow>
          if \<not> sent then Some (False, ([], ''ERROR: Query failed'' @ newline), s)
          else if \<not> rp_ok res then Some (False, ([], ''ERROR: '' @ rp_error res @ newline), s)
          else map_option (\<lambda>out. (True, (out, []), s)) (print_result fmt res))"

section \<open>Scripts and the interactive loop\<close>

text \<open>The text up to every semicolon, and what is behind the last one.\<close>

function script_parts :: "string \<Rightarrow> string list" where
  "script_parts content =
     (if content = [] then []
      else let part = takeWhile (\<lambda>c. c \<noteq> CHR '';'') content
           in part # script_parts (drop (length part + 1) content))"
  by pat_completeness auto
termination by (relation "measure length") auto

declare script_parts.simps [simp del]

text \<open>A part without blanks around it; a blank part and one that starts with \<^verbatim>\<open>#\<close> are skipped.\<close>

definition script_statement :: "string \<Rightarrow> string option" where
  "script_statement part =
     (let start = dropWhile (\<lambda>c. c \<in> set line_blanks) part in
      if start = [] \<or> hd start = CHR ''#'' then None else Some (trim_set line_blanks part))"

fun run_script :: "'s stub \<Rightarrow> cli_client \<Rightarrow> output_format \<Rightarrow> string list \<Rightarrow> bool \<Rightarrow> 's \<Rightarrow> (bool \<times> printed \<times> 's) option" where
  "run_script sb cl fmt [] all_ok s = Some (all_ok, ([], []), s)"
| "run_script sb cl fmt (part # parts) all_ok s =
     (case script_statement part of
        None \<Rightarrow> run_script sb cl fmt parts all_ok s
      | Some stmt \<Rightarrow>
          (case execute_cli sb cl fmt stmt s of
             None \<Rightarrow> None
           | Some (ok, pr, s) \<Rightarrow>
               map_option (\<lambda>(all_ok, prs, s). (all_ok, also_printed (''> '' @ stmt @ newline, []) (also_printed pr prs), s))
                 (run_script sb cl fmt parts (all_ok \<and> ok) s)))"

definition read_script :: "string \<Rightarrow> fsys \<Rightarrow> string option" where
  "read_script path fs =
     (case file_open path READ fs of
        (None, _) \<Rightarrow> None
      | (f, fs) \<Rightarrow>
          if 0 < file_size f fs then Some (bytes_string (fst (read_zeroed (nat (file_size f fs)) f fs))) else Some [])"

fun interactive :: "'s stub \<Rightarrow> cli_client \<Rightarrow> output_format \<Rightarrow> string list \<Rightarrow> 's \<Rightarrow> (printed \<times> 's) option" where
  "interactive sb cl fmt [] s = Some ((''minitsdb> '', []), s)"
| "interactive sb cl fmt (line # lines) s =
     (if line = ''quit'' \<or> line = ''exit'' then Some ((''minitsdb> '', []), s)
      else case (if line = [] then Some (([], []), s)
                 else map_option (\<lambda>(ok, pr, s). (pr, s)) (execute_cli sb cl fmt line s)) of
        None \<Rightarrow> None
      | Some (pr, s) \<Rightarrow>
          map_option (\<lambda>(prs, s). (also_printed (''minitsdb> '', []) (also_printed pr prs), s))
            (interactive sb cl fmt lines s))"

definition login_failed :: "cli_options \<Rightarrow> string" where
  "login_failed opts =
     ''ERROR: Login failed for user '' @ [CHR 0x27] @ co_user opts @ [CHR 0x27] @ ''@'' @ co_host opts @ '':''
     @ to_string (co_port opts) @ newline"

definition cli_new :: cli_client where
  "cli_new = \<lparr>gc_token = [], gc_role = []\<rparr>"

definition greeting :: "cli_options \<Rightarrow> string" where
  "greeting opts =
     ''MiniTSDB CLI ('' @ co_user opts @ ''@'' @ co_host opts @ '':'' @ to_string (co_port opts) @ '')'' @ newline
     @ ''Type SQL or '' @ [CHR 0x27] @ ''quit'' @ [CHR 0x27] @ '' to exit.'' @ newline @ newline"

definition cli_normal :: "'s stub \<Rightarrow> cli_options \<Rightarrow> string list \<Rightarrow> fsys \<Rightarrow> 's \<Rightarrow> (int \<times> printed \<times> 's) option" where
  "cli_normal sb opts input fs s =
     (case cli_login sb (co_user opts) (co_password opts) cli_new s of
        (False, _, s) \<Rightarrow> Some (1, ([], login_failed opts), s)
      | (True, cl, s) \<Rightarrow>
          if co_exec_sql opts \<noteq> [] then
            map_option (\<lambda>(ok, pr, s). (if ok then 0 else 1, pr, s)) (execute_cli sb cl (co_format opts) (co_exec_sql opts) s)
          else if co_script_file opts \<noteq> [] then
            (case read_script (co_script_file opts) fs of
               None \<Rightarrow> Some (1, ([], ''ERROR: Cannot open '' @ co_script_file opts @ newline), s)
             | Some content \<Rightarrow>
                 map_option (\<lambda>(all_ok, pr, s). (if all_ok then 0 else 1, pr, s))
                   (run_script sb cl (co_format opts) (script_parts content) True s))
          else
            map_option (\<lambda>(pr, s). (0, also_printed (greeting opts, []) pr, s)) (interactive sb cl (co_format opts) input s))"

section \<open>LATEST\<close>

record latest_options =
  lo_tag :: string
  lo_pattern :: string
  lo_all :: bool
  lo_format :: string

text \<open>The arguments behind the command; those that it does not know count as the tag, unless they start with a dash.\<close>

definition take_tag :: "string \<Rightarrow> latest_options \<Rightarrow> latest_options" where
  "take_tag arg lo = (if arg \<noteq> [] \<and> hd arg \<noteq> CHR ''-'' then lo\<lparr>lo_tag := arg\<rparr> else lo)"

fun latest_args :: "string list \<Rightarrow> latest_options \<Rightarrow> latest_options" where
  "latest_args [] lo = lo"
| "latest_args [arg] lo = (if arg = ''--all'' then lo\<lparr>lo_all := True\<rparr> else take_tag arg lo)"
| "latest_args (arg # val # args) lo =
     (if arg = ''--all'' then latest_args (val # args) (lo\<lparr>lo_all := True\<rparr>)
      else if arg = ''--pattern'' then latest_args args (lo\<lparr>lo_pattern := val\<rparr>)
      else if arg = ''--format'' then latest_args args (lo\<lparr>lo_format := val\<rparr>)
      else latest_args (val # args) (take_tag arg lo))"

definition latest_request :: "latest_options \<Rightarrow> snapshot_query \<times> string \<times> string" where
  "latest_request lo =
     (if lo_tag lo \<noteq> [] then (SNAP_GET, lo_tag lo, [])
      else if lo_pattern lo \<noteq> [] then (SNAP_GET_MANY, [], lo_pattern lo) else (SNAP_GET_ALL, [], []))"

text \<open>A stream writes a double with six significant digits, without zeros at the end.\<close>

function leading_place :: "nat \<Rightarrow> nat \<Rightarrow> int \<Rightarrow> int" where
  "leading_place m d k = (if m = 0 \<or> d \<le> m then k else leading_place (10 * m) d (k - 1))"
  by pat_completeness auto
termination by (relation "measure (\<lambda>(m, d, k). d - m)") auto

declare leading_place.simps [simp del]

definition scaled_round :: "nat \<Rightarrow> nat \<Rightarrow> int \<Rightarrow> nat" where
  "scaled_round m d k = (if 0 \<le> k then round_half_even (m * 10 ^ nat k) d else round_half_even m (d * 10 ^ nat (- k)))"

definition strip_zeros :: "string \<Rightarrow> string" where
  "strip_zeros s = rev (dropWhile (\<lambda>c. c = CHR ''0'') (rev s))"

definition with_point :: "string \<Rightarrow> string \<Rightarrow> string" where
  "with_point a b = (if b = [] then a else a @ ''.'' @ b)"

definition f64_general :: "f64 \<Rightarrow> string" where
  "f64_general a =
     (let sign = (if f64_sign a then ''-'' else []); m = f64_mag a; d = 2 ^ 1074 in
      if f64_is_nan a then sign @ ''nan''
      else if f64_is_inf a then sign @ ''inf''
      else if m = 0 then sign @ ''0''
      else
        let x = (if d \<le> m then int (length (digits 10 (m div d))) - 1 else leading_place m d 0);
            q = scaled_round m d (5 - x);
            (x, q) = (if q = 10 ^ 6 then (x + 1, 10 ^ 5) else (x, q));
            ds = digits 10 q
        in sign @
          (if x < - 4 \<or> 6 \<le> x then
             with_point (take 1 ds) (strip_zeros (drop 1 ds)) @ ''e'' @ (if x < 0 then ''-'' else ''+'')
               @ pad_left 2 (CHR ''0'') (digits 10 (nat \<bar>x\<bar>))
           else if 0 \<le> x then with_point (take (nat x + 1) ds) (strip_zeros (drop (nat x + 1) ds))
           else ''0.'' @ replicate (nat (- x) - 1) (CHR ''0'') @ strip_zeros ds))"

text \<open>\<^verbatim>\<open>%.3f\<close>.\<close>

definition f64_fixed3 :: "f64 \<Rightarrow> string" where
  "f64_fixed3 a =
     (let sign = (if f64_sign a then ''-'' else []) in
      if f64_is_nan a then sign @ ''nan''
      else if f64_is_inf a then sign @ ''inf''
      else let q = round_half_even (f64_mag a * 10 ^ 3) (2 ^ 1074)
        in sign @ digits 10 (q div 10 ^ 3) @ ''.'' @ pad_left 3 (CHR ''0'') (digits 10 (q mod 10 ^ 3)))"

definition latest_json_entry :: "cached_snapshot \<Rightarrow> string" where
  "latest_json_entry e =
     ''  {'' @ json_string ''tag'' @ '':'' @ json_string (cs_tag e) @ '','' @ json_string ''value'' @ '':''
     @ f64_general (cs_value e) @ '','' @ json_string ''ts'' @ '':'' @ to_string (sint (cs_timestamp e)) @ ''}''"

definition latest_table_entry :: "cached_snapshot \<Rightarrow> string" where
  "latest_table_entry e =
     pad_right 20 (takeWhile (\<lambda>c. c \<noteq> CHR 0x00) (cs_tag e)) @ '' '' @ pad_right 15 (f64_fixed3 (cs_value e)) @ '' ''
     @ to_string (sint (cs_timestamp e)) @ newline"

definition latest_text :: "string \<Rightarrow> cached_snapshot list \<Rightarrow> string" where
  "latest_text fmt entries =
     (if fmt = ''json'' then
        ''['' @ newline @ separated ('','' @ newline) (map latest_json_entry entries)
          @ (if entries = [] then [] else newline) @ '']'' @ newline
      else if entries = [] then ''(no matching tags found)'' @ newline
      else pad_right 20 ''TAG'' @ '' '' @ pad_right 15 ''VALUE'' @ '' TIMESTAMP'' @ newline
        @ concat (map latest_table_entry entries) @ ''('' @ to_string (int (length entries)) @ '' rows)'' @ newline)"

definition latest_usage :: string where
  "latest_usage = ''Usage: minitsdb_cli LATEST <tag> | --pattern <pattern> | --all [--format table|json]'' @ newline"

definition cli_latest :: "'s stub \<Rightarrow> cli_options \<Rightarrow> string list \<Rightarrow> 's \<Rightarrow> int \<times> printed \<times> 's" where
  "cli_latest sb opts args s =
     (case cli_login sb (co_user opts) (co_password opts) cli_new s of
        (False, _, s) \<Rightarrow> (1, ([], login_failed opts), s)
      | (True, cl, s) \<Rightarrow>
          let lo = latest_args args \<lparr>lo_tag = [], lo_pattern = [], lo_all = False, lo_format = ''table''\<rparr> in
          if lo_tag lo = [] \<and> lo_pattern lo = [] \<and> \<not> lo_all lo then (1, ([], latest_usage), s)
          else (case latest_request lo of
            (q, tag, pattern) \<Rightarrow>
              (case cli_snapshot sb cl q tag pattern s of
                 (ok, res, s) \<Rightarrow>
                   if \<not> ok then (1, ([], ''RPC failed'' @ newline), s)
                   else if \<not> np_ok res then (1, ([], ''Error: '' @ np_error res @ newline), s)
                   else (0, (latest_text (lo_format lo) (np_entries res), []), s))))"

section \<open>The program\<close>

definition cli_usage :: "string \<Rightarrow> string" where
  "cli_usage prog =
     concat (map (\<lambda>line. line @ newline)
      [''MiniTSDB CLI Client'',
       ''Usage: '' @ prog @ '' [options]'',
       ''Options:'',
       ''  --host <host>       Server host (default: 127.0.0.1)'',
       ''  --port <port>       Server port (default: 8086)'',
       ''  --user <user>       Username (default: admin)'',
       ''  --password <pass>   Password (default: admin123)'',
       ''  --format <fmt>      Output format: table|csv|json (default: table)'',
       ''  -f <file>           Execute SQL from file'',
       ''  -e <sql>            Execute SQL string'',
       ''  -h, --help          Show this help''])"

text \<open>
  \<open>connect\<close> gives the stub for a host and a port. \<open>None\<close>: the program does not come to its end, since
  a query does not return or \<^verbatim>\<open>stoi\<close> throws on the port.
\<close>

definition cli_main :: "(string \<Rightarrow> int \<Rightarrow> 's stub) \<Rightarrow> string \<Rightarrow> string list \<Rightarrow> string list \<Rightarrow> fsys \<Rightarrow> 's
    \<Rightarrow> (int \<times> printed \<times> 's) option" where
  "cli_main connect prog args input fs s =
     (case parse_args args default_cli_options of
        Args_help \<Rightarrow> Some (0, ([], cli_usage prog), s)
      | Args_terminated \<Rightarrow> None
      | Args opts \<Rightarrow>
          let sb = connect (co_host opts) (co_port opts);
              first_arg = (if args = [] then [] else upper_string (hd args))
          in if first_arg = ''LATEST'' \<or> first_arg = ''SNAPSHOT'' then Some (cli_latest sb opts (tl args) s)
             else cli_normal sb opts input fs s)"

end
