(* ===== verification/Cli_Facts.thy ===== *)
theory Cli_Facts
  imports Cli
begin

text \<open>
  What the command-line client prints and runs: its CSV is read back by a reader of RFC 4180, and which
  statements of a script file are executed.
\<close>

section \<open>Reading CSV\<close>

text \<open>A quoted cell behind its opening quote, and what is behind its closing quote.\<close>

fun csv_quoted :: "string \<Rightarrow> string \<times> string" where
  "csv_quoted [] = ([], [])"
| "csv_quoted [c] = (if c = dquote then ([], []) else ([c], []))"
| "csv_quoted (c # d # s) =
     (if c = dquote then (if d = dquote then (case csv_quoted s of (x, r) \<Rightarrow> (dquote # x, r)) else ([], d # s))
      else (case csv_quoted (d # s) of (x, r) \<Rightarrow> (c # x, r)))"

lemma csv_quoted_shorter: "length (snd (csv_quoted s)) \<le> length s"
  by (induction s rule: csv_quoted.induct) (auto split: prod.splits)

lemma csv_quoted_rest: "csv_quoted s = (x, d # r) \<Longrightarrow> length r < length s"
  using csv_quoted_shorter [of s] by simp

text \<open>Records of quoted cells; \<open>cells\<close> are those of the current record that have been read.\<close>

function csv_read :: "string list \<Rightarrow> string \<Rightarrow> string list list" where
  "csv_read cells [] = []"
| "csv_read cells (c # s) =
     (case csv_quoted s of
        (x, []) \<Rightarrow> [cells @ [x]]
      | (x, d # r) \<Rightarrow> if d = CHR '','' then csv_read (cells @ [x]) r else (cells @ [x]) # csv_read [] r)"
  by pat_completeness auto
termination by (relation "measure (\<lambda>(cells, s). length s)") (auto dest!: csv_quoted_rest [OF sym])

lemma csv_quoted_escaped:
  "d \<noteq> dquote \<Longrightarrow> csv_quoted (escape_csv s @ dquote # d # r) = (s, d # r)"
proof (induction s)
  case (Cons c s)
  show ?case
  proof (cases "escape_csv s @ dquote # d # r")
    case (Cons e t)
    with Cons.IH Cons.prems show ?thesis by (simp add: escape_csv_def)
  qed simp
qed (simp add: escape_csv_def)

lemma csv_read_cells:
  "cs \<noteq> [] \<Longrightarrow>
   csv_read cells (separated '','' (map (\<lambda>c. [dquote] @ escape_csv c @ [dquote]) cs) @ newline @ r) = (cells @ cs) # csv_read [] r"
proof (induction cs arbitrary: cells)
  case (Cons c cs)
  show ?case
  proof (cases cs)
    case Nil
    then show ?thesis
      using csv_quoted_escaped [of "CHR 0x0A" c r] by (simp add: newline_def dquote_def)
  next
    case (Cons d ds)
    then show ?thesis
      using Cons.IH [of "cells @ [c]"] csv_quoted_escaped [of "CHR '',''" c] by (simp add: dquote_def)
  qed
qed simp

lemma csv_read_lines: "list_all (\<lambda>cs. cs \<noteq> []) rows \<Longrightarrow> csv_read [] (concat (map csv_line rows)) = rows"
proof (induction rows)
  case (Cons cs rows)
  with csv_read_cells [of cs "[]"] show ?case by (simp add: csv_line_def)
qed simp

section \<open>JSON strings\<close>

text \<open>The inverse of the escapes that the client uses.\<close>

fun json_unescape :: "string \<Rightarrow> string" where
  "json_unescape [] = []"
| "json_unescape [c] = [c]"
| "json_unescape (c # d # s) =
     (if c = CHR 0x5C
      then (if d = CHR ''n'' then CHR 0x0A else if d = CHR ''r'' then CHR 0x0D else if d = CHR ''t'' then CHR 0x09 else d)
           # json_unescape s
      else c # json_unescape (d # s))"

lemma json_unescape_plain: "c \<noteq> CHR 0x5C \<Longrightarrow> json_unescape (c # s) = c # json_unescape s"
  by (cases s) simp_all

lemma json_unescape_escape: "json_unescape (escape_json s) = s"
  by (induction s) (auto simp: escape_json_def escape_json_char_def dquote_def json_unescape_plain)

section \<open>Scripts\<close>

definition statement_ok :: "string \<Rightarrow> bool" where
  "statement_ok st \<longleftrightarrow> trimmed line_blanks st \<and> CHR '';'' \<notin> set st \<and> hd st \<noteq> CHR ''#''"

text \<open>Statements that end with a semicolon and a new line, some with a line of comment before them.\<close>

type_synonym script_item = "string option \<times> string"

fun item_part :: "script_item \<Rightarrow> string" where
  "item_part (None, st) = st"
| "item_part (Some c, st) = CHR ''#'' # c @ newline @ st"

definition script_text :: "script_item list \<Rightarrow> string" where
  "script_text items = concat (map (\<lambda>x. item_part x @ CHR '';'' # newline) items)"

definition item_ok :: "script_item \<Rightarrow> bool" where
  "item_ok x \<longleftrightarrow> statement_ok (snd x) \<and> (case fst x of Some c \<Rightarrow> CHR '';'' \<notin> set c | None \<Rightarrow> True)"

lemma script_parts_semicolon: "CHR '';'' \<notin> set p \<Longrightarrow> script_parts (p @ CHR '';'' # r) = p # script_parts r"
  by (subst script_parts.simps) (simp add: takeWhile_append takeWhile_eq_all_conv [THEN iffD2])

lemma item_part_plain: "item_ok x \<Longrightarrow> CHR '';'' \<notin> set (item_part x)"
  by (cases x; cases "fst x") (auto simp: item_ok_def statement_ok_def newline_def)

lemma script_statement_part:
  assumes "item_ok x" "lead = [] \<or> lead = newline"
  shows "script_statement (lead @ item_part x) = (case fst x of None \<Rightarrow> Some (snd x) | Some _ \<Rightarrow> None)"
proof (cases "fst x")
  case None
  then obtain st where x: "x = (None, st)" by (cases x) simp
  with assms(1) have st: "trimmed line_blanks st" "hd st \<noteq> CHR ''#''" by (auto simp: item_ok_def statement_ok_def)
  then have d: "dropWhile (\<lambda>c. c \<in> set line_blanks) st = st" "st \<noteq> []" by (cases st; simp add: trimmed_def)+
  have ex: "\<exists>x\<in>set st. x \<notin> set line_blanks" using st d(2) by (auto simp: trimmed_def intro!: bexI [of _ "hd st"])
  have n: "CHR 0x0A \<in> set line_blanks" by (simp add: line_blanks_def)
  show ?thesis
    using assms(2) d ex st n trim_set_id [OF st(1)] trim_set_blank_left [OF n, of st]
    by (auto simp: script_statement_def x newline_def)
next
  case (Some c)
  then obtain st where "x = (Some c, st)" by (cases x) simp
  with assms(2) show ?thesis by (auto simp: script_statement_def newline_def line_blanks_def)
qed

text \<open>The statements that are executed: those without a comment before them.\<close>

definition uncommented :: "script_item list \<Rightarrow> string list" where
  "uncommented items = map snd (filter (\<lambda>x. fst x = None) items)"

lemma script_statements:
  "list_all item_ok items \<Longrightarrow> lead = [] \<or> lead = newline \<Longrightarrow>
   List.map_filter script_statement (script_parts (lead @ script_text items)) = uncommented items"
proof (induction items arbitrary: lead)
  case Nil
  then show ?case
    by (auto simp: script_text_def uncommented_def script_parts.simps newline_def script_statement_def line_blanks_def
        List.map_filter_simps)
next
  case (Cons x items)
  have "CHR '';'' \<notin> set (lead @ item_part x)" using Cons.prems item_part_plain [of x] by (auto simp: newline_def)
  from script_parts_semicolon [OF this, of "newline @ script_text items"] Cons.IH [of newline] Cons.prems
    script_statement_part [of x lead]
  show ?case
    by (simp add: script_text_def uncommented_def List.map_filter_simps split: option.split)
qed

fun execute_all :: "'s stub \<Rightarrow> cli_client \<Rightarrow> output_format \<Rightarrow> string list \<Rightarrow> bool \<Rightarrow> 's \<Rightarrow> (bool \<times> printed \<times> 's) option" where
  "execute_all sb cl fmt [] all_ok s = Some (all_ok, ([], []), s)"
| "execute_all sb cl fmt (stmt # stmts) all_ok s =
     Option.bind (execute_cli sb cl fmt stmt s)
       (\<lambda>(ok, pr, s). map_option (\<lambda>(all_ok, prs, s). (all_ok, also_printed (''> '' @ stmt @ newline, []) (also_printed pr prs), s))
          (execute_all sb cl fmt stmts (all_ok \<and> ok) s))"

lemma run_script_statements:
  "run_script sb cl fmt parts all_ok s = execute_all sb cl fmt (List.map_filter script_statement parts) all_ok s"
  by (induction parts arbitrary: all_ok s)
     (auto simp: List.map_filter_simps split: option.split bind_splits)

lemma read_script_text:
  assumes "file_bytes fs path = Some (string_bytes content)"
  shows "read_script path fs = Some content"
proof -
  obtain i where "file_open path READ fs = (rd_handle i 0, fs)" "ino_data fs i = string_bytes content"
    by (rule file_bytes_open_read [OF assms])
  with bytes_string_string_bytes [of content] show ?thesis
    by (auto simp: read_script_def file_size_def read_zeroed_def file_read_some Let_def bytes_string_def)
qed

section \<open>Properties\<close>

text \<open>
  The CSV of a result is the result: read as records of quoted cells with doubled quotes, what the
  client prints is the line of the column names and the rows, whatever the cells hold, commas, quotes
  and new lines included; every record has at least one cell.
\<close>

lemma cli_csv_reads_back:
  assumes "rp_columns res \<noteq> []" "list_all (\<lambda>row. row \<noteq> []) (rp_rows res)"
  shows "csv_read [] (print_csv res) = rp_columns res # rp_rows res"
  using csv_read_lines [of "rp_columns res # rp_rows res"] assms by (simp add: print_csv_def)

lemma cli_csv_reads_back_witness:
  "csv_read [] (print_csv \<lparr>rp_ok = True, rp_error = [], rp_columns = [''a'', ''b''],
      rp_rows = [[[dquote, CHR '',''], [CHR 0x0A]]]\<rparr>) = [[''a'', ''b''], [[dquote, CHR '',''], [CHR 0x0A]]]"
  using cli_csv_reads_back [of "\<lparr>rp_ok = True, rp_error = [], rp_columns = [''a'', ''b''],
      rp_rows = [[[dquote, CHR '',''], [CHR 0x0A]]]\<rparr>"] by simp

text \<open>
  C37. What a script runs: with a file of statements that end with semicolons, each perhaps behind a line
  of comment, the client executes in order exactly the statements without a comment; a comment swallows
  the statement behind it, since it ends with the semicolon and not with the line. The exit code is 0
  when every statement that was executed succeeded.
\<close>

theorem cli_script_runs:
  assumes "list_all item_ok items" "file_bytes fs path = Some (string_bytes (script_text items))" "path \<noteq> []"
    and "cli_login (connect ''127.0.0.1'' 8086) ''admin'' ''admin123'' cli_new s = (True, cl, s')"
  shows "cli_main connect prog [''-f'', path] input fs s =
    map_option (\<lambda>(all_ok, pr, s). (if all_ok then 0 else 1, pr, s))
      (execute_all (connect ''127.0.0.1'' 8086) cl TABLE (uncommented items) True s')"
proof -
  let ?o = "default_cli_options\<lparr>co_script_file := path\<rparr>"
  have "parse_args [''-f'', path] default_cli_options = Args ?o" by (simp add: take_option_def)
  moreover have "upper_string ''-f'' \<noteq> ''LATEST''" "upper_string ''-f'' \<noteq> ''SNAPSHOT''" by (simp_all add: upper_string_def)
  ultimately have "cli_main connect prog [''-f'', path] input fs s = cli_normal (connect ''127.0.0.1'' 8086) ?o input fs s"
    by (simp add: cli_main_def default_cli_options_def)
  also have "\<dots> = map_option (\<lambda>(all_ok, pr, s). (if all_ok then 0 else 1, pr, s))
      (run_script (connect ''127.0.0.1'' 8086) cl TABLE (script_parts (script_text items)) True s')"
    using assms(3,4) read_script_text [OF assms(2)] by (simp add: cli_normal_def default_cli_options_def)
  finally show ?thesis using script_statements [OF assms(1), of "[]"] by (simp add: run_script_statements)
qed

definition demo_script :: "script_item list" where
  "demo_script = [(Some '' not yet'', ''DROP TABLE t''), (None, ''SHOW TABLES'')]"

definition open_service :: service where
  "open_service = \<lparr>sv_engine = None, sv_cache = None, sv_auth = None\<rparr>"

theorem cli_script_runs_witness:
  "cli_main (\<lambda>_ _. served demo_xv) ''cli'' [''-f'', ''x''] [] (file_fs ''x'' (string_bytes (script_text demo_script)))
      (open_service, demo_fs) =
    map_option (\<lambda>(all_ok, pr, s). (if all_ok then 0 else 1, pr, s))
      (execute_all (served demo_xv) \<lparr>gc_token = ''no-auth-token'', gc_role = ''admin''\<rparr> TABLE [''SHOW TABLES''] True
        (open_service, demo_fs))"
proof -
  have ok: "list_all item_ok demo_script"
    by (simp add: demo_script_def item_ok_def statement_ok_def trimmed_def line_blanks_def)
  have u: "uncommented demo_script = [''SHOW TABLES'']" by (simp add: demo_script_def uncommented_def)
  have l: "cli_login (served demo_xv) ''admin'' ''admin123'' cli_new (open_service, demo_fs)
      = (True, \<lparr>gc_token = ''no-auth-token'', gc_role = ''admin''\<rparr>, open_service, demo_fs)"
    by (simp add: cli_login_def served_def sv_authenticate_def open_service_def cli_new_def)
  show ?thesis
    using cli_script_runs [OF ok file_bytes_file_fs, of "''x''" "\<lambda>_ _. served demo_xv", OF _ l] by (simp add: u)
qed

section \<open>Other behaviour of the client\<close>

text \<open>The message of a failed statement is never shown: the call already counts it as not sent.\<close>

lemma cli_hides_errors:
  assumes "sb_query sb (gc_token cl) sql s = Some (RPC_Ok, query_failed msg, s')"
  shows "execute_cli sb cl fmt sql s = Some (False, ([], ''ERROR: Query failed'' @ newline), s')"
  using assms by (simp add: execute_cli_def cli_query_def query_failed_def)

text \<open>The value of an option that LATEST does not know is taken for the tag.\<close>

lemma latest_takes_host_for_tag:
  "h \<noteq> [] \<Longrightarrow> hd h \<noteq> CHR ''-'' \<Longrightarrow> latest_request (latest_args [''--all'', ''--host'', h] lo) = (SNAP_GET, h, [])"
  by (auto simp: latest_request_def take_tag_def)

end
