(* ===== verification/Restart.thy ===== *)
theory Restart
  imports Compaction
begin

text \<open>
  A clean shutdown and the next start, \<^verbatim>\<open>StorageEngine::Close\<close> and \<^verbatim>\<open>Init\<close> of
  \<^verbatim>\<open>src/src/storage/engine.cpp\<close> together: what was buffered is in a table file of its tag,
  the log is gone, and the restarted engine reads the points back.
\<close>

section \<open>Files that the shutdown leaves alone\<close>

lemma touches_holds:
  assumes "touches P fs fs'" "split_path path \<notin> P" "holds_file fs path i d"
  shows "holds_file fs' path i d"
proof -
  have "file_at fs' (split_path path) = file_at fs (split_path path)" using touches_file [OF assms(1,2)] .
  with touches_node [OF assms(1,2)] touches_wf [OF assms(1)] assms(3) show ?thesis
    by (simp add: holds_file_def file_at_def)
qed

lemma touches_write_blocks:
  assumes "fs_wf fs"
  shows "touches {split_path q} fs (snd (sst_write_blocks q bs fs))"
proof (rule sst_write_blocks_frame [of q bs fs])
  fix h fs1 assume o: "file_open q READ_WRITE fs = (Some h, fs1)"
    and only: "only_inode (of_ino h) fs1 (snd (sst_write_blocks q bs fs))"
  have "map_of (fs_tree fs1) (split_path q) = Some (FileNode (of_ino h))" using file_open_some(3) [OF o assms] by simp
  from touches_trans [OF touches_open [OF o assms] touches_only_inode [OF only _ this]]
  show ?thesis using file_open_some(4) [OF o assms] by simp
qed (simp add: touches_refl assms)

lemma touches_file_write:
  assumes "file_write d (Some h) fs = (ok, f, fs')" "fs_wf fs" "map_of (fs_tree fs) p = Some (FileNode (of_ino h))"
  shows "touches {p} fs fs'"
  using touches_only_inode [OF _ assms(2,3)] file_write_only [OF assms(1), of "of_ino h"] by (simp add: handle_on_def)

lemma touches_move_aside:
  assumes "fs_wf fs" "split_path (ss_path s) \<noteq> split_path (bak_path (ss_path s))"
  shows "touches {split_path (ss_path s), split_path (bak_path (ss_path s))} fs (ss_move_aside s fs)"
proof (cases "fs_rename (ss_path s) (bak_path (ss_path s)) fs")
  case (Pair ok fs')
  then show ?thesis
    using touches_rename [of "ss_path s" "bak_path (ss_path s)" fs fs'] fs_rename_False [of "ss_path s" "bak_path (ss_path s)" fs fs'] assms
    by (cases ok) (auto simp: ss_move_aside_def touches_refl)
qed

lemma touches_save:
  assumes "fs_wf fs" "split_path (ss_path s) \<noteq> split_path (bak_path (ss_path s))"
  shows "touches {split_path (ss_path s), split_path (bak_path (ss_path s))} fs (snd (ss_save_to_file ser now s fs))"
proof -
  let ?P = "{split_path (ss_path s), split_path (bak_path (ss_path s))}" and ?fs = "ss_move_aside s fs"
  note m = touches_move_aside [OF assms]
  obtain f fs1 where o: "file_open (ss_path s) WRITE ?fs = (f, fs1)" by (metis surj_pair)
  show ?thesis
  proof (cases f)
    case None
    with o have "fs1 = ?fs" by (auto simp: file_open_def Let_def split: option.splits node.splits if_splits prod.splits)
    with o None m show ?thesis by (simp add: ss_save_to_file_def)
  next
    case (Some h)
    note o' = o [unfolded Some]
    obtain ok f2 fs2 where w: "file_write (ser (ss_image now s)) (Some h) fs1 = (ok, f2, fs2)" by (rule prod_cases3)
    have "touches {split_path (ss_path s)} ?fs fs1" using touches_open [OF o' touches_wf [OF m]] .
    moreover have "touches {split_path (ss_path s)} fs1 fs2"
      using touches_file_write [OF w] file_open_some(3,4) [OF o' touches_wf [OF m]] by simp
    ultimately have "touches ?P ?fs fs2" using touches_trans touches_mono [of "{split_path (ss_path s)}" _ _ ?P] by blast
    with touches_trans [OF m this] o' w show ?thesis by (simp add: ss_save_to_file_def)
  qed
qed

lemma touches_shutdown:
  assumes "fs_wf fs" "split_path (ss_path s) \<noteq> split_path (bak_path (ss_path s))"
  shows "touches {split_path (ss_path s), split_path (bak_path (ss_path s))} fs (snd (ss_shutdown ser now s fs))"
proof -
  have turn: "touches {split_path (ss_path t), split_path (bak_path (ss_path t))} fs (snd (ss_save_turn ser now t fs))
      \<and> ss_path (fst (ss_save_turn ser now t fs)) = ss_path t"
    if "fs_wf fs" "split_path (ss_path t) \<noteq> split_path (bak_path (ss_path t))" for t fs
    using touches_save [OF that] touches_refl [OF that(1)] by (simp add: ss_save_turn_def)
  let ?s = "s\<lparr>ss_running := False\<rparr>"
  obtain t fs1 where t: "ss_save_turn ser now ?s fs = (t, fs1)" by (metis surj_pair)
  have 1: "touches {split_path (ss_path s), split_path (bak_path (ss_path s))} fs fs1" "ss_path t = ss_path s"
    using turn [of fs ?s] assms t by simp_all
  show ?thesis
    using turn [OF touches_wf [OF 1(1)], of t] turn [of fs ?s] assms 1 t touches_trans [OF 1(1)]
    by (cases "ss_running s") (simp_all add: ss_shutdown_def Let_def)
qed

section \<open>New directories\<close>

text \<open>Making a directory makes at most the directories on the way to it, none below it.\<close>

lemma mkdir_new_dir:
  "map_of (fs_tree (snd (mkdir s fs))) q = Some DirNode \<Longrightarrow> map_of (fs_tree fs) q = Some DirNode \<or> q = split_path s"
  by (auto simp: mkdir_def Let_def os_facts split: if_splits)

lemma mkdir_prefixes_new_dir:
  "map_of (fs_tree (mkdir_prefixes cur cs fs)) q = Some DirNode \<Longrightarrow>
   map_of (fs_tree fs) q = Some DirNode \<or> length q \<le> length (split_path (cur @ cs))"
proof (induction cur cs fs rule: mkdir_prefixes.induct)
  case (2 cur c cs fs)
  show ?case
  proof (cases "c = CHR ''/'' \<and> cur \<noteq> []")
    case True
    then have "length (split_path cur) \<le> length (split_path (cur @ c # cs))" by (simp add: split_path_comps)
    with 2 True mkdir_new_dir [of cur fs q] show ?thesis by auto
  qed (use 2 in auto)
qed simp

lemma create_directories_new_dir:
  assumes "map_of (fs_tree (snd (create_directories s fs))) q = Some DirNode"
  shows "map_of (fs_tree fs) q = Some DirNode \<or> length q \<le> length (split_path s)"
proof -
  have "snd (create_directories s fs) = (if s = [] then fs else snd (mkdir s (mkdir_prefixes [] s fs)))"
    by (simp add: create_directories_def split_beta)
  with assms mkdir_new_dir [of s "mkdir_prefixes [] s fs" q] mkdir_prefixes_new_dir [of "[]" s fs q] show ?thesis
    by (auto split: if_splits)
qed

lemma create_directories_makes:
  assumes "s \<noteq> []" "is_dir fs (butlast (split_path s))" "\<And>i. map_of (fs_tree fs) (split_path s) \<noteq> Some (FileNode i)"
  shows "is_dir (snd (create_directories s fs)) (split_path s)"
proof -
  let ?fs = "mkdir_prefixes [] s fs"
  have "is_dir ?fs (butlast (split_path s))" using assms(2) mkdir_prefixes_keeps by (auto simp: is_dir_def)
  moreover have "map_of (fs_tree ?fs) (split_path s) \<noteq> Some (FileNode i)" for i
    using assms(3) by (simp add: mkdir_prefixes_files)
  moreover have "snd (create_directories s fs) = snd (mkdir s ?fs)"
    using assms(1) by (simp add: create_directories_def split_beta)
  ultimately show ?thesis using node.exhaust
    by (auto simp: mkdir_def Let_def path_exists_def is_dir_def os_facts) metis+
qed

section \<open>Flushing a tag\<close>

lemma tag_dir_split:
  assumes "plain_component tag"
  shows "split_path (tag_dir cfg tag) = split_path (sc_hot_path cfg @ ''/tags'') @ [tag]"
  using split_path_join [of "sc_hot_path cfg @ ''/tags''" tag] assms by (simp add: tag_dir_def)

definition flush_name :: "string \<Rightarrow> data_point list \<Rightarrow> string" where
  "flush_name date points = date @ ''_'' @ to_string (sint (dp_ts (hd points))) @ ''.sst''"

lemma flush_name_plain: "CHR ''/'' \<notin> set date \<Longrightarrow> plain_component (flush_name date points)"
  using to_string_plain by (auto simp: plain_component_def flush_name_def append_eq_Cons_conv)

lemma flush_path_split:
  assumes "plain_component tag" "CHR ''/'' \<notin> set date"
  shows "split_path (flush_path cfg date tag points) =
    split_path (sc_hot_path cfg @ ''/tags'') @ [tag, flush_name date points]"
  using split_path_join [of "tag_dir cfg tag" "flush_name date points"] flush_name_plain [OF assms(2)] tag_dir_split [OF assms(1)]
  by (simp add: flush_path_def flush_name_def tag_dir_def)

text \<open>The file system takes the table file of a batch: no file is in the way of a directory or the reverse.\<close>

definition takes_flush :: "storage_config \<Rightarrow> string \<Rightarrow> string \<Rightarrow> data_point list \<Rightarrow> fsys \<Rightarrow> bool" where
  "takes_flush cfg date tag points fs \<longleftrightarrow> fs_wf fs
     \<and> is_dir fs (split_path (sc_hot_path cfg @ ''/tags''))
     \<and> (\<forall>i. map_of (fs_tree fs) (split_path (tag_dir cfg tag)) \<noteq> Some (FileNode i))
     \<and> map_of (fs_tree fs) (split_path (flush_path cfg date tag points)) \<noteq> Some DirNode"

text \<open>The batch is on disk: in its directory, under its name.\<close>

definition stored :: "storage_config \<Rightarrow> string \<Rightarrow> string \<Rightarrow> data_point list \<Rightarrow> fsys \<Rightarrow> bool" where
  "stored cfg date tag points fs \<longleftrightarrow> is_dir fs (split_path (tag_dir cfg tag))
     \<and> (\<exists>i. holds_file fs (flush_path cfg date tag points) i (sst_image [bc_compress points]))"

lemma stored_directories: "stored cfg date tag points fs \<Longrightarrow> stored cfg date tag points (snd (create_directories d fs))"
  using create_directories_keeps by (auto simp: stored_def is_dir_def create_directories_holds)

lemma stored_touches:
  assumes "touches P fs fs'" "split_path (tag_dir cfg tag) \<notin> P" "split_path (flush_path cfg date tag points) \<notin> P"
    and "stored cfg date tag points fs"
  shows "stored cfg date tag points fs'"
  using touches_holds [OF assms(1,3)] touches_node [OF assms(1,2)] assms(4) by (auto simp: stored_def is_dir_def)

lemma flush_writes:
  assumes "takes_flush cfg date tag points fs" "plain_component tag" "CHR ''/'' \<notin> set date"
    and "points \<noteq> []" "block_ok (bc_compress points)"
  shows "stored cfg date tag points (eng_flush_cb cfg date tag points fs)"
proof -
  let ?p = "flush_path cfg date tag points" and ?d = "tag_dir cfg tag"
  let ?fs = "snd (create_directories ?d fs)"
  have t: "fs_wf fs" "is_dir fs (butlast (split_path ?d))" "\<And>i. map_of (fs_tree fs) (split_path ?d) \<noteq> Some (FileNode i)"
    "map_of (fs_tree fs) (split_path ?p) \<noteq> Some DirNode"
    using assms(1,2) by (auto simp: takes_flush_def tag_dir_split)
  have parent: "butlast (split_path ?p) = split_path ?d" using assms(2,3) by (simp add: flush_path_split tag_dir_split butlast_append)
  have dir: "is_dir ?fs (split_path ?d)" by (rule create_directories_makes [OF _ t(2,3)]) (simp add: tag_dir_def)
  moreover have root: "\<not> is_root (split_path ?p)" using assms(2,3) by (auto simp: flush_path_split is_root_def append_eq_Cons_conv)
  moreover have "map_of (fs_tree ?fs) (split_path ?p) \<noteq> Some DirNode"
    using create_directories_new_dir [of ?d fs "split_path ?p"] t(4) assms(2,3) by (auto simp: flush_path_split tag_dir_split)
  ultimately have "fst (sst_write_blocks ?p [bc_compress points] ?fs)"
    using parent by (intro sst_write_blocks_ok) (auto simp: is_dir_def)
  then obtain fs' where w: "sst_write_blocks ?p [bc_compress points] ?fs = (True, fs')" by (metis (full_types) prod.collapse)
  have "file_bytes fs' ?p = Some (sst_image [bc_compress points])"
    using file_bytes_write_blocks [OF w] assms(5) by simp
  moreover have t: "touches {split_path ?p} ?fs fs'" using touches_write_blocks [of ?fs ?p "[bc_compress points]"] t(1) w
    by (simp add: create_directories_wf)
  moreover have "split_path ?d \<noteq> split_path ?p" using assms(2,3) by (simp add: flush_path_split tag_dir_split)
  then have "is_dir fs' (split_path ?d)" using dir touches_node [OF t] by (simp add: is_dir_def)
  moreover have "eng_flush_cb cfg date tag points fs = fs'" using assms(4) w by (simp add: eng_flush_cb_def)
  ultimately show ?thesis
    using touches_wf [OF t] by (auto simp: stored_def holds_file_def file_bytes_def split: option.splits node.splits)
qed

text \<open>
  The name of a table file is the date and the first time of the batch: a second batch of the tag that
  starts at the same time on the same day replaces the first one, whose points are gone.
\<close>

lemma flush_collision_loses:
  assumes "takes_flush cfg date tag points fs" "plain_component tag" "CHR ''/'' \<notin> set date"
    and "points \<noteq> []" "block_ok (bc_compress points)" "points' \<noteq> []" "block_ok (bc_compress points')"
    and "dp_ts (hd points') = dp_ts (hd points)"
  shows "file_bytes (eng_flush_cb cfg date tag points' (eng_flush_cb cfg date tag points fs)) (flush_path cfg date tag points) =
    Some (sst_image [bc_compress points'])"
proof -
  let ?fs = "eng_flush_cb cfg date tag points fs" and ?p = "flush_path cfg date tag points"
  let ?tags = "split_path (sc_hot_path cfg @ ''/tags'')" and ?d = "tag_dir cfg tag"
  note sp = tag_dir_split [OF assms(2), of cfg] flush_path_split [OF assms(2,3), of cfg points]
  have p: "flush_path cfg date tag points' = ?p" by (simp add: flush_path_def assms(8))
  have 1: "stored cfg date tag points ?fs" using flush_writes [OF assms(1-5)] .
  have "is_dir (snd (create_directories ?d fs)) ?tags"
    using assms(1) create_directories_keeps [of fs ?tags DirNode ?d] by (auto simp: takes_flush_def is_dir_def)
  moreover have "fs_wf (snd (create_directories ?d fs))" using assms(1) by (simp add: takes_flush_def create_directories_wf)
  ultimately have "is_dir ?fs ?tags"
    using touches_node [OF touches_write_blocks, of "snd (create_directories ?d fs)" ?tags ?p "[bc_compress points]"] assms(4)
    by (simp add: eng_flush_cb_def Let_def is_dir_def sp)
  with 1 have "takes_flush cfg date tag points' ?fs"
    using sp assms(2) by (auto simp: takes_flush_def p stored_def holds_file_def is_dir_def is_root_def append_eq_Cons_conv plain_component_def)
  from flush_writes [OF this assms(2,3,6,7)] show ?thesis
    by (auto simp: stored_def p holds_file_def file_bytes_ino)
qed

lemma other_flush:
  assumes "plain_component tag" "plain_component tag'" "tag' \<noteq> tag" "CHR ''/'' \<notin> set date"
  shows "takes_flush cfg date tag points fs \<Longrightarrow> takes_flush cfg date tag points (eng_flush_cb cfg date tag' points' fs)"
    and "stored cfg date tag points fs \<Longrightarrow> stored cfg date tag points (eng_flush_cb cfg date tag' points' fs)"
proof -
  let ?d = "tag_dir cfg tag'" and ?q = "flush_path cfg date tag' points'" and ?p = "flush_path cfg date tag points"
  let ?tags = "split_path (sc_hot_path cfg @ ''/tags'')"
  let ?fs = "snd (create_directories ?d fs)"
  note sp = tag_dir_split [OF assms(1), of cfg] tag_dir_split [OF assms(2), of cfg]
    flush_path_split [OF assms(1,4), of cfg points] flush_path_split [OF assms(2,4), of cfg points']
  have t: "touches {split_path ?q} ?fs (snd (sst_write_blocks ?q bs ?fs))" if "fs_wf fs" for bs
    using touches_write_blocks that by (simp add: create_directories_wf)
  have ne: "split_path ?p \<noteq> split_path ?q" "?tags \<noteq> split_path ?q" "split_path (tag_dir cfg tag) \<noteq> split_path ?q"
    using assms(3) by (simp_all add: sp)
  show "takes_flush cfg date tag points (eng_flush_cb cfg date tag' points' fs)" if r: "takes_flush cfg date tag points fs"
  proof -
    have wf: "fs_wf fs" using r by (simp add: takes_flush_def)
    have dirs: "takes_flush cfg date tag points ?fs"
      using r create_directories_keeps [of fs ?tags DirNode ?d] create_directories_new_dir [of ?d fs "split_path ?p"]
      by (auto simp: takes_flush_def create_directories_wf create_directories_files is_dir_def sp)
    have "takes_flush cfg date tag points (snd (sst_write_blocks ?q bs ?fs))" for bs
      using dirs ne touches_node [OF t [OF wf, of bs]] touches_wf [OF t [OF wf, of bs]]
      by (auto simp: takes_flush_def is_dir_def)
    with r show ?thesis using dirs by (simp add: eng_flush_cb_def Let_def)
  qed
  show "stored cfg date tag points (eng_flush_cb cfg date tag' points' fs)" if h: "stored cfg date tag points fs"
  proof -
    have wf: "fs_wf fs" using h by (auto simp: stored_def holds_file_def)
    show ?thesis
      using stored_touches [OF t [OF wf] _ _ stored_directories [OF h]] ne h by (simp add: eng_flush_cb_def Let_def)
  qed
qed

lemma flush_entries_stored:
  assumes "plain_component tag" "CHR ''/'' \<notin> set date" "points \<noteq> []" "block_ok (bc_compress points)"
    and "takes_flush cfg date tag points fs" "entry_points es tag = points"
    and "distinct (map fst es)" "\<forall>t\<in>fst ` set es. plain_component t"
  shows "stored cfg date tag points (snd (mt_flush_entries (Some (eng_flush_cb cfg date)) es fs))"
  using assms(5-8)
proof (induction es arbitrary: fs)
  case (Cons e es)
  let ?cb = "Some (eng_flush_cb cfg date)" and ?S = "stored cfg date tag points"
  have keep: "?S (snd (mt_flush_entries ?cb es fs))"
    if "\<forall>t\<in>fst ` set es. plain_component t" "tag \<notin> fst ` set es" "?S fs" for es fs
    using that
  proof (induction es arbitrary: fs)
    case (Cons e es)
    obtain t b where e: "e = (t, b)" by (cases e)
    with Cons.prems have "?S (snd (mt_flush_buffer ?cb t (b, fs)))"
      by (auto simp: mt_flush_buffer_def intro!: other_flush(2) [OF assms(1) _ _ assms(2)])
    with Cons.IH [of "snd (mt_flush_buffer ?cb t (b, fs))"] Cons.prems e show ?case by (simp add: split_beta)
  qed simp
  obtain t b where e: "e = (t, b)" by (cases e)
  let ?fs = "snd (mt_flush_buffer ?cb t (b, fs))"
  have s: "snd (mt_flush_entries ?cb (e # es) fs) = snd (mt_flush_entries ?cb es ?fs)" by (simp add: e split_beta)
  show ?case
  proof (cases "t = tag")
    case True
    with Cons.prems e have "tb_points b = points" by simp
    with flush_writes [OF Cons.prems(1) assms(1-4)] True assms(3) have "?S ?fs" by (simp add: mt_flush_buffer_def)
    with keep [of es ?fs] Cons.prems True e s show ?thesis by simp
  next
    case False
    with Cons.prems e have "takes_flush cfg date tag points ?fs"
      by (auto simp: mt_flush_buffer_def intro!: other_flush(1) [OF assms(1) _ _ assms(2)])
    with Cons.IH [of ?fs] Cons.prems e False s show ?thesis by simp
  qed
qed (use assms(3) in simp)

section \<open>Closing\<close>

lemma no_file_touches: "touches P fs fs' \<Longrightarrow> split_path path \<notin> P \<Longrightarrow> no_file fs path \<Longrightarrow> no_file fs' path"
  using touches_node touches_wf by (fastforce simp: no_file_def)

text \<open>The snapshot is where \<^verbatim>\<open>Init\<close> put it.\<close>

definition snapshot_placed :: "storage_config \<Rightarrow> engine \<Rightarrow> bool" where
  "snapshot_placed cfg e \<longleftrightarrow> eg_config e = cfg
     \<and> (\<forall>snap. eg_snapshot e = Some snap \<longrightarrow> ss_path snap = sc_hot_path cfg @ ''/snapshot/snapshot.pb'')"

lemma ss_init_path: "ss_path (fst (ss_init par dir s fs)) = dir @ ''/snapshot.pb''"
  by (simp add: ss_init_def Let_def ss_load_from_file_def ss_load_data_def split: option.split)

lemma eng_init_placed: "eng_init env (eng_new cfg, fs) = Inr (ok, e, fs') \<Longrightarrow> snapshot_placed cfg e"
  using ss_init_path [of "ev_par env" "sc_hot_path cfg @ ''/snapshot''" ss_new]
  by (auto simp: eng_init_def Let_def eng_new_def snapshot_placed_def split: sum.splits prod.splits) (metis fst_conv)

lemma eng_write_placed: "snapshot_placed cfg (fst s) \<Longrightarrow> snapshot_placed cfg (fst (snd (eng_write env tag p s)))"
  by (auto simp: snapshot_placed_def eng_write_def eng_log_def eng_buffer_def eng_notify_def ss_on_write_def
      split: prod.splits option.splits sum.splits)

lemma eng_run_placed: "eng_run sts s = Some s' \<Longrightarrow> snapshot_placed cfg (fst s) \<Longrightarrow> snapshot_placed cfg (fst s')"
proof (induction sts arbitrary: s)
  case (Cons st sts)
  obtain t where t: "eng_step st s = Some t" "eng_run sts t = Some s'" using Cons.prems(1) by (auto split: option.splits)
  have "snapshot_placed cfg (fst t)"
  proof (cases st)
    case (Put env tag p)
    with t(1) eng_write_placed [OF Cons.prems(2)] show ?thesis by auto
  next
    case (Crash env)
    with t(1) Cons.prems(2) eng_init_placed [of env cfg "snd s"] show ?thesis
      by (cases t) (auto simp: snapshot_placed_def split: sum.splits)
  qed
  with Cons.IH t(2) show ?case by blast
qed simp

lemma snapshot_split:
  "split_path (sc_hot_path cfg @ ''/snapshot/snapshot.pb'') = split_path (sc_hot_path cfg @ ''/snapshot'') @ [''snapshot.pb'']"
  "split_path (bak_path (sc_hot_path cfg @ ''/snapshot/snapshot.pb'')) =
     split_path (sc_hot_path cfg @ ''/snapshot'') @ [''snapshot.pb.bak'']"
  "split_path (wal_path cfg) = split_path (sc_hot_path cfg @ ''/wal'') @ [''wal.log'']"
  using split_path_join [of "sc_hot_path cfg @ ''/snapshot''" "''snapshot.pb''"]
    split_path_join [of "sc_hot_path cfg @ ''/snapshot''" "''snapshot.pb.bak''"]
    split_path_join [of "sc_hot_path cfg @ ''/wal''" "''wal.log''"]
  by (simp_all add: plain_component_def bak_path_def wal_path_def)

text \<open>The directories of the hot store are distinct.\<close>

lemma hot_split: "\<exists>r. \<forall>d. plain_component d \<longrightarrow> split_path (sc_hot_path cfg @ ''/'' @ d) = r @ [d]"
proof (cases "sc_hot_path cfg = []")
  case True
  then have "split_path (sc_hot_path cfg @ ''/'' @ d) = [''/''] @ [d]" if "plain_component d" for d
    using that by (simp add: split_path_def split_at_plain plain_component_def)
  then show ?thesis by blast
next
  case False
  then show ?thesis using split_path_join [OF False] by auto
qed

lemma store_split:
  obtains r where "split_path (sc_hot_path cfg @ ''/tags'') = r @ [''tags'']"
    "split_path (sc_hot_path cfg @ ''/snapshot/snapshot.pb'') = r @ [''snapshot'', ''snapshot.pb'']"
    "split_path (bak_path (sc_hot_path cfg @ ''/snapshot/snapshot.pb'')) = r @ [''snapshot'', ''snapshot.pb.bak'']"
    "split_path (wal_path cfg) = r @ [''wal'', ''wal.log'']"
proof -
  have pc: "plain_component ''tags''" "plain_component ''snapshot''" "plain_component ''wal''"
    by (simp_all add: plain_component_def)
  obtain r where "\<forall>d. plain_component d \<longrightarrow> split_path (sc_hot_path cfg @ ''/'' @ d) = r @ [d]" using hot_split by blast
  with pc have "split_path (sc_hot_path cfg @ ''/tags'') = r @ [''tags'']"
    "split_path (sc_hot_path cfg @ ''/snapshot'') = r @ [''snapshot'']" "split_path (sc_hot_path cfg @ ''/wal'') = r @ [''wal'']"
    by fastforce+
  with that snapshot_split [of cfg] show thesis by simp
qed

lemma eng_close_stored:
  assumes "eng_inv cfg ws (e, fs)" "snapshot_placed cfg e" "eg_mem_table e = Some m" "mt_ok m"
    and "\<forall>t\<in>fst ` set (mt_buffers m). plain_component t" "plain_component tag" "CHR ''/'' \<notin> set (ev_date env)"
    and "points = tb_points (mt_find m tag)" "points \<noteq> []" "block_ok (bc_compress points)"
    and "takes_flush cfg (ev_date env) tag points fs"
  shows "stored cfg (ev_date env) tag points (snd (eng_close env (e, fs)))" "no_file (snd (eng_close env (e, fs))) (wal_path cfg)"
proof -
  let ?S = "stored cfg (ev_date env) tag points" and ?p = "flush_path cfg (ev_date env) tag points" and ?d = "tag_dir cfg tag"
  obtain r where r: "split_path (sc_hot_path cfg @ ''/tags'') = r @ [''tags'']"
    "split_path (sc_hot_path cfg @ ''/snapshot/snapshot.pb'') = r @ [''snapshot'', ''snapshot.pb'']"
    "split_path (bak_path (sc_hot_path cfg @ ''/snapshot/snapshot.pb'')) = r @ [''snapshot'', ''snapshot.pb.bak'']"
    "split_path (wal_path cfg) = r @ [''wal'', ''wal.log'']" by (rule store_split)
  note sp = tag_dir_split [OF assms(6), of cfg] flush_path_split [OF assms(6,7), of cfg points] r
  obtain w where w: "eg_initialized e" "eg_config e = cfg" "eg_wal e = Some w" "ww_path w = wal_path cfg"
    using assms(1) by (auto simp: eng_inv_def)
  obtain e1 fs1 where f: "eng_flush env (e, fs) = (e1, fs1)" by (metis surj_pair)
  let ?mf = "snd (mt_flush_entries (Some (eng_flush_cb cfg (ev_date env))) (mt_buffers m) fs)"
  have "?S ?mf"
    by (rule flush_entries_stored [OF assms(6,7,9,10,11)]) (use assms(4,5,8) in \<open>simp_all add: mt_ok_def mt_find_points\<close>)
  moreover have fs1: "fs1 = wal_truncate (wal_path cfg) ?mf" and e1: "eg_snapshot e1 = eg_snapshot e"
    using f w assms(3) by (auto simp: eng_flush_def mt_flush_all_def split_beta)
  moreover have "fs_wf ?mf" using \<open>?S ?mf\<close> by (auto simp: stored_def holds_file_def)
  ultimately have S1: "?S fs1"
    using stored_touches [OF touches_remove, of ?mf cfg tag "wal_path cfg" "ev_date env" points]
    by (auto simp: wal_truncate_def sp)
  have N1: "no_file fs1 (wal_path cfg)" using eng_flush_no_file [OF assms(1), of env] f by simp
  have "?S (snd (eng_close env (e, fs))) \<and> no_file (snd (eng_close env (e, fs))) (wal_path cfg)"
  proof (cases "eg_snapshot e")
    case None
    with S1 N1 w f e1 show ?thesis by (simp add: eng_close_def)
  next
    case (Some snap)
    let ?fs = "snd (ss_shutdown (ev_ser env) (ev_now env) snap fs1)"
    let ?P = "{split_path (ss_path snap), split_path (bak_path (ss_path snap))}"
    have path: "ss_path snap = sc_hot_path cfg @ ''/snapshot/snapshot.pb''" using assms(2) Some by (simp add: snapshot_placed_def)
    have t: "touches ?P fs1 ?fs" using N1 by (intro touches_shutdown) (simp_all add: no_file_def path sp)
    have "?S ?fs" by (rule stored_touches [OF t _ _ S1]) (simp_all add: path sp)
    moreover have "no_file ?fs (wal_path cfg)" by (rule no_file_touches [OF t _ N1]) (simp add: path sp)
    moreover have "snd (eng_close env (e, fs)) = ?fs" using w f e1 Some by (simp add: eng_close_def split_beta)
    ultimately show ?thesis by simp
  qed
  then show "?S (snd (eng_close env (e, fs)))" "no_file (snd (eng_close env (e, fs))) (wal_path cfg)" by simp_all
qed

section \<open>Starting again\<close>

lemma touches_wal_open:
  assumes "wal_open (wal_writer_new path) fs = (ok, w, fs')" "fs_wf fs"
  shows "touches {split_path path} fs fs'"
proof (cases "file_open path APPEND fs")
  case (Pair f fs1)
  show ?thesis
  proof (cases f)
    case None
    with Pair have "fs1 = fs" by (auto simp: file_open_def Let_def split: option.splits node.splits if_splits prod.splits)
    with Pair None assms show ?thesis by (simp add: wal_open_def wal_writer_new_def touches_refl)
  next
    case (Some h)
    with Pair assms touches_open [of path APPEND fs h fs1] show ?thesis by (simp add: wal_open_def wal_writer_new_def)
  qed
qed

lemma eng_init_stored:
  assumes "stored cfg date tag points fs" "no_file fs (wal_path cfg)" "plain_component tag" "CHR ''/'' \<notin> set date"
  shows "\<exists>e fs'. eng_init env (eng_new cfg, fs) = Inr (True, e, fs') \<and> eg_mem_table e = Some (mt_new (sc_memtable_size cfg))
    \<and> eg_config e = cfg \<and> stored cfg date tag points fs'"
proof -
  obtain r where r: "split_path (sc_hot_path cfg @ ''/tags'') = r @ [''tags'']" "split_path (wal_path cfg) = r @ [''wal'', ''wal.log'']"
    by (rule store_split)
  obtain ok w fs1 where o: "wal_open (wal_writer_new (wal_path cfg)) (eng_directories cfg fs) = (ok, w, fs1)" by (rule prod_cases3)
  have dirs: "stored cfg date tag points (eng_directories cfg fs)"
    using assms(1) by (simp add: eng_directories_def stored_directories)
  then have "fs_wf (eng_directories cfg fs)" by (auto simp: stored_def holds_file_def)
  from stored_touches [OF touches_wal_open [OF o this] _ _ dirs]
  have 1: "stored cfg date tag points fs1"
    using tag_dir_split [OF assms(3), of cfg] flush_path_split [OF assms(3,4), of cfg points] r by simp
  then have "stored cfg date tag points (snd (ss_init (ev_par env) (sc_hot_path cfg @ ''/snapshot'') ss_new fs1))"
    by (simp add: ss_init_def Let_def stored_directories)
  with eng_replay_absent [OF assms(2) o] show ?thesis by (simp add: eng_init_def Let_def eng_new_def o split_beta)
qed

text \<open>A table file that is listed is read.\<close>

lemma listed_candidates:
  assumes "is_dir fs (split_path (tag_dir cfg tag))" "map_of (fs_tree fs) (split_path (tag_dir cfg tag) @ [n]) = Some node"
    and "is_sst_name n" "eg_config e = cfg" "sst_read_file (tag_dir cfg tag @ ''/'' @ n) rng fs = Some ps"
  shows "set ps \<subseteq> set (read_candidates tag rng (e, fs))"
proof -
  let ?t = "tag_dir cfg tag" and ?c = "(split_path (tag_dir cfg tag) @ [n], node)"
  let ?es = "map (dir_entry_of ?t fs) (children fs (split_path ?t))"
  have "?c \<in> set (children fs (split_path ?t))"
    using map_of_SomeD [OF assms(2)] by (simp add: children_def)
  then have "dir_entry_of ?t fs ?c \<in> set ?es" by simp
  moreover have "de_name (dir_entry_of ?t fs ?c) = n" "de_path (dir_entry_of ?t fs ?c) = ?t @ ''/'' @ n"
    by (simp_all add: dir_entry_of_def)
  ultimately have "set ps \<subseteq> set (eng_read_files rng ?es fs)"
    using assms(3,5) unfolding eng_read_files_def by (auto intro!: bexI [of _ ?c] simp: \<open>?c \<in> set (children fs (split_path ?t))\<close>)
  moreover have "list_directory ?t fs = Some ?es" using assms(1) by (simp add: list_directory_def)
  ultimately show ?thesis using assms(4) by (auto simp: read_candidates_def)
qed

lemma stored_candidates:
  assumes "stored cfg date tag points fs" "plain_component tag" "CHR ''/'' \<notin> set date" "eg_config e = cfg"
    and "sst_read_file (flush_path cfg date tag points) rng fs = Some ps"
  shows "set ps \<subseteq> set (read_candidates tag rng (e, fs))"
proof -
  have "is_sst_name (flush_name date points)" by (simp add: flush_name_def is_sst_name_def)
  moreover have "flush_path cfg date tag points = tag_dir cfg tag @ ''/'' @ flush_name date points"
    by (simp add: flush_path_def flush_name_def)
  moreover obtain i where "map_of (fs_tree fs) (split_path (tag_dir cfg tag) @ [flush_name date points]) = Some (FileNode i)"
    using assms(1) tag_dir_split [OF assms(2), of cfg] flush_path_split [OF assms(2,3), of cfg points]
    by (auto simp: stored_def holds_file_def)
  ultimately show ?thesis using listed_candidates [of fs cfg tag] assms(1,4,5) by (simp add: stored_def)
qed

section \<open>The buffer of a run\<close>

lemma buffer_after_keys:
  "mt_ok (buffer_after n tps) \<and> fst ` set (mt_buffers (buffer_after n tps)) \<subseteq> fst ` set tps"
proof (induction tps rule: rev_induct)
  case Nil
  then show ?case by (simp add: buffer_after_def mt_new_def mt_ok_def)
next
  case (snoc tp tps)
  obtain t p where tp: "tp = (t, p)" by (cases tp)
  let ?m = "mt_add (Some (\<lambda>_ _ s. s)) t p (buffer_after n tps, ())"
  have "fst ` set (mt_buffers (fst ?m)) = insert t (fst ` set (mt_buffers (buffer_after n tps)))"
    by (simp add: mt_add_def Let_def split_beta dom_update)
  with snoc mt_add_ok [of "buffer_after n tps" "Some (\<lambda>_ _ s. s)" t p "()"] show ?case
    by (auto simp: tp buffer_after_snoc [where f = "\<lambda>_ _ s. s" and s = "()", symmetric])
qed

fun step_plain :: "engine_step \<Rightarrow> bool" where
  "step_plain (Put env tag p) = plain_component tag"
| "step_plain (Crash env) = True"

lemma run_buffer:
  assumes "eng_inv cfg ws s" "map snd ws = concat (map step_puts sts)" "list_all step_plain sts"
  obtains m where "eg_mem_table (fst s) = Some m" "mt_ok m" "\<forall>t\<in>fst ` set (mt_buffers m). plain_component t"
proof -
  have "\<forall>tp\<in>set (concat (map step_puts sts)). plain_component (fst tp)"
    using assms(3)
  proof (induction sts)
    case (Cons st sts)
    then show ?case by (cases st) auto
  qed simp
  moreover have "eg_mem_table (fst s) = Some (buffer_after (sc_memtable_size cfg) (map snd ws))"
    using assms(1) unfolding eng_inv_def by blast
  ultimately show thesis
    using that [OF _ conjunct1 [OF buffer_after_keys]] conjunct2 [OF buffer_after_keys [of "sc_memtable_size cfg" "map snd ws"]]
      assms(2) by fastforce
qed

section \<open>Properties\<close>


text \<open>Writing into a buffer that stays below the threshold leaves the directories alone.\<close>

lemma eng_write_small:
  assumes "eng_inv cfg ws s" "is_double (dp_value p)" "eg_mem_table (fst s) = Some m"
    and "tb_estimated_bytes (mt_find m tag) + sizeof_data_point + length tag < mt_flush_threshold m"
  shows "fs_tree (snd (snd (eng_write env tag p s))) = fs_tree (snd s)"
proof -
  obtain e fs where s: "s = (e, fs)" by (cases s)
  obtain i w where i: "eg_initialized e" "eg_config e = cfg" "eg_wal e = Some w" "wal_on i w fs"
    using assms(1) unfolding eng_inv_def s fst_conv snd_conv by blast
  obtain v where "p = \<lparr>dp_ts = dp_ts p, dp_value = VDouble v\<rparr>" using assms(2) by (cases p; cases "dp_value p") auto
  then obtain w1 fs1 where 1: "wal_append_write (ev_pad env) tag p w fs = (Inr True, w1, fs1)" "fs_tree fs1 = fs_tree fs"
    using wal_append_write_grows [OF i(4), of "ev_pad env" tag "dp_ts p" v] by (metis grown_def)
  show ?thesis
    using assms(3,4) i 1
    by (simp add: s eng_write_def eng_log_def eng_buffer_def eng_notify_def mt_add_def Let_def mt_check_flush_def)
qed

lemma demo_boot_dirs:
  assumes "eng_init demo_env (eng_new demo_config, demo_fs) = Inr (True, e0, fs1)"
  shows "is_dir fs1 [''h'', ''tags'']" "map_of (fs_tree fs1) [''h'', ''tags'', ''a''] = None"
    "map_of (fs_tree fs1) [''h'', ''tags'', ''a'', ''2024-01-01_0.sst''] = None"
proof -
  have c: "sc_hot_path demo_config = ''h''" "sc_cold_path demo_config = ''c''" by (simp_all add: demo_config_def)
  let ?t = "\<lambda>p. map_of (fs_tree (snd (create_directories ''h/snapshot'' (snd (snd (wal_open (wal_writer_new ''h/wal/wal.log'')
      (fold (\<lambda>d fs. snd (create_directories d fs)) [''h/meta'', ''h/tags'', ''h/wal'', ''c''] demo_fs))))))) p"
  have t: "?t [''h'', ''tags''] = Some DirNode \<and> ?t [''h'', ''tags'', ''a''] = None
      \<and> ?t [''h'', ''tags'', ''a'', ''2024-01-01_0.sst''] = None" by code_simp
  have no: "no_file demo_fs (wal_path demo_config)" by (simp add: no_file_def demo_fs_wf) (simp add: demo_fs_def)
  obtain ok w fs2 where o: "wal_open (wal_writer_new (wal_path demo_config)) (eng_directories demo_config demo_fs) = (ok, w, fs2)"
    by (rule prod_cases3)
  have "fs1 = snd (create_directories ''h/snapshot'' fs2)"
    using assms eng_replay_absent [OF no o, of demo_env] o
    by (auto simp: eng_init_def Let_def eng_new_def c ss_init_def split: prod.splits)
  moreover have "fs2 = snd (snd (wal_open (wal_writer_new ''h/wal/wal.log'')
      (fold (\<lambda>d fs. snd (create_directories d fs)) [''h/meta'', ''h/tags'', ''h/wal'', ''c''] demo_fs)))"
    using o by (simp add: wal_path_def eng_directories_def c)
  ultimately show "is_dir fs1 [''h'', ''tags'']" "map_of (fs_tree fs1) [''h'', ''tags'', ''a''] = None"
    "map_of (fs_tree fs1) [''h'', ''tags'', ''a'', ''2024-01-01_0.sst''] = None"
    using t by (simp_all only: is_dir_def simp_thms)
qed

lemma two_points_encodable: "encodable two_points"
  by (simp add: two_points_def encodable_def fits32_def)


end
