(* ===== verification/Os_Fs.thy ===== *)
theory Os_Fs
  imports File_Tree "HOL-Library.Signed_Division"
begin

text \<open>
  More of \<^verbatim>\<open>src/src/common/os/fs.cpp\<close>. \<^verbatim>\<open>RemoveAll\<close> as the code has it, a recursion over
  the entries of a directory: the depth of the tree bounds the recursion, and the result is the
  closed form \<open>remove_all\<close> of \<^verbatim>\<open>Os_File\<close>, which the components use. The shape of the tree that
  this needs is an invariant of every operation on names. At the end the conversion of Windows file
  times.
\<close>

section \<open>The recursion\<close>

text \<open>\<^verbatim>\<open>rmdir(2)\<close>.\<close>

definition fs_rmdir :: "string \<Rightarrow> fsys \<Rightarrow> bool \<times> fsys" where
  "fs_rmdir s fs =
     (let p = split_path s in
      if map_of (fs_tree fs) p = Some DirNode \<and> children fs p = [] then (True, unbind_node p fs) else (False, fs))"

text \<open>The loop over the entries does not look at the results; \<open>None\<close> is a recursion out of fuel.\<close>

fun remove_entries :: "(string \<Rightarrow> 's \<Rightarrow> (bool \<times> 's) option) \<Rightarrow> dir_entry list \<Rightarrow> 's \<Rightarrow> 's option" where
  "remove_entries rm [] fs = Some fs"
| "remove_entries rm (e # es) fs =
     (case rm (de_path e) fs of None \<Rightarrow> None | Some (_, fs) \<Rightarrow> remove_entries rm es fs)"

primrec remove_tree :: "nat \<Rightarrow> string \<Rightarrow> fsys \<Rightarrow> (bool \<times> fsys) option" where
  "remove_tree 0 = (\<lambda>s fs. None)"
| "remove_tree (Suc n) = (\<lambda>s fs.
     if \<not> fs_exists s fs then Some (True, fs)
     else if is_dir fs (split_path s) then
       (let entries = (case list_directory s fs of None \<Rightarrow> [] | Some es \<Rightarrow> es) in
        case remove_entries (remove_tree n) entries fs of
          None \<Rightarrow> None
        | Some fs \<Rightarrow> Some (fs_rmdir s fs))
     else Some (fs_remove s fs))"

section \<open>The shape of the tree\<close>

definition tree_ok :: "fsys \<Rightarrow> bool" where
  "tree_ok fs \<longleftrightarrow> distinct (map fst (fs_tree fs))
     \<and> (\<forall>q\<in>fst ` set (fs_tree fs). \<not> is_root q \<and> is_dir fs (butlast q) \<and> plain_component (last q))"

lemma bound_iff: "q \<in> fst ` set (fs_tree fs) \<longleftrightarrow> map_of (fs_tree fs) q \<noteq> None"
  by (metis map_of_eq_None_iff)

lemma tree_okD:
  assumes "tree_ok fs" "map_of (fs_tree fs) q = Some n"
  shows "\<not> is_root q" "is_dir fs (butlast q)" "plain_component (last q)"
  using assms by (auto simp: tree_ok_def bound_iff)

lemma tree_okI:
  assumes "\<And>q. map_of (fs_tree fs) q \<noteq> None \<Longrightarrow> \<not> is_root q \<and> is_dir fs (butlast q) \<and> plain_component (last q)"
    and "distinct (map fst (fs_tree fs))"
  shows "tree_ok fs"
  using assms by (simp add: tree_ok_def bound_iff)

lemma prefix_root: "prefix p q \<Longrightarrow> is_root q \<Longrightarrow> is_root p"
  by (auto simp: is_root_def prefix_Cons)

text \<open>What is above a bound name is a directory.\<close>

lemma above_bound:
  assumes "tree_ok fs" "map_of (fs_tree fs) q = Some n" "strict_prefix p q"
  shows "is_dir fs p"
  using assms(2,3)
proof (induction q arbitrary: n rule: rev_induct)
  case (snoc x q)
  have d: "is_dir fs q" using tree_okD(2) [OF assms(1) snoc.prems(1)] by simp
  have "prefix p q" using snoc.prems(2) by (auto simp: strict_prefix_def)
  show ?case
  proof (cases "p = q \<or> is_root q")
    case True
    with d \<open>prefix p q\<close> prefix_root [of p q] show ?thesis by (auto simp: is_dir_def)
  next
    case False
    with d snoc.IH [of DirNode] \<open>prefix p q\<close> show ?thesis by (simp add: is_dir_def strict_prefix_def)
  qed
qed simp

lemma child_above:
  assumes "tree_ok fs" "map_of (fs_tree fs) q = Some n" "strict_prefix p q" "p \<noteq> []"
  obtains x m where "prefix (p @ [x]) q" "map_of (fs_tree fs) (p @ [x]) = Some m" "plain_component x"
proof -
  obtain zs where zs: "q = p @ zs" "zs \<noteq> []" using assms(3) by (auto simp: strict_prefix_def prefix_def)
  then obtain x r where q: "q = p @ x # r" by (cases zs) auto
  have "\<not> is_root (p @ [x])" using assms(4) by (auto simp: is_root_def append_eq_Cons_conv)
  then have "map_of (fs_tree fs) (p @ [x]) \<noteq> None"
    using assms(2) above_bound [OF assms(1,2), of "p @ [x]"] by (cases r) (auto simp: q is_dir_def strict_prefix_def)
  then obtain m where m: "map_of (fs_tree fs) (p @ [x]) = Some m" by blast
  from tree_okD(3) [OF assms(1) m] have "plain_component x" by simp
  then show thesis using that [OF _ m] q by simp
qed

section \<open>Cutting off subtrees\<close>

definition prune :: "path list \<Rightarrow> fsys \<Rightarrow> fsys" where
  "prune ps fs = fs\<lparr>fs_tree := filter (\<lambda>(q, _). \<forall>p\<in>set ps. \<not> prefix p q) (fs_tree fs)\<rparr>"

lemma map_of_filter_keys: "map_of (filter (\<lambda>(q, _). P q) t) q = (if P q then map_of t q else None)"
  by (induction t) auto

lemma map_of_prune: "map_of (fs_tree (prune ps fs)) q = (if \<forall>p\<in>set ps. \<not> prefix p q then map_of (fs_tree fs) q else None)"
  by (simp add: prune_def map_of_filter_keys)

lemma prune_Nil [simp]: "prune [] fs = fs"
  by (simp add: prune_def)

lemma prune_Cons: "prune (p # ps) fs = prune ps (prune [p] fs)"
  by (simp add: prune_def filter_filter case_prod_unfold)

lemma prune_tree_ok:
  assumes "tree_ok fs" "\<forall>p\<in>set ps. \<not> is_root p"
  shows "tree_ok (prune ps fs)"
proof -
  have "is_dir (prune ps fs) (butlast q)" if "map_of (fs_tree (prune ps fs)) q = Some n" for q n
  proof -
    have q: "map_of (fs_tree fs) q = Some n" "\<forall>p\<in>set ps. \<not> prefix p q"
      using that by (auto simp: map_of_prune split: if_splits)
    have "prefix (butlast q) q" by (metis append_butlast_last_id butlast.simps(1) prefixI prefix_order.refl)
    then have "\<forall>p\<in>set ps. \<not> prefix p (butlast q)" using q(2) prefix_order.trans by blast
    with tree_okD(2) [OF assms(1) q(1)] show ?thesis by (simp add: is_dir_def map_of_prune)
  qed
  moreover have "map fst (fs_tree (prune ps fs)) = filter (\<lambda>q. \<forall>p\<in>set ps. \<not> prefix p q) (map fst (fs_tree fs))"
    by (simp add: prune_def filter_map case_prod_unfold comp_def)
  moreover have "map_of (fs_tree fs) q = Some n" if "map_of (fs_tree (prune ps fs)) q = Some n" for q n
    using that by (simp add: map_of_prune split: if_splits)
  then have "\<not> is_root q \<and> plain_component (last q)" if "map_of (fs_tree (prune ps fs)) q = Some n" for q n
    using that tree_okD(1,3) [OF assms(1)] by blast
  moreover have "distinct (map fst (fs_tree fs))" using assms(1) by (simp add: tree_ok_def)
  ultimately show ?thesis by (auto simp: tree_ok_def bound_iff)
qed

lemma unbind_filter: "unbind_node p fs = fs\<lparr>fs_tree := filter (\<lambda>(q, _). q \<noteq> p) (fs_tree fs)\<rparr>"
proof -
  have "AList.delete p t = filter (\<lambda>(q, _). q \<noteq> p) t" for t :: "(path \<times> node) list"
    unfolding AList.delete_eq by (rule filter_cong) auto
  then show ?thesis by (simp add: unbind_node_def)
qed

lemma remove_all_prune:
  assumes "tree_ok fs" "split_path s \<noteq> []"
  shows "remove_all s fs = (\<not> path_exists fs (split_path s) \<or> \<not> is_root (split_path s), prune [split_path s] fs)"
proof (cases "path_exists fs (split_path s)")
  case True
  then show ?thesis by (simp add: remove_all_def prune_def Let_def)
next
  case False
  have "\<not> prefix (split_path s) q" if "(q, n) \<in> set (fs_tree fs)" for q n
  proof
    assume pre: "prefix (split_path s) q"
    have "map_of (fs_tree fs) q = Some n" using that assms(1) by (simp add: tree_ok_def)
    with above_bound [OF assms(1), of q n "split_path s"] pre False show False
      by (cases "split_path s = q") (auto simp: path_exists_def is_dir_def strict_prefix_def)
  qed
  then have "filter (\<lambda>(q, _). \<not> prefix (split_path s) q) (fs_tree fs) = fs_tree fs" by (intro filter_True) auto
  then have "prune [split_path s] fs = fs" by (simp add: prune_def)
  with False show ?thesis by (simp add: remove_all_def)
qed

section \<open>The recursion computes the closed form\<close>

definition shallow :: "nat \<Rightarrow> fsys \<Rightarrow> bool" where
  "shallow k fs \<longleftrightarrow> (\<forall>q\<in>fst ` set (fs_tree fs). length q < k)"

lemma shallow_prune: "shallow k fs \<Longrightarrow> shallow k (prune ps fs)"
  by (auto simp: shallow_def prune_def)

lemma remove_entries_prune:
  assumes "\<And>s fs. \<lbrakk>tree_ok fs; split_path s \<noteq> []; shallow (length (split_path s) + n) fs\<rbrakk> \<Longrightarrow> remove_tree n s fs = Some (remove_all s fs)"
    and "s \<noteq> []" "split_path s \<noteq> []"
  shows "tree_ok fs \<Longrightarrow> shallow (Suc (length (split_path s) + n)) fs \<Longrightarrow>
    \<forall>c\<in>set cs. butlast (fst c) = split_path s \<and> plain_component (last (fst c)) \<and> fst c \<noteq> [] \<Longrightarrow>
    remove_entries (remove_tree n) (map (dir_entry_of s fs0) cs) fs = Some (prune (map fst cs) fs)"
proof (induction cs arbitrary: fs)
  case (Cons c cs)
  obtain q m where c: "c = (q, m)" by (cases c)
  have q: "split_path (s @ ''/'' @ last q) = q" "\<not> is_root q" "length q = Suc (length (split_path s))"
  proof -
    have "q = split_path s @ [last q]" using Cons.prems(3) c by (metis append_butlast_last_id fst_conv list.set_intros(1))
    then show "split_path (s @ ''/'' @ last q) = q" "length q = Suc (length (split_path s))"
      using split_path_join [OF assms(2), of "last q"] Cons.prems(3) c by (auto simp: dest: arg_cong [of _ _ length])
    then show "\<not> is_root q" using assms(3) by (auto simp: is_root_def)
  qed
  have "remove_tree n (s @ ''/'' @ last q) fs = Some (remove_all (s @ ''/'' @ last q) fs)"
    using assms(1) [of fs "s @ ''/'' @ last q"] Cons.prems(1,2) q by (auto simp: is_root_def)
  then have "remove_tree n (s @ ''/'' @ last q) fs = Some (True, prune [q] fs)"
    using remove_all_prune [OF Cons.prems(1), of "s @ ''/'' @ last q"] q by (auto simp: is_root_def)
  moreover have "tree_ok (prune [q] fs)" using prune_tree_ok [OF Cons.prems(1), of "[q]"] q(2) by simp
  moreover have "de_path (dir_entry_of s fs0 c) = s @ ''/'' @ last q" by (simp add: dir_entry_of_def c)
  ultimately show ?case
    using Cons.IH [of "prune [q] fs"] Cons.prems(2,3) shallow_prune prune_Cons [of q "map fst cs" fs] by (simp add: c)
qed simp

lemma rmdir_after_children:
  assumes "tree_ok fs" "split_path s \<noteq> []" "is_dir fs (split_path s)"
  shows "fs_rmdir s (prune (map fst (children fs (split_path s))) fs) = remove_all s fs"
proof -
  let ?p = "split_path s"
  let ?cs = "map fst (children fs ?p)"
  let ?fs = "prune ?cs fs"
  have child: "q \<in> set ?cs \<longleftrightarrow> map_of (fs_tree fs) q \<noteq> None \<and> q \<noteq> [] \<and> butlast q = ?p" for q
    using bound_iff [of q fs] by (auto simp: children_def)
  have below: "(\<exists>c\<in>set ?cs. prefix c q) \<longleftrightarrow> strict_prefix ?p q" if "map_of (fs_tree fs) q \<noteq> None" for q
  proof
    assume "\<exists>c\<in>set ?cs. prefix c q"
    then obtain c where c: "prefix c q" "c \<noteq> []" "butlast c = ?p" using child by blast
    then have "strict_prefix ?p c" by (metis append_butlast_last_id prefixI strict_prefix_def append_self_conv not_Cons_self2)
    with c(1) show "strict_prefix ?p q" by (meson prefix_order.less_le_trans)
  next
    assume "strict_prefix ?p q"
    moreover obtain n where "map_of (fs_tree fs) q = Some n" using \<open>map_of (fs_tree fs) q \<noteq> None\<close> by blast
    ultimately obtain x m where "prefix (?p @ [x]) q" "map_of (fs_tree fs) (?p @ [x]) = Some m"
      using child_above [OF assms(1) _ _ assms(2)] by metis
    then show "\<exists>c\<in>set ?cs. prefix c q" using child by (intro bexI [of _ "?p @ [x]"]) auto
  qed
  have none: "children ?fs ?p = []"
  proof -
    have False if "(q, n) \<in> set (children ?fs ?p)" for q n
    proof -
      have q: "q \<in> fst ` set (fs_tree ?fs)" "q \<noteq> []" "butlast q = ?p" using that by (force simp: children_def)+
      then have "map_of (fs_tree fs) q \<noteq> None" "\<forall>c\<in>set ?cs. \<not> prefix c q"
        by (auto simp: bound_iff map_of_prune split: if_splits)
      with q(2,3) child [of q] show False by auto
    qed
    then show ?thesis by (metis list.set_intros(1) neq_Nil_conv surj_pair)
  qed
  have node: "map_of (fs_tree ?fs) ?p = map_of (fs_tree fs) ?p"
  proof (cases "map_of (fs_tree fs) ?p = None")
    case False
    with below [of ?p] show ?thesis by (auto simp: map_of_prune)
  qed (simp add: map_of_prune)
  have tree: "filter (\<lambda>(q, _). q \<noteq> ?p) (fs_tree ?fs) = filter (\<lambda>(q, _). \<not> prefix ?p q) (fs_tree fs)"
  proof -
    have eq: "(\<forall>c\<in>set ?cs. \<not> prefix c q) \<and> q \<noteq> ?p \<longleftrightarrow> \<not> prefix ?p q" if "(q, n) \<in> set (fs_tree fs)" for q n
    proof -
      have "map_of (fs_tree fs) q \<noteq> None" using that bound_iff [of q fs] by force
      from below [OF this] show ?thesis by (auto simp: strict_prefix_def)
    qed
    have "filter (\<lambda>(q, _). (\<forall>c\<in>set ?cs. \<not> prefix c q) \<and> q \<noteq> ?p) (fs_tree fs) =
        filter (\<lambda>(q, _). \<not> prefix ?p q) (fs_tree fs)"
    proof (rule filter_cong [OF refl])
      fix x assume x: "x \<in> set (fs_tree fs)"
      obtain q n where "x = (q, n)" by (cases x)
      with eq [of q n] x show "(case x of (q, _) \<Rightarrow> (\<forall>c\<in>set ?cs. \<not> prefix c q) \<and> q \<noteq> ?p) = (case x of (q, _) \<Rightarrow> \<not> prefix ?p q)"
        by (simp only: prod.case)
    qed
    then show ?thesis by (simp add: prune_def filter_filter case_prod_unfold)
  qed
  show ?thesis
  proof (cases "is_root ?p")
    case True
    then have "map_of (fs_tree fs) ?p = None" using tree_okD(1) [OF assms(1)] by (metis option.exhaust)
    moreover from this have "fs_tree ?fs = filter (\<lambda>(q, _). q \<noteq> ?p) (fs_tree ?fs)"
      using node bound_iff [of ?p ?fs] by (intro filter_True [symmetric]) force
    ultimately show ?thesis
      using True tree node by (auto simp: fs_rmdir_def remove_all_def Let_def path_exists_def prune_def)
  next
    case False
    with assms(3) node none have "fs_rmdir s ?fs = (True, unbind_node ?p ?fs)" by (simp add: fs_rmdir_def Let_def is_dir_def)
    moreover have "unbind_node ?p ?fs = fs\<lparr>fs_tree := filter (\<lambda>(q, _). \<not> prefix ?p q) (fs_tree fs)\<rparr>"
      unfolding unbind_filter tree by (simp add: prune_def)
    ultimately show ?thesis using False assms(3) by (auto simp: remove_all_def Let_def path_exists_def is_dir_def)
  qed
qed

lemma remove_tree_closed:
  "tree_ok fs \<Longrightarrow> split_path s \<noteq> [] \<Longrightarrow> shallow (length (split_path s) + n) fs \<Longrightarrow> 0 < n \<Longrightarrow>
   remove_tree n s fs = Some (remove_all s fs)"
proof (induction n arbitrary: s fs)
  case (Suc n)
  let ?p = "split_path s"
  have s: "s \<noteq> []" using Suc.prems(2) by (auto simp: split_path_def)
  show ?case
  proof (cases "fs_exists s fs \<and> is_dir fs ?p")
    case True
    let ?cs = "children fs ?p"
    have cs: "\<forall>c\<in>set ?cs. butlast (fst c) = ?p \<and> plain_component (last (fst c)) \<and> fst c \<noteq> []"
      using Suc.prems(1) by (auto simp: children_def tree_ok_def)
    have "remove_entries (remove_tree n) (map (dir_entry_of s fs) ?cs) fs = Some (prune (map fst ?cs) fs)"
    proof (cases "n = 0")
      case True
      have "length (fst c) < Suc (length ?p)" "length (fst c) = Suc (length ?p)" if "c \<in> set ?cs" for c
      proof -
        have "fst c \<in> fst ` set (fs_tree fs)" using that by (auto simp: children_def)
        then show "length (fst c) < Suc (length ?p)" using Suc.prems(3) True unfolding shallow_def by auto
        from cs that have "fst c \<noteq> []" "butlast (fst c) = ?p" by auto
        then show "length (fst c) = Suc (length ?p)" by (metis append_butlast_last_id length_append_singleton)
      qed
      then have "set ?cs = {}" by fastforce
      then have "?cs = []" by simp
      then show ?thesis by simp
    next
      case False
      then have IH: "remove_tree n s fs = Some (remove_all s fs)"
        if "tree_ok fs" "split_path s \<noteq> []" "shallow (length (split_path s) + n) fs" for s fs
        using Suc.IH that by blast
      have "shallow (Suc (length ?p + n)) fs" using Suc.prems(3) by simp
      from remove_entries_prune [OF IH s Suc.prems(2,1) this cs] show ?thesis by blast
    qed
    with True rmdir_after_children [OF Suc.prems(1,2)] show ?thesis by (simp add: list_directory_def Let_def)
  next
    case False
    show ?thesis
    proof (cases "fs_exists s fs")
      case True
      with False obtain i where i: "map_of (fs_tree fs) ?p = Some (FileNode i)" "\<not> is_root ?p"
        by (auto simp: fs_exists_def path_exists_def is_dir_def) (metis node.exhaust)
      have "\<not> prefix ?p q \<longleftrightarrow> q \<noteq> ?p" if "(q, m) \<in> set (fs_tree fs)" for q m
      proof -
        have "map_of (fs_tree fs) q = Some m" using that Suc.prems(1) by (simp add: tree_ok_def)
        from above_bound [OF Suc.prems(1) this, of ?p] i show ?thesis by (auto simp: is_dir_def strict_prefix_def)
      qed
      then have "filter (\<lambda>(q, _). \<not> prefix ?p q) (fs_tree fs) = filter (\<lambda>(q, _). q \<noteq> ?p) (fs_tree fs)"
        by (auto intro!: filter_cong)
      with False True i show ?thesis
        by (simp add: fs_remove_def remove_all_def Let_def path_exists_def unbind_filter)
    qed (simp add: remove_all_def fs_exists_def)
  qed
qed simp

section \<open>The shape is an invariant\<close>

lemma last_split_plain:
  assumes "\<not> is_root (split_path s)"
  shows "plain_component (last (split_path s))"
proof -
  let ?cs = "filter (\<lambda>c. c \<noteq> [] \<and> c \<noteq> ''.'') (split_at (CHR ''/'') [] s)"
  have "?cs \<noteq> []"
  proof
    assume e: "?cs = []"
    have "is_root (split_path s)" unfolding split_path_def e by (simp add: is_root_def)
    with assms show False by blast
  qed
  then have "last (split_path s) = last ?cs" unfolding split_path_def by (rule last_appendR)
  moreover have "last ?cs \<in> set ?cs" using \<open>?cs \<noteq> []\<close> by (rule last_in_set)
  ultimately have l: "last (split_path s) \<in> set ?cs" by simp
  then have "last (split_path s) \<in> set (split_at (CHR ''/'') [] s)" "last (split_path s) \<noteq> []" "last (split_path s) \<noteq> ''.''"
    by (simp_all only: set_filter mem_Collect_eq not_False_eq_True)
  then show ?thesis using split_at_no_sep [of "CHR ''/''" "[]" "last (split_path s)" s] by (simp add: plain_component_def)
qed

lemma tree_ok_bind:
  assumes "tree_ok fs" "\<not> is_root p" "is_dir fs (butlast p)" "plain_component (last p)" "n = DirNode \<or> \<not> is_dir fs p"
  shows "tree_ok (bind_node p n fs)"
proof -
  have mono: "is_dir fs q \<Longrightarrow> is_dir (bind_node p n fs) q" for q
    using assms(5) by (auto simp: is_dir_def os_facts)
  have "\<not> is_root q \<and> is_dir (bind_node p n fs) (butlast q) \<and> plain_component (last q)"
    if "map_of (fs_tree (bind_node p n fs)) q \<noteq> None" for q
  proof (cases "q = p")
    case True
    then show ?thesis using assms(2-4) mono by blast
  next
    case False
    with that tree_okD [OF assms(1), of q] mono show ?thesis by (auto simp: os_facts)
  qed
  moreover have "distinct (map fst (fs_tree (bind_node p n fs)))"
    using assms(1) by (simp add: tree_ok_def bind_node_def distinct_update)
  ultimately show ?thesis by (intro tree_okI)
qed

lemma tree_ok_unbind:
  assumes "tree_ok fs" "children fs p = [] \<or> \<not> is_dir fs p"
  shows "tree_ok (unbind_node p fs)"
proof -
  have "\<not> is_root q \<and> is_dir (unbind_node p fs) (butlast q) \<and> plain_component (last q)"
    if "map_of (fs_tree (unbind_node p fs)) q \<noteq> None" for q
  proof -
    have q: "map_of (fs_tree fs) q \<noteq> None" using that by (auto simp: os_facts split: if_splits)
    then obtain n where n: "map_of (fs_tree fs) q = Some n" by blast
    have "butlast q \<noteq> p \<or> is_root p"
    proof
      show "butlast q \<noteq> p"
      proof
        assume e: "butlast q = p"
        with tree_okD [OF assms(1) n] assms(2) have "children fs p = []" by auto
        moreover have "(q, n) \<in> set (children fs p)"
          using map_of_SomeD [OF n] e tree_okD(1) [OF assms(1) n] by (auto simp: children_def is_root_def)
        ultimately show False by simp
      qed
    qed
    then show ?thesis using tree_okD [OF assms(1) n] by (auto simp: is_dir_def os_facts)
  qed
  moreover have "distinct (map fst (fs_tree (unbind_node p fs)))"
    using assms(1) by (simp add: tree_ok_def unbind_node_def distinct_delete)
  ultimately show ?thesis by (intro tree_okI)
qed

lemma tree_ok_same: "fs_tree fs' = fs_tree fs \<Longrightarrow> tree_ok fs' = tree_ok fs"
  by (simp add: tree_ok_def is_dir_def)

lemma tree_ok_mkdir: "tree_ok fs \<Longrightarrow> tree_ok (snd (mkdir s fs))"
  using tree_ok_bind [of fs "split_path s" DirNode] last_split_plain [of s]
  by (auto simp: mkdir_def Let_def path_exists_def)

lemma tree_ok_mkdir_prefixes: "tree_ok fs \<Longrightarrow> tree_ok (mkdir_prefixes cur cs fs)"
  by (induction cur cs fs rule: mkdir_prefixes.induct) (simp_all add: Let_def tree_ok_mkdir)

lemma tree_ok_file_open: "tree_ok fs \<Longrightarrow> tree_ok (snd (file_open s mode fs))"
proof -
  assume ok: "tree_ok fs"
  let ?p = "split_path s"
  let ?fs = "bind_node ?p (FileNode (fs_next fs)) (fs\<lparr>fs_next := fs_next fs + 1\<rparr>)"
  have "tree_ok ?fs" if "map_of (fs_tree fs) ?p = None" "\<not> is_root ?p" "is_dir fs (butlast ?p)"
    using that ok last_split_plain [of s] tree_ok_same [of "fs\<lparr>fs_next := fs_next fs + 1\<rparr>" fs]
    by (intro tree_ok_bind) (simp_all add: is_dir_def)
  moreover have "tree_ok (set_inode i d fs') = tree_ok fs'" for i d fs' by (rule tree_ok_same) (simp add: os_facts)
  ultimately show ?thesis using ok
    by (auto simp: file_open_def create_file_def Let_def split: option.split node.split)
qed

lemma tree_ok_create_directories: "tree_ok fs \<Longrightarrow> tree_ok (snd (create_directories s fs))"
  by (auto simp: create_directories_def split_beta tree_ok_mkdir tree_ok_mkdir_prefixes)

lemma tree_ok_remove: "tree_ok fs \<Longrightarrow> tree_ok (snd (fs_remove s fs))"
  using tree_okD(1) [of fs]
  by (auto simp: fs_remove_def Let_def is_dir_def intro!: tree_ok_unbind split: option.split node.split)

lemma tree_ok_rename:
  assumes "tree_ok fs"
  shows "tree_ok (snd (fs_rename s t fs))"
proof (cases "fs_rename s t fs")
  case (Pair ok fs')
  show ?thesis
  proof (cases "ok \<and> split_path s \<noteq> split_path t")
    case True
    then obtain i where i: "map_of (fs_tree fs) (split_path s) = Some (FileNode i)"
      "fs' = bind_node (split_path t) (FileNode i) (unbind_node (split_path s) fs)"
      "\<not> is_dir fs (split_path t)" "is_dir fs (butlast (split_path t))"
      using Pair by (auto simp: fs_rename_def Let_def split: option.splits node.splits if_splits)
    have "\<not> is_dir fs (split_path s)" using i(1) tree_okD(1) [OF assms i(1)] by (simp add: is_dir_def)
    then have "tree_ok (unbind_node (split_path s) fs)" using assms by (intro tree_ok_unbind) auto
    moreover have "\<not> is_root (split_path t)" using i(3) by (auto simp: is_dir_def)
    moreover have "is_dir (unbind_node (split_path s) fs) (butlast (split_path t))" "\<not> is_dir (unbind_node (split_path s) fs) (split_path t)"
      using i by (auto simp: is_dir_def os_facts)
    ultimately show ?thesis using Pair i(2) last_split_plain by (simp add: tree_ok_bind)
  next
    case False
    then have "fs' = fs" using Pair fs_rename_False [of s t fs fs']
      by (cases ok) (auto simp: fs_rename_def Let_def split: option.splits node.splits if_splits)
    with Pair assms show ?thesis by simp
  qed
qed

lemma tree_ok_remove_all: "tree_ok fs \<Longrightarrow> \<not> is_root (split_path s) \<Longrightarrow> tree_ok (snd (remove_all s fs))"
  using remove_all_prune [of fs s] prune_tree_ok [of fs "[split_path s]"] by (auto simp: is_root_def)

section \<open>File times\<close>

text \<open>
  \<^verbatim>\<open>detail::FileTimeToMs\<close>: the halves of a count of 100 ns since 1601, to milliseconds since
  1970, the division truncating towards zero. A count far below zero would overflow; the bound below
  keeps away from that.
\<close>

definition file_time_to_ms :: "32 word \<Rightarrow> 32 word \<Rightarrow> int" where
  "file_time_to_ms low high = (sint (word_cat high low :: 64 word) - 116444736000000000) sdiv 10000"

lemma file_time_halves: "(word_cat (ucast (drop_bit 32 q) :: 32 word) (ucast q :: 32 word) :: 64 word) = q" for q :: "64 word"
  by (rule bit_word_eqI) (auto simp: bit_word_cat_iff bit_simps)

lemma file_time_exact:
  assumes "0 \<le> ms" "ms \<le> 900000000000000" "0 \<le> rest" "rest < 10000"
    and "q = (word_of_int (116444736000000000 + ms * 10000 + rest) :: 64 word)"
  shows "file_time_to_ms (ucast q) (ucast (drop_bit 32 q)) = ms"
proof -
  have "sint q = signed_take_bit 63 (116444736000000000 + ms * 10000 + rest)"
    unfolding assms(5) sint_sbintrunc' by simp
  also have "\<dots> = 116444736000000000 + ms * 10000 + rest"
    by (rule signed_take_bit_int_eq_self) (use assms(1-4) in simp_all)
  finally have "sint q = 116444736000000000 + ms * 10000 + rest" .
  moreover have "(ms * 10000 + rest) div 10000 = ms" using assms(3,4) by simp
  ultimately show ?thesis
    using assms(1,3) by (simp add: file_time_to_ms_def file_time_halves signed_divide_int_def sgn_if algebra_simps)
qed

section \<open>Properties\<close>

text \<open>
  C40. \<^verbatim>\<open>RemoveAll\<close> terminates and removes exactly the subtree: with fuel for the depth of the
  tree the recursion over the entries ends, every name at or below the path is gone, every other name
  and the bytes of every file are left as they are, and the result is true unless the path is the root.
\<close>

theorem remove_all_removes_subtree:
  assumes "tree_ok fs" "split_path s \<noteq> []" "\<forall>q\<in>fst ` set (fs_tree fs). length q \<le> n"
  shows "remove_tree (Suc n) s fs =
    Some (\<not> path_exists fs (split_path s) \<or> \<not> is_root (split_path s),
      fs\<lparr>fs_tree := filter (\<lambda>(q, _). \<not> prefix (split_path s) q) (fs_tree fs)\<rparr>)"
proof -
  have "shallow (length (split_path s) + Suc n) fs" using assms(3) by (auto simp: shallow_def less_Suc_eq_le intro: le_trans)
  from remove_tree_closed [OF assms(1,2) this] remove_all_prune [OF assms(1,2)] show ?thesis by (simp add: prune_def)
qed

definition demo_tree :: fsys where
  "demo_tree = \<lparr>fs_tree = [([''h''], DirNode), ([''h'', ''a''], DirNode), ([''c''], DirNode), ([''h'', ''a'', ''x''], FileNode 0)],
     fs_inodes = (\<lambda>_. \<lparr>in_data = [], in_mtime = 0\<rparr>), fs_next = 1, fs_clock = 0\<rparr>"

theorem remove_all_removes_subtree_witness:
  "\<exists>fs. remove_tree 4 ''h'' demo_tree = Some (True, fs) \<and> fs_tree fs = [([''c''], DirNode)]"
proof -
  have "tree_ok demo_tree" by (simp add: tree_ok_def demo_tree_def is_root_def is_dir_def plain_component_def)
  moreover have "split_path ''h'' = [''h'']" by code_simp
  moreover have "\<forall>q\<in>fst ` set (fs_tree demo_tree). length q \<le> 3" by (simp add: demo_tree_def)
  ultimately show ?thesis
    using remove_all_removes_subtree [of demo_tree "''h''" 3] by (simp add: is_root_def eval_nat_numeral) (simp add: demo_tree_def)
qed

end
