(* ===== verification/Read_Compaction.thy ===== *)
theory Read_Compaction
  imports Restart Os_Fs
begin

text \<open>
  Reads of the engine beside the compactor, \<^verbatim>\<open>StorageEngine::ReadRaw\<close> of
  \<^verbatim>\<open>src/src/storage/engine.cpp\<close> and \<^verbatim>\<open>Compaction::CompactTag\<close> of
  \<^verbatim>\<open>compaction.cpp\<close>, which runs in a thread of its own and shares no lock with it: a whole pass
  between two reads, and a pass between the listing of a directory and the opening of its files.
\<close>

section \<open>Files that hold one batch\<close>

text \<open>What a flush and a merge write: one block. The time of its last point is not negative.\<close>

definition batch_of :: "fsys \<Rightarrow> string \<Rightarrow> data_point list \<Rightarrow> bool" where
  "batch_of fs f b \<longleftrightarrow> file_bytes fs f = Some (sst_image [bc_compress b]) \<and> b \<noteq> [] \<and> encodable b
     \<and> block_ok (bc_compress b) \<and> 0 \<le> sint (dp_ts (last b))"

lemma batch_reads_alike:
  assumes "batch_of fs f b" "file_bytes fs' g = file_bytes fs f"
  shows "sst_read_file g rng fs' = sst_read_file f rng fs"
proof -
  have "file_bytes fs f = Some (sst_image [bc_compress b])" "list_all block_ok [bc_compress b]"
    using assms(1) by (simp_all add: batch_of_def)
  with sst_read_image [of fs f] sst_read_image [of fs' g] assms(2) show ?thesis by simp
qed

text \<open>A flush leaves such a file.\<close>

lemma stored_batch:
  "stored cfg date tag points fs \<Longrightarrow> points \<noteq> [] \<Longrightarrow> encodable points \<Longrightarrow> block_ok (bc_compress points) \<Longrightarrow>
   0 \<le> sint (dp_ts (last points)) \<Longrightarrow> batch_of fs (flush_path cfg date tag points) points"
  by (auto simp: stored_def batch_of_def holds_file_def file_bytes_ino)

text \<open>A point of a batch found by a range read is found by the compactor, unless it is before 1970.\<close>

lemma batch_full_read:
  assumes "batch_of fs f b" "sst_read_file f rng fs = Some qs" "q \<in> set qs" "0 \<le> sint (dp_ts q)"
    and "sst_read_file f full_range fs = Some ps"
  shows "q \<in> set ps"
proof -
  have b: "encodable b" "b \<noteq> []" "block_ok (bc_compress b)" "file_bytes fs f = Some (sst_image [bc_compress b])"
    using assms(1) by (simp_all add: batch_of_def)
  obtain k where "\<And>rng. sst_read_file f rng fs = Some (if overlaps (batch_range b) rng
      then filter (\<lambda>p. contains rng (dp_ts p)) (map strip_point b @ map (phantom b) [0..<k]) else [])"
    using sst_image_batch [OF b(1-3)] b(4) by metis
  moreover have "sint t \<le> sint int64_max" for t :: timestamp
    using sint_lt [of t] by (simp add: int64_max_def)
  then have "overlaps (batch_range b) full_range" "contains full_range (dp_ts q)"
    using assms(1,4) by (simp_all add: batch_of_def overlaps_def batch_range_def full_range_def contains_def)
  ultimately show ?thesis using assms(2,3,5) by (auto split: if_splits)
qed

section \<open>The entries of a tag\<close>

lemma listed_entry:
  assumes "tree_ok fs" "dir \<noteq> []" "list_directory dir fs = Some es" "d \<in> set es"
  obtains n node where "de_name d = n" "de_path d = dir @ ''/'' @ n" "split_path (de_path d) = split_path dir @ [n]"
    "map_of (fs_tree fs) (split_path dir @ [n]) = Some node"
proof -
  obtain q node where q: "(q, node) \<in> set (children fs (split_path dir))" "d = dir_entry_of dir fs (q, node)"
    using assms(3,4) by (auto simp: list_directory_def Let_def split: if_splits)
  then have b: "(q, node) \<in> set (fs_tree fs)" "q = split_path dir @ [last q]"
    by (auto simp: children_def) (metis append_butlast_last_id)
  then have m: "map_of (fs_tree fs) q = Some node" using assms(1) by (simp add: tree_ok_def)
  from tree_okD(3) [OF assms(1) this] have "split_path (dir @ ''/'' @ last q) = split_path dir @ [last q]"
    using split_path_join [OF assms(2), of "last q"] by simp
  with that [of "last q" node] q(2) b(2) m show thesis by (simp add: dir_entry_of_def)
qed

lemma in_read_files:
  assumes "q \<in> set (eng_read_files rng es fs)"
  obtains d qs where "d \<in> set es" "is_sst_name (de_name d)" "sst_read_file (de_path d) rng fs = Some qs" "q \<in> set qs"
proof -
  from assms obtain d where d: "d \<in> set es" "q \<in> set (if \<not> is_sst_name (de_name d) then []
      else case sst_read_file (de_path d) rng fs of None \<Rightarrow> [] | Some points \<Rightarrow> points)"
    unfolding eng_read_files_def set_concat set_map by blast
  show thesis
    by (cases "sst_read_file (de_path d) rng fs") (use d that in \<open>auto split: if_splits\<close>)
qed

text \<open>All table files of a tag hold batches, as long as only flushes and merges wrote there.\<close>

definition batches_in :: "string \<Rightarrow> fsys \<Rightarrow> bool" where
  "batches_in dir fs \<longleftrightarrow> (\<forall>es d. list_directory dir fs = Some es \<longrightarrow> d \<in> set es \<longrightarrow> is_sst_name (de_name d) \<longrightarrow>
     (\<exists>b. batch_of fs (de_path d) b))"

text \<open>A pass over a tag whose two names are free.\<close>

definition free_pass :: "(data_point list \<Rightarrow> data_point list) \<Rightarrow> string \<Rightarrow> nat \<Rightarrow> fsys
    \<Rightarrow> (string \<times> data_point list) list \<Rightarrow> data_point list \<Rightarrow> bool" where
  "free_pass srt dir threshold fs readable points \<longleftrightarrow> compaction_input dir threshold fs = readable
     \<and> points = merge_points srt readable \<and> concat (map snd readable) \<noteq> [] \<and> can_merge dir points fs
     \<and> map_of (fs_tree fs) (split_path (merge_path dir ''merged_'' points)) = None
     \<and> map_of (fs_tree fs) (split_path (merge_path dir ''.tmp_merge_'' points)) = None"

lemma free_passD:
  assumes "free_pass srt dir threshold fs readable points"
  shows "compaction_input dir threshold fs = readable" "points = merge_points srt readable"
    "concat (map snd readable) \<noteq> []" "encodable points" "block_ok (bc_compress points)" "dir \<noteq> []"
    "can_merge dir points fs"
  using assms unfolding free_pass_def can_merge_def by blast+

lemma free_pass_listed:
  assumes "free_pass srt dir threshold fs readable points"
  obtains es where "list_directory dir fs = Some es" "readable = readable_files (small_files threshold es) fs"
  using assms by (auto simp: free_pass_def compaction_input_def Let_def split: option.splits if_splits)

lemma free_pass_name:
  assumes "free_pass srt dir threshold fs readable points"
  shows "split_path (merge_path dir ''merged_'' points) \<notin> split_path ` fst ` set readable"
proof
  assume "split_path (merge_path dir ''merged_'' points) \<in> split_path ` fst ` set readable"
  then obtain g ps where "(g, ps) \<in> set readable" "split_path g = split_path (merge_path dir ''merged_'' points)" by force
  with compaction_input_read [of dir threshold fs readable g ps] sst_read_file_some [of g full_range fs ps] assms
  show False by (auto simp: free_pass_def)
qed

lemma free_pass_result:
  assumes "free_pass srt dir threshold fs readable points"
  shows "file_bytes (compact_tag srt dir threshold fs) (merge_path dir ''merged_'' points) = Some (sst_image [bc_compress points])"
    and "split_path f \<in> insert (split_path (merge_path dir ''.tmp_merge_'' points)) (split_path ` fst ` set readable) \<Longrightarrow>
      map_of (fs_tree (compact_tag srt dir threshold fs)) (split_path f) = None"
    and "map_of (fs_tree fs) p \<noteq> None \<Longrightarrow> p \<notin> split_path ` fst ` set readable \<Longrightarrow>
      map_of (fs_tree (compact_tag srt dir threshold fs)) p = map_of (fs_tree fs) p"
    and "map_of (fs_tree fs) (split_path f) \<noteq> None \<Longrightarrow> split_path f \<notin> split_path ` fst ` set readable \<Longrightarrow>
      file_bytes (compact_tag srt dir threshold fs) f = file_bytes fs f"
proof -
  note r = compaction_result [OF free_passD(1-3,7) [OF assms] free_pass_name [OF assms]]
  have none: "map_of (fs_tree fs) (split_path (merge_path dir ''merged_'' points)) = None"
    "map_of (fs_tree fs) (split_path (merge_path dir ''.tmp_merge_'' points)) = None"
    using assms unfolding free_pass_def by blast+
  show "file_bytes (compact_tag srt dir threshold fs) (merge_path dir ''merged_'' points) = Some (sst_image [bc_compress points])"
    by (rule r(1))
  show "split_path f \<in> insert (split_path (merge_path dir ''.tmp_merge_'' points)) (split_path ` fst ` set readable) \<Longrightarrow>
      map_of (fs_tree (compact_tag srt dir threshold fs)) (split_path f) = None"
    by (rule r(2))
  show "map_of (fs_tree (compact_tag srt dir threshold fs)) p = map_of (fs_tree fs) p"
    if "map_of (fs_tree fs) p \<noteq> None" "p \<notin> split_path ` fst ` set readable"
    using that none by (intro r(3)) auto
  show "file_bytes (compact_tag srt dir threshold fs) f = file_bytes fs f"
    if "map_of (fs_tree fs) (split_path f) \<noteq> None" "split_path f \<notin> split_path ` fst ` set readable"
    using that none by (intro r(4)) auto
qed

lemma free_pass_elsewhere:
  assumes "free_pass srt dir threshold fs readable points"
    and "split_path f \<notin> insert (split_path (merge_path dir ''.tmp_merge_'' points)) (split_path ` fst ` set readable)"
    and "split_path f \<noteq> split_path (merge_path dir ''merged_'' points)"
  shows "map_of (fs_tree (compact_tag srt dir threshold fs)) (split_path f) = map_of (fs_tree fs) (split_path f)"
    and "file_bytes (compact_tag srt dir threshold fs) f = file_bytes fs f"
proof -
  note r = compaction_result [OF free_passD(1-3,7) [OF assms(1)] free_pass_name [OF assms(1)]]
  from r(3) [of "split_path f"] r(4) [of f] assms(2,3)
  show "map_of (fs_tree (compact_tag srt dir threshold fs)) (split_path f) = map_of (fs_tree fs) (split_path f)"
    "file_bytes (compact_tag srt dir threshold fs) f = file_bytes fs f" by simp_all
qed

lemma free_pass_dir:
  assumes "free_pass srt dir threshold fs readable points" "tree_ok fs"
  shows "is_dir (compact_tag srt dir threshold fs) (split_path dir)"
proof -
  obtain es where es: "list_directory dir fs = Some es" "readable = readable_files (small_files threshold es) fs"
    using free_pass_listed [OF assms(1)] .
  have dir: "dir \<noteq> []" using assms(1) by (simp add: free_pass_def can_merge_def)
  have d: "is_dir fs (split_path dir)" using es(1) by (auto simp: list_directory_def Let_def split: if_splits)
  have "split_path dir \<notin> split_path ` fst ` set readable"
  proof
    assume "split_path dir \<in> split_path ` fst ` set readable"
    then obtain e where "e \<in> set es" "split_path (de_path e) = split_path dir"
      by (auto simp: es(2) readable_files_read small_files_def)
    then show False using listed_entry [OF assms(2) dir es(1)] by (metis append_self_conv not_Cons_self2)
  qed
  with free_pass_result(3) [OF assms(1), of "split_path dir"] d show ?thesis by (auto simp: is_dir_def)
qed

text \<open>Every time that a file gave in a range is in the merged batch or still in its file.\<close>

lemma free_pass_points:
  assumes "free_pass srt dir threshold fs readable points" "sorts_by_time srt" "batch_of fs f b"
    and "split_path f \<in> split_path ` fst ` set readable"
    and "sst_read_file f rng fs = Some qs" "q \<in> set qs" "0 \<le> sint (dp_ts q)"
  shows "dp_ts q \<in> dp_ts ` set points"
proof -
  note r = free_passD [OF assms(1)]
  from assms(4) obtain x where x: "x \<in> set readable" "split_path f = split_path (fst x)" by blast
  obtain g ps where "x = (g, ps)" by (cases x)
  with x have g: "(g, ps) \<in> set readable" "split_path g = split_path f" by simp_all
  have "file_bytes fs g = file_bytes fs f" by (simp add: file_bytes_def g(2))
  from batch_reads_alike [OF assms(3) this, of full_range] compaction_input_read [OF r(1,3) g(1)]
  have "sst_read_file f full_range fs = Some ps" by simp
  from batch_full_read [OF assms(3,5-7) this] have "q \<in> set ps" .
  moreover have "ps \<in> snd ` set readable" using g(1) by (metis image_eqI snd_conv)
  ultimately have "q \<in> \<Union> (set ` snd ` set readable)" by blast
  then show ?thesis unfolding merged_points(4) [OF assms(2) r(3,2)] by (rule imageI)
qed

lemma merged_candidates:
  assumes "free_pass srt (tag_dir cfg tag) threshold fs readable points" "tree_ok fs" "sorts_by_time srt" "eg_config e = cfg"
    and "p \<in> set points" "contains rng (dp_ts p)"
  shows "strip_point p \<in> set (read_candidates tag rng (e, compact_tag srt (tag_dir cfg tag) threshold fs))"
proof -
  let ?dir = "tag_dir cfg tag"
  let ?fs' = "compact_tag srt ?dir threshold fs" and ?merged = "merge_path ?dir ''merged_'' points"
  let ?n = "''merged_'' @ to_string (sint (dp_ts (hd points))) @ ''_'' @ to_string (sint (dp_ts (last points))) @ ''.sst''"
  note r = free_passD [OF assms(1)]
  note m = merged_points [OF assms(3) r(3,2)]
  have img: "file_bytes ?fs' ?merged = Some (sst_image [bc_compress points])" by (rule free_pass_result(1) [OF assms(1)])
  obtain k where k: "\<And>rng. sst_read_file ?merged rng ?fs' = Some (if overlaps (batch_range points) rng
      then filter (\<lambda>p. contains rng (dp_ts p)) (map strip_point points @ map (phantom points) [0..<k]) else [])"
    using sst_image_batch [OF r(4) m(1) r(5)] img by metis
  have path: "?merged = ?dir @ ''/'' @ ?n" by (simp add: merge_path_def)
  have "split_path ?merged = split_path ?dir @ [?n]" using merge_path_split [of ?dir "''merged_''"] by (simp add: tag_dir_def)
  then obtain i where "map_of (fs_tree ?fs') (split_path ?dir @ [?n]) = Some (FileNode i)"
    using img by (auto simp: file_bytes_def split: option.splits node.splits)
  moreover have "is_sst_name ?n" by (simp add: is_sst_name_def)
  ultimately have "set (the (sst_read_file ?merged rng ?fs')) \<subseteq> set (read_candidates tag rng (e, ?fs'))"
    unfolding k [of rng] option.sel using listed_candidates [OF free_pass_dir [OF assms(1,2)] _ _ assms(4) k [of rng, unfolded path]] by blast
  moreover have "overlaps (batch_range points) rng" using sorted_batch_overlaps [OF m(2) assms(5,6)] .
  moreover have "strip_point p \<in> set (the (sst_read_file ?merged rng ?fs'))"
    using assms(5,6) \<open>overlaps (batch_range points) rng\<close> by (simp add: k strip_point_def)
  ultimately show ?thesis by blast
qed

section \<open>The state of a tag is an invariant\<close>

lemma tree_ok_write_blocks: "tree_ok fs \<Longrightarrow> tree_ok (snd (sst_write_blocks q bs fs))"
proof (rule sst_write_blocks_frame [of q bs fs])
  fix h fs1 assume o: "file_open q READ_WRITE fs = (Some h, fs1)" and ok: "tree_ok fs"
    and only: "only_inode (of_ino h) fs1 (snd (sst_write_blocks q bs fs))"
  from tree_ok_file_open [OF ok, of q READ_WRITE] o have "tree_ok fs1" by simp
  moreover have "fs_tree (snd (sst_write_blocks q bs fs)) = fs_tree fs1" using only by (simp add: only_inode_def)
  ultimately show "tree_ok (snd (sst_write_blocks q bs fs))" by (metis tree_ok_same)
qed simp

lemma tree_ok_remove_files: "tree_ok fs \<Longrightarrow> tree_ok (remove_files files fs)"
  by (induction files arbitrary: fs) (simp_all add: remove_files_Cons tree_ok_remove, simp add: remove_files_def)

lemma tree_ok_compact_tag:
  assumes "tree_ok fs"
  shows "tree_ok (compact_tag srt dir threshold fs)"
proof -
  let ?small = "case list_directory dir fs of None \<Rightarrow> [] | Some es \<Rightarrow> small_files threshold es"
  let ?readable = "readable_files ?small fs"
  let ?points = "merge_points srt ?readable"
  let ?tmp = "merge_path dir ''.tmp_merge_'' ?points" and ?merged = "merge_path dir ''merged_'' ?points"
  show ?thesis
  proof (cases "length ?small < 2 \<or> concat (map snd ?readable) = []")
    case True
    then have "compact_tag srt dir threshold fs = fs" unfolding compact_tag_def Let_def by argo
    with assms show ?thesis by simp
  next
    case False
    obtain ok fs1 where 1: "sst_write_blocks ?tmp [bc_compress ?points] fs = (ok, fs1)" by (metis surj_pair)
    have t1: "tree_ok fs1" using tree_ok_write_blocks [OF assms] 1 by (metis snd_conv)
    obtain ok2 fs2 where 2: "fs_rename ?tmp ?merged fs1 = (ok2, fs2)" by (metis surj_pair)
    have t2: "tree_ok fs2" using tree_ok_rename [OF t1] 2 by (metis snd_conv)
    from False have "compact_tag srt dir threshold fs =
        (if ok then if ok2 then remove_files (map fst ?readable) fs2 else snd (fs_remove ?tmp fs2) else fs1)"
      unfolding compact_tag_def Let_def 1 by (cases ok; cases ok2) (simp_all add: 2 del: concat_eq_Nil_conv)
    with t1 tree_ok_remove_files [OF t2] tree_ok_remove [OF t2] show ?thesis by simp
  qed
qed

lemma free_pass_batches:
  assumes "free_pass srt dir threshold fs readable points" "tree_ok fs" "batches_in dir fs" "sorts_by_time srt"
  shows "batches_in dir (compact_tag srt dir threshold fs)"
proof -
  let ?fs' = "compact_tag srt dir threshold fs" and ?merged = "merge_path dir ''merged_'' points"
  note r = free_passD [OF assms(1)]
  note m = merged_points [OF assms(4) r(3,2)]
  obtain es where es: "list_directory dir fs = Some es" using free_pass_listed [OF assms(1)] .
  have "last points \<in> \<Union> (set ` snd ` set readable)" using m(1,3) by (meson last_in_set subsetD)
  then obtain x where "x \<in> set readable" "last points \<in> set (snd x)" by blast
  then have "contains full_range (dp_ts (last points))"
    using compaction_input_read [OF r(1,3), of "fst x" "snd x"] sst_read_file_range [of "fst x" full_range fs "snd x"] by simp
  then have nonneg: "0 \<le> sint (dp_ts (last points))" by (simp add: contains_def full_range_def)
  have "\<exists>b. batch_of ?fs' (de_path d) b"
    if d: "list_directory dir ?fs' = Some es'" "d \<in> set es'" "is_sst_name (de_name d)" for es' d
  proof -
    obtain n node where n: "de_name d = n" "de_path d = dir @ ''/'' @ n" "split_path (de_path d) = split_path dir @ [n]"
      "map_of (fs_tree ?fs') (split_path dir @ [n]) = Some node"
      using listed_entry [OF tree_ok_compact_tag [OF assms(2)] r(6) d(1,2)] .
    show ?thesis
    proof (cases "split_path (de_path d) = split_path ?merged")
      case True
      then have "batch_of ?fs' (de_path d) points"
        using free_pass_result(1) [OF assms(1)] m(1) r(4,5) nonneg by (simp add: batch_of_def file_bytes_def)
      then show ?thesis by blast
    next
      case False
      have "split_path (de_path d) \<notin> insert (split_path (merge_path dir ''.tmp_merge_'' points)) (split_path ` fst ` set readable)"
        using free_pass_result(2) [OF assms(1), of "de_path d"] n(3,4) by auto
      then have same: "map_of (fs_tree fs) (split_path dir @ [n]) = Some node" "file_bytes ?fs' (de_path d) = file_bytes fs (de_path d)"
        using free_pass_elsewhere [OF assms(1) _ False] n(3,4) by simp_all
      let ?d = "dir_entry_of dir fs (split_path dir @ [n], node)"
      have "?d \<in> set es"
        using es map_of_SomeD [OF same(1)] by (auto simp: list_directory_def Let_def children_def split: if_splits)
      moreover have "de_path ?d = de_path d" "de_name ?d = n" by (simp_all add: dir_entry_of_def n(2))
      ultimately obtain b where "batch_of fs (de_path d) b" using assms(3) es d(3) n(1) by (metis batches_in_def)
      then show ?thesis using same(2) by (auto simp: batch_of_def)
    qed
  qed
  then show ?thesis by (auto simp: batches_in_def)
qed

section \<open>Two files of a tag\<close>

lemma demo_tag_tree:
  "tree_ok (demo_tag_fs ''a.sst'')" "is_dir (demo_tag_fs ''a.sst'') [''h'', ''tags'', ''a'']"
  by (simp_all add: tree_ok_def demo_tag_fs_def is_root_def is_dir_def plain_component_def)

lemma demo_tag_paths:
  "split_path ''h/tags/a'' = [''h'', ''tags'', ''a'']" "split_path ''h/tags/a/a.sst'' = [''h'', ''tags'', ''a'', ''a.sst'']"
  "split_path ''h/tags/a/b.sst'' = [''h'', ''tags'', ''a'', ''b.sst'']"
  "split_path ''h/tags/a/merged_0_2.sst'' = [''h'', ''tags'', ''a'', ''merged_0_2.sst'']"
  "split_path ''h/tags/a/.tmp_merge_0_2.sst'' = [''h'', ''tags'', ''a'', ''.tmp_merge_0_2.sst'']"
  by (simp_all add: split_path_def)

lemma demo_tag_node:
  "map_of (fs_tree (demo_tag_fs ''a.sst'')) [''h'', ''tags'', ''a'', n] =
    (if n = ''a.sst'' then Some (FileNode 0) else if n = ''b.sst'' then Some (FileNode 1) else None)"
  by (simp add: demo_tag_fs_def)

lemma demo_tag_pass:
  "free_pass sort_points ''h/tags/a'' 1000 (demo_tag_fs ''a.sst'')
     [(''h/tags/a/a.sst'', three_points), (''h/tags/a/b.sst'', three_points)] three_points"
  using demo_tag_input [of "''a.sst''"] demo_tag_ready [of "''a.sst''"]
  by (simp add: free_pass_def demo_tag_merge demo_tag_paths demo_tag_node) (simp add: three_points_def)

lemma demo_tag_entry:
  assumes "list_directory ''h/tags/a'' (demo_tag_fs ''a.sst'') = Some es" "d \<in> set es"
  shows "split_path (de_path d) = [''h'', ''tags'', ''a'', ''a.sst''] \<or> split_path (de_path d) = [''h'', ''tags'', ''a'', ''b.sst'']"
proof (rule listed_entry [OF demo_tag_tree(1) _ assms])
  fix n node
  assume "split_path (de_path d) = split_path ''h/tags/a'' @ [n]"
    "map_of (fs_tree (demo_tag_fs ''a.sst'')) (split_path ''h/tags/a'' @ [n]) = Some node"
  then show ?thesis by (auto simp: demo_tag_paths demo_tag_node split: if_splits)
qed simp

lemma demo_tag_batches: "batches_in ''h/tags/a'' (demo_tag_fs ''a.sst'')"
proof -
  have "\<exists>b. batch_of (demo_tag_fs ''a.sst'') (de_path d) b"
    if es: "list_directory ''h/tags/a'' (demo_tag_fs ''a.sst'') = Some es" "d \<in> set es" for es d
  proof -
    have "file_bytes (demo_tag_fs ''a.sst'') (de_path d) = Some (sst_image [bc_compress two_points])"
      using demo_tag_entry [OF es] by (auto simp: file_bytes_def demo_tag_fs_def ino_data_def)
    moreover have "two_points \<noteq> []" "0 \<le> sint (dp_ts (last two_points))" by (simp_all add: two_points_def)
    ultimately show ?thesis using two_points_encodable two_points_ok unfolding batch_of_def by blast
  qed
  then show ?thesis by (auto simp: batches_in_def)
qed

section \<open>Properties\<close>



text \<open>
  C26. But a read that is under way can miss them: it lists the directory of the tag first and opens
  the files one after the other, and when a pass of the compactor comes in between, the points of all
  files that the pass merged are missing from the result, because these files are gone and the
  merged file is not in the list; the other files are read as before.
\<close>

theorem compaction_hides_points_from_running_read:
  assumes "free_pass srt dir threshold fs readable points" "tree_ok fs" "batches_in dir fs"
    and "list_directory dir fs = Some entries"
  shows "eng_read_files rng entries (compact_tag srt dir threshold fs) =
    eng_read_files rng (filter (\<lambda>e. split_path (de_path e) \<notin> split_path ` fst ` set readable) entries) fs"
proof -
  let ?fs' = "compact_tag srt dir threshold fs"
  let ?gone = "\<lambda>e. split_path (de_path e) \<in> split_path ` fst ` set readable"
  let ?read = "\<lambda>fs e. if \<not> is_sst_name (de_name e) then [] else case sst_read_file (de_path e) rng fs of None \<Rightarrow> [] | Some ps \<Rightarrow> ps"
  note dir = free_passD(6) [OF assms(1)]
  have one: "?read ?fs' d = (if ?gone d then [] else ?read fs d)" if d: "d \<in> set entries" for d
  proof (cases "?gone d")
    case True
    then have "map_of (fs_tree ?fs') (split_path (de_path d)) = None" using free_pass_result(2) [OF assms(1)] by blast
    then have "sst_read_file (de_path d) rng ?fs' = None"
      using sst_read_file_some [of "de_path d" rng ?fs'] by (cases "sst_read_file (de_path d) rng ?fs'") auto
    with True show ?thesis by simp
  next
    case False
    obtain n node where "split_path (de_path d) = split_path dir @ [n]" "map_of (fs_tree fs) (split_path dir @ [n]) = Some node"
      using listed_entry [OF assms(2) dir assms(4) d] .
    then have "file_bytes ?fs' (de_path d) = file_bytes fs (de_path d)"
      using free_pass_result(4) [OF assms(1) _ False] by simp
    moreover have "is_sst_name (de_name d) \<Longrightarrow> \<exists>b. batch_of fs (de_path d) b"
      using assms(3,4) d by (auto simp: batches_in_def)
    ultimately have "is_sst_name (de_name d) \<Longrightarrow> sst_read_file (de_path d) rng ?fs' = sst_read_file (de_path d) rng fs"
      using batch_reads_alike by blast
    with False show ?thesis by simp
  qed
  have "concat (map (?read ?fs') entries) = concat (map (\<lambda>e. if ?gone e then [] else ?read fs e) entries)"
    by (rule arg_cong [where f = concat]) (use one in simp)
  also have "\<dots> = concat (map (?read fs) (filter (\<lambda>e. \<not> ?gone e) entries))"
    by (induction entries) simp_all
  finally show ?thesis unfolding eng_read_files_def .
qed

theorem compaction_hides_points_from_running_read_witness:
  "\<exists>entries. list_directory ''h/tags/a'' (demo_tag_fs ''a.sst'') = Some entries
    \<and> eng_read_files full_range entries (compact_tag sort_points ''h/tags/a'' 1000 (demo_tag_fs ''a.sst'')) = []"
proof -
  let ?fs = "demo_tag_fs ''a.sst''" and ?r = "[(''h/tags/a/a.sst'', three_points), (''h/tags/a/b.sst'', three_points)]"
  obtain es where es: "list_directory ''h/tags/a'' ?fs = Some es" using free_pass_listed [OF demo_tag_pass] .
  have "split_path (de_path d) \<in> split_path ` fst ` set ?r" if "d \<in> set es" for d
    using demo_tag_entry [OF es that] by (auto simp: demo_tag_paths)
  then have "filter (\<lambda>e. split_path (de_path e) \<notin> split_path ` fst ` set ?r) es = []" unfolding filter_empty_conv not_not by blast
  moreover have "eng_read_files rng [] fs = []" for rng fs by (simp add: eng_read_files_def)
  ultimately show ?thesis
    using compaction_hides_points_from_running_read [OF demo_tag_pass demo_tag_tree(1) demo_tag_batches es, of full_range] es
    by (simp only:) blast
qed

end
