(* ===== verification/Wal_Threads.thy ===== *)
theory Wal_Threads
  imports Wal "HOL-Library.Sublist" "HOL-Library.Multiset"
begin

text \<open>
  Writers of one log at the same time. The handlers of the service run in the threads of a pool and
  call \<^verbatim>\<open>StorageEngine::Write\<close> of \<^verbatim>\<open>src/src/storage/engine.cpp\<close>, which calls
  \<^verbatim>\<open>WalWriter::AppendWrite\<close> of \<^verbatim>\<open>wal.cpp\<close> on the shared writer without a lock. The system makes one
  \<^verbatim>\<open>write(2)\<close> on an append handle atomic, so a step is one \<^verbatim>\<open>WriteRaw\<close>; with a lock around
  \<^verbatim>\<open>AppendWrite\<close> a step would be a whole record.
\<close>

section \<open>Steps\<close>

text \<open>The two calls of \<^verbatim>\<open>WriteRaw\<close> that append a record.\<close>

fun record_parts :: "padding \<times> log_record \<Rightarrow> byte list list" where
  "record_parts (pad, Logged_Point tag ts v) =
     (let data = wal_payload tag ts v
      in [wal_header pad (wal_crc32 data) DATA_POINT (word_of_nat (length data)), data])"
| "record_parts (pad, Logged_Checkpoint) = [wal_header pad 0 CHECKPOINT 0]"

lemma record_parts_bytes: "concat (record_parts r) = log_bytes r"
  by (cases r rule: record_parts.cases) (simp_all add: Let_def del: wal_header.simps)

text \<open>A thread is the list of what it has still to write.\<close>

inductive part_step :: "byte list list list \<times> wal_writer \<times> fsys \<Rightarrow> byte list list list \<times> wal_writer \<times> fsys \<Rightarrow> bool" where
  write_part: "t < length ts \<Longrightarrow> ts ! t = d # ds \<Longrightarrow> wal_write_raw d w fs = (True, w', fs') \<Longrightarrow>
    part_step (ts, w, fs) (ts[t := ds], w', fs')"

inductive record_step :: "(padding \<times> string \<times> timestamp \<times> f64) list list \<times> wal_writer \<times> fsys
    \<Rightarrow> (padding \<times> string \<times> timestamp \<times> f64) list list \<times> wal_writer \<times> fsys \<Rightarrow> bool" where
  write_record: "t < length ts \<Longrightarrow> ts ! t = (pad, tag, time, v) # rs \<Longrightarrow>
    wal_append_write pad tag \<lparr>dp_ts = time, dp_value = VDouble v\<rparr> w fs = (Inr True, w', fs') \<Longrightarrow>
    record_step (ts, w, fs) (ts[t := rs], w', fs')"

definition to_log :: "padding \<times> string \<times> timestamp \<times> f64 \<Rightarrow> padding \<times> log_record" where
  "to_log r = (case r of (pad, tag, time, v) \<Rightarrow> (pad, Logged_Point tag time v))"

section \<open>Whole records\<close>

text \<open>What has been written is, at any time, an order of records that keeps the order of every thread.\<close>

lemma record_steps_log:
  assumes "record_step\<^sup>*\<^sup>* (ts, w, fs) (ts', w', fs')" "wal_on i w fs"
  shows "wal_on i w' fs' \<and> length ts' = length ts
    \<and> (\<exists>out. grown i (concat (map (log_bytes \<circ> to_log) out)) fs fs'
        \<and> mset (concat ts) = mset out + mset (concat ts')
        \<and> (\<forall>t<length ts. \<exists>mine. ts ! t = mine @ ts' ! t \<and> subseq mine out))"
  using assms(1)
proof (induction "(ts', w', fs')" arbitrary: ts' w' fs' rule: rtranclp_induct)
  case base
  then show ?case using assms(2) by (intro conjI exI [of _ "[]"]) (simp_all add: grown_refl)
next
  case (step y)
  obtain ts1 w1 fs1 where y: "y = (ts1, w1, fs1)" by (rule prod_cases3)
  from step.hyps(3) [OF y] obtain out where IH: "wal_on i w1 fs1" "length ts1 = length ts"
    "grown i (concat (map (log_bytes \<circ> to_log) out)) fs fs1" "mset (concat ts) = mset out + mset (concat ts1)"
    "\<forall>t<length ts. \<exists>mine. ts ! t = mine @ ts1 ! t \<and> subseq mine out" by blast
  from step.hyps(2) obtain t pad tag time v rs where s: "t < length ts1" "ts1 ! t = (pad, tag, time, v) # rs"
    "wal_append_write pad tag \<lparr>dp_ts = time, dp_value = VDouble v\<rparr> w1 fs1 = (Inr True, w', fs')" "ts' = ts1[t := rs]"
    unfolding y by (cases rule: record_step.cases) auto
  let ?r = "(pad, tag, time, v)"
  have a: "wal_on i w' fs'" "grown i (log_bytes (to_log ?r)) fs1 fs'"
    using wal_append_write_grows [OF IH(1), of pad tag time v] s(3) by (auto simp: to_log_def)
  have g: "grown i (concat (map (log_bytes \<circ> to_log) (out @ [?r]))) fs fs'"
    using grown_trans [OF IH(3) a(2)] by simp
  have "mset (concat ts1) = mset (concat (ts1[t := rs])) + {#?r#}"
  proof -
    have "ts1 = take t ts1 @ (?r # rs) # drop (Suc t) ts1" using id_take_nth_drop [OF s(1)] s(2) by simp
    then have "mset (concat ts1) = mset (concat (take t ts1 @ (?r # rs) # drop (Suc t) ts1))" by (rule arg_cong)
    also have "\<dots> = mset (concat (take t ts1 @ rs # drop (Suc t) ts1)) + {#?r#}" by simp
    finally show ?thesis using s(1) by (simp add: upd_conv_take_nth_drop)
  qed
  then have m: "mset (concat ts) = mset (out @ [?r]) + mset (concat ts')" using IH(4) s(4) by simp
  have "\<exists>mine. ts ! u = mine @ ts' ! u \<and> subseq mine (out @ [?r])" if u: "u < length ts" for u
  proof -
    obtain mine where mine: "ts ! u = mine @ ts1 ! u" "subseq mine out" using IH(5) u by blast
    show ?thesis
    proof (cases "u = t")
      case True
      then show ?thesis using mine s(1,2,4) by (intro exI [of _ "mine @ [?r]"]) (simp add: list_emb_append_mono)
    next
      case False
      have "subseq mine (out @ [?r])" using mine(2) by (rule subseq_order.order_trans) (simp add: subseq_rev_drop_many)
      with False show ?thesis using mine(1) s(4) by (intro exI [of _ mine]) simp
    qed
  qed
  with a(1) g m IH(2) s(4) show ?case by (intro conjI exI [of _ "out @ [?r]"]) simp_all
qed

text \<open>So with a lock the log gives every record of every thread back, each thread's in its order.\<close>

lemma locked_appends_recovered:
  assumes "record_step\<^sup>*\<^sup>* (ts, w, fs) (ts', w', fs')" "wal_on i w fs" "\<forall>rs\<in>set ts'. rs = []"
    and "file_bytes fs' path = Some (ino_data fs' i)" "ino_data fs i = concat (map log_bytes prs)"
    and "list_all (\<lambda>(_, r). log_ok r) prs" "\<forall>rs\<in>set ts. \<forall>(_, tag, _, _)\<in>set rs. length tag < 2 ^ 16"
  shows "\<exists>out. wal_read path fs' = Inr (Some (map (log_entry \<circ> snd) prs @ map (log_entry \<circ> snd \<circ> to_log) out))
    \<and> mset out = mset (concat ts) \<and> (\<forall>rs\<in>set ts. subseq rs out)"
proof -
  obtain out where d: "grown i (concat (map (log_bytes \<circ> to_log) out)) fs fs'" "length ts' = length ts"
    "mset (concat ts) = mset out + mset (concat ts')" "\<forall>t<length ts. \<exists>mine. ts ! t = mine @ ts' ! t \<and> subseq mine out"
    using record_steps_log [OF assms(1,2)] by blast
  have e: "concat ts' = []" using assms(3) by simp
  then have m: "mset out = mset (concat ts)" using d(3) by simp
  have "subseq rs out" if rs: "rs \<in> set ts" for rs
  proof -
    obtain t where t: "t < length ts" "rs = ts ! t" using rs by (auto simp: in_set_conv_nth)
    then have "ts' ! t = []" using assms(3) d(2) by simp
    with d(4) t show ?thesis by auto
  qed
  moreover have "list_all (\<lambda>pr. log_ok (snd pr)) (prs @ map to_log out)"
  proof -
    have "set out = set (concat ts)" using m by (metis set_mset_mset)
    moreover have "log_ok (snd (to_log r))" if r: "r \<in> set (concat ts)" for r
    proof -
      obtain rs where "rs \<in> set ts" "r \<in> set rs" using r by auto
      with assms(7) have "case r of (_, tag, _, _) \<Rightarrow> length tag < 2 ^ 16" by blast
      then show ?thesis by (simp add: to_log_def split: prod.splits)
    qed
    ultimately have "\<forall>r\<in>set out. log_ok (snd (to_log r))" by blast
    with assms(6) show ?thesis by (simp add: list_all_iff case_prod_unfold ball_Un)
  qed
  then have "list_all (\<lambda>(_, r). log_ok r) (prs @ map to_log out)" by (simp add: case_prod_unfold)
  then have "wal_scan (concat (map log_bytes (prs @ map to_log out)) @ []) = Inr (map (log_entry \<circ> snd) (prs @ map to_log out))"
    by (simp only: wal_scan_records wal_scan_Nil) simp
  moreover have "ino_data fs' i = concat (map log_bytes (prs @ map to_log out))"
    using d(1) assms(5) by (simp add: grown_def comp_def)
  ultimately show ?thesis using m wal_read_scan [OF assms(4)] by (intro exI [of _ "out"]) (simp add: comp_def)
qed

section \<open>Parts of records\<close>

lemma read_stops_at_mixed_parts:
  assumes "log_ok (Logged_Point tag time v)"
    and "d = wal_payload tag time v" "length d \<le> length rest" "wal_crc32 (take (length d) rest) \<noteq> wal_crc32 d"
  shows "wal_scan (wal_header pad (wal_crc32 d) DATA_POINT (word_of_nat (length d)) @ rest) = Inr []"
proof -
  have len: "length d = length tag + 18" using assms(1,2) by (simp add: length_wal_payload)
  have "unat (word_of_nat (length tag + 18) :: u32) = length tag + 18"
    unfolding unat_of_nat using assms(1) by (simp add: take_bit_nat_eq_self)
  then have n: "unat (word_of_nat (length d) :: u32) = length d" using len by simp
  let ?h = "wal_header pad (wal_crc32 d) DATA_POINT (word_of_nat (length d))"
  have "take 4 (drop 8 (?h @ rest)) = le_bytes 4 (word_of_nat (length d) :: u32)"
    "drop 12 (?h @ rest) = rest" "take 4 (?h @ rest) = le_bytes 4 (wal_crc32 d)"
    "(?h @ rest) ! 4 = wal_type_byte DATA_POINT" "12 \<le> length (?h @ rest)"
    by (simp_all add: wal_header_fields del: wal_header.simps)
  then have "wal_scan_entry (?h @ rest) = Inr None"
    using assms(3,4) n unfolding wal_scan_entry_def Let_def by (simp add: byte_facts del: wal_header.simps)
  then show ?thesis by (subst wal_scan.simps) simp
qed

lemma part_steps_write:
  assumes "wal_on i w fs" "t < length ts" "ts ! t = d # ds" "d \<noteq> []"
  obtains w' fs' where "part_step (ts, w, fs) (ts[t := ds], w', fs')" "wal_on i w' fs'" "grown i d fs fs'"
  using wal_write_raw_grows [OF assms(1,4)] write_part [OF assms(2,3)] by metis

section \<open>Properties\<close>

text \<open>
  C5. Two appends at the same time can lose each other and all that follows: there is an execution
  in which both calls of \<^verbatim>\<open>AppendWrite\<close> write all they have, each reporting success, with the two
  headers before the two payloads; the log then gives back the records that were there before and
  nothing else, unless the checksum of the first record collides with that of the bytes behind its header.
\<close>

theorem wal_unlocked_appends_lose:
  assumes "wal_on i w fs" "ino_data fs i = concat (map log_bytes prs)" "list_all (\<lambda>(_, r). log_ok r) prs"
    and "length tag < 2 ^ 16" "length tag' < 2 ^ 16" "map_of (fs_tree fs) (split_path path) = Some (FileNode i)"
    and "record_parts (pad, Logged_Point tag time v) = [h, d]" "record_parts (pad', Logged_Point tag' time' v') = [h', d']"
    and "wal_crc32 (take (length d) (h' @ d @ d')) \<noteq> wal_crc32 d"
  shows "\<exists>w' fs'. part_step\<^sup>*\<^sup>* ([[h, d], [h', d']], w, fs) ([[], []], w', fs')
    \<and> file_bytes fs' path = Some (concat (map log_bytes prs) @ h @ h' @ d @ d')
    \<and> wal_read path fs' = Inr (Some (map (log_entry \<circ> snd) prs))"
proof -
  have p: "d = wal_payload tag time v" "h = wal_header pad (wal_crc32 d) DATA_POINT (word_of_nat (length d))"
    "d' = wal_payload tag' time' v'" "h' = wal_header pad' (wal_crc32 d') DATA_POINT (word_of_nat (length d'))"
    using assms(7,8) by (auto simp: Let_def simp del: wal_header.simps)
  have "length h = 12" "length h' = 12" by (simp_all only: p(2,4) length_wal_header)
  moreover have "length d = length tag + 18" "length d' = length tag' + 18"
    using assms(4,5) by (simp_all add: p(1,3) length_wal_payload)
  ultimately have ne: "h \<noteq> []" "h' \<noteq> []" "d \<noteq> []" "d' \<noteq> []" by auto
  obtain w1 fs1 where 1: "part_step ([[h, d], [h', d']], w, fs) ([[h, d], [h', d']][0 := [d]], w1, fs1)" "wal_on i w1 fs1" "grown i h fs fs1"
    by (rule part_steps_write [OF assms(1), of 0 "[[h, d], [h', d']]" h "[d]"]) (use ne in simp_all)
  obtain w2 fs2 where 2: "part_step ([[d], [h', d']], w1, fs1) ([[d], [h', d']][1 := [d']], w2, fs2)" "wal_on i w2 fs2" "grown i h' fs1 fs2"
    by (rule part_steps_write [OF 1(2), of 1 "[[d], [h', d']]" h' "[d']"]) (use ne in simp_all)
  obtain w3 fs3 where 3: "part_step ([[d], [d']], w2, fs2) ([[d], [d']][0 := []], w3, fs3)" "wal_on i w3 fs3" "grown i d fs2 fs3"
    by (rule part_steps_write [OF 2(2), of 0 "[[d], [d']]" d "[]"]) (use ne in simp_all)
  obtain w4 fs4 where 4: "part_step ([[], [d']], w3, fs3) ([[], [d']][1 := []], w4, fs4)" "wal_on i w4 fs4" "grown i d' fs3 fs4"
    by (rule part_steps_write [OF 3(2), of 1 "[[], [d']]" d' "[]"]) (use ne in simp_all)
  have run: "part_step\<^sup>*\<^sup>* ([[h, d], [h', d']], w, fs) ([[], []], w4, fs4)"
    using 1(1) 2(1) 3(1) 4(1) by (auto intro: converse_rtranclp_into_rtranclp)
  have g: "grown i (h @ h' @ d @ d') fs fs4"
    using grown_trans [OF 1(3) grown_trans [OF 2(3) grown_trans [OF 3(3) 4(3)]]] by simp
  then have "ino_data fs4 i = concat (map log_bytes prs) @ h @ h' @ d @ d'" "map_of (fs_tree fs4) (split_path path) = Some (FileNode i)"
    using assms(2,6) by (simp_all add: grown_def)
  then have b: "file_bytes fs4 path = Some (concat (map log_bytes prs) @ h @ h' @ d @ d')" by (simp add: file_bytes_ino)
  have "wal_scan (h @ h' @ d @ d') = Inr []"
    unfolding p(2) [THEN arg_cong [where f = "\<lambda>x. x @ h' @ d @ d'"]]
    by (rule read_stops_at_mixed_parts [OF _ p(1) _ assms(9)]) (use assms(4) in simp_all)
  then have "wal_scan (concat (map log_bytes prs) @ h @ h' @ d @ d') = Inr (map (log_entry \<circ> snd) prs)"
    using wal_scan_records [OF assms(3)] by simp
  with run b wal_read_scan [OF b] show ?thesis by (intro exI [of _ w4] exI [of _ fs4]) simp
qed

theorem wal_unlocked_appends_lose_witness:
  "\<exists>w fs1 h d h' d' w' fs'. wal_open (wal_writer_new ''w'') demo_fs = (True, w, fs1)
    \<and> record_parts ((0, 0, 0), Logged_Point ''a'' 1 0) = [h, d] \<and> record_parts ((0, 0, 0), Logged_Point ''b'' 2 0) = [h', d']
    \<and> part_step\<^sup>*\<^sup>* ([[h, d], [h', d']], w, fs1) ([[], []], w', fs') \<and> wal_read ''w'' fs' = Inr (Some [])"
proof -
  obtain ok w fs1 where 1: "wal_open (wal_writer_new ''w'') demo_fs = (ok, w, fs1)" by (rule prod_cases3)
  have "fst (wal_open (wal_writer_new ''w'') demo_fs)" by code_simp
  with 1 have ok: "wal_open (wal_writer_new ''w'') demo_fs = (True, w, fs1)" by simp
  have "old_bytes demo_fs ''w'' = []" by code_simp
  then obtain i where i: "wal_on i w fs1" "ino_data fs1 i = concat (map log_bytes [])"
    "map_of (fs_tree fs1) (split_path ''w'') = Some (FileNode i)"
    using ok by (metis wal_open_on concat.simps(1) list.simps(8))
  let ?pad = "(0, 0, 0) :: padding"
  let ?d = "wal_payload ''a'' 1 0" and ?d' = "wal_payload ''b'' 2 0"
  let ?h = "wal_header ?pad (wal_crc32 ?d) DATA_POINT (word_of_nat (length ?d))"
  let ?h' = "wal_header ?pad (wal_crc32 ?d') DATA_POINT (word_of_nat (length ?d'))"
  have r: "record_parts (?pad, Logged_Point ''a'' 1 0) = [?h, ?d]" "record_parts (?pad, Logged_Point ''b'' 2 0) = [?h', ?d']"
    by (simp_all only: record_parts.simps Let_def)
  have "wal_crc32 (take (length ?d) (?h' @ ?d @ ?d')) \<noteq> wal_crc32 ?d" unfolding wal_crc32_sst by code_simp
  from wal_unlocked_appends_lose [OF i(1,2) _ _ _ i(3) r this] ok r show ?thesis by fastforce
qed

end
