(* ===== verification/Os_Windows.thy ===== *)
theory Os_Windows
  imports Os_Fs
begin

text \<open>
  The operating-system layer on its Windows branch (\<^verbatim>\<open>_WIN32\<close> in \<^verbatim>\<open>file.cpp\<close> and
  \<^verbatim>\<open>fs.cpp\<close>), over the same tree of names and inodes. What differs from POSIX is kept: a table of
  the open handles, since an open file is subject to sharing; files in use cannot be renamed or deleted;
  both separators; 32-bit lengths; a sharing mode, an access mode and a disposition instead of flags;
  directories listed by \<^verbatim>\<open>FindFirstFile\<close>; times as \<^verbatim>\<open>FILETIME\<close>. Names are
  compared as written, a drive letter is a component like others, and files have no attributes apart
  from being a directory. At the end the two branches are proved to agree where no file is in use.
\<close>

section \<open>The system\<close>

record win_handle =
  wh_ino :: nat
  wh_pos :: nat
  wh_read :: bool
  wh_write :: bool
  wh_share_read :: bool

record win_sys =
  ws_fs :: fsys
  ws_handles :: "(nat \<times> win_handle) list"
  ws_next :: nat

text \<open>Both slashes separate components.\<close>

definition slashes :: "string \<Rightarrow> string" where
  "slashes s = map (\<lambda>c. if c = CHR 0x5C then CHR ''/'' else c) s"

definition win_path :: "string \<Rightarrow> path" where
  "win_path s = split_path (slashes s)"

definition with_fs :: "win_sys \<Rightarrow> fsys \<Rightarrow> win_sys" where
  "with_fs sys fs = sys\<lparr>ws_fs := fs\<rparr>"

definition set_handle :: "nat \<Rightarrow> win_handle \<Rightarrow> win_sys \<Rightarrow> win_sys" where
  "set_handle k h sys = sys\<lparr>ws_handles := AList.update k h (ws_handles sys)\<rparr>"

text \<open>The open handles on an inode.\<close>

definition handles_on :: "nat \<Rightarrow> win_sys \<Rightarrow> win_handle list" where
  "handles_on i sys = filter (\<lambda>h. wh_ino h = i) (map snd (ws_handles sys))"

section \<open>Calls on files\<close>

datatype disposition = CREATE_ALWAYS | OPEN_ALWAYS | OPEN_EXISTING

record create_args =
  ca_read :: bool
  ca_write :: bool
  ca_share_read :: bool
  ca_disposition :: disposition

text \<open>
  The sharing rule of \<^verbatim>\<open>CreateFile\<close>: the access asked for must be shared by every open handle on the
  file, and the access that those have must be shared by the new one. Nothing in the program shares
  writing or deleting.
\<close>

definition may_share :: "create_args \<Rightarrow> win_handle \<Rightarrow> bool" where
  "may_share a h \<longleftrightarrow> (ca_read a \<longrightarrow> wh_share_read h) \<and> \<not> ca_write a
     \<and> (wh_read h \<longrightarrow> ca_share_read a) \<and> \<not> wh_write h"

definition add_handle :: "nat \<Rightarrow> create_args \<Rightarrow> win_sys \<Rightarrow> nat option \<times> win_sys" where
  "add_handle i a sys =
     (Some (ws_next sys),
      set_handle (ws_next sys)
        \<lparr>wh_ino = i, wh_pos = 0, wh_read = ca_read a, wh_write = ca_write a, wh_share_read = ca_share_read a\<rparr>
        (sys\<lparr>ws_next := ws_next sys + 1\<rparr>))"

text \<open>\<open>None\<close> is \<^verbatim>\<open>INVALID_HANDLE_VALUE\<close>.\<close>

definition create_file_a :: "string \<Rightarrow> create_args \<Rightarrow> win_sys \<Rightarrow> nat option \<times> win_sys" where
  "create_file_a s a sys =
     (let p = win_path s; fs = ws_fs sys in
      case map_of (fs_tree fs) p of
        Some DirNode \<Rightarrow> (None, sys)
      | Some (FileNode i) \<Rightarrow>
          if \<not> list_all (may_share a) (handles_on i sys) then (None, sys)
          else add_handle i a (if ca_disposition a = CREATE_ALWAYS then with_fs sys (set_inode i [] fs) else sys)
      | None \<Rightarrow>
          if ca_disposition a = OPEN_EXISTING \<or> is_root p \<or> \<not> is_dir fs (butlast p) then (None, sys)
          else case create_file p fs of (i, fs) \<Rightarrow> add_handle i a (with_fs sys fs))"

definition close_handle :: "nat \<Rightarrow> win_sys \<Rightarrow> win_sys" where
  "close_handle k sys = sys\<lparr>ws_handles := AList.delete k (ws_handles sys)\<rparr>"

definition handle_of :: "nat option \<Rightarrow> win_sys \<Rightarrow> win_handle option" where
  "handle_of f sys = (case f of None \<Rightarrow> None | Some k \<Rightarrow> map_of (ws_handles sys) k)"

definition move_to :: "nat option \<Rightarrow> nat \<Rightarrow> win_sys \<Rightarrow> win_sys" where
  "move_to f pos sys =
     (case (f, handle_of f sys) of (Some k, Some h) \<Rightarrow> set_handle k (h\<lparr>wh_pos := pos\<rparr>) sys | _ \<Rightarrow> sys)"

text \<open>\<^verbatim>\<open>WriteFile\<close>: the result, the count written and the state.\<close>

definition write_file :: "nat option \<Rightarrow> byte list \<Rightarrow> u32 \<Rightarrow> win_sys \<Rightarrow> bool \<times> nat \<times> win_sys" where
  "write_file f data n sys =
     (case handle_of f sys of
        None \<Rightarrow> (False, 0, sys)
      | Some h \<Rightarrow>
          if \<not> wh_write h then (False, 0, sys)
          else let d = take (unat n) data; fs = ws_fs sys in
            if d = [] then (True, 0, sys)
            else (True, length d, move_to f (wh_pos h + length d)
                   (with_fs sys (set_inode (wh_ino h) (overwrite (ino_data fs (wh_ino h)) (wh_pos h) d) fs))))"

text \<open>\<^verbatim>\<open>ReadFile\<close>: the result, the bytes read (the count is set in any case) and the state.\<close>

definition read_file :: "nat option \<Rightarrow> u32 \<Rightarrow> win_sys \<Rightarrow> bool \<times> byte list \<times> win_sys" where
  "read_file f n sys =
     (case handle_of f sys of
        None \<Rightarrow> (False, [], sys)
      | Some h \<Rightarrow>
          if \<not> wh_read h then (False, [], sys)
          else let got = take (unat n) (drop (wh_pos h) (ino_data (ws_fs sys) (wh_ino h)))
               in (True, got, move_to f (wh_pos h + length got) sys))"

datatype move_method = FILE_BEGIN | FILE_CURRENT | FILE_END

text \<open>\<^verbatim>\<open>SetFilePointerEx\<close>: the new position, if the call succeeds.\<close>

definition set_file_pointer :: "nat option \<Rightarrow> int \<Rightarrow> move_method \<Rightarrow> win_sys \<Rightarrow> nat option \<times> win_sys" where
  "set_file_pointer f offset meth sys =
     (case handle_of f sys of
        None \<Rightarrow> (None, sys)
      | Some h \<Rightarrow>
          let base = (case meth of FILE_BEGIN \<Rightarrow> 0 | FILE_CURRENT \<Rightarrow> int (wh_pos h)
                | FILE_END \<Rightarrow> int (length (ino_data (ws_fs sys) (wh_ino h))));
              pos = base + offset
          in if pos < 0 then (None, sys) else (Some (nat pos), move_to f (nat pos) sys))"

section \<open>os::File\<close>

text \<open>An object of the class: its handle.\<close>

type_synonym win_file = "nat option"

definition win_open_args :: "file_mode \<Rightarrow> create_args" where
  "win_open_args mode =
     (case mode of
        READ \<Rightarrow> \<lparr>ca_read = True, ca_write = False, ca_share_read = True, ca_disposition = OPEN_EXISTING\<rparr>
      | WRITE \<Rightarrow> \<lparr>ca_read = False, ca_write = True, ca_share_read = False, ca_disposition = CREATE_ALWAYS\<rparr>
      | APPEND \<Rightarrow> \<lparr>ca_read = False, ca_write = True, ca_share_read = False, ca_disposition = OPEN_ALWAYS\<rparr>
      | READ_WRITE \<Rightarrow> \<lparr>ca_read = True, ca_write = True, ca_share_read = False, ca_disposition = CREATE_ALWAYS\<rparr>)"

definition win_file_is_open :: "win_file \<Rightarrow> bool" where
  "win_file_is_open f = (f \<noteq> None)"

definition win_file_close :: "win_file \<Rightarrow> win_sys \<Rightarrow> win_file \<times> win_sys" where
  "win_file_close f sys = (case f of None \<Rightarrow> (None, sys) | Some k \<Rightarrow> (None, close_handle k sys))"

definition win_file_open :: "string \<Rightarrow> file_mode \<Rightarrow> win_file \<Rightarrow> win_sys \<Rightarrow> bool \<times> win_file \<times> win_sys" where
  "win_file_open s mode f sys =
     (let sys = (if win_file_is_open f then snd (win_file_close f sys) else sys) in
      case create_file_a s (win_open_args mode) sys of
        (None, sys) \<Rightarrow> (False, None, sys)
      | (f, sys) \<Rightarrow> (True, f, if mode = APPEND then snd (set_file_pointer f 0 FILE_END sys) else sys))"

definition win_file_write :: "byte list \<Rightarrow> win_file \<Rightarrow> win_sys \<Rightarrow> bool \<times> win_sys" where
  "win_file_write data f sys =
     (case write_file f data (word_of_nat (length data)) sys of
        (ok, written, sys) \<Rightarrow> (ok \<and> written = length data, sys))"

definition win_file_read :: "nat \<Rightarrow> win_file \<Rightarrow> win_sys \<Rightarrow> bool \<times> byte list \<times> win_sys" where
  "win_file_read len f sys = read_file f (word_of_nat len) sys"

definition win_file_seek :: "int \<Rightarrow> seek_origin \<Rightarrow> win_file \<Rightarrow> win_sys \<Rightarrow> bool \<times> win_sys" where
  "win_file_seek offset origin f sys =
     (let meth = (if origin = SEEK_CUR then FILE_CURRENT else if origin = SEEK_END then FILE_END else FILE_BEGIN)
      in case set_file_pointer f offset meth sys of (r, sys) \<Rightarrow> (r \<noteq> None, sys))"

definition win_file_tell :: "win_file \<Rightarrow> win_sys \<Rightarrow> int" where
  "win_file_tell f sys =
     (case set_file_pointer f 0 FILE_CURRENT sys of (None, _) \<Rightarrow> - 1 | (Some pos, _) \<Rightarrow> int pos)"

definition win_file_size :: "win_file \<Rightarrow> win_sys \<Rightarrow> int" where
  "win_file_size f sys =
     (case handle_of f sys of None \<Rightarrow> - 1 | Some h \<Rightarrow> int (length (ino_data (ws_fs sys) (wh_ino h))))"

text \<open>\<^verbatim>\<open>FlushFileBuffers\<close> needs a handle open for writing.\<close>

definition win_file_flush :: "win_file \<Rightarrow> win_sys \<Rightarrow> bool" where
  "win_file_flush f sys = (case handle_of f sys of None \<Rightarrow> False | Some h \<Rightarrow> wh_write h)"

text \<open>The handle stays in the table, open.\<close>

definition win_file_detach :: "win_file \<Rightarrow> win_file" where
  "win_file_detach f = None"

definition win_file_move :: "win_file \<Rightarrow> win_file \<times> win_file" where
  "win_file_move other = (other, None)"

definition win_file_move_assign :: "bool \<Rightarrow> win_file \<Rightarrow> win_file \<Rightarrow> win_sys \<Rightarrow> win_file \<times> win_file \<times> win_sys" where
  "win_file_move_assign same this other sys =
     (if \<not> same then (case win_file_close this sys of (this, sys) \<Rightarrow> (other, None, sys)) else (this, other, sys))"

section \<open>os::fs\<close>

text \<open>\<^verbatim>\<open>GetFileAttributes\<close>: \<open>None\<close> is \<^verbatim>\<open>INVALID_FILE_ATTRIBUTES\<close>, the flag says directory.\<close>

definition file_attributes :: "string \<Rightarrow> win_sys \<Rightarrow> bool option" where
  "file_attributes s sys =
     (if s = [] then None
      else if is_dir (ws_fs sys) (win_path s) then Some True
      else case map_of (fs_tree (ws_fs sys)) (win_path s) of None \<Rightarrow> None | Some _ \<Rightarrow> Some False)"

definition win_exists :: "string \<Rightarrow> win_sys \<Rightarrow> bool" where
  "win_exists s sys = (file_attributes s sys \<noteq> None)"

text \<open>\<^verbatim>\<open>CreateDirectory\<close> and its \<^verbatim>\<open>GetLastError\<close>.\<close>

definition create_directory_a :: "string \<Rightarrow> win_sys \<Rightarrow> mkdir_result \<times> win_sys" where
  "create_directory_a s sys = map_prod id (with_fs sys) (mkdir (slashes s) (ws_fs sys))"

fun win_mkdir_prefixes :: "string \<Rightarrow> string \<Rightarrow> win_sys \<Rightarrow> win_sys" where
  "win_mkdir_prefixes cur [] sys = sys"
| "win_mkdir_prefixes cur (c # cs) sys =
     (let sys' = (if (c = CHR ''/'' \<or> c = CHR 0x5C) \<and> cur \<noteq> [] then snd (create_directory_a cur sys) else sys)
      in win_mkdir_prefixes (cur @ [c]) cs sys')"

definition win_create_directories :: "string \<Rightarrow> win_sys \<Rightarrow> bool \<times> win_sys" where
  "win_create_directories s sys =
     (if s = [] then (False, sys)
      else if file_attributes s sys = Some True then (True, sys)
      else case create_directory_a s (win_mkdir_prefixes [] s sys) of (r, sys) \<Rightarrow> (r \<noteq> No_parent, sys))"

text \<open>A file with an open handle is not deleted: no handle shares deletion.\<close>

definition delete_file_a :: "string \<Rightarrow> win_sys \<Rightarrow> bool \<times> win_sys" where
  "delete_file_a s sys =
     (case map_of (fs_tree (ws_fs sys)) (win_path s) of
        Some (FileNode i) \<Rightarrow>
          if handles_on i sys \<noteq> [] then (False, sys) else (True, with_fs sys (unbind_node (win_path s) (ws_fs sys)))
      | _ \<Rightarrow> (False, sys))"

definition remove_directory_a :: "string \<Rightarrow> win_sys \<Rightarrow> bool \<times> win_sys" where
  "remove_directory_a s sys = map_prod id (with_fs sys) (fs_rmdir (slashes s) (ws_fs sys))"

definition win_remove :: "string \<Rightarrow> win_sys \<Rightarrow> bool \<times> win_sys" where
  "win_remove s sys =
     (case file_attributes s sys of
        None \<Rightarrow> (True, sys)
      | Some True \<Rightarrow> remove_directory_a s sys
      | Some False \<Rightarrow> delete_file_a s sys)"

text \<open>
  \<^verbatim>\<open>MoveFileEx\<close> with \<^verbatim>\<open>MOVEFILE_REPLACE_EXISTING\<close>: neither file may be in use, and a directory is
  not replaced. The code renames files only.
\<close>

definition win_rename :: "string \<Rightarrow> string \<Rightarrow> win_sys \<Rightarrow> bool \<times> win_sys" where
  "win_rename a b sys =
     (let p = win_path a; q = win_path b; fs = ws_fs sys in
      case map_of (fs_tree fs) p of
        Some (FileNode i) \<Rightarrow>
          if handles_on i sys \<noteq> [] \<or> is_dir fs q \<or> \<not> is_dir fs (butlast q) then (False, sys)
          else if p = q then (True, sys)
          else if (case map_of (fs_tree fs) q of Some (FileNode j) \<Rightarrow> handles_on j sys \<noteq> [] | _ \<Rightarrow> False) then (False, sys)
          else (True, with_fs sys (bind_node q (FileNode i) (unbind_node p fs)))
      | _ \<Rightarrow> (False, sys))"

text \<open>
  \<^verbatim>\<open>CopyFile\<close>, replacing: it reads the source and writes the target under the sharing rule, and the
  copy keeps the time of the last write. A file is not copied onto itself.
\<close>

definition win_copy :: "string \<Rightarrow> string \<Rightarrow> win_sys \<Rightarrow> bool \<times> win_sys" where
  "win_copy a b sys =
     (let q = win_path b; fs = ws_fs sys in
      case map_of (fs_tree fs) (win_path a) of
        Some (FileNode i) \<Rightarrow>
          if \<not> list_all (may_share (win_open_args READ)) (handles_on i sys) then (False, sys)
          else (case (case map_of (fs_tree fs) q of
                  Some DirNode \<Rightarrow> None
                | Some (FileNode j) \<Rightarrow> if j = i \<or> handles_on j sys \<noteq> [] then None else Some (j, fs)
                | None \<Rightarrow> if is_root q \<or> \<not> is_dir fs (butlast q) then None else Some (create_file q fs)) of
              None \<Rightarrow> (False, sys)
            | Some (j, fs) \<Rightarrow> (True, with_fs sys (fs\<lparr>fs_inodes := (fs_inodes fs)(j := fs_inodes fs i)\<rparr>)))
      | _ \<Rightarrow> (False, sys))"

section \<open>Listing and removing\<close>

text \<open>The 64-bit numbers that the system hands out in two halves, and the time of a write.\<close>

definition low_part :: "int \<Rightarrow> u32" where
  "low_part n = ucast (word_of_int n :: 64 word)"

definition high_part :: "int \<Rightarrow> u32" where
  "high_part n = ucast (drop_bit 32 (word_of_int n :: 64 word))"

definition quad_part :: "u32 \<Rightarrow> u32 \<Rightarrow> int" where
  "quad_part low high = sint (word_cat high low :: 64 word)"

definition win_file_time :: "int \<Rightarrow> int" where
  "win_file_time mtime = 116444736000000000 + mtime * 10000000"

record find_data =
  fd_name :: string
  fd_directory :: bool
  fd_size_low :: u32
  fd_size_high :: u32
  fd_time_low :: u32
  fd_time_high :: u32

definition find_data_of :: "fsys \<Rightarrow> path \<times> node \<Rightarrow> find_data" where
  "find_data_of fs c =
     (case c of (q, n) \<Rightarrow>
        let size = (case n of DirNode \<Rightarrow> 0 | FileNode i \<Rightarrow> int (length (ino_data fs i)));
            time = win_file_time (case n of DirNode \<Rightarrow> 0 | FileNode i \<Rightarrow> in_mtime (fs_inodes fs i))
        in \<lparr>fd_name = last q, fd_directory = (n = DirNode), fd_size_low = low_part size, fd_size_high = high_part size,
             fd_time_low = low_part time, fd_time_high = high_part time\<rparr>)"

definition dot_data :: "string \<Rightarrow> find_data" where
  "dot_data name = \<lparr>fd_name = name, fd_directory = True, fd_size_low = 0, fd_size_high = 0,
     fd_time_low = low_part (win_file_time 0), fd_time_high = high_part (win_file_time 0)\<rparr>"

text \<open>
  The results of \<^verbatim>\<open>FindFirstFile\<close> and \<^verbatim>\<open>FindNextFile\<close> for everything in a directory: the
  root of a drive has no dot entries, and a search that finds nothing fails.
\<close>

definition find_files :: "string \<Rightarrow> win_sys \<Rightarrow> find_data list option" where
  "find_files dir sys =
     (let p = win_path dir in
      if \<not> is_dir (ws_fs sys) p then None
      else let found = (if p = [''/''] then [] else [dot_data ''.'', dot_data ''..''])
             @ map (find_data_of (ws_fs sys)) (children (ws_fs sys) p)
           in if found = [] then None else Some found)"

definition is_dots :: "find_data \<Rightarrow> bool" where
  "is_dots d \<longleftrightarrow> fd_name d = ''.'' \<or> fd_name d = ''..''"

definition win_is_empty :: "string \<Rightarrow> win_sys \<Rightarrow> bool" where
  "win_is_empty s sys =
     (if \<not> win_exists s sys then True
      else case find_files (s @ ''/'') sys of None \<Rightarrow> True | Some found \<Rightarrow> list_all is_dots found)"

definition win_dir_entry :: "string \<Rightarrow> find_data \<Rightarrow> dir_entry" where
  "win_dir_entry s d =
     \<lparr>de_path = s @ [CHR 0x5C] @ fd_name d, de_name = fd_name d, de_is_directory = fd_directory d,
      de_file_size = (if fd_directory d then 0 else quad_part (fd_size_low d) (fd_size_high d)),
      de_last_write_time_ms = file_time_to_ms (fd_time_low d) (fd_time_high d)\<rparr>"

definition win_list_directory :: "string \<Rightarrow> win_sys \<Rightarrow> dir_entry list option" where
  "win_list_directory s sys =
     map_option (\<lambda>found. map (win_dir_entry s) (filter (\<lambda>d. \<not> is_dots d) found)) (find_files (s @ [CHR 0x5C]) sys)"

text \<open>The size of a directory has no meaning: the argument \<open>dir_size\<close>.\<close>

definition win_fs_file_size :: "int \<Rightarrow> string \<Rightarrow> win_sys \<Rightarrow> int" where
  "win_fs_file_size dir_size s sys =
     (case file_attributes s sys of
        None \<Rightarrow> - 1
      | Some _ \<Rightarrow>
          let size = (case map_of (fs_tree (ws_fs sys)) (win_path s) of
                Some (FileNode i) \<Rightarrow> int (length (ino_data (ws_fs sys) i)) | _ \<Rightarrow> dir_size)
          in quad_part (low_part size) (high_part size))"

definition win_last_write_time_ms :: "string \<Rightarrow> win_sys \<Rightarrow> int" where
  "win_last_write_time_ms s sys =
     (case file_attributes s sys of
        None \<Rightarrow> - 1
      | Some _ \<Rightarrow>
          let time = win_file_time (case map_of (fs_tree (ws_fs sys)) (win_path s) of
                Some (FileNode i) \<Rightarrow> in_mtime (fs_inodes (ws_fs sys) i) | _ \<Rightarrow> 0)
          in file_time_to_ms (low_part time) (high_part time))"

primrec win_remove_tree :: "nat \<Rightarrow> string \<Rightarrow> win_sys \<Rightarrow> (bool \<times> win_sys) option" where
  "win_remove_tree 0 = (\<lambda>s sys. None)"
| "win_remove_tree (Suc n) = (\<lambda>s sys.
     if \<not> win_exists s sys then Some (True, sys)
     else case file_attributes s sys of
       None \<Rightarrow> Some (True, sys)
     | Some True \<Rightarrow>
         (let entries = (case win_list_directory s sys of None \<Rightarrow> [] | Some es \<Rightarrow> es) in
          case remove_entries (win_remove_tree n) entries sys of
            None \<Rightarrow> None
          | Some sys \<Rightarrow> Some (remove_directory_a s sys))
     | Some False \<Rightarrow> Some (delete_file_a s sys))"

section \<open>Agreement with the POSIX branch\<close>

lemma ws_fs_with_fs [simp]: "ws_fs (with_fs sys fs) = fs"
  by (simp add: with_fs_def)

lemma ws_handles_with_fs [simp]: "ws_handles (with_fs sys fs) = ws_handles sys"
  by (simp add: with_fs_def)

lemma with_fs_same [simp]: "with_fs sys (ws_fs sys) = sys"
  by (simp add: with_fs_def)

lemma with_fs_twice [simp]: "with_fs (with_fs sys fs) = with_fs sys"
  by (simp add: with_fs_def fun_eq_iff)

lemma handles_on_with_fs [simp]: "handles_on i (with_fs sys fs) = handles_on i sys"
  by (simp add: handles_on_def)

lemma handles_on_idle: "ws_handles sys = [] \<Longrightarrow> handles_on i sys = []"
  by (simp add: handles_on_def)

lemma slashes_append [simp]: "slashes (s @ t) = slashes s @ slashes t"
  by (simp add: slashes_def)

lemma slashes_Nil [simp]: "slashes s = [] \<longleftrightarrow> s = []"
  by (simp add: slashes_def)

lemma slashes_sep [simp]: "slashes (CHR 0x5C # s) = CHR ''/'' # slashes s" "slashes (CHR ''/'' # s) = CHR ''/'' # slashes s"
  by (simp_all add: slashes_def)

lemma slashes_plain: "CHR 0x5C \<notin> set s \<Longrightarrow> slashes s = s"
  unfolding slashes_def by (rule map_idI) auto

lemma win_path_sep: "s \<noteq> [] \<Longrightarrow> win_path (s @ ''/'') = win_path s" "s \<noteq> [] \<Longrightarrow> win_path (s @ [CHR 0x5C]) = win_path s"
  using split_path_comps [of "slashes s" "[]"] by (simp_all add: win_path_def slashes_def comps_def)

text \<open>Names that Windows can have.\<close>

definition win_names :: "fsys \<Rightarrow> bool" where
  "win_names fs \<longleftrightarrow> (\<forall>q\<in>fst ` set (fs_tree fs). CHR 0x5C \<notin> set (last q) \<and> last q \<noteq> ''.'' \<and> last q \<noteq> ''..'')"

lemma win_exists_agrees: "s \<noteq> [] \<Longrightarrow> win_exists s sys = fs_exists (slashes s) (ws_fs sys)"
  by (auto simp: win_exists_def file_attributes_def fs_exists_def path_exists_def is_dir_def win_path_def split: option.splits)

lemma create_directory_agrees:
  "create_directory_a s sys = (fst (mkdir (slashes s) (ws_fs sys)), with_fs sys (snd (mkdir (slashes s) (ws_fs sys))))"
  by (simp add: create_directory_a_def map_prod_def split_beta)

lemma win_mkdir_prefixes_agrees:
  "win_mkdir_prefixes cur cs sys = with_fs sys (mkdir_prefixes (slashes cur) (slashes cs) (ws_fs sys))"
proof (induction cur cs sys rule: win_mkdir_prefixes.induct)
  case (2 cur c cs sys)
  define d where "d = (if c = CHR 0x5C then CHR ''/'' else c)"
  have c: "slashes (c # cs) = d # slashes cs" "slashes (cur @ [c]) = slashes cur @ [d]"
    "(c = CHR ''/'' \<or> c = CHR 0x5C) \<longleftrightarrow> d = CHR ''/''"
    by (auto simp: slashes_def d_def)
  show ?case
  proof (cases "d = CHR ''/'' \<and> cur \<noteq> []")
    case True
    with 2 [OF refl] c show ?thesis by (simp add: Let_def create_directory_agrees)
  next
    case False
    with 2 [OF refl] c show ?thesis by (auto simp: Let_def)
  qed
qed (simp add: slashes_def)

lemma is_dir_above:
  assumes "tree_ok fs" "is_dir fs q" "prefix p q"
  shows "is_dir fs p"
proof (cases "is_root q \<or> p = q")
  case True
  with assms(2,3) prefix_root show ?thesis by (auto simp: is_dir_def)
next
  case False
  with above_bound [OF assms(1), of q DirNode p] assms(2,3) show ?thesis by (simp add: is_dir_def strict_prefix_def)
qed

lemma mkdir_prefixes_existing:
  "(\<And>ys zs. cs = ys @ CHR ''/'' # zs \<Longrightarrow> cur @ ys \<noteq> [] \<Longrightarrow> path_exists fs (split_path (cur @ ys))) \<Longrightarrow>
   mkdir_prefixes cur cs fs = fs"
proof (induction cur cs fs rule: mkdir_prefixes.induct)
  case (2 cur c cs fs)
  have here: "(if c = CHR ''/'' \<and> cur \<noteq> [] then snd (mkdir cur fs) else fs) = fs"
    using 2(2) [of "[]" cs] by (auto simp: mkdir_def Let_def)
  have "path_exists fs (split_path ((cur @ [c]) @ ys))" if "cs = ys @ CHR ''/'' # zs" for ys zs
    using 2(2) [of "c # ys" zs] that by simp
  with 2(1) [OF refl] show ?case unfolding mkdir_prefixes.simps Let_def here by blast
qed simp

lemma create_directories_existing:
  assumes "tree_ok fs" "is_dir fs (split_path s)" "s \<noteq> []"
  shows "create_directories s fs = (True, fs)"
proof -
  have there: "path_exists fs (split_path s)" using assms(2) by (auto simp: is_dir_def path_exists_def)
  have "path_exists fs (split_path ys)" if "s = ys @ CHR ''/'' # zs" "ys \<noteq> []" for ys zs
  proof -
    note ys = that
    obtain xs where "split_path s = split_path ys @ xs" using split_path_below [OF ys(2), of zs] ys(1) by metis
    with is_dir_above [OF assms(1,2), of "split_path ys"] show ?thesis by (auto simp: is_dir_def path_exists_def)
  qed
  then have "mkdir_prefixes [] s fs = fs" by (intro mkdir_prefixes_existing) simp
  with there assms(3) show ?thesis by (simp add: create_directories_def mkdir_def Let_def)
qed

lemma win_create_directories_agrees:
  assumes "tree_ok (ws_fs sys)"
  shows "win_create_directories s sys = map_prod id (with_fs sys) (create_directories (slashes s) (ws_fs sys))"
proof (cases "s \<noteq> [] \<and> file_attributes s sys = Some True")
  case True
  then have "is_dir (ws_fs sys) (split_path (slashes s))"
    by (auto simp: file_attributes_def win_path_def split: if_splits option.splits)
  with create_directories_existing [OF assms this] True show ?thesis by (simp add: win_create_directories_def)
next
  case False
  have p: "win_mkdir_prefixes [] s sys = with_fs sys (mkdir_prefixes [] (slashes s) (ws_fs sys))"
    using win_mkdir_prefixes_agrees [of "[]" s sys] by (simp add: slashes_def)
  show ?thesis using False
    by (cases "s = []") (simp_all add: win_create_directories_def create_directories_def p create_directory_agrees split_beta)
qed

lemma win_remove_agrees:
  assumes "tree_ok (ws_fs sys)" "ws_handles sys = []" "s \<noteq> []"
  shows "win_remove s sys = map_prod id (with_fs sys) (fs_remove (slashes s) (ws_fs sys))"
  using tree_okD(1) [OF assms(1)] assms(2,3)
  by (auto simp: win_remove_def file_attributes_def remove_directory_a_def delete_file_a_def fs_rmdir_def fs_remove_def
      win_path_def is_dir_def handles_on_idle Let_def split: option.split node.split)

lemma win_rename_agrees:
  assumes "ws_handles sys = []"
  shows "win_rename a b sys = map_prod id (with_fs sys) (fs_rename (slashes a) (slashes b) (ws_fs sys))"
  using assms by (auto simp: win_rename_def fs_rename_def win_path_def handles_on_idle Let_def split: option.split node.split)

lemma quad_halves: "0 \<le> n \<Longrightarrow> n < 2 ^ 63 \<Longrightarrow> quad_part (low_part n) (high_part n) = n"
  unfolding quad_part_def low_part_def high_part_def file_time_halves sint_sbintrunc'
  by (rule signed_take_bit_int_eq_self) simp_all

lemma file_time_seconds:
  "0 \<le> t \<Longrightarrow> t \<le> 900000000000 \<Longrightarrow> file_time_to_ms (low_part (win_file_time t)) (high_part (win_file_time t)) = t * 1000"
  unfolding low_part_def high_part_def
  by (rule file_time_exact [of _ 0]) (simp_all add: win_file_time_def)

lemma win_last_write_time_agrees:
  assumes "s \<noteq> []" "\<not> is_root (win_path s)" "\<forall>i. 0 \<le> in_mtime (fs_inodes (ws_fs sys) i) \<and> in_mtime (fs_inodes (ws_fs sys) i) \<le> 900000000000"
  shows "win_last_write_time_ms s sys = fs_last_write_time_ms (slashes s) (ws_fs sys)"
  using assms(1,2) file_time_seconds [of 0] file_time_seconds assms(3)
  by (auto simp: win_last_write_time_ms_def fs_last_write_time_ms_def file_attributes_def is_dir_def Let_def
      simp flip: win_path_def split: option.split node.split)

text \<open>The search finds the dot entries and the children.\<close>

lemma child_not_dots: "win_names fs \<Longrightarrow> c \<in> set (children fs p) \<Longrightarrow> \<not> is_dots (find_data_of fs c)"
  by (cases c) (force simp: win_names_def children_def is_dots_def find_data_of_def Let_def)

lemma find_files_children:
  assumes "win_names (ws_fs sys)" "is_dir (ws_fs sys) (win_path dir)"
  shows "(case find_files dir sys of None \<Rightarrow> [] | Some found \<Rightarrow> filter (\<lambda>d. \<not> is_dots d) found)
    = map (find_data_of (ws_fs sys)) (children (ws_fs sys) (win_path dir))"
proof -
  have "filter (\<lambda>d. \<not> is_dots d) (map (find_data_of (ws_fs sys)) (children (ws_fs sys) (win_path dir)))
      = map (find_data_of (ws_fs sys)) (children (ws_fs sys) (win_path dir))"
    using child_not_dots [OF assms(1)] by (intro filter_True) auto
  with assms(2) show ?thesis
    by (auto simp: find_files_def Let_def is_dots_def dot_data_def)
qed

lemma win_list_directory_children:
  assumes "win_names (ws_fs sys)" "s \<noteq> []" "is_dir (ws_fs sys) (win_path s)"
  shows "(case win_list_directory s sys of None \<Rightarrow> [] | Some es \<Rightarrow> es)
    = map (\<lambda>c. win_dir_entry s (find_data_of (ws_fs sys) c)) (children (ws_fs sys) (win_path s))"
  using find_files_children [OF assms(1), of "s @ [CHR 0x5C]"] assms(2,3)
  by (auto simp: win_list_directory_def win_path_sep comp_def split: option.splits dest: arg_cong [of _ _ "map (win_dir_entry s)"])

lemma win_is_empty_agrees:
  assumes "win_names (ws_fs sys)" "s \<noteq> []"
  shows "win_is_empty s sys = fs_is_empty (slashes s) (ws_fs sys)"
proof (cases "is_dir (ws_fs sys) (win_path s)")
  case True
  let ?found = "find_files (s @ ''/'') sys"
  have p: "win_path (s @ ''/'') = win_path s" using assms(2) by (rule win_path_sep)
  have "(case ?found of None \<Rightarrow> True | Some found \<Rightarrow> list_all is_dots found)
      \<longleftrightarrow> (case ?found of None \<Rightarrow> [] | Some found \<Rightarrow> filter (\<lambda>d. \<not> is_dots d) found) = []"
    by (auto simp: filter_empty_conv list_all_iff split: option.split)
  also have "\<dots> \<longleftrightarrow> children (ws_fs sys) (win_path s) = []"
    unfolding find_files_children [OF assms(1), of "s @ ''/''", unfolded p, OF True] by simp
  finally show ?thesis using True assms(2)
    by (auto simp: win_is_empty_def fs_is_empty_def win_exists_agrees fs_exists_def path_exists_def win_path_def is_dir_def Let_def)
next
  case False
  with assms(2) show ?thesis
    by (auto simp: win_is_empty_def fs_is_empty_def win_exists_agrees fs_exists_def win_path_def find_files_def slashes_def
        split_path_comps comps_def Let_def)
qed

text \<open>The recursion.\<close>

lemma remove_entries_keys:
  assumes "\<And>s fs b fs'. rm s fs = Some (b, fs') \<Longrightarrow> set (fs_tree fs') \<subseteq> set (fs_tree fs)"
  shows "remove_entries rm es fs = Some fs' \<Longrightarrow> set (fs_tree fs') \<subseteq> set (fs_tree fs)"
  by (induction es arbitrary: fs) (auto split: option.splits dest: assms)

lemma unbind_keys: "set (fs_tree (unbind_node p fs)) \<subseteq> set (fs_tree fs)"
  by (auto simp: unbind_filter)

lemma remove_tree_keys: "remove_tree n s fs = Some (b, fs') \<Longrightarrow> set (fs_tree fs') \<subseteq> set (fs_tree fs)"
proof (induction n arbitrary: s fs b fs')
  case (Suc n)
  have rm: "set (fs_tree (snd (fs_rmdir s fs))) \<subseteq> set (fs_tree fs)" "set (fs_tree (snd (fs_remove s fs))) \<subseteq> set (fs_tree fs)" for fs
    using unbind_keys by (auto simp: fs_rmdir_def fs_remove_def Let_def split: option.split node.split)
  from Suc.prems consider "fs' = fs" | "fs' = snd (fs_remove s fs)"
    | es fs1 where "remove_entries (remove_tree n) es fs = Some fs1" "fs' = snd (fs_rmdir s fs1)"
    by (auto simp: Let_def split: if_splits option.splits)
  then show ?case
  proof cases
    case 3
    with remove_entries_keys [of "remove_tree n"] Suc.IH rm(1) show ?thesis by (metis subset_trans)
  qed (use rm in simp_all)
qed simp

lemma win_names_keys: "win_names fs \<Longrightarrow> set (fs_tree fs') \<subseteq> set (fs_tree fs) \<Longrightarrow> win_names fs'"
  unfolding win_names_def by blast

lemma remove_entries_agree:
  assumes "\<And>s sys. ws_handles sys = [] \<Longrightarrow> win_names (ws_fs sys) \<Longrightarrow> s \<noteq> [] \<Longrightarrow>
      rmw s sys = map_option (map_prod id (with_fs sys)) (remove_tree n (slashes s) (ws_fs sys))"
  shows "ws_handles sys = [] \<Longrightarrow> win_names (ws_fs sys) \<Longrightarrow>
    list_all2 (\<lambda>w e. slashes (de_path w) = de_path e \<and> de_path w \<noteq> []) es es' \<Longrightarrow>
    remove_entries rmw es sys = map_option (with_fs sys) (remove_entries (remove_tree n) es' (ws_fs sys))"
proof (induction es arbitrary: es' sys)
  case (Cons w es)
  then obtain e r where es': "es' = e # r" "slashes (de_path w) = de_path e" "de_path w \<noteq> []"
    "list_all2 (\<lambda>w e. slashes (de_path w) = de_path e \<and> de_path w \<noteq> []) es r"
    by (auto simp: list_all2_Cons1)
  note one = assms [OF Cons.prems(1,2) es'(3), unfolded es'(2)]
  show ?case
  proof (cases "remove_tree n (de_path e) (ws_fs sys)")
    case None
    with one es'(1) show ?thesis by simp
  next
    case (Some x)
    obtain b fs' where x: "x = (b, fs')" by (cases x)
    have "win_names fs'" using win_names_keys [OF Cons.prems(2) remove_tree_keys] Some x by blast
    with Cons.IH [of "with_fs sys fs'" r] Cons.prems(1) es'(4) one Some x es'(1) show ?thesis
      by (simp add: option.map_comp comp_def)
  qed
qed simp

lemma win_remove_tree_agrees:
  "ws_handles sys = [] \<Longrightarrow> win_names (ws_fs sys) \<Longrightarrow> s \<noteq> [] \<Longrightarrow>
   win_remove_tree n s sys = map_option (map_prod id (with_fs sys)) (remove_tree n (slashes s) (ws_fs sys))"
proof (induction n arbitrary: s sys)
  case (Suc n)
  let ?fs = "ws_fs sys"
  note ex = win_exists_agrees [OF Suc.prems(3), of sys]
  show ?case
  proof (cases "is_dir ?fs (win_path s)")
    case True
    let ?cs = "children ?fs (win_path s)"
    let ?es = "map (\<lambda>c. win_dir_entry s (find_data_of ?fs c)) ?cs"
    have there: "fs_exists (slashes s) ?fs" using True by (auto simp: fs_exists_def path_exists_def is_dir_def win_path_def)
    have name: "CHR 0x5C \<notin> set (last (fst c))" if "c \<in> set ?cs" for c
    proof -
      have "fst c \<in> fst ` set (fs_tree ?fs)" using that by (auto simp: children_def)
      with Suc.prems(2) show ?thesis unfolding win_names_def by blast
    qed
    have "list_all2 (\<lambda>w e. slashes (de_path w) = de_path e \<and> de_path w \<noteq> []) ?es (map (dir_entry_of (slashes s) ?fs) ?cs)"
      using Suc.prems(3) slashes_plain [OF name]
      by (auto simp: list_all2_conv_all_nth win_dir_entry_def find_data_of_def dir_entry_of_def Let_def split_beta)
    from remove_entries_agree [OF Suc.IH Suc.prems(1,2) this] have
      es: "remove_entries (win_remove_tree n) ?es sys
        = map_option (with_fs sys) (remove_entries (remove_tree n) (map (dir_entry_of (slashes s) ?fs) ?cs) ?fs)" by blast
    have attr: "file_attributes s sys = Some True" using True Suc.prems(3) by (simp add: file_attributes_def)
    show ?thesis using True there ex attr
      by (simp add: Let_def win_list_directory_children [OF Suc.prems(2,3) True] es list_directory_def remove_directory_a_def
          option.map_comp comp_def id_def flip: win_path_def split: option.split)
  next
    case False
    then show ?thesis using Suc.prems(1,3) ex
      by (auto simp: file_attributes_def fs_exists_def path_exists_def delete_file_a_def fs_remove_def handles_on_idle is_dir_def Let_def
          simp flip: win_path_def split: option.splits node.splits)
  qed
qed simp

text \<open>All of it, for a system in which no file is open.\<close>

lemma windows_fs_agrees:
  fixes sys :: win_sys and s t :: string
  defines "fs \<equiv> ws_fs sys" and "lift \<equiv> map_prod id (with_fs sys)"
  assumes "ws_handles sys = []" "tree_ok fs" "win_names fs" "s \<noteq> []"
  shows "win_exists s sys = fs_exists (slashes s) fs"
    and "win_create_directories s sys = lift (create_directories (slashes s) fs)"
    and "win_remove s sys = lift (fs_remove (slashes s) fs)"
    and "win_rename s t sys = lift (fs_rename (slashes s) (slashes t) fs)"
    and "win_is_empty s sys = fs_is_empty (slashes s) fs"
    and "win_remove_tree n s sys = map_option lift (remove_tree n (slashes s) fs)"
  using assms(3-6) unfolding fs_def lift_def
  by (simp_all add: win_exists_agrees win_create_directories_agrees win_remove_agrees win_rename_agrees win_is_empty_agrees
      win_remove_tree_agrees)

section \<open>Files in use\<close>

text \<open>A file that a handle without sharing is open on, and what the calls do to it by any spelling of its name.\<close>

definition held :: "string \<Rightarrow> win_sys \<Rightarrow> bool" where
  "held s sys \<longleftrightarrow> (\<exists>i. map_of (fs_tree (ws_fs sys)) (win_path s) = Some (FileNode i)
     \<and> (\<exists>h\<in>set (handles_on i sys). wh_write h))"

lemma add_handle_held:
  assumes "add_handle i a sys = (f, sys')" "ca_write a"
  shows "ws_fs sys' = ws_fs sys" "\<exists>h\<in>set (handles_on i sys'). wh_write h" "f = Some (ws_next sys)"
proof -
  have sys': "ws_handles sys' = AList.update (ws_next sys)
      \<lparr>wh_ino = i, wh_pos = 0, wh_read = ca_read a, wh_write = True, wh_share_read = ca_share_read a\<rparr> (ws_handles sys)"
    "ws_fs sys' = ws_fs sys"
    using assms by (auto simp: add_handle_def set_handle_def)
  then have "map_of (ws_handles sys') (ws_next sys) =
      Some \<lparr>wh_ino = i, wh_pos = 0, wh_read = ca_read a, wh_write = True, wh_share_read = ca_share_read a\<rparr>"
    by (simp add: update_conv')
  then show "\<exists>h\<in>set (handles_on i sys'). wh_write h"
    by (force simp: handles_on_def dest!: map_of_SomeD)
  show "ws_fs sys' = ws_fs sys" "f = Some (ws_next sys)" using sys'(2) assms by (auto simp: add_handle_def)
qed

lemma update_keeps:
  "(k0, h0) \<in> set xs \<Longrightarrow> map_of xs k = Some h \<Longrightarrow> (k0, h0) \<in> set (AList.update k v xs) \<or> h0 = h \<and> (k, v) \<in> set (AList.update k v xs)"
  by (induction xs) (auto split: if_splits)

lemma held_move_to:
  assumes "held s sys"
  shows "held s (move_to f pos sys)"
proof (cases "\<exists>k h. f = Some k \<and> handle_of f sys = Some h")
  case True
  then obtain k h where k: "f = Some k" "map_of (ws_handles sys) k = Some h" by (auto simp: handle_of_def)
  obtain i h0 k0 where h0: "map_of (fs_tree (ws_fs sys)) (win_path s) = Some (FileNode i)" "(k0, h0) \<in> set (ws_handles sys)"
    "wh_ino h0 = i" "wh_write h0"
    using assms by (auto simp: held_def handles_on_def)
  have m: "ws_handles (move_to f pos sys) = AList.update k (h\<lparr>wh_pos := pos\<rparr>) (ws_handles sys)"
    "ws_fs (move_to f pos sys) = ws_fs sys"
    using k by (simp_all add: move_to_def handle_of_def set_handle_def)
  have "\<exists>h\<in>snd ` set (ws_handles (move_to f pos sys)). wh_ino h = i \<and> wh_write h"
    unfolding m using update_keeps [OF h0(2) k(2), of "h\<lparr>wh_pos := pos\<rparr>"] h0(3,4) by (elim disjE) force+
  then show ?thesis using h0(1) m(2) by (auto simp: held_def handles_on_def)
next
  case False
  then have "move_to f pos sys = sys" by (auto simp: move_to_def split: option.split)
  with assms show ?thesis by simp
qed

lemma win_open_args_simps [simp]:
  "ca_read (win_open_args READ)" "ca_write (win_open_args mode) \<longleftrightarrow> mode \<noteq> READ"
  "ca_disposition (win_open_args READ) = OPEN_EXISTING" "ca_disposition (win_open_args APPEND) = OPEN_ALWAYS"
  by (cases mode; simp add: win_open_args_def)+

lemma create_file_held:
  assumes "create_file_a s a sys = (Some k, sys')" "ca_write a"
  shows "held s sys'"
proof -
  obtain i sys1 where "add_handle i a sys1 = (Some k, sys')" "map_of (fs_tree (ws_fs sys1)) (win_path s) = Some (FileNode i)"
    using assms(1)
    by (auto simp: create_file_a_def create_file_def Let_def os_facts split: option.splits node.splits if_splits)
  with add_handle_held(1,2) [OF _ assms(2)] show ?thesis unfolding held_def by metis
qed

text \<open>Writing, appending and updating hold the file; a file that is held cannot be opened again in any mode.\<close>

lemma win_open_held:
  assumes "win_file_open s mode f sys = (True, g, sys')" "mode \<noteq> READ"
  shows "held s sys'"
proof -
  let ?sys = "if win_file_is_open f then snd (win_file_close f sys) else sys"
  obtain h sys1 where c: "create_file_a s (win_open_args mode) ?sys = (h, sys1)" by (metis surj_pair)
  with assms have h: "h \<noteq> None" "sys' = (if mode = APPEND then snd (set_file_pointer h 0 FILE_END sys1) else sys1)"
    by (auto simp: win_file_open_def Let_def split: option.splits prod.splits)
  then obtain k where "h = Some k" by blast
  with c assms(2) have "held s sys1" using create_file_held by simp
  moreover from this have "held s (snd (set_file_pointer h 0 FILE_END sys1))"
    by (auto simp: set_file_pointer_def Let_def held_move_to split: option.split)
  ultimately show ?thesis using h(2) by simp
qed

lemma win_open_of_held: "held s sys \<Longrightarrow> win_file_open s mode None sys = (False, None, sys)"
  by (auto simp: held_def win_file_open_def win_file_is_open_def create_file_a_def may_share_def list_all_iff Let_def)

lemma win_remove_of_held: "held s sys \<Longrightarrow> s \<noteq> [] \<Longrightarrow> win_remove s sys = (False, sys)"
  by (auto simp: held_def win_remove_def file_attributes_def delete_file_a_def remove_directory_a_def fs_rmdir_def
      win_path_def Let_def split: option.split if_splits)

lemma win_rename_of_held: "held a sys \<or> held b sys \<and> win_path a \<noteq> win_path b \<Longrightarrow> win_rename a b sys = (False, sys)"
  by (auto simp: held_def win_rename_def Let_def split: option.splits node.splits)

lemma win_copy_of_held: "held a sys \<or> held b sys \<Longrightarrow> win_copy a b sys = (False, sys)"
  by (auto simp: held_def win_copy_def may_share_def list_all_iff Let_def split: option.splits node.splits)

lemma win_exists_of_held: "held s sys \<Longrightarrow> s \<noteq> [] \<Longrightarrow> win_exists s sys"
  by (auto simp: held_def win_exists_def file_attributes_def)

text \<open>Opening for appending keeps the bytes of every file.\<close>

lemma win_append_bytes:
  assumes "win_file_open s APPEND None sys = (ok, g, sys')" "file_at (ws_fs sys) p = Some d" "fs_wf (ws_fs sys)"
  shows "file_at (ws_fs sys') p = Some d"
proof -
  have fresh: "i \<noteq> fs_next (ws_fs sys)" if "map_of (fs_tree (ws_fs sys)) q = Some (FileNode i)" for q i
    using that assms(3) by (auto simp: fs_wf_def)
  have same: "ws_fs (snd (set_file_pointer h z meth sys1)) = ws_fs sys1" for h z meth sys1
    by (auto simp: set_file_pointer_def move_to_def set_handle_def Let_def split: option.split)
  have ino: "ino_data (fs\<lparr>fs_next := n\<rparr>) = ino_data fs" for fs n by (simp add: ino_data_def fun_eq_iff)
  show ?thesis using assms(1,2)
    by (auto simp: win_file_open_def win_file_is_open_def create_file_a_def add_handle_def set_handle_def same create_file_def
        file_at_Some os_facts ino Let_def dest: fresh split: option.splits node.splits if_splits)
qed

section \<open>Reading through a handle\<close>

text \<open>A handle open for reading as a handle of the POSIX model: same bytes and positions for lengths below \<open>2\<^sup>3\<^sup>2\<close>.\<close>

definition win_view :: "win_file \<Rightarrow> win_sys \<Rightarrow> os_file" where
  "win_view f sys = map_option (\<lambda>h. \<lparr>of_ino = wh_ino h, of_pos = wh_pos h, of_mode = READ\<rparr>) (handle_of f sys)"

lemma win_read_view:
  assumes "handle_of f sys = Some h" "wh_read h" "len < 2 ^ 32"
  shows "case win_file_read len f sys of (ok, got, sys') \<Rightarrow>
    ok \<and> file_read len (win_view f sys) (ws_fs sys) = (Some got, win_view f sys') \<and> ws_fs sys' = ws_fs sys
    \<and> handle_of f sys' \<noteq> None \<and> wh_read (the (handle_of f sys'))"
proof -
  obtain k where k: "f = Some k" "map_of (ws_handles sys) k = Some h" using assms(1) by (auto simp: handle_of_def split: option.splits)
  have "unat (word_of_nat len :: u32) = len" using assms(3) by (simp add: unat_of_nat take_bit_nat_eq_self)
  then show ?thesis using k assms(2)
    by (simp add: win_file_read_def read_file_def win_view_def handle_of_def file_read_def move_to_def set_handle_def
        update_conv' Let_def)
qed

lemma win_tell_view: "win_file_tell f sys = file_tell (win_view f sys)"
  by (simp add: win_file_tell_def win_view_def file_tell_def set_file_pointer_def Let_def split: option.split)

lemma win_size_view: "win_file_size f sys = file_size (win_view f sys) (ws_fs sys)"
  by (simp add: win_file_size_def win_view_def file_size_def split: option.split)

text \<open>A write of \<open>2\<^sup>3\<^sup>2\<close> bytes or more writes what the low half of the length says and fails.\<close>

lemma win_write_long: "2 ^ 32 \<le> length data \<Longrightarrow> \<not> fst (win_file_write data f sys)"
proof -
  assume "2 ^ 32 \<le> length data"
  moreover have "unat (word_of_nat (length data) :: u32) < 2 ^ 32" using unsigned_less [of "word_of_nat (length data) :: u32"] by simp
  ultimately show ?thesis by (auto simp: win_file_write_def write_file_def Let_def split: option.splits if_splits)
qed

text \<open>No open file is deleted, one open for reading neither.\<close>

lemma win_remove_in_use:
  assumes "map_of (fs_tree (ws_fs sys)) (win_path s) = Some (FileNode i)" "handles_on i sys \<noteq> []" "s \<noteq> []"
  shows "win_remove s sys = (False, sys)"
  using assms by (auto simp: win_remove_def file_attributes_def delete_file_a_def remove_directory_a_def fs_rmdir_def
      win_path_def Let_def split: option.split)

end
