(* ===== verification/Windows_Log.thy ===== *)
theory Windows_Log
  imports Os_Windows
begin

text \<open>
  The write-ahead log on Windows: \<^verbatim>\<open>WalWriter\<close> and \<^verbatim>\<open>WalReader\<close> (\<^verbatim>\<open>storage/wal.cpp\<close>) over the
  handles of \<^verbatim>\<open>Os_Windows\<close>, and the part of \<^verbatim>\<open>StorageEngine::Init\<close> that opens and replays the
  log. The writer opens the log without sharing, which the reader then meets.
\<close>

section \<open>The writer\<close>

record win_wal =
  wl_path :: string
  wl_file :: win_file
  wl_size :: nat
  wl_opened :: bool

definition win_wal_new :: "string \<Rightarrow> win_wal" where
  "win_wal_new path = \<lparr>wl_path = path, wl_file = None, wl_size = 0, wl_opened = False\<rparr>"

definition win_wal_open :: "win_wal \<Rightarrow> win_sys \<Rightarrow> bool \<times> win_wal \<times> win_sys" where
  "win_wal_open w sys =
     (case win_file_open (wl_path w) APPEND (wl_file w) sys of
        (False, f, sys) \<Rightarrow> (False, w\<lparr>wl_file := f\<rparr>, sys)
      | (True, f, sys) \<Rightarrow> (True, w\<lparr>wl_file := f, wl_size := nat (win_file_size f sys), wl_opened := True\<rparr>, sys))"

definition win_wal_write_raw :: "byte list \<Rightarrow> win_wal \<Rightarrow> win_sys \<Rightarrow> bool \<times> win_wal \<times> win_sys" where
  "win_wal_write_raw data w sys =
     (if \<not> wl_opened w then (False, w, sys)
      else case win_file_write data (wl_file w) sys of
        (ok, sys) \<Rightarrow> if \<not> ok then (False, w, sys) else (True, w\<lparr>wl_size := wl_size w + length data\<rparr>, sys))"

definition win_wal_append_write :: "padding \<Rightarrow> string \<Rightarrow> data_point \<Rightarrow> win_wal \<Rightarrow> win_sys
    \<Rightarrow> (cpp_error + bool) \<times> win_wal \<times> win_sys" where
  "win_wal_append_write pad tag point w sys =
     (case dp_value point of
        VDouble v \<Rightarrow>
          let data = wal_payload tag (dp_ts point) v;
              header = wal_header pad (wal_crc32 data) DATA_POINT (word_of_nat (length data))
          in (case win_wal_write_raw header w sys of
                (ok, w, sys) \<Rightarrow>
                  if \<not> ok then (Inr False, w, sys)
                  else case win_wal_write_raw data w sys of
                    (ok, w, sys) \<Rightarrow> if \<not> ok then (Inr False, w, sys) else (Inr True, w, sys))
      | _ \<Rightarrow> (Inl Bad_Variant_Access, w, sys))"

definition win_wal_flush :: "win_wal \<Rightarrow> win_sys \<Rightarrow> bool" where
  "win_wal_flush w sys = (wl_opened w \<and> win_file_flush (wl_file w) sys)"

definition win_wal_close :: "win_wal \<Rightarrow> win_sys \<Rightarrow> win_wal \<times> win_sys" where
  "win_wal_close w sys =
     (if wl_opened w
      then (case win_file_close (wl_file w) sys of (f, sys) \<Rightarrow> (w\<lparr>wl_file := f, wl_opened := False\<rparr>, sys))
      else (w, sys))"

section \<open>The reader\<close>

text \<open>
  The loop over the entries is the one of \<^verbatim>\<open>Wal\<close>, on the view of the handle: \<open>win_read_view\<close>,
  \<open>win_tell_view\<close> and \<open>win_size_view\<close> say that its calls give the same there, all lengths
  being 32-bit numbers. The destructor of the file closes the handle.
\<close>

definition win_wal_read :: "string \<Rightarrow> win_sys \<Rightarrow> (cpp_error + wal_entry list option) \<times> win_sys" where
  "win_wal_read path sys =
     (case win_file_open path READ None sys of
        (False, _, sys) \<Rightarrow> (Inr None, sys)
      | (True, f, sys) \<Rightarrow>
          (map_sum id Some (wal_read_loop (win_file_size f sys) (win_view f sys) (ws_fs sys)),
           snd (win_file_close f sys)))"

definition win_wal_truncate :: "string \<Rightarrow> win_sys \<Rightarrow> bool \<times> win_sys" where
  "win_wal_truncate path sys = (True, snd (win_remove path sys))"

section \<open>Starting and flushing\<close>

definition win_eng_replay :: "win_sys flush_callback \<Rightarrow> storage_config \<Rightarrow> memtable \<times> win_sys
    \<Rightarrow> cpp_error + memtable \<times> win_sys" where
  "win_eng_replay cb cfg s =
     (case s of (m, sys) \<Rightarrow>
        if \<not> win_exists (wal_path cfg) sys then Inr s
        else (case win_wal_read (wal_path cfg) sys of
                (Inl e, _) \<Rightarrow> Inl e
              | (Inr None, sys) \<Rightarrow> Inr (m, sys)
              | (Inr (Some entries), sys) \<Rightarrow> Inr (fold (eng_replay_entry cb) entries (m, sys))))"

definition win_start_log :: "win_sys flush_callback \<Rightarrow> storage_config \<Rightarrow> memtable \<times> win_sys
    \<Rightarrow> cpp_error + win_wal \<times> memtable \<times> win_sys" where
  "win_start_log cb cfg s =
     (case s of (m, sys) \<Rightarrow>
        case win_wal_open (win_wal_new (wal_path cfg)) sys of
          (_, w, sys) \<Rightarrow> map_sum id (Pair w) (win_eng_replay cb cfg (m, sys)))"

definition win_eng_flush :: "win_sys flush_callback \<Rightarrow> win_wal option \<Rightarrow> memtable option \<times> win_sys \<Rightarrow> memtable option \<times> win_sys" where
  "win_eng_flush cb wal s =
     (case s of
        (None, sys) \<Rightarrow> (None, sys)
      | (Some m, sys) \<Rightarrow>
          (case mt_flush_all (Some cb) (m, sys) of
             (m, sys) \<Rightarrow> (Some m, case wal of None \<Rightarrow> sys | Some w \<Rightarrow> snd (win_wal_truncate (wl_path w) sys))))"

section \<open>What the writer's handle does to the reader\<close>

lemma wal_path_not_Nil [simp]: "wal_path cfg \<noteq> []"
  by (simp add: wal_path_def)

lemma win_wal_open_held:
  assumes "win_wal_open w sys = (ok, w', sys')" "wl_opened w'" "\<not> wl_opened w"
  shows "ok \<and> held (wl_path w) sys' \<and> wl_path w' = wl_path w
    \<and> (wl_file w = None \<longrightarrow> win_file_open (wl_path w) APPEND None sys = (True, wl_file w', sys'))"
  using assms win_open_held [of "wl_path w" APPEND "wl_file w" sys]
  by (auto simp: win_wal_open_def split: prod.splits bool.splits)

lemma win_eng_replay_held: "held (wal_path cfg) sys \<Longrightarrow> win_eng_replay cb cfg (m, sys) = Inr (m, sys)"
  by (simp add: win_eng_replay_def win_wal_read_def win_exists_of_held win_open_of_held)

lemma win_truncate_held: "held s sys \<Longrightarrow> s \<noteq> [] \<Longrightarrow> win_wal_truncate s sys = (True, sys)"
  by (simp add: win_wal_truncate_def win_remove_of_held)

text \<open>With no handle open the reader gets what it gets on POSIX.\<close>

lemma win_wal_read_idle:
  assumes "ws_handles sys = []" "CHR 0x5C \<notin> set path" "wal_read path (ws_fs sys) = Inr (Some es)"
  shows "fst (win_wal_read path sys) = Inr (Some es)"
proof -
  have p: "win_path path = split_path path" by (simp add: win_path_def slashes_plain [OF assms(2)])
  obtain i where i: "map_of (fs_tree (ws_fs sys)) (split_path path) = Some (FileNode i)"
    "wal_read_loop (int (length (ino_data (ws_fs sys) i))) (Some \<lparr>of_ino = i, of_pos = 0, of_mode = READ\<rparr>) (ws_fs sys) = Inr es"
    using assms(3) by (auto simp: wal_read_def file_open_def file_size_def Let_def split: option.splits node.splits if_splits sum.splits)
  then show ?thesis using assms(1)
    by (simp add: win_wal_read_def win_file_open_def win_file_is_open_def create_file_a_def p handles_on_idle add_handle_def
        set_handle_def win_view_def handle_of_def win_file_size_def win_open_args_def Let_def)
qed

section \<open>Properties\<close>

text \<open>
  C16. On Windows recovery does not happen. \<^verbatim>\<open>Init\<close> opens the log for appending, with no sharing, before
  it reads it: whatever the log holds, the reader cannot open it and nothing is replayed, while the
  log keeps its bytes. The file cannot be deleted either, so \<^verbatim>\<open>Flush\<close> leaves it whole although
  truncating reports success.
\<close>

theorem windows_log_never_replayed:
  assumes "win_start_log cb cfg (m, sys) = Inr (w, m', sys')" "wl_opened w" "fs_wf (ws_fs sys)"
  shows "m' = m \<and> fst (win_wal_read (wal_path cfg) sys') = Inr None
    \<and> win_wal_truncate (wal_path cfg) sys' = (True, sys')
    \<and> (\<forall>p d. file_at (ws_fs sys) p = Some d \<longrightarrow> file_at (ws_fs sys') p = Some d)"
proof -
  obtain ok sys1 where o: "win_wal_open (win_wal_new (wal_path cfg)) sys = (ok, w, sys1)"
    "win_eng_replay cb cfg (m, sys1) = Inr (m', sys')"
    using assms(1) by (cases "win_eng_replay cb cfg (m, snd (snd (win_wal_open (win_wal_new (wal_path cfg)) sys)))")
      (auto simp: win_start_log_def split: prod.splits)
  from win_wal_open_held [OF o(1) assms(2)] have
    h: "held (wal_path cfg) sys1" "win_file_open (wal_path cfg) APPEND None sys = (True, wl_file w, sys1)"
    by (simp_all add: win_wal_new_def)
  with o(2) win_eng_replay_held [OF h(1)] have e: "m' = m" "sys' = sys1" by auto
  have "file_at (ws_fs sys1) p = Some d" if "file_at (ws_fs sys) p = Some d" for p d
    using win_append_bytes [OF h(2) that assms(3)] .
  with e h(1) show ?thesis by (simp add: win_wal_read_def win_open_of_held win_truncate_held)
qed

text \<open>A log with one point, which the reader returns before the start and not after it.\<close>

definition demo_win :: win_sys where
  "demo_win = \<lparr>ws_fs = \<lparr>fs_tree = [([''h''], DirNode), ([''h'', ''wal''], DirNode), ([''h'', ''wal'', ''wal.log''], FileNode 0)],
       fs_inodes = (\<lambda>_. \<lparr>in_data = log_bytes ((1, 2, 3), Logged_Point ''a'' 5 6), in_mtime = 0\<rparr>), fs_next = 1, fs_clock = 0\<rparr>,
     ws_handles = [], ws_next = 0\<rparr>"

theorem windows_log_never_replayed_witness:
  "fst (win_wal_read (wal_path demo_config) demo_win) = Inr (Some [data_entry ''a'' 5 6])
   \<and> (\<exists>w sys'. win_start_log (\<lambda>_ _ s. s) demo_config (mt_new 10, demo_win) = Inr (w, mt_new 10, sys')
     \<and> fst (win_wal_read (wal_path demo_config) sys') = Inr None
     \<and> file_at (ws_fs sys') [''h'', ''wal'', ''wal.log''] = Some (log_bytes ((1, 2, 3), Logged_Point ''a'' 5 6)))"
proof -
  let ?log = "log_bytes ((1, 2, 3), Logged_Point ''a'' 5 6)"
  have path: "wal_path demo_config = ''h/wal/wal.log''" by (simp add: wal_path_def demo_config_def)
  have comps: "split_path ''h/wal/wal.log'' = [''h'', ''wal'', ''wal.log'']" by code_simp
  have wp: "win_path ''h/wal/wal.log'' = [''h'', ''wal'', ''wal.log'']"
    using comps by (simp add: win_path_def slashes_def)
  have bytes: "file_bytes (ws_fs demo_win) ''h/wal/wal.log'' = Some ?log"
    by (simp add: file_bytes_def comps demo_win_def ino_data_def)
  have "wal_read ''h/wal/wal.log'' (ws_fs demo_win) = Inr (Some [data_entry ''a'' 5 6])"
    using wal_scan_records [of "[((1, 2, 3), Logged_Point ''a'' 5 6)]" "[]"] bytes
    by (simp add: wal_read_scan wal_scan_Nil)
  from win_wal_read_idle [OF _ _ this] have before: "fst (win_wal_read (wal_path demo_config) demo_win) = Inr (Some [data_entry ''a'' 5 6])"
    by (simp add: path) (simp add: demo_win_def)
  obtain ok w sys1 where o: "win_wal_open (win_wal_new (wal_path demo_config)) demo_win = (ok, w, sys1)" by (metis prod_cases3)
  have w: "wl_opened w"
    using o by (auto simp: win_wal_open_def win_wal_new_def path win_file_open_def win_file_is_open_def create_file_a_def wp
        handles_on_idle add_handle_def demo_win_def Let_def split: prod.splits)
  have "held (wal_path demo_config) sys1" using win_wal_open_held [OF o w] by (simp add: win_wal_new_def)
  from win_eng_replay_held [OF this] o
  have start: "win_start_log (\<lambda>_ _ s. s) demo_config (mt_new 10, demo_win) = Inr (w, mt_new 10, sys1)" by (simp add: win_start_log_def)
  have "fs_wf (ws_fs demo_win)" by (auto simp: fs_wf_def demo_win_def split: if_splits)
  from windows_log_never_replayed [OF start w this] before start bytes show ?thesis
    by (auto simp: file_at_bytes comps)
qed

end
