(* ===== verification/Spec2Isabelle.thy ===== *)
theory Spec2Isabelle
  imports Startup Cli_Facts Read_Compaction Wal_Threads Windows_Log
begin

text \<open>
  \<^bold>\<open>MiniTSDB: a time-series database in C++.\<close>

  \<^bold>\<open>The program.\<close> Points (a time in microseconds and a value) are written under a tag. The storage engine
  logs a point, buffers it in the memtable, remembers it as the latest of its tag, evaluates the alarm
  rules and updates the snapshot; a full buffer is compressed and flushed to a table file below the hot
  path. Reads merge the cached latest point with the table files. Background passes merge small files,
  move old files to the cold path and archive or delete what has expired there. A gRPC service takes SQL
  texts and points, checks the permission of the session, parses the text and executes the statement
  on these components.

  \<^bold>\<open>Theories and sources\<close> (all sources below \<^verbatim>\<open>src/src\<close>).

  \<^item> \<open>TSDB_Prelude\<close>: \<^verbatim>\<open>common/types.h\<close>; bytes and words in little-endian order, characters, lists without
    repetition, splitting; the collections of facts that the components share.
  \<^item> \<open>Bitstream\<close>, \<open>Stream_Codec\<close>, \<open>Timestamp_Codec\<close>, \<open>Value_Codec\<close>, \<open>Block_Compressor\<close>:
    \<^verbatim>\<open>storage/compressor.{h,cpp}\<close>. The locales \<open>bit_sink\<close> and \<open>bit_source\<close> are the interface of the bit
    buffers, \<open>stream_codec\<close> proves the round trip of an encoder and a decoder that agree step by step;
    both codecs interpret it.
  \<^item> \<open>Checksum\<close>: the two CRC-32 routines of \<^verbatim>\<open>storage/wal.cpp\<close> and \<^verbatim>\<open>storage/sstable.cpp\<close>, with the locales
    \<open>streaming_digest\<close> (used again for SHA-256) and \<open>byte_checksum\<close>.
  \<^item> \<open>Os_File\<close>, \<open>Durable\<close>: \<^verbatim>\<open>common/os/file.{h,cpp}\<close> and \<^verbatim>\<open>common/os/fs.{h,cpp}\<close> over a file system of paths,
    inodes and handles (so that an unlinked file lives on in its handle), and the locale \<open>durable\<close> of
    what is saved and loaded. \<open>Os_Fs\<close> has the recursion of \<^verbatim>\<open>RemoveAll\<close>, equal to the closed form that the
    components use, and the shape of the tree as an invariant of all operations on names. \<open>Os_Windows\<close> is
    the other branch of both files, with a table of open handles that enforces sharing; it agrees with the
    POSIX branch where no file is in use. All components below run on the POSIX branch, apart from
    \<open>Windows_Log\<close>: the log, its replay and its truncation on the handles of Windows.
  \<^item> \<open>Wal\<close>, \<open>Sstable\<close>, \<open>Memtable\<close>: \<^verbatim>\<open>storage/wal\<close>, \<^verbatim>\<open>storage/sstable\<close>, \<^verbatim>\<open>storage/memtable\<close>; the flush callback of
    the memtable is a parameter with a state of its own, and \<open>write_buffer\<close> is its contract.
    \<open>Wal_Threads\<close>: the log under several writers, as step relations.
  \<^item> \<open>Float64\<close>, \<open>Float_Arith\<close>, \<open>Number_Text\<close>, \<open>Number_Read\<close>, \<open>Text_Util\<close>, \<open>Civil_Time\<close>: the parts of the standard
    library that the code uses: IEEE doubles as bit patterns with exact comparison, conversion and
    arithmetic, \<^verbatim>\<open>stod\<close>, \<^verbatim>\<open>stoi\<close>, \<^verbatim>\<open>to_string\<close>, \<^verbatim>\<open>find\<close>, \<^verbatim>\<open>getline\<close>, \<^verbatim>\<open>get_time\<close>, \<^verbatim>\<open>gmtime\<close>.
  \<^item> \<open>Pattern\<close>, \<open>Latest_Cache\<close>, \<open>Snapshot_Store\<close>, \<open>Alarm_Engine\<close>: \<^verbatim>\<open>cache/\<close>, \<^verbatim>\<open>snapshot/\<close>, \<^verbatim>\<open>alarm/\<close>. \<open>Pattern\<close> has the two
    pattern matchers and SQL's LIKE as their specification, \<open>latest_store\<close> the contract of a cache of
    latest values; the saving thread of the snapshot store is a step relation.
  \<^item> \<open>Sha256\<close>, \<open>Auth\<close>: \<^verbatim>\<open>auth/auth_manager.{h,cpp}\<close>: the hash, users, sessions, permissions and the users file.
  \<^item> \<open>Engine\<close>, \<open>Aggregate\<close>: \<^verbatim>\<open>storage/engine.{h,cpp}\<close>: start and recovery, writing, raw and aggregated reading,
    flushing, closing, dropping.
  \<^item> \<open>Restart\<close>, \<open>Read_Compaction\<close>: the engine across a shutdown and the next start; reads of the engine
    before, after and during a pass of the compactor.
  \<^item> \<open>Compaction\<close>, \<open>Tier_Manager\<close>: \<^verbatim>\<open>storage/compaction\<close>, \<^verbatim>\<open>storage/tier_manager\<close>; \<open>Config\<close>: \<^verbatim>\<open>common/config\<close>.
  \<^item> \<open>Sql_Ast\<close>, \<open>Sql_Scan\<close>, \<open>Sql_Parser\<close>, \<open>Sql_Facts\<close>: \<^verbatim>\<open>sql/ast.h\<close> and \<^verbatim>\<open>sql/parser.{h,cpp}\<close>, function by function.
  \<^item> \<open>Executor\<close>, \<open>Exec_Facts\<close>: \<^verbatim>\<open>sql/executor.{h,cpp}\<close>; \<open>Grpc_Server\<close>, \<open>Server_Facts\<close>:
    \<^verbatim>\<open>server/grpc_server.{h,cpp}\<close>.
  \<^item> \<open>File_Tree\<close>, \<open>Log_Sink\<close>, \<open>Startup\<close>: what moving and removing does to the files at paths; the sink of
    \<^verbatim>\<open>common/logger.{h,cpp}\<close> with the list of archives as its specification; \<^verbatim>\<open>main.cpp\<close>, which reads the
    configuration, starts the components and stops them.
  \<^item> \<open>Sdk\<close>, \<open>Cli\<close>, \<open>Cli_Facts\<close>: \<^verbatim>\<open>sdk/minitsdb_sdk.cpp\<close> and \<^verbatim>\<open>cli/main.cpp\<close> over a stub, a record of the
    calls; \<open>served\<close> is the stub that reaches the handlers of the service.

  \<^bold>\<open>State.\<close> A class is a record of its members; an operation takes the record (and the file system, where
  it touches files) and returns it updated with the result. A pointer that may be null is an option. An
  exception that leaves a function is the left side of a sum, a parse error a message. Fixed-width
  integers are words; \<open>sint\<close> reads a time. Clocks, random draws, uninitialised padding, \<^verbatim>\<open>std::sort\<close> (any
  function that sorts by time), the protobuf coding of snapshots and \<^verbatim>\<open>mktime\<close> are arguments: \<open>env\<close> for the
  engine, \<open>exec_env\<close> for a statement, \<open>time_env\<close> for the parser.

  \<^bold>\<open>What is proved.\<close>
  \<^item> Storage formats: compression, the log and the table files give back what was put in, under the
    bounds that the properties state; truncated and corrupted files are recognised; where a format
    loses something (strings in table files, points behind a late one) that is a theorem too.
  \<^item> The engine: recovery after any sequence of writes and crashes restores the buffer; a flush cuts the
    log off; raw reads are sorted, in range and free of repetition; an aggregated read is the grouping
    of the raw read; after a clean shutdown the next start finds in files what was buffered. Records
    that several threads append are recovered if a record is written as a whole, and not otherwise.
    On Windows the start never replays the log, which the writer has opened without sharing.
  \<^item> The caches and the alarm engine: newest values by table, suppression of repeated events, the
    meaning of conditions; the saved snapshot converges to the map in every interleaving.
  \<^item> Authentication: SHA-256 is the standard's, logins, sessions, administration and the users file.
  \<^item> Background passes: compaction and moving lose no point and no byte, apart from the stated cases;
    reads find after a compaction what they found before, but not while it runs.
  \<^item> SQL: statements that are written out are read back; every result is rectangular; what INSERT
    stores, what SELECT can show, what DELETE and DROP DATABASE remove.
  \<^item> The service: a viewer changes nothing; an operator can become an administrator; the configured
    password of the administrator has no effect; what a client inserts is what its snapshot shows.
  \<^item> Around it: the log loses no byte and removes no archive; which statements of a script are run.

  \<^bold>\<open>Bounds and fuel.\<close> Recursions end by a measure on the unread input, except the loop over the actions of
  CREATE ALARM, which may not end and is a partial function into an option: \<open>None\<close> says that the call
  does not return, and the theorems about it prove both that it returns and that it does not. The only
  fuel is that of \<open>remove_tree\<close> and its Windows form; the depth of the tree is proved to be enough. The codecs are correct while delta-of-deltas fit 32 bits; sizes in files are
  taken modulo the width of their field, with the hypothesis of the theorem that they fit.

  \<^bold>\<open>Not modelled.\<close> Concurrency in general: operations are atomic. The saving thread of the snapshots, a compaction
  within a read and concurrent appends to the log are modelled as steps. Data races on members of classes
  without a mutex are undefined behaviour and outside the model. Also left out: on Windows everything
  above the operating-system layer and the log; failures of reads and writes of an
  open file; symbolic links and the component \<^verbatim>\<open>..\<close> in paths, which the file system here takes as a plain
  name; the messages that the components log (the sink that stores
  messages is modelled). The transport of the service, generated code and \<^verbatim>\<open>zlib\<close> are libraries.
\<close>

end
